(* ===== verification/Rolp_Prelude.thy ===== *)
theory Rolp_Prelude
  imports Main "HOL-Library.Word"
begin

unbundle bit_operations_syntax

text \<open>
  Shared vocabulary of the development.  The C++ integer types of the LP64 build as words,
  the failures of the virtual machine as values of a result type, sequencing of fallible
  steps, and the generic list lemmas the component theories use.

  An \<^verbatim>\<open>assert\<close> of the source that does not hold is the value \<open>Inl (Assert_Failed _)\<close>:
  the debug virtual machine stops there, and the lemmas of the form ``returns \<open>Inr\<close>''
  say that the assertion cannot fire.  Dereferencing \<^verbatim>\<open>NULL\<close> is
  \<open>Inl (Null_Deref _)\<close>.  A loop with fuel that has not ended is \<open>Inl (Diverged _)\<close>.
\<close>

section \<open>Machine integers\<close>

type_synonym uint = "32 word"
type_synonym jint = "32 word"
type_synonym ngen_t = "64 word"
type_synonym size_t = "64 word"
type_synonym uintptr_t = "64 word"

section \<open>Results\<close>

datatype vm_error =
    Assert_Failed string
  | Null_Deref string
  | Out_Of_Memory string
  | Guarantee_Failed string
  | Buffer_Overflow string
  | Div_By_Zero string
  | Diverged string
  | Undefined string

type_synonym 'a res = "vm_error + 'a"

definition rbind :: "'a res \<Rightarrow> ('a \<Rightarrow> 'b res) \<Rightarrow> 'b res" where
  "rbind r f = (case r of Inl e \<Rightarrow> Inl e | Inr x \<Rightarrow> f x)"

definition vassert :: "bool \<Rightarrow> string \<Rightarrow> 'a res \<Rightarrow> 'a res" where
  "vassert b msg k = (if b then k else Inl (Assert_Failed msg))"

definition deref :: "'a option \<Rightarrow> string \<Rightarrow> 'a res" where
  "deref p msg = (case p of None \<Rightarrow> Inl (Null_Deref msg) | Some x \<Rightarrow> Inr x)"

fun rfold :: "('a \<Rightarrow> 's \<Rightarrow> 's res) \<Rightarrow> 'a list \<Rightarrow> 's \<Rightarrow> 's res" where
  "rfold f [] s = Inr s"
| "rfold f (x # xs) s = rbind (f x s) (rfold f xs)"

named_theorems res_simps \<open>facts that evaluate or invert results\<close>

lemma rbind_simps [simp]:
  "rbind (Inl e) f = Inl e"
  "rbind (Inr x) f = f x"
  by (simp_all add: rbind_def)

lemma rbind_eq_Inr [res_simps]:
  "rbind r f = Inr y \<longleftrightarrow> (\<exists>x. r = Inr x \<and> f x = Inr y)"
  by (cases r) auto

lemma rbind_eq_Inl [res_simps]:
  "rbind r f = Inl e \<longleftrightarrow> r = Inl e \<or> (\<exists>x. r = Inr x \<and> f x = Inl e)"
  by (cases r) auto

lemma vassert_simps [simp]:
  "vassert True msg k = k"
  "vassert False msg k = Inl (Assert_Failed msg)"
  by (simp_all add: vassert_def)

lemma vassert_eq_Inr [res_simps]: "vassert b msg k = Inr y \<longleftrightarrow> b \<and> k = Inr y"
  by (cases b) auto

lemma deref_simps [simp]:
  "deref None msg = Inl (Null_Deref msg)"
  "deref (Some x) msg = Inr x"
  by (simp_all add: deref_def)

lemma deref_eq_Inr [res_simps]: "deref p msg = Inr y \<longleftrightarrow> p = Some y"
  by (cases p) auto

lemma rbind_cong [fundef_cong]:
  "r = r' \<Longrightarrow> (\<And>x. r' = Inr x \<Longrightarrow> f x = g x) \<Longrightarrow> rbind r f = rbind r' g"
  by (cases r') auto

text \<open>
  The two loop rules: what every successful step keeps holds at the end (partial), and a
  loop each step of which succeeds under the invariant succeeds (total).
\<close>

lemma rfold_partial:
  assumes "rfold f xs s = Inr s'" and "P s"
    and "\<And>x t t'. x \<in> set xs \<Longrightarrow> P t \<Longrightarrow> f x t = Inr t' \<Longrightarrow> P t'"
  shows "P s'"
  using assms
proof (induction xs arbitrary: s)
  case Nil
  then show ?case by simp
next
  case (Cons x xs)
  from Cons.prems(1) obtain t where t: "f x s = Inr t" "rfold f xs t = Inr s'"
    by (auto simp: res_simps)
  have "P t" using Cons.prems(2,3) t(1) by (metis list.set_intros(1))
  show ?case
    by (rule Cons.IH [OF t(2) \<open>P t\<close>]) (metis Cons.prems(3) list.set_intros(2))
qed

lemma rfold_total:
  assumes "P s" and "\<And>x t. x \<in> set xs \<Longrightarrow> P t \<Longrightarrow> \<exists>t'. f x t = Inr t' \<and> P t'"
  shows "\<exists>s'. rfold f xs s = Inr s' \<and> P s'"
  using assms
proof (induction xs arbitrary: s)
  case Nil
  then show ?case by simp
next
  case (Cons x xs)
  obtain t where t: "f x s = Inr t" "P t"
    using Cons.prems(1) Cons.prems(2) [of x s] by auto
  have "\<exists>s'. rfold f xs t = Inr s' \<and> P s'"
    by (rule Cons.IH [OF t(2)]) (simp add: Cons.prems(2))
  with t(1) show ?case by simp
qed

lemma rfold_append: "rfold f (xs @ ys) s = rbind (rfold f xs s) (rfold f ys)"
  by (induction xs arbitrary: s) (auto simp: rbind_def split: sum.splits)

section \<open>Words\<close>

lemma unat_less_iff: "unat (a :: 'a::len word) < unat b \<longleftrightarrow> a < b"
  by (simp add: word_less_nat_alt)

lemma unat_and_mask_less: "unat (w AND mask n :: 'a::len word) < 2 ^ n"
proof -
  have "unat (w AND mask n) = unat (take_bit n w)"
    by (simp add: take_bit_eq_mask)
  also have "\<dots> = take_bit n (unat w)"
    by (simp add: unsigned_take_bit_eq)
  also have "\<dots> < 2 ^ n"
    by (rule take_bit_nat_less_exp)
  finally show ?thesis .
qed

lemma unat_word_of_int:
  assumes "0 \<le> i" and "i < 2 ^ LENGTH('a)"
  shows "unat (word_of_int i :: 'a::len word) = nat i"
  using assms by (simp add: unat_eq_nat_uint uint_word_of_int_eq take_bit_int_eq_self)

section \<open>Lists\<close>

lemma sum_list_update_nat:
  "i < length xs \<Longrightarrow> sum_list (xs[i := v]) + xs ! i = sum_list xs + (v :: nat)"
  using elem_le_sum_list [of i xs] by (simp add: sum_list_update)

lemma concat_update_mset_len:
  "i < length xs \<Longrightarrow> length (concat (xs[i := x # xs ! i])) = Suc (length (concat xs))"
proof (induction xs arbitrary: i)
  case (Cons y ys)
  then show ?case by (cases i) auto
qed simp

lemma set_concat_update:
  "i < length xs \<Longrightarrow> set (concat (xs[i := x # xs ! i])) = insert x (set (concat xs))"
proof (induction xs arbitrary: i)
  case (Cons y ys)
  then show ?case by (cases i) auto
qed simp

end
