(* ===== verification/Hash_Table.thy ===== *)
theory Hash_Table
  imports Rolp_Prelude "HOL-Library.Multiset"
begin

text \<open>
  \<^verbatim>\<open>BasicHashtable\<close> and \<^verbatim>\<open>Hashtable\<close> (utilities/hashtable.hpp, hashtable.inline.hpp,
  hashtable.cpp), the open hash table every profiler table is built on, with the allocation
  of entries out of blocks and the free list.

  A bucket, a chain of entries linked by \<^verbatim>\<open>_next\<close>, is the list of its entries in chain
  order; the shared bit, bit 0 of \<^verbatim>\<open>_next\<close>, is a field of the entry, and \<^verbatim>\<open>set_next\<close>
  clears it.  Byte addresses are naturals; the address the C heap returns for a new block is
  an argument of the operation that asks for one.  A bucket array that was freed
  (\<^verbatim>\<open>_buckets == NULL\<close>) is the empty list.  The number of entries is unbounded where the
  source has an \<^verbatim>\<open>int\<close>; it would overflow only beyond \<open>2 ^ 31\<close> entries in memory.

  The locale \<open>keyed_table\<close> states what a client relies on: an insertion succeeds, keeps
  the invariant, and a lookup finds the last literal inserted under a hash.
\<close>

section \<open>State\<close>

record 'a ht_entry =
  ent_addr :: nat
  ent_hash :: uint
  ent_literal :: 'a
  ent_shared :: bool

record 'a hashtable =
  table_size :: nat
  buckets :: "'a ht_entry list list"
  free_list :: "'a ht_entry list"
  first_free_entry :: nat
  end_block :: nat
  entry_size :: nat
  number_of_entries :: int

definition HeapWordSize :: nat where
  "HeapWordSize = 8"

section \<open>Construction and access\<close>

definition ht_new :: "nat \<Rightarrow> nat \<Rightarrow> 'a hashtable" where
  "ht_new tsize esize =
     \<lparr>table_size = tsize, buckets = replicate tsize [], free_list = [], first_free_entry = 0,
      end_block = 0, entry_size = esize, number_of_entries = 0\<rparr>"

definition hash_to_index :: "'a hashtable \<Rightarrow> uint \<Rightarrow> nat" where
  "hash_to_index t full_hash = unat full_hash mod table_size t"

definition bucket :: "'a hashtable \<Rightarrow> nat \<Rightarrow> 'a ht_entry list" where
  "bucket t i = buckets t ! i"

definition set_next_unshared :: "'a ht_entry \<Rightarrow> 'a ht_entry" where
  "set_next_unshared e = e\<lparr>ent_shared := False\<rparr>"

definition add_entry :: "nat \<Rightarrow> 'a ht_entry \<Rightarrow> 'a hashtable \<Rightarrow> 'a hashtable" where
  "add_entry index e t =
     t\<lparr>buckets := (buckets t)[index := set_next_unshared e # bucket t index],
       number_of_entries := number_of_entries t + 1\<rparr>"

definition free_entry :: "'a ht_entry \<Rightarrow> 'a hashtable \<Rightarrow> 'a hashtable" where
  "free_entry e t =
     t\<lparr>free_list := set_next_unshared e # free_list t,
       number_of_entries := number_of_entries t - 1\<rparr>"

definition unlink_entry :: "'a ht_entry \<Rightarrow> 'a hashtable \<Rightarrow> 'a ht_entry \<times> 'a hashtable" where
  "unlink_entry e t = (set_next_unshared e, t\<lparr>number_of_entries := number_of_entries t - 1\<rparr>)"

text \<open>\<^verbatim>\<open>copy_freelist\<close>: the destination takes the source's free list and block.\<close>

definition copy_freelist :: "'a hashtable \<Rightarrow> 'a hashtable \<Rightarrow> 'a hashtable \<times> 'a hashtable" where
  "copy_freelist dst src =
     (dst\<lparr>free_list := free_list src, first_free_entry := first_free_entry src,
          end_block := end_block src\<rparr>,
      src\<lparr>free_list := [], first_free_entry := 0, end_block := 0\<rparr>)"

definition free_buckets :: "'a hashtable \<Rightarrow> 'a hashtable" where
  "free_buckets t = t\<lparr>buckets := []\<rparr>"

section \<open>Allocation of entries\<close>

text \<open>
  \<^verbatim>\<open>log2_intptr\<close>: the loop that doubles \<^verbatim>\<open>p\<close> while it is at most \<^verbatim>\<open>x\<close>; it
  returns \<open>-1\<close> for \<open>0\<close>, and \<^verbatim>\<open>p\<close> cannot wrap for the block lengths used here.
\<close>

function log2_loop :: "nat \<Rightarrow> nat \<Rightarrow> int \<Rightarrow> int" where
  "log2_loop p x i = (if p \<noteq> 0 \<and> p \<le> x then log2_loop (p * 2) x (i + 1) else i)"
  by pat_completeness auto
termination
  by (relation "measure (\<lambda>(p, x, i). x + 1 - p)") auto

declare log2_loop.simps [simp del]

definition log2_intptr :: "nat \<Rightarrow> int" where
  "log2_intptr x = log2_loop 1 x (-1)"

definition block_len :: "'a hashtable \<Rightarrow> nat" where
  "block_len t =
     (let block_size = min 512 (max (table_size t div 2) (nat (number_of_entries t)));
          len = entry_size t * block_size
      in 2 ^ nat (log2_intptr len))"

definition new_entry :: "nat \<Rightarrow> 'a hashtable \<Rightarrow> uint \<Rightarrow> 'a \<Rightarrow> ('a ht_entry \<times> 'a hashtable) res" where
  "new_entry blk t hashValue obj =
     (case free_list t of
        e # es \<Rightarrow>
          vassert (entry_size t mod HeapWordSize = 0) ''entry size''
            (Inr (e\<lparr>ent_hash := hashValue, ent_literal := obj\<rparr>, t\<lparr>free_list := es\<rparr>))
      | [] \<Rightarrow>
          (let fresh = first_free_entry t + entry_size t \<ge> end_block t;
               len = block_len t;
               t1 = (if fresh then t\<lparr>first_free_entry := blk, end_block := blk + len\<rparr> else t);
               e = \<lparr>ent_addr = first_free_entry t1, ent_hash = hashValue, ent_literal = obj,
                    ent_shared = False\<rparr>;
               t2 = t1\<lparr>first_free_entry := first_free_entry t1 + entry_size t1\<rparr>
           in vassert (fresh \<longrightarrow> len \<ge> entry_size t) ''block length''
                (vassert (entry_size t mod HeapWordSize = 0) ''entry size'' (Inr (e, t2)))))"

section \<open>Whole-table operations\<close>

definition reverse_basic :: "'a hashtable \<Rightarrow> 'a hashtable" where
  "reverse_basic t = t\<lparr>buckets := map (\<lambda>b. rev (map set_next_unshared b)) (buckets t)\<rparr>"

text \<open>
  \<^verbatim>\<open>Hashtable::reverse(boundary)\<close>: each bucket is reversed into a low and a high list,
  by whether its literal lies at or above the boundary, and the low list comes first.
\<close>

fun reverse_split ::
    "('a \<Rightarrow> bool) \<Rightarrow> 'a ht_entry list \<Rightarrow> 'a ht_entry list \<Rightarrow> 'a ht_entry list \<Rightarrow> 'a ht_entry list" where
  "reverse_split ge_bound [] high low = (if low \<noteq> [] then low @ high else high)"
| "reverse_split ge_bound (p # ps) high low =
     (if ge_bound (ent_literal p) then reverse_split ge_bound ps (set_next_unshared p # high) low
      else reverse_split ge_bound ps high (set_next_unshared p # low))"

definition reverse_boundary :: "('a \<Rightarrow> bool) \<Rightarrow> 'a hashtable \<Rightarrow> 'a hashtable" where
  "reverse_boundary ge_bound t = t\<lparr>buckets := map (\<lambda>b. reverse_split ge_bound b [] []) (buckets t)\<rparr>"

text \<open>
  \<^verbatim>\<open>move_to\<close>: the entries are re-hashed by \<open>new_hash\<close> (the literal's
  \<^verbatim>\<open>new_hash(seed())\<close>) into the new table; the loop runs over the new table's size and
  reads this table's buckets.
\<close>

definition move_entry ::
    "('a \<Rightarrow> uint) \<Rightarrow> 'a ht_entry \<Rightarrow> 'a hashtable \<times> 'a hashtable \<Rightarrow> 'a hashtable \<times> 'a hashtable" where
  "move_entry new_hash p st =
     (case st of (this, new_table) \<Rightarrow>
        let hashValue = new_hash (ent_literal p);
            index = hash_to_index new_table hashValue;
            p1 = p\<lparr>ent_hash := hashValue\<rparr>;
            keep_shared = ent_shared p;
            (p2, this') = unlink_entry p1 this;
            new1 = add_entry index p2 new_table;
            new2 = (if keep_shared
                    then new1\<lparr>buckets := (buckets new1)[index := (hd (bucket new1 index))\<lparr>ent_shared := True\<rparr>
                                                           # tl (bucket new1 index)]\<rparr>
                    else new1)
        in (this', new2))"

definition move_to :: "uint \<Rightarrow> ('a \<Rightarrow> uint) \<Rightarrow> 'a hashtable \<Rightarrow> 'a hashtable \<Rightarrow>
    ('a hashtable \<times> 'a hashtable) res" where
  "move_to seed new_hash this new_table =
     vassert (seed \<noteq> 0) ''shouldn't be zero''
       (vassert (table_size new_table \<le> length (buckets this)) ''bucket array bound''
         (let saved_entry_count = number_of_entries this;
              (this1, new1) = fold (move_entry new_hash)
                (concat (map (bucket this) [0..<table_size new_table])) (this, new_table);
              (new2, this2) = copy_freelist new1 this1
          in vassert (number_of_entries new2 = saved_entry_count) ''lost entry on dictionary copy?''
               (Inr (free_buckets this2, new2))))"

definition verify_count :: "'a hashtable \<Rightarrow> unit res" where
  "verify_count t =
     vassert (int (length (concat (map (bucket t) [0..<table_size t]))) = number_of_entries t)
       ''number of hashtable entries incorrect'' (Inr ())"

section \<open>The chain walk of the clients\<close>

text \<open>
  \<^verbatim>\<open>while (entry->next() != NULL && entry->hash() != hash) entry = entry->next();\<close>
  followed by the test of the last entry's hash, as every lookup of the profiler does it.
\<close>

fun chain_walk :: "uint \<Rightarrow> 'a ht_entry \<Rightarrow> 'a ht_entry list \<Rightarrow> 'a ht_entry" where
  "chain_walk h e [] = e"
| "chain_walk h e (e' # es) = (if ent_hash e \<noteq> h then chain_walk h e' es else e)"

definition chain_find :: "uint \<Rightarrow> 'a ht_entry list \<Rightarrow> 'a option" where
  "chain_find h b =
     (case b of [] \<Rightarrow> None
      | e # es \<Rightarrow> (let r = chain_walk h e es in if ent_hash r = h then Some (ent_literal r) else None))"

definition ht_lookup :: "'a hashtable \<Rightarrow> uint \<Rightarrow> 'a option" where
  "ht_lookup t h = chain_find h (bucket t (hash_to_index t h))"

definition ht_insert :: "nat \<Rightarrow> uint \<Rightarrow> 'a \<Rightarrow> 'a hashtable \<Rightarrow> 'a hashtable res" where
  "ht_insert blk h v t =
     rbind (new_entry blk t h v) (\<lambda>(e, t'). Inr (add_entry (hash_to_index t' h) e t'))"

section \<open>Invariant\<close>

definition ht_hashed :: "'a hashtable \<Rightarrow> bool" where
  "ht_hashed t \<longleftrightarrow>
     (\<forall>i < table_size t. list_all (\<lambda>e. hash_to_index t (ent_hash e) = i) (buckets t ! i))"

definition ht_inv :: "'a hashtable \<Rightarrow> bool" where
  "ht_inv t \<longleftrightarrow> 4 \<le> table_size t \<and> length (buckets t) = table_size t
     \<and> 0 < entry_size t \<and> entry_size t mod HeapWordSize = 0
     \<and> number_of_entries t = int (length (concat (buckets t))) \<and> ht_hashed t"

definition ht_entries :: "'a hashtable \<Rightarrow> 'a ht_entry list" where
  "ht_entries t = concat (buckets t)"


section \<open>The interface of a keyed table\<close>

locale keyed_table =
  fixes lookup :: "'t \<Rightarrow> uint \<Rightarrow> 'a option"
    and insert :: "nat \<Rightarrow> uint \<Rightarrow> 'a \<Rightarrow> 't \<Rightarrow> 't res"
    and inv :: "'t \<Rightarrow> bool"
  assumes insert_ok: "inv t \<Longrightarrow> \<exists>t'. insert blk h v t = Inr t' \<and> inv t' \<and> lookup t' = (lookup t)(h \<mapsto> v)"
begin

lemma insert_inv: "inv t \<Longrightarrow> insert blk h v t = Inr t' \<Longrightarrow> inv t'"
  using insert_ok [of t blk h v] by auto

lemma insert_lookup: "inv t \<Longrightarrow> insert blk h v t = Inr t' \<Longrightarrow> lookup t' = (lookup t)(h \<mapsto> v)"
  using insert_ok [of t blk h v] by auto

text \<open>Find-or-insert, the pattern of every client: the key is found afterwards, under the
  literal returned, and no other key changes.\<close>

lemma find_or_insert:
  assumes "inv t"
    and "(case lookup t h of Some x \<Rightarrow> Inr (x, t) | None \<Rightarrow> rbind (insert blk h v t) (\<lambda>t'. Inr (v, t')))
      = Inr (r, t')"
  shows "inv t'" and "lookup t' h = Some r" and "h' \<noteq> h \<Longrightarrow> lookup t' h' = lookup t h'"
    and "lookup t h = Some x \<Longrightarrow> r = x \<and> t' = t"
  using assms insert_ok [OF assms(1), of blk h v]
  by (auto simp: res_simps split: option.splits)

lemma find_or_insert_total:
  assumes "inv t"
  shows "\<exists>r t'. (case lookup t h of Some x \<Rightarrow> Inr (x, t)
      | None \<Rightarrow> rbind (insert blk h v t) (\<lambda>t'. Inr (v, t'))) = Inr (r, t')"
  using insert_ok [OF assms, of blk h v] by (auto split: option.splits)

end

section \<open>Lemmas\<close>

lemma chain_walk_hit: "ent_hash e = h \<Longrightarrow> chain_walk h e es = e"
  by (cases es) auto

lemma chain_walk_find:
  "(if ent_hash (chain_walk h e es) = h then Some (ent_literal (chain_walk h e es)) else None)
     = map_option ent_literal (find (\<lambda>e. ent_hash e = h) (e # es))"
  by (induction h e es rule: chain_walk.induct) (auto simp: chain_walk_hit)

lemma chain_find_eq: "chain_find h b = map_option ent_literal (find (\<lambda>e. ent_hash e = h) b)"
proof (cases b)
  case (Cons e es)
  then show ?thesis
    using chain_walk_find [of h e es] by (simp only: chain_find_def Let_def list.case)
qed (simp add: chain_find_def)

lemma chain_find_Nil [simp]: "chain_find h [] = None"
  by (simp add: chain_find_def)

lemma chain_find_Cons [simp]:
  "chain_find h (e # es) = (if ent_hash e = h then Some (ent_literal e) else chain_find h es)"
  by (simp add: chain_find_eq)

lemma set_next_unshared_simps [simp]:
  "ent_hash (set_next_unshared e) = ent_hash e"
  "ent_literal (set_next_unshared e) = ent_literal e"
  "ent_addr (set_next_unshared e) = ent_addr e"
  "ent_shared (set_next_unshared e) = False"
  by (simp_all add: set_next_unshared_def)

lemma hash_to_index_less: "0 < table_size t \<Longrightarrow> hash_to_index t h < table_size t"
  by (simp add: hash_to_index_def)

lemma log2_loop_spec:
  assumes "p = 2 ^ nat (i + 1)" "-1 \<le> i" "i = -1 \<or> 2 ^ nat i \<le> x" "1 \<le> x"
  shows "0 \<le> log2_loop p x i \<and> 2 ^ nat (log2_loop p x i) \<le> x \<and> x < 2 * 2 ^ nat (log2_loop p x i)"
  using assms
proof (induction p x i rule: log2_loop.induct)
  case (1 p x i)
  show ?case
  proof (cases "p \<le> x")
    case True
    have step: "log2_loop p x i = log2_loop (p * 2) x (i + 1)"
      using True "1.prems" by (subst log2_loop.simps) simp
    have "nat (i + 2) = Suc (nat (i + 1))" using "1.prems"(2) by simp
    then show ?thesis
      unfolding step using "1.prems" True by (intro "1.IH") (auto simp: add.commute)
  next
    case False
    have stop: "log2_loop p x i = i" using False by (subst log2_loop.simps) simp
    have "0 \<le> i" using False "1.prems" by (cases "i = -1") auto
    moreover have "p = 2 * 2 ^ nat i"
      using "1.prems"(1) \<open>0 \<le> i\<close> by (simp add: nat_add_distrib)
    ultimately show ?thesis using stop False "1.prems" by auto
  qed
qed

lemma log2_intptr_bounds:
  assumes "1 \<le> x"
  shows "2 ^ nat (log2_intptr x) \<le> x" and "x < 2 * 2 ^ nat (log2_intptr x)" and "0 \<le> log2_intptr x"
  using log2_loop_spec [of 1 "-1" x] assms by (simp_all add: log2_intptr_def)

lemma block_len_ge:
  assumes "4 \<le> table_size t" and "0 < entry_size t"
  shows "entry_size t \<le> block_len t"
proof -
  let ?b = "min 512 (max (table_size t div 2) (nat (number_of_entries t)))"
  have "2 \<le> ?b" using assms(1) by auto
  then have "2 * entry_size t \<le> entry_size t * ?b" by (simp add: mult.commute)
  moreover have "entry_size t * ?b < 2 * block_len t"
    unfolding block_len_def Let_def using \<open>2 \<le> ?b\<close> assms(2) by (intro log2_intptr_bounds) simp
  ultimately show ?thesis by linarith
qed

lemma new_entry_total:
  assumes "ht_inv t"
  shows "\<exists>e t'. new_entry blk t h v = Inr (e, t') \<and> ent_hash e = h \<and> ent_literal e = v
    \<and> buckets t' = buckets t \<and> table_size t' = table_size t \<and> entry_size t' = entry_size t
    \<and> number_of_entries t' = number_of_entries t"
  using assms block_len_ge [of t]
  by (auto simp: new_entry_def ht_inv_def Let_def vassert_def split: list.splits)

lemma bucket_add_entry:
  "i < length (buckets t) \<Longrightarrow>
     buckets (add_entry index e t) ! i =
       (if i = index then set_next_unshared e # buckets t ! i else buckets t ! i)"
  by (simp add: add_entry_def bucket_def nth_list_update)

lemma ht_inv_add_entry:
  assumes "ht_inv t"
  shows "ht_inv (add_entry (hash_to_index t (ent_hash e)) e t)"
proof -
  let ?i = "hash_to_index t (ent_hash e)"
  have i: "?i < length (buckets t)"
    using assms hash_to_index_less [of t "ent_hash e"] by (auto simp: ht_inv_def)
  have "ht_hashed (add_entry ?i e t)"
    using assms
    by (auto simp: ht_inv_def ht_hashed_def bucket_add_entry hash_to_index_def add_entry_def
        bucket_def nth_list_update)
  then show ?thesis
    using assms i by (auto simp: ht_inv_def add_entry_def bucket_def concat_update_mset_len)
qed

lemma ht_lookup_add_entry:
  assumes "ht_inv t"
  shows "ht_lookup (add_entry (hash_to_index t (ent_hash e)) e t)
    = (ht_lookup t)(ent_hash e \<mapsto> ent_literal e)"
proof
  fix h
  have i: "hash_to_index t h < length (buckets t)"
    using assms hash_to_index_less [of t h] by (auto simp: ht_inv_def)
  have [simp]: "hash_to_index (add_entry j e t) h = hash_to_index t h" for j
    by (simp add: hash_to_index_def add_entry_def)
  show "ht_lookup (add_entry (hash_to_index t (ent_hash e)) e t) h
    = ((ht_lookup t)(ent_hash e \<mapsto> ent_literal e)) h"
    using i by (auto simp: ht_lookup_def bucket_def [of "add_entry _ _ _"] bucket_add_entry bucket_def [of t])
qed

lemma ht_insert_ok:
  assumes "ht_inv t"
  shows "\<exists>t'. ht_insert blk h v t = Inr t' \<and> ht_inv t' \<and> ht_lookup t' = (ht_lookup t)(h \<mapsto> v)"
proof -
  obtain e t1 where e: "new_entry blk t h v = Inr (e, t1)" "ent_hash e = h" "ent_literal e = v"
    and same: "buckets t1 = buckets t" "table_size t1 = table_size t" "entry_size t1 = entry_size t"
      "number_of_entries t1 = number_of_entries t"
    using new_entry_total [OF assms, of blk h v] by blast
  have idx: "hash_to_index t1 = hash_to_index t" "bucket t1 = bucket t"
    by (auto simp: fun_eq_iff hash_to_index_def bucket_def same)
  have "ht_inv t1"
    using assms same idx by (auto simp: ht_inv_def ht_hashed_def)
  moreover have "ht_lookup t1 = ht_lookup t"
    by (simp add: fun_eq_iff ht_lookup_def idx)
  ultimately show ?thesis
    using ht_inv_add_entry [of t1 e] ht_lookup_add_entry [of t1 e] e
    by (simp add: ht_insert_def)
qed

interpretation ht: keyed_table ht_lookup ht_insert ht_inv
  by unfold_locales (rule ht_insert_ok)

lemma ht_inv_new:
  assumes "4 \<le> tsize" "0 < esize" "esize mod HeapWordSize = 0"
  shows "ht_inv (ht_new tsize esize)"
  using assms by (auto simp: ht_inv_def ht_new_def ht_hashed_def)

lemma ht_lookup_new: "0 < tsize \<Longrightarrow> ht_lookup (ht_new tsize esize :: 'a hashtable) h = None"
  using hash_to_index_less [of "ht_new tsize esize :: 'a hashtable" h]
  by (simp add: ht_lookup_def bucket_def ht_new_def hash_to_index_def)


subsection \<open>Reversal\<close>

lemma reverse_split_eq:
  "reverse_split ge b high low =
     rev (map set_next_unshared (filter (\<lambda>e. \<not> ge (ent_literal e)) b)) @ low
       @ rev (map set_next_unshared (filter (\<lambda>e. ge (ent_literal e)) b)) @ high"
  by (induction ge b high low rule: reverse_split.induct) auto

lemma mset_reverse_split:
  "image_mset f (mset (reverse_split ge b [] [])) = image_mset (f \<circ> set_next_unshared) (mset b)"
  unfolding reverse_split_eq by (induction b) auto

lemma ht_inv_map_buckets:
  assumes "ht_inv t" and "\<And>b. mset (map ent_hash (f b)) = mset (map ent_hash b)"
  shows "ht_inv (t\<lparr>buckets := map f (buckets t)\<rparr>)"
proof -
  have len: "length (f b) = length b" for b
    using arg_cong [OF assms(2) [of b], of size] by simp
  have hs: "ent_hash ` set (f b) = ent_hash ` set b" for b
    using arg_cong [OF assms(2) [of b], of set_mset] by simp
  have all: "list_all (\<lambda>e. P (ent_hash e)) (f b) \<longleftrightarrow> list_all (\<lambda>e. P (ent_hash e)) b" for P b
  proof -
    have "list_all (\<lambda>e. P (ent_hash e)) c \<longleftrightarrow> (\<forall>h \<in> ent_hash ` set c. P h)" for c :: "'a ht_entry list"
      by (simp add: list_all_iff)
    then show ?thesis by (simp only: hs)
  qed
  have "length (concat (map f bs)) = length (concat bs)" for bs
    by (induction bs) (simp_all add: len)
  moreover have "ht_hashed (t\<lparr>buckets := map f (buckets t)\<rparr>)"
    using assms(1)
    by (simp add: ht_inv_def ht_hashed_def hash_to_index_def
        all [where P = "\<lambda>h. unat h mod table_size t = i" for i])
  ultimately show ?thesis
    using assms(1) by (simp add: ht_inv_def)
qed

lemma ht_inv_reverse:
  assumes "ht_inv t"
  shows "ht_inv (reverse_basic t)" and "ht_inv (reverse_boundary ge t)"
  unfolding reverse_basic_def reverse_boundary_def
  by (rule ht_inv_map_buckets [OF assms], simp add: image_mset.compositionality mset_reverse_split comp_def)+

subsection \<open>Moving to a new table\<close>

lemma move_entry_eq:
  assumes "hash_to_index new (nh (ent_literal p)) < length (buckets new)"
  shows "move_entry nh p (this, new) =
    (this\<lparr>number_of_entries := number_of_entries this - 1\<rparr>,
     new\<lparr>buckets := (buckets new)[hash_to_index new (nh (ent_literal p)) :=
            p\<lparr>ent_hash := nh (ent_literal p)\<rparr> # bucket new (hash_to_index new (nh (ent_literal p)))],
         number_of_entries := number_of_entries new + 1\<rparr>)"
  using assms
  by (cases p; cases new)
    (auto simp: move_entry_def Let_def unlink_entry_def add_entry_def bucket_def set_next_unshared_def)

lemma mset_concat_update_Cons:
  "i < length xs \<Longrightarrow> mset (concat (xs[i := x # xs ! i])) = add_mset x (mset (concat xs))"
proof (induction xs arbitrary: i)
  case (Cons y ys)
  then show ?case by (cases i) auto
qed simp

lemma move_entry_step:
  assumes "ht_inv new" and "move_entry nh p (this, new) = (this', new')"
  shows "ht_inv new'" and "table_size new' = table_size new"
    and "mset (ht_entries new') = add_mset (p\<lparr>ent_hash := nh (ent_literal p)\<rparr>) (mset (ht_entries new))"
    and "this' = this\<lparr>number_of_entries := number_of_entries this - 1\<rparr>"
proof -
  let ?i = "hash_to_index new (nh (ent_literal p))"
  have i: "?i < length (buckets new)"
    using assms(1) hash_to_index_less [of new] by (auto simp: ht_inv_def)
  note eq = assms(2) [unfolded move_entry_eq [where nh = nh and p = p, OF i]]
  show "this' = this\<lparr>number_of_entries := number_of_entries this - 1\<rparr>" "table_size new' = table_size new"
    using eq by auto
  show "mset (ht_entries new') = add_mset (p\<lparr>ent_hash := nh (ent_literal p)\<rparr>) (mset (ht_entries new))"
    using eq i by (auto simp: ht_entries_def bucket_def mset_concat_update_Cons)
  have "ht_hashed new'"
    using assms(1) eq
    by (auto simp: ht_inv_def ht_hashed_def hash_to_index_def bucket_def nth_list_update)
  then show "ht_inv new'"
    using assms(1) eq i by (auto simp: ht_inv_def bucket_def concat_update_mset_len)
qed

lemma fold_move_entry:
  assumes "ht_inv new" and "fold (move_entry nh) ps (this, new) = (this', new')"
  shows "ht_inv new' \<and> table_size new' = table_size new
    \<and> mset (ht_entries new') = mset (map (\<lambda>p. p\<lparr>ent_hash := nh (ent_literal p)\<rparr>) ps) + mset (ht_entries new)
    \<and> this' = this\<lparr>number_of_entries := number_of_entries this - int (length ps)\<rparr>"
  using assms
proof (induction ps arbitrary: this new)
  case (Cons p ps)
  obtain this1 new1 where m: "move_entry nh p (this, new) = (this1, new1)" by fastforce
  note step = move_entry_step [OF Cons.prems(1) m]
  from Cons.prems(2) m have "fold (move_entry nh) ps (this1, new1) = (this', new')" by simp
  from Cons.IH [OF step(1) this] step(2-4) show ?case by auto
qed simp

lemma concat_buckets_upto: "length (buckets t) = n \<Longrightarrow> concat (map (bucket t) [0..<n]) = ht_entries t"
  unfolding ht_entries_def bucket_def [abs_def] using map_nth [of "buckets t"] by simp

lemma verify_count_ok: "ht_inv t \<Longrightarrow> verify_count t = Inr ()"
  by (simp add: verify_count_def concat_buckets_upto ht_inv_def) (simp add: ht_entries_def)

lemma ht_insert_entries:
  assumes inv: "ht_inv t" and ins: "ht_insert blk h v t = Inr t'"
  shows "\<exists>e. ent_hash e = h \<and> ent_literal e = v \<and> mset (ht_entries t') = add_mset e (mset (ht_entries t))"
proof -
  obtain e t1 where e: "new_entry blk t h v = Inr (e, t1)" "ent_hash e = h" "ent_literal e = v"
      "buckets t1 = buckets t" "table_size t1 = table_size t"
    using new_entry_total [OF inv, of blk h v] by blast
  have i: "hash_to_index t1 h < length (buckets t)"
    using inv hash_to_index_less [of t h] e by (auto simp: ht_inv_def hash_to_index_def)
  have "t' = add_entry (hash_to_index t1 h) e t1" using ins e by (simp add: ht_insert_def)
  then have "mset (ht_entries t') = add_mset (set_next_unshared e) (mset (ht_entries t))"
    using mset_concat_update_Cons [OF i] e by (simp add: ht_entries_def add_entry_def bucket_def)
  then show ?thesis using e by (intro exI [of _ "set_next_unshared e"]) simp
qed

section \<open>Properties\<close>

text \<open>C26. Inserting never fails, keeps the invariant (every entry in the bucket of its hash, the
  entry count exact), and makes the table behave as the updated map.\<close>

theorem insert_updates_map:
  assumes "ht_inv t"
  shows "\<exists>t'. ht_insert blk h v t = Inr t' \<and> ht_inv t' \<and> ht_lookup t' = (ht_lookup t)(h \<mapsto> v)
    \<and> verify_count t' = Inr ()"
  using ht.insert_ok [OF assms, of blk h v] verify_count_ok by blast

theorem insert_updates_map_witness:
  "\<exists>t'. ht_insert 4096 5 ''x'' (ht_new 4 24) = Inr t' \<and> ht_inv t' \<and> ht_lookup t' 5 = Some ''x'' \<and> ht_lookup t' 9 = None"
  using insert_updates_map [OF ht_inv_new, of 4 24 4096 5 "''x''"]
  by (auto simp: HeapWordSize_def ht_lookup_new)

text \<open>\<^verbatim>\<open>new_entry\<close> carves entries out of blocks without overlap: with an empty free list
  the entry starts at the first free byte of the current block or at the start of a new one,
  ends inside that block, and the next entry starts where it ends.\<close>

theorem new_entry_carves:
  assumes "ht_inv t" and "free_list t = []"
  shows "\<exists>e t'. new_entry blk t h v = Inr (e, t')
    \<and> first_free_entry t' = ent_addr e + entry_size t \<and> ent_addr e + entry_size t \<le> end_block t'
    \<and> (ent_addr e = first_free_entry t \<and> end_block t' = end_block t \<or> ent_addr e = blk)"
  using assms block_len_ge [of t] by (auto simp: new_entry_def ht_inv_def Let_def vassert_def)

theorem new_entry_carves_witness:
  "\<exists>e t'. new_entry 4096 (ht_new 4 24 :: nat hashtable) 5 7 = Inr (e, t')
    \<and> first_free_entry t' = ent_addr e + 24 \<and> ent_addr e + 24 \<le> end_block t'"
  using new_entry_carves [OF ht_inv_new, of 4 24 4096 5 7]
  by (auto simp: HeapWordSize_def ht_new_def)

text \<open>C25. \<^verbatim>\<open>move_to\<close> re-hashes into an empty table of the same size: it does not fail, moves every
  entry under its new hash and no other, hands over the free list, and leaves the old table
  empty.\<close>

theorem move_to_rehashes:
  assumes "ht_inv this" "ht_inv new" "ht_entries new = []" "table_size new = table_size this" "seed \<noteq> 0"
  shows "\<exists>this' new'. move_to seed nh this new = Inr (this', new') \<and> ht_inv new'
    \<and> mset (ht_entries new') = mset (map (\<lambda>p. p\<lparr>ent_hash := nh (ent_literal p)\<rparr>) (ht_entries this))
    \<and> number_of_entries this' = 0 \<and> buckets this' = [] \<and> free_list new' = free_list this"
proof -
  have len: "length (buckets this) = table_size new"
    using assms(1,4) by (simp add: ht_inv_def)
  obtain this1 new1 where f: "fold (move_entry nh) (ht_entries this) (this, new) = (this1, new1)"
    by fastforce
  note r = fold_move_entry [OF assms(2) f]
  have ms: "mset (ht_entries new1) = mset (map (\<lambda>p. p\<lparr>ent_hash := nh (ent_literal p)\<rparr>) (ht_entries this))"
    using r assms(3) by simp
  have "length (ht_entries new1) = length (ht_entries this)"
    using arg_cong [OF ms, of size] by (simp only: size_mset length_map)
  then have cnt: "number_of_entries new1 = number_of_entries this"
    using r assms(1) by (simp add: ht_inv_def ht_entries_def)
  have "number_of_entries this1 = 0"
    using r assms(1) by (auto simp: ht_inv_def ht_entries_def)
  moreover have "ht_inv (new1\<lparr>free_list := l, first_free_entry := a, end_block := b\<rparr>)" for l a b
    using r [THEN conjunct1] by (simp add: ht_inv_def ht_hashed_def hash_to_index_def)
  moreover have "free_list this1 = free_list this" using r by simp
  ultimately show ?thesis
    using ms cnt assms(5) len
    by (simp add: move_to_def concat_buckets_upto [OF len] f copy_freelist_def free_buckets_def)
      (simp add: ht_entries_def)
qed

theorem move_to_rehashes_witness:
  "\<exists>this' new'. move_to 1 (\<lambda>_. 3) (ht_new 4 24 :: nat hashtable) (ht_new 4 24) = Inr (this', new') \<and> ht_inv new'"
  using move_to_rehashes [OF ht_inv_new ht_inv_new, of 4 24 4 24 1 "\<lambda>_. 3"]
  by (auto simp: HeapWordSize_def ht_entries_def ht_new_def)

text \<open>\<^verbatim>\<open>reverse(boundary)\<close> reverses each bucket stably around the boundary: the entries below
  it first, then the others, each group in reverse order, none lost.\<close>

theorem reverse_boundary_partitions:
  assumes "i < length (buckets t)"
  shows "bucket (reverse_boundary ge_bound t) i =
     rev (map set_next_unshared (filter (\<lambda>e. \<not> ge_bound (ent_literal e)) (bucket t i)))
       @ rev (map set_next_unshared (filter (\<lambda>e. ge_bound (ent_literal e)) (bucket t i)))"
  using assms by (simp add: reverse_boundary_def bucket_def reverse_split_eq)

theorem reverse_boundary_partitions_witness:
  "map ent_literal (bucket (reverse_boundary (\<lambda>v. 3 \<le> v) (ht_new 1 24\<lparr>buckets :=
       [map (\<lambda>v. \<lparr>ent_addr = 0, ent_hash = 0, ent_literal = v, ent_shared = False\<rparr>) [5, 1, 4, 2]]\<rparr>)) 0) = [2, 1, 4, 5 :: nat]"
  by (subst reverse_boundary_partitions) (simp_all add: ht_new_def bucket_def)

end
