(* ===== verification/Heap_Region.thy ===== *)
theory Heap_Region
  imports Hash_Table
begin

text \<open>
  The regions of the G1 heap (gc_implementation/g1/heapRegion.hpp, heapRegion.inline.hpp,
  heapRegion.cpp) with the bump allocation they inherit (memory/space.cpp), the generation
  and the count of active allocation buffers that NG2C adds, and the computation of the region
  size.  Addresses are word indices.  A region of the model keeps the list of blocks reported
  to the block offset table; the table itself is not modelled.
\<close>

section \<open>Region sizes\<close>

definition MIN_REGION_SIZE :: nat where "MIN_REGION_SIZE = 1024 * 1024"
definition MAX_REGION_SIZE :: nat where "MAX_REGION_SIZE = 32 * 1024 * 1024"
definition TARGET_REGION_NUMBER :: nat where "TARGET_REGION_NUMBER = 2048"
definition LogHeapWordSize :: nat where "LogHeapWordSize = 3"
definition card_shift :: nat where "card_shift = 9"

record grain =
  LogOfHRGrainBytes :: int
  LogOfHRGrainWords :: int
  GrainBytes :: nat
  GrainWords :: nat
  CardsPerRegion :: nat

definition max_region_size :: nat where
  "max_region_size = MAX_REGION_SIZE"

text \<open>\<^verbatim>\<open>log2_long\<close> has the loop of \<^verbatim>\<open>log2_intptr\<close>; region sizes are far from where it would wrap.\<close>

definition log2_long :: "nat \<Rightarrow> int" where
  "log2_long x = log2_loop 1 x (-1)"

definition vguarantee :: "bool \<Rightarrow> string \<Rightarrow> 'a res \<Rightarrow> 'a res" where
  "vguarantee b msg k = (if b then k else Inl (Guarantee_Failed msg))"

text \<open>\<open>flag\<close> is \<^verbatim>\<open>G1HeapRegionSize\<close> when it was set on the command line.  The sum of the heap
  sizes wraps around at 64 bits.  A flag of 0 has the logarithm -1, and shifting by it is
  undefined.\<close>

definition setup_heap_region_size :: "nat option \<Rightarrow> nat \<Rightarrow> nat \<Rightarrow> grain \<Rightarrow> grain res" where
  "setup_heap_region_size flag initial_heap_size max_heap_size g =
     (let region_size0 =
            (case flag of
               Some s \<Rightarrow> s
             | None \<Rightarrow> max ((initial_heap_size + max_heap_size) mod 2 ^ 64 div 2 div TARGET_REGION_NUMBER) MIN_REGION_SIZE);
          region_size1 = 2 ^ nat (log2_long region_size0);
          region_size =
            (if region_size1 < MIN_REGION_SIZE then MIN_REGION_SIZE
             else if MAX_REGION_SIZE < region_size1 then MAX_REGION_SIZE else region_size1);
          region_size_log = log2_long region_size;
          words = region_size div 2 ^ LogHeapWordSize
      in if region_size0 = 0 then Inl (Undefined ''shift by -1'')
         else vguarantee (LogOfHRGrainBytes g = 0) ''we should only set it once''
         (vguarantee (LogOfHRGrainWords g = 0) ''we should only set it once''
         (vguarantee (GrainBytes g = 0) ''we should only set it once''
         (vguarantee (GrainWords g = 0) ''we should only set it once''
         (vguarantee (2 ^ nat (region_size_log - int LogHeapWordSize) = words) ''sanity''
         (vguarantee (CardsPerRegion g = 0) ''we should only set it once''
           (Inr \<lparr>LogOfHRGrainBytes = region_size_log,
                 LogOfHRGrainWords = region_size_log - int LogHeapWordSize,
                 GrainBytes = region_size, GrainWords = words,
                 CardsPerRegion = region_size div 2 ^ card_shift\<rparr>)))))))"

definition align_up_to_region_byte_size :: "grain \<Rightarrow> nat \<Rightarrow> nat" where
  "align_up_to_region_byte_size g sz =
     (let x = sz + GrainBytes g - 1 in x - x mod 2 ^ nat (LogOfHRGrainBytes g))"

section \<open>Regions\<close>

datatype humongous_type = NotHumongous | StartsHumongous | ContinuesHumongous

datatype young_type = NotYoung | Young | Survivor

record heap_region =
  hr_index :: nat
  hr_bottom :: nat
  hr_end :: nat
  hr_top :: nat
  hr_orig_end :: nat
  hr_saved_mark :: nat
  hr_gc_time_stamp :: nat
  hr_pre_dummy_top :: "nat option"
  hr_humongous_type :: humongous_type
  hr_humongous_start :: "nat option"
  hr_in_cset :: bool
  hr_evacuation_failed :: bool
  hr_young_type :: young_type
  hr_young_index_in_cset :: int
  hr_surv_rate_group :: "nat option"
  hr_age_index :: int
  hr_gen :: int
  hr_epoch :: int
  hr_is_gen_alloc_region :: bool
  hr_active_tlabs :: int
  hr_prev_marked_bytes :: nat
  hr_next_marked_bytes :: nat
  hr_prev_top_at_mark_start :: nat
  hr_next_top_at_mark_start :: nat
  hr_claimed :: int
  hr_containing_set :: "nat option"
  hr_pending_removal :: bool
  hr_rem_set :: "nat set"
  hr_bot_blocks :: "(nat \<times> nat) list"

definition used :: "heap_region \<Rightarrow> nat" where
  "used r = (hr_top r - hr_bottom r) * HeapWordSize"

definition free :: "heap_region \<Rightarrow> nat" where
  "free r = (hr_end r - hr_top r) * HeapWordSize"

definition capacity :: "heap_region \<Rightarrow> nat" where
  "capacity r = (hr_end r - hr_bottom r) * HeapWordSize"

definition hr_is_empty :: "heap_region \<Rightarrow> bool" where
  "hr_is_empty r = (used r = 0)"

definition is_young :: "heap_region \<Rightarrow> bool" where
  "is_young r = (hr_young_type r \<noteq> NotYoung)"

definition is_survivor :: "heap_region \<Rightarrow> bool" where
  "is_survivor r = (hr_young_type r = Survivor)"

definition isHumongous :: "heap_region \<Rightarrow> bool" where
  "isHumongous r = (hr_humongous_type r \<noteq> NotHumongous)"

definition startsHumongous :: "heap_region \<Rightarrow> bool" where
  "startsHumongous r = (hr_humongous_type r = StartsHumongous)"

definition region_num :: "grain \<Rightarrow> heap_region \<Rightarrow> nat res" where
  "region_num g r =
     (if \<not> isHumongous r then Inr 1
      else vassert (startsHumongous r) ''doesn't make sense on HC regions''
             (vassert (capacity r mod GrainBytes g = 0) ''sanity''
               (Inr (capacity r div 2 ^ nat (LogOfHRGrainBytes g)))))"

definition last_hc_index :: "grain \<Rightarrow> heap_region \<Rightarrow> nat res" where
  "last_hc_index g r =
     vassert (startsHumongous r) ''don't call this otherwise''
       (rbind (region_num g r) (\<lambda>n. Inr (hr_index r + n)))"

subsection \<open>Bump allocation\<close>

definition space_allocate :: "nat \<Rightarrow> heap_region \<Rightarrow> nat option \<times> heap_region" where
  "space_allocate sz r =
     (let obj = hr_top r
      in if sz \<le> hr_end r - obj then (Some obj, r\<lparr>hr_top := obj + sz\<rparr>) else (None, r))"

text \<open>
  The lock-free loop: \<open>obj\<close> was read from \<^verbatim>\<open>top\<close>; \<open>others\<close> are what other threads do to
  \<^verbatim>\<open>top\<close> before each exchange.  The result is the block and the new top.
\<close>

fun par_allocate_loop :: "nat \<Rightarrow> nat \<Rightarrow> (nat \<Rightarrow> nat) list \<Rightarrow> nat \<Rightarrow> nat option \<times> nat" where
  "par_allocate_loop sz en [] obj = (if sz \<le> en - obj then (Some obj, obj + sz) else (None, obj))"
| "par_allocate_loop sz en (other # others) obj =
     (if sz \<le> en - obj
      then (let cur = other obj
            in if cur = obj then (Some obj, obj + sz) else par_allocate_loop sz en others cur)
      else (None, obj))"

definition space_par_allocate :: "(nat \<Rightarrow> nat) list \<Rightarrow> nat \<Rightarrow> heap_region \<Rightarrow> nat option \<times> heap_region" where
  "space_par_allocate others sz r =
     (let (res, top) = par_allocate_loop sz (hr_end r) others (hr_top r) in (res, r\<lparr>hr_top := top\<rparr>))"

definition alloc_block :: "nat \<Rightarrow> nat \<Rightarrow> heap_region \<Rightarrow> heap_region" where
  "alloc_block start words r = r\<lparr>hr_bot_blocks := (start, words) # hr_bot_blocks r\<rparr>"

definition hr_allocate :: "nat \<Rightarrow> heap_region \<Rightarrow> nat option \<times> heap_region" where
  "hr_allocate sz r =
     (case space_allocate sz r of
        (Some obj, r') \<Rightarrow> (Some obj, alloc_block obj sz r')
      | (None, r') \<Rightarrow> (None, r'))"

definition hr_par_allocate :: "(nat \<Rightarrow> nat) list \<Rightarrow> nat \<Rightarrow> heap_region \<Rightarrow> nat option \<times> heap_region" where
  "hr_par_allocate others sz r =
     (case space_par_allocate others sz r of
        (Some obj, r') \<Rightarrow> (Some obj, alloc_block obj sz r')
      | (None, r') \<Rightarrow> (None, r'))"

definition allocate_no_bot_updates :: "nat \<Rightarrow> heap_region \<Rightarrow> (nat option \<times> heap_region) res" where
  "allocate_no_bot_updates sz r =
     vassert (is_young r) ''we can only skip BOT updates on young regions'' (Inr (space_allocate sz r))"

definition par_allocate_no_bot_updates ::
    "(nat \<Rightarrow> nat) list \<Rightarrow> nat \<Rightarrow> heap_region \<Rightarrow> (nat option \<times> heap_region) res" where
  "par_allocate_no_bot_updates others sz r =
     vassert (is_young r) ''we can only skip BOT updates on young regions''
       (Inr (space_par_allocate others sz r))"

definition set_pre_dummy_top :: "nat \<Rightarrow> heap_region \<Rightarrow> heap_region res" where
  "set_pre_dummy_top p r =
     vassert (hr_bottom r \<le> p \<and> p < hr_top r \<and> p \<le> hr_top r) ''pre-condition''
       (Inr (r\<lparr>hr_pre_dummy_top := Some p\<rparr>))"

definition pre_dummy_top :: "heap_region \<Rightarrow> nat" where
  "pre_dummy_top r = (case hr_pre_dummy_top r of None \<Rightarrow> hr_top r | Some p \<Rightarrow> p)"

definition reset_pre_dummy_top :: "heap_region \<Rightarrow> heap_region" where
  "reset_pre_dummy_top r = r\<lparr>hr_pre_dummy_top := None\<rparr>"

subsection \<open>Save marks\<close>

definition saved_mark_word :: "nat \<Rightarrow> heap_region \<Rightarrow> nat res" where
  "saved_mark_word stamp r =
     vassert (hr_gc_time_stamp r \<le> stamp) ''invariant''
       (Inr (if hr_gc_time_stamp r < stamp then hr_top r else hr_saved_mark r))"

definition set_saved_mark :: "nat \<Rightarrow> heap_region \<Rightarrow> heap_region" where
  "set_saved_mark stamp r =
     (if hr_gc_time_stamp r < stamp then r\<lparr>hr_saved_mark := hr_top r, hr_gc_time_stamp := stamp\<rparr> else r)"

definition reset_gc_time_stamp :: "heap_region \<Rightarrow> heap_region" where
  "reset_gc_time_stamp r = r\<lparr>hr_gc_time_stamp := 0\<rparr>"

subsection \<open>Marking information\<close>

definition zero_marked_bytes :: "heap_region \<Rightarrow> heap_region" where
  "zero_marked_bytes r = r\<lparr>hr_prev_marked_bytes := 0, hr_next_marked_bytes := 0\<rparr>"

definition init_top_at_mark_start :: "heap_region \<Rightarrow> heap_region res" where
  "init_top_at_mark_start r =
     vassert (hr_prev_marked_bytes r = 0 \<and> hr_next_marked_bytes r = 0) ''Must be called after zero_marked_bytes.''
       (Inr (r\<lparr>hr_prev_top_at_mark_start := hr_bottom r, hr_next_top_at_mark_start := hr_bottom r\<rparr>))"

text \<open>A difference of pointers in bytes, as an unsigned 64-bit value.\<close>

definition ptr_bytes :: "nat \<Rightarrow> nat \<Rightarrow> nat" where
  "ptr_bytes a b = nat ((int a - int b) * int HeapWordSize mod 2 ^ 64)"

definition live_bytes :: "heap_region \<Rightarrow> nat" where
  "live_bytes r = (ptr_bytes (hr_top r) (hr_prev_top_at_mark_start r) + hr_prev_marked_bytes r) mod 2 ^ 64"

definition next_live_bytes :: "heap_region \<Rightarrow> nat" where
  "next_live_bytes r = (ptr_bytes (hr_top r) (hr_next_top_at_mark_start r) + hr_next_marked_bytes r) mod 2 ^ 64"

definition garbage_bytes :: "heap_region \<Rightarrow> nat res" where
  "garbage_bytes r =
     (let used_at_mark_start_bytes = ptr_bytes (hr_prev_top_at_mark_start r) (hr_bottom r)
      in vassert (hr_prev_marked_bytes r \<le> used_at_mark_start_bytes) ''Can't mark more than we have.''
           (Inr (used_at_mark_start_bytes - hr_prev_marked_bytes r)))"

definition reclaimable_bytes :: "heap_region \<Rightarrow> nat res" where
  "reclaimable_bytes r =
     vassert (live_bytes r \<le> capacity r) ''sanity'' (Inr (capacity r - live_bytes r))"

definition max_live_bytes :: "heap_region \<Rightarrow> nat res" where
  "max_live_bytes r = rbind (garbage_bytes r) (\<lambda>n. Inr (used r - n))"

definition add_to_marked_bytes :: "nat \<Rightarrow> heap_region \<Rightarrow> heap_region res" where
  "add_to_marked_bytes incr_bytes r =
     (let r' = r\<lparr>hr_next_marked_bytes := hr_next_marked_bytes r + incr_bytes\<rparr>
      in vassert (hr_next_marked_bytes r' \<le> used r') ''invariant'' (Inr r'))"

definition note_start_of_marking :: "heap_region \<Rightarrow> heap_region" where
  "note_start_of_marking r = r\<lparr>hr_next_marked_bytes := 0, hr_next_top_at_mark_start := hr_top r\<rparr>"

definition note_end_of_marking :: "heap_region \<Rightarrow> heap_region res" where
  "note_end_of_marking r =
     (let r' = r\<lparr>hr_prev_top_at_mark_start := hr_next_top_at_mark_start r,
                hr_prev_marked_bytes := hr_next_marked_bytes r, hr_next_marked_bytes := 0\<rparr>
      in vassert (hr_prev_marked_bytes r' \<le> (hr_prev_top_at_mark_start r' - hr_bottom r') * HeapWordSize)
           ''invariant'' (Inr r'))"

definition note_start_of_copying :: "bool \<Rightarrow> heap_region \<Rightarrow> heap_region res" where
  "note_start_of_copying during_initial_mark r =
     (if is_survivor r
      then vassert (hr_next_top_at_mark_start r = hr_bottom r) ''invariant'' (Inr r)
      else if during_initial_mark then Inr (r\<lparr>hr_next_top_at_mark_start := hr_end r\<rparr>)
      else vassert (hr_next_top_at_mark_start r \<le> hr_top r) ''invariant'' (Inr r))"

definition note_end_of_copying :: "bool \<Rightarrow> heap_region \<Rightarrow> heap_region res" where
  "note_end_of_copying during_initial_mark r =
     (if is_survivor r
      then vassert (hr_next_top_at_mark_start r = hr_bottom r) ''invariant'' (Inr r)
      else if during_initial_mark
      then vassert (hr_next_top_at_mark_start r = hr_end r) ''pre-condition''
             (Inr (r\<lparr>hr_next_top_at_mark_start := hr_top r\<rparr>))
      else vassert (hr_next_top_at_mark_start r \<le> hr_top r) ''invariant'' (Inr r))"

definition note_self_forwarding_removal_start :: "bool \<Rightarrow> bool \<Rightarrow> heap_region \<Rightarrow> heap_region" where
  "note_self_forwarding_removal_start during_initial_mark during_conc_mark r =
     (let r1 = r\<lparr>hr_prev_top_at_mark_start := hr_top r, hr_prev_marked_bytes := 0\<rparr>
      in if during_initial_mark
         then r1\<lparr>hr_next_top_at_mark_start := hr_top r1, hr_next_marked_bytes := 0\<rparr>
         else if during_conc_mark
         then r1\<lparr>hr_next_top_at_mark_start := hr_bottom r1, hr_next_marked_bytes := 0\<rparr>
         else r1)"

definition note_self_forwarding_removal_end :: "nat \<Rightarrow> heap_region \<Rightarrow> heap_region res" where
  "note_self_forwarding_removal_end marked_bytes r =
     vassert (marked_bytes \<le> used r) ''marked'' (Inr (r\<lparr>hr_prev_marked_bytes := marked_bytes\<rparr>))"

definition set_evacuation_failed :: "bool \<Rightarrow> heap_region \<Rightarrow> heap_region" where
  "set_evacuation_failed b r =
     (let r' = r\<lparr>hr_evacuation_failed := b\<rparr> in if b then r'\<lparr>hr_next_marked_bytes := 0\<rparr> else r')"

subsection \<open>Young regions\<close>

definition set_young_index_in_cset :: "int \<Rightarrow> heap_region \<Rightarrow> heap_region res" where
  "set_young_index_in_cset index r =
     vassert (index = -1 \<or> is_young r) ''pre-condition'' (Inr (r\<lparr>hr_young_index_in_cset := index\<rparr>))"

text \<open>\<open>next_age\<close> is the age index the survivor rate group hands out.\<close>

definition install_surv_rate_group :: "nat \<Rightarrow> int \<Rightarrow> heap_region \<Rightarrow> heap_region res" where
  "install_surv_rate_group grp next_age r =
     vassert (hr_surv_rate_group r = None) ''pre-condition''
       (vassert (is_young r) ''pre-condition''
         (Inr (r\<lparr>hr_surv_rate_group := Some grp, hr_age_index := next_age\<rparr>)))"

definition uninstall_surv_rate_group :: "heap_region \<Rightarrow> heap_region res" where
  "uninstall_surv_rate_group r =
     (if hr_surv_rate_group r \<noteq> None
      then vassert (-1 < hr_age_index r) ''pre-condition''
             (vassert (is_young r) ''pre-condition''
               (Inr (r\<lparr>hr_surv_rate_group := None, hr_age_index := -1\<rparr>)))
      else vassert (hr_age_index r = -1) ''pre-condition'' (Inr r))"

definition set_young_type :: "young_type \<Rightarrow> heap_region \<Rightarrow> heap_region" where
  "set_young_type t r = r\<lparr>hr_young_type := t\<rparr>"

subsection \<open>Clearing\<close>

text \<open>\<open>stamp\<close> is the current time stamp of the heap.\<close>

definition hr_clear :: "nat \<Rightarrow> bool \<Rightarrow> bool \<Rightarrow> heap_region \<Rightarrow> heap_region res" where
  "hr_clear stamp par clear_space r =
     vassert (hr_humongous_type r = NotHumongous) ''we should have already filtered out humongous regions''
    (vassert (hr_humongous_start r = None) ''we should have already filtered out humongous regions''
    (vassert (hr_end r = hr_orig_end r) ''we should have already filtered out humongous regions''
      (rbind (set_young_index_in_cset (-1) (r\<lparr>hr_in_cset := False\<rparr>)) (\<lambda>r1.
       rbind (uninstall_surv_rate_group r1) (\<lambda>r2.
         let r3 = reset_pre_dummy_top (set_young_type NotYoung r2);
             r4 = r3\<lparr>hr_epoch := -1, hr_gen := -1, hr_is_gen_alloc_region := False\<rparr>;
             r5 = (if \<not> par then r4\<lparr>hr_rem_set := {}, hr_claimed := 0\<rparr> else r4)
         in rbind (init_top_at_mark_start (zero_marked_bytes r5)) (\<lambda>r6.
              Inr (if clear_space
                   then (set_saved_mark stamp (r6\<lparr>hr_top := hr_bottom r6\<rparr>))\<lparr>hr_bot_blocks := []\<rparr>
                   else r6)))))))"

definition par_clear :: "grain \<Rightarrow> heap_region \<Rightarrow> heap_region res" where
  "par_clear g r =
     vassert (used r = 0) ''the region should have been already cleared''
       (vassert (capacity r = GrainBytes g) ''should be back to normal''
         (Inr (r\<lparr>hr_epoch := -1, hr_gen := -1, hr_is_gen_alloc_region := False, hr_rem_set := {}\<rparr>)))"

definition reset_after_compaction :: "nat \<Rightarrow> heap_region \<Rightarrow> heap_region res" where
  "reset_after_compaction compaction_top r =
     vassert (hr_bottom r \<le> compaction_top \<and> compaction_top \<le> hr_end r) ''should point inside space''
       (init_top_at_mark_start (zero_marked_bytes (r\<lparr>hr_top := compaction_top\<rparr>)))"

definition HeapRegion :: "nat \<Rightarrow> nat \<Rightarrow> nat \<Rightarrow> nat \<Rightarrow> heap_region res" where
  "HeapRegion stamp hrs_index start en =
     rbind (hr_clear stamp False False
        \<lparr>hr_index = hrs_index, hr_bottom = start, hr_end = en, hr_top = start, hr_orig_end = en,
         hr_saved_mark = 0, hr_gc_time_stamp = 0, hr_pre_dummy_top = None,
         hr_humongous_type = NotHumongous, hr_humongous_start = None, hr_in_cset = False,
         hr_evacuation_failed = False, hr_young_type = NotYoung, hr_young_index_in_cset = -1,
         hr_surv_rate_group = None, hr_age_index = -1, hr_gen = -1, hr_epoch = -1,
         hr_is_gen_alloc_region = False, hr_active_tlabs = 0, hr_prev_marked_bytes = 0,
         hr_next_marked_bytes = 0, hr_prev_top_at_mark_start = start, hr_next_top_at_mark_start = start,
         hr_claimed = 0, hr_containing_set = None, hr_pending_removal = False, hr_rem_set = {},
         hr_bot_blocks = []\<rparr>)
       (\<lambda>r. Inr (set_saved_mark stamp (r\<lparr>hr_top := hr_bottom r\<rparr>)))"

subsection \<open>Humongous regions\<close>

definition set_startsHumongous :: "nat \<Rightarrow> nat \<Rightarrow> heap_region \<Rightarrow> heap_region res" where
  "set_startsHumongous new_top new_end r =
     vassert (\<not> isHumongous r) ''sanity / pre-condition''
    (vassert (hr_end r = hr_orig_end r) ''Should be normal before the humongous object allocation''
    (vassert (hr_top r = hr_bottom r) ''should be empty''
    (vassert (hr_bottom r \<le> new_top \<and> new_top \<le> new_end) ''pre-condition''
      (Inr (r\<lparr>hr_humongous_type := StartsHumongous, hr_humongous_start := Some (hr_index r),
              hr_end := new_end, hr_bot_blocks := [(hr_bottom r, new_top - hr_bottom r)]\<rparr>)))))"

definition set_continuesHumongous :: "heap_region \<Rightarrow> heap_region \<Rightarrow> heap_region res" where
  "set_continuesHumongous first_hr r =
     vassert (\<not> isHumongous r) ''sanity / pre-condition''
    (vassert (hr_end r = hr_orig_end r) ''Should be normal before the humongous object allocation''
    (vassert (hr_top r = hr_bottom r) ''should be empty''
    (vassert (startsHumongous first_hr) ''pre-condition''
      (Inr (r\<lparr>hr_humongous_type := ContinuesHumongous, hr_humongous_start := Some (hr_index first_hr)\<rparr>)))))"

definition set_notHumongous :: "grain \<Rightarrow> heap_region \<Rightarrow> heap_region res" where
  "set_notHumongous g r =
     vassert (isHumongous r) ''pre-condition''
       (rbind
         (if startsHumongous r
          then vassert (hr_top r \<le> hr_end r) ''pre-condition''
                 (let r1 = r\<lparr>hr_end := hr_orig_end r\<rparr>
                  in Inr (if hr_end r1 < hr_top r1 then r1\<lparr>hr_top := hr_end r1\<rparr> else r1))
          else vassert (hr_end r = hr_orig_end r) ''sanity'' (Inr r))
         (\<lambda>r2. vassert (capacity r2 = GrainBytes g) ''pre-condition''
                 (Inr (r2\<lparr>hr_humongous_type := NotHumongous, hr_humongous_start := None\<rparr>))))"

subsection \<open>Claims, sets and generations\<close>

text \<open>\<open>meanwhile\<close> is the claim value found by the exchange.\<close>

definition claimHeapRegion :: "(int \<Rightarrow> int) \<Rightarrow> int \<Rightarrow> heap_region \<Rightarrow> bool \<times> heap_region" where
  "claimHeapRegion meanwhile claimValue r =
     (let current = hr_claimed r
      in if current \<noteq> claimValue
         then (let found = meanwhile current
               in if found = current then (True, r\<lparr>hr_claimed := claimValue\<rparr>)
                  else (False, r\<lparr>hr_claimed := found\<rparr>))
         else (False, r))"

definition set_containing_set :: "nat option \<Rightarrow> heap_region \<Rightarrow> heap_region res" where
  "set_containing_set s r =
     vassert (s = None \<and> hr_containing_set r \<noteq> None \<or> s \<noteq> None \<and> hr_containing_set r = None) ''containing_set''
       (Inr (r\<lparr>hr_containing_set := s\<rparr>))"

definition set_pending_removal :: "bool \<Rightarrow> heap_region \<Rightarrow> heap_region res" where
  "set_pending_removal b r =
     vassert (if b then \<not> hr_pending_removal r \<and> hr_containing_set r \<noteq> None
              else hr_pending_removal r \<and> hr_containing_set r = None)
       ''can only set pending removal'' (Inr (r\<lparr>hr_pending_removal := b\<rparr>))"

definition set_gen :: "int \<Rightarrow> heap_region \<Rightarrow> heap_region" where
  "set_gen n r = r\<lparr>hr_gen := n\<rparr>"

definition set_gen_alloc_region :: "bool \<Rightarrow> heap_region \<Rightarrow> heap_region" where
  "set_gen_alloc_region b r = r\<lparr>hr_is_gen_alloc_region := b\<rparr>"

definition set_epoch :: "int \<Rightarrow> heap_region \<Rightarrow> heap_region" where
  "set_epoch e r = r\<lparr>hr_epoch := e\<rparr>"

definition add_active_tlab :: "heap_region \<Rightarrow> heap_region" where
  "add_active_tlab r = r\<lparr>hr_active_tlabs := hr_active_tlabs r + 1\<rparr>"

text \<open>The sizes of the objects of a region, walked from the bottom to the end.\<close>

function bot_update_from :: "(nat \<Rightarrow> nat) \<Rightarrow> nat \<Rightarrow> heap_region \<Rightarrow> heap_region option" where
  "bot_update_from obj_size p r =
     (if p < hr_end r
      then if obj_size p = 0 then None else bot_update_from obj_size (p + obj_size p) (alloc_block p (obj_size p) r)
      else Some r)"
  by pat_completeness auto
termination
  by (relation "measure (\<lambda>(sz, p, r). hr_end r - p)") (auto simp: alloc_block_def)

declare bot_update_from.simps [simp del]

definition bot_update_all :: "(nat \<Rightarrow> nat) \<Rightarrow> heap_region \<Rightarrow> heap_region option" where
  "bot_update_all obj_size r = bot_update_from obj_size (hr_bottom r) r"

text \<open>
  \<^verbatim>\<open>next_block_start_careful\<close> searches by bisection over \<open>block_start\<close>, the
  \<^verbatim>\<open>block_start_careful\<close> of the offset table.  The result is the final pair of bounds, and
  \<open>None\<close> when the table answers with a block at or above the upper bound, from where the
  interval no longer shrinks.
\<close>

function block_search :: "(nat \<Rightarrow> nat) \<Rightarrow> nat \<Rightarrow> nat \<Rightarrow> nat \<Rightarrow> (nat \<times> nat) option" where
  "block_search block_start addr low high =
     (if low < high
      then (let middle = low + (high - low + 1) div 2
            in if middle = high then Some (high, high)
               else (let mid_bs = block_start middle
                     in if mid_bs < addr then block_search block_start addr middle high
                        else if mid_bs < high then block_search block_start addr low mid_bs
                        else None))
      else Some (low, high))"
  by pat_completeness auto
termination
  by (relation "measure (\<lambda>(bs, addr, low, high). high - low)") (simp_all, linarith+)

declare block_search.simps [simp del]

definition next_block_start_careful :: "(nat \<Rightarrow> nat) \<Rightarrow> nat \<Rightarrow> heap_region \<Rightarrow> nat option res" where
  "next_block_start_careful block_start addr r =
     (case block_search block_start addr addr (hr_end r) of
        None \<Rightarrow> Inr None
      | Some (low, high) \<Rightarrow> vassert (low = high \<and> addr \<le> low) ''Didn't work.'' (Inr (Some low)))"


section \<open>Lemmas\<close>

lemma log2_long_power: "log2_long (2 ^ k) = int k"
proof -
  define l where "l = log2_long (2 ^ k)"
  have l: "2 ^ nat l \<le> (2 :: nat) ^ k" "(2 :: nat) ^ k < 2 * 2 ^ nat l" "0 \<le> l"
    using log2_intptr_bounds [of "2 ^ k"] by (simp_all add: l_def log2_long_def log2_intptr_def)
  from l(1) have "nat l \<le> k" by simp
  moreover from l(2) have "(2 :: nat) ^ k < 2 ^ Suc (nat l)" by simp
  then have "k < Suc (nat l)" by (rule power_less_imp_less_exp [rotated]) simp
  ultimately show ?thesis using l(3) unfolding l_def [symmetric] by simp
qed

lemma region_size_exponent:
  assumes "r = (2 :: nat) ^ k"
  defines "s \<equiv> (if r < MIN_REGION_SIZE then MIN_REGION_SIZE else if MAX_REGION_SIZE < r then MAX_REGION_SIZE else r)"
  shows "\<exists>j. s = 2 ^ j \<and> 20 \<le> j \<and> j \<le> 25"
proof -
  have lim: "MIN_REGION_SIZE = 2 ^ 20" "MAX_REGION_SIZE = 2 ^ 25"
    by (simp_all add: MIN_REGION_SIZE_def MAX_REGION_SIZE_def)
  consider "r < MIN_REGION_SIZE" | "MAX_REGION_SIZE < r" "\<not> r < MIN_REGION_SIZE" | "\<not> r < MIN_REGION_SIZE" "\<not> MAX_REGION_SIZE < r"
    by blast
  then show ?thesis
  proof cases
    case 1
    then show ?thesis by (intro exI [of _ 20]) (simp add: s_def lim)
  next
    case 2
    then show ?thesis by (intro exI [of _ 25]) (simp add: s_def lim)
  next
    case 3
    then have "(2 :: nat) ^ 20 \<le> 2 ^ k" "(2 :: nat) ^ k \<le> 2 ^ 25" by (simp_all only: assms(1) lim not_less)
    then have "20 \<le> k" "k \<le> 25" by (auto dest!: power_le_imp_le_exp [rotated] simp del: power_numeral)
    then show ?thesis using 3 assms(1) by (intro exI [of _ k]) (simp add: s_def)
  qed
qed

definition grain_unset :: grain where
  "grain_unset = \<lparr>LogOfHRGrainBytes = 0, LogOfHRGrainWords = 0, GrainBytes = 0, GrainWords = 0, CardsPerRegion = 0\<rparr>"

definition grain_ok :: "grain \<Rightarrow> bool" where
  "grain_ok g = (\<exists>j. 20 \<le> j \<and> j \<le> 25 \<and> LogOfHRGrainBytes g = int j \<and> LogOfHRGrainWords g = int (j - 3) \<and>
     GrainBytes g = 2 ^ j \<and> GrainWords g = 2 ^ (j - 3) \<and> CardsPerRegion g = 2 ^ (j - 9))"

lemma grain_ok_words: "grain_ok g \<Longrightarrow> GrainBytes g = GrainWords g * HeapWordSize" "grain_ok g \<Longrightarrow> 0 < GrainWords g"
proof -
  assume "grain_ok g"
  then obtain j where j: "20 \<le> j" "GrainBytes g = 2 ^ j" "GrainWords g = 2 ^ (j - 3)" by (auto simp: grain_ok_def)
  have "j = (j - 3) + 3" using j(1) by simp
  then have "(2 :: nat) ^ j = 2 ^ (j - 3) * 2 ^ 3" by (metis power_add)
  then show "GrainBytes g = GrainWords g * HeapWordSize" "0 < GrainWords g" using j by (simp_all add: HeapWordSize_def)
qed

lemma par_allocate_linear:
  "\<exists>k \<le> length others. let t = fold (\<lambda>f. f) (take k others) tp
     in par_allocate_loop sz en others tp = (if sz \<le> en - t then (Some t, t + sz) else (None, t))"
proof (induction others arbitrary: tp)
  case Nil
  then show ?case by simp
next
  case (Cons other others)
  consider "\<not> sz \<le> en - tp" | "sz \<le> en - tp" "other tp = tp" | "sz \<le> en - tp" "other tp \<noteq> tp" by blast
  then show ?case
  proof cases
    case 1
    then show ?thesis by (intro exI [of _ 0]) simp
  next
    case 2
    then show ?thesis by (intro exI [of _ 0]) simp
  next
    case 3
    obtain k where "k \<le> length others" "let t = fold (\<lambda>f. f) (take k others) (other tp)
       in par_allocate_loop sz en others (other tp) = (if sz \<le> en - t then (Some t, t + sz) else (None, t))"
      using Cons [of "other tp"] by blast
    then show ?thesis using 3 by (intro exI [of _ "Suc k"]) (simp add: Let_def)
  qed
qed


section \<open>The invariant of a region\<close>

text \<open>
  The addresses of a region are ordered, only a region that starts a humongous object may end
  above its original end, the marked bytes fit below the mark start, and a survivor rate group
  is installed exactly on the young regions with an age.
\<close>

definition region_inv :: "grain \<Rightarrow> heap_region \<Rightarrow> bool" where
  "region_inv g r =
     (hr_bottom r \<le> hr_top r \<and> hr_top r \<le> hr_end r \<and> hr_orig_end r = hr_bottom r + GrainWords g \<and>
      (\<not> startsHumongous r \<longrightarrow> hr_end r = hr_orig_end r) \<and> hr_orig_end r \<le> hr_end r \<and>
      (isHumongous r \<longleftrightarrow> hr_humongous_start r \<noteq> None) \<and>
      hr_bottom r \<le> hr_prev_top_at_mark_start r \<and> hr_prev_top_at_mark_start r \<le> hr_end r \<and>
      hr_bottom r \<le> hr_next_top_at_mark_start r \<and> hr_next_top_at_mark_start r \<le> hr_end r \<and>
      hr_prev_marked_bytes r \<le> (hr_prev_top_at_mark_start r - hr_bottom r) * HeapWordSize \<and>
      (hr_surv_rate_group r = None \<longleftrightarrow> hr_age_index r = -1) \<and> -1 \<le> hr_age_index r \<and>
      (hr_age_index r \<noteq> -1 \<longrightarrow> is_young r))"

lemmas region_preds = is_young_def is_survivor_def isHumongous_def startsHumongous_def

text \<open>One step of the life of a region, through the operations above.\<close>

inductive region_step :: "grain \<Rightarrow> heap_region \<Rightarrow> heap_region \<Rightarrow> bool" for g where
  allocates: "hr_allocate sz r = (res, r') \<Longrightarrow> region_step g r r'"
| par_allocates: "\<lbrakk>\<forall>f \<in> set others. \<forall>t \<le> hr_end r. t \<le> f t \<and> f t \<le> hr_end r; hr_par_allocate others sz r = (res, r')\<rbrakk>
    \<Longrightarrow> region_step g r r'"
| starts_marking: "region_step g r (note_start_of_marking r)"
| ends_marking: "note_end_of_marking r = Inr r' \<Longrightarrow> region_step g r r'"
| starts_copying: "note_start_of_copying im r = Inr r' \<Longrightarrow> region_step g r r'"
| ends_copying: "note_end_of_copying im r = Inr r' \<Longrightarrow> region_step g r r'"
| marks: "add_to_marked_bytes n r = Inr r' \<Longrightarrow> region_step g r r'"
| becomes_young: "\<lbrakk>t \<noteq> NotYoung; hr_surv_rate_group r = None\<rbrakk> \<Longrightarrow> region_step g r (set_young_type t r)"
| installs: "\<lbrakk>0 \<le> next_age; install_surv_rate_group grp next_age r = Inr r'\<rbrakk> \<Longrightarrow> region_step g r r'"
| uninstalls: "uninstall_surv_rate_group r = Inr r' \<Longrightarrow> region_step g r r'"
| starts_humongous: "\<lbrakk>hr_orig_end r \<le> new_end; set_startsHumongous new_top new_end r = Inr r'\<rbrakk>
    \<Longrightarrow> region_step g r (r'\<lparr>hr_top := new_top\<rparr>)"
| continues_humongous: "\<lbrakk>set_continuesHumongous first r = Inr r'; hr_bottom r \<le> tp; tp \<le> hr_end r\<rbrakk>
    \<Longrightarrow> region_step g r (r'\<lparr>hr_top := tp\<rparr>)"
| clears: "hr_clear stamp par True r = Inr r' \<Longrightarrow> region_step g r r'"
| frees_humongous: "\<lbrakk>set_notHumongous g r = Inr r1; hr_clear stamp par True r1 = Inr r'\<rbrakk> \<Longrightarrow> region_step g r r'"
| changes_gen: "region_step g r (set_epoch e (set_gen_alloc_region b (set_gen n r)))"

inductive_cases region_stepE: "region_step g r r'"

lemma par_allocate_top:
  assumes "\<forall>f \<in> set others. \<forall>t \<le> en. t \<le> f t \<and> f t \<le> en" and "tp \<le> en"
  shows "tp \<le> snd (par_allocate_loop sz en others tp) \<and> snd (par_allocate_loop sz en others tp) \<le> en"
  using assms
proof (induction others arbitrary: tp)
  case Nil
  then show ?case by auto
next
  case (Cons f fs)
  have "tp \<le> f tp" "f tp \<le> en" using Cons(2,3) by simp_all
  moreover have "\<forall>f \<in> set fs. \<forall>t \<le> en. t \<le> f t \<and> f t \<le> en" using Cons(2) by simp
  ultimately show ?case using Cons(1) [of "f tp"] Cons(3) by (auto simp: Let_def)
qed


lemma hr_clear_result:
  assumes "hr_clear stamp par cs r = Inr r'"
  shows "hr_bottom r' = hr_bottom r \<and> hr_end r' = hr_end r \<and> hr_orig_end r' = hr_orig_end r \<and> hr_end r = hr_orig_end r \<and>
    hr_top r' = (if cs then hr_bottom r else hr_top r) \<and> hr_humongous_type r' = NotHumongous \<and>
    hr_humongous_start r' = None \<and> hr_young_type r' = NotYoung \<and> hr_surv_rate_group r' = None \<and> hr_age_index r' = -1 \<and>
    hr_prev_marked_bytes r' = 0 \<and> hr_next_marked_bytes r' = 0 \<and> hr_prev_top_at_mark_start r' = hr_bottom r \<and>
    hr_next_top_at_mark_start r' = hr_bottom r \<and> hr_gen r' = -1 \<and> hr_epoch r' = -1 \<and> \<not> hr_is_gen_alloc_region r' \<and>
    hr_active_tlabs r' = hr_active_tlabs r"
proof -
  define r0 where "r0 = r\<lparr>hr_in_cset := False, hr_young_index_in_cset := -1\<rparr>"
  have pre: "hr_humongous_type r = NotHumongous" "hr_humongous_start r = None" "hr_end r = hr_orig_end r"
    and rest: "rbind (uninstall_surv_rate_group r0) (\<lambda>r2.
         let r3 = reset_pre_dummy_top (set_young_type NotYoung r2);
             r4 = r3\<lparr>hr_epoch := -1, hr_gen := -1, hr_is_gen_alloc_region := False\<rparr>;
             r5 = (if \<not> par then r4\<lparr>hr_rem_set := {}, hr_claimed := 0\<rparr> else r4)
         in rbind (init_top_at_mark_start (zero_marked_bytes r5)) (\<lambda>r6.
              Inr (if cs
                   then (set_saved_mark stamp (r6\<lparr>hr_top := hr_bottom r6\<rparr>))\<lparr>hr_bot_blocks := []\<rparr>
                   else r6))) = Inr r'"
    using assms by (simp_all add: hr_clear_def set_young_index_in_cset_def r0_def res_simps)
  obtain r2 where r2: "uninstall_surv_rate_group r0 = Inr r2" using rest by (cases "uninstall_surv_rate_group r0") simp_all
  have r2': "r2 = r0\<lparr>hr_surv_rate_group := None, hr_age_index := -1\<rparr>"
    using r2 by (cases r0) (auto simp: uninstall_surv_rate_group_def res_simps split: if_splits)
  define r4 where "r4 = (reset_pre_dummy_top (set_young_type NotYoung r2))
      \<lparr>hr_epoch := -1, hr_gen := -1, hr_is_gen_alloc_region := False\<rparr>"
  define r5 where "r5 = zero_marked_bytes (if \<not> par then r4\<lparr>hr_rem_set := {}, hr_claimed := 0\<rparr> else r4)"
  define r6 where "r6 = r5\<lparr>hr_prev_top_at_mark_start := hr_bottom r5, hr_next_top_at_mark_start := hr_bottom r5\<rparr>"
  have "init_top_at_mark_start r5 = Inr r6"
    by (simp add: init_top_at_mark_start_def r6_def r5_def zero_marked_bytes_def)
  then have r': "r' = (if cs then (set_saved_mark stamp (r6\<lparr>hr_top := hr_bottom r6\<rparr>))\<lparr>hr_bot_blocks := []\<rparr> else r6)"
    using rest unfolding r2 rbind_simps Let_def r4_def [symmetric] r5_def [symmetric] by simp
  have r4: "hr_bottom r4 = hr_bottom r" "hr_end r4 = hr_end r" "hr_orig_end r4 = hr_orig_end r" "hr_top r4 = hr_top r"
      "hr_humongous_type r4 = hr_humongous_type r" "hr_humongous_start r4 = hr_humongous_start r"
      "hr_young_type r4 = NotYoung" "hr_surv_rate_group r4 = None" "hr_age_index r4 = -1" "hr_gen r4 = -1" "hr_epoch r4 = -1"
      "\<not> hr_is_gen_alloc_region r4" "hr_active_tlabs r4 = hr_active_tlabs r"
    by (simp_all add: r4_def r2' r0_def reset_pre_dummy_top_def set_young_type_def)
  have r5: "hr_bottom r5 = hr_bottom r" "hr_end r5 = hr_end r" "hr_orig_end r5 = hr_orig_end r" "hr_top r5 = hr_top r"
      "hr_humongous_type r5 = hr_humongous_type r" "hr_humongous_start r5 = hr_humongous_start r"
      "hr_young_type r5 = NotYoung" "hr_surv_rate_group r5 = None" "hr_age_index r5 = -1" "hr_gen r5 = -1" "hr_epoch r5 = -1"
      "\<not> hr_is_gen_alloc_region r5" "hr_active_tlabs r5 = hr_active_tlabs r" "hr_prev_marked_bytes r5 = 0" "hr_next_marked_bytes r5 = 0"
    by (simp_all add: r5_def r4 zero_marked_bytes_def)
  show ?thesis
    unfolding r' by (cases cs) (simp_all add: r6_def r5 pre set_saved_mark_def)
qed

lemma hr_clear_inv:
  assumes "hr_clear stamp par True r = Inr r'" and "hr_orig_end r = hr_bottom r + GrainWords g"
  shows "region_inv g r'"
  using hr_clear_result [OF assms(1)] assms(2) by (simp add: region_inv_def region_preds)

lemma inv_marks:
  assumes "region_inv g r" and "hr_bottom r \<le> p" "p \<le> hr_end r" "m \<le> (p - hr_bottom r) * HeapWordSize"
    and "hr_bottom r \<le> q" "q \<le> hr_end r"
  shows "region_inv g (r\<lparr>hr_prev_top_at_mark_start := p, hr_next_top_at_mark_start := q,
      hr_prev_marked_bytes := m, hr_next_marked_bytes := n\<rparr>)"
  using assms by (simp add: region_inv_def region_preds)


lemma inv_alloc:
  assumes "region_inv g r" and "hr_top r \<le> t" "t \<le> hr_end r"
  shows "region_inv g (r\<lparr>hr_top := t\<rparr>)" "region_inv g (r\<lparr>hr_top := t, hr_bot_blocks := bs\<rparr>)"
  using assms by (simp_all add: region_inv_def region_preds)

lemma alloc_inv:
  assumes "region_inv g r" and "hr_allocate sz r = (res, r')"
  shows "region_inv g r'"
proof (cases "sz \<le> hr_end r - hr_top r")
  case True
  then have r': "r' = r\<lparr>hr_top := hr_top r + sz, hr_bot_blocks := (hr_top r, sz) # hr_bot_blocks r\<rparr>"
    using assms(2) by (simp add: hr_allocate_def space_allocate_def alloc_block_def Let_def)
  have "hr_top r \<le> hr_end r" using assms(1) by (simp add: region_inv_def)
  then show ?thesis unfolding r' using True by (intro inv_alloc assms(1)) simp_all
next
  case False
  then show ?thesis using assms by (simp add: hr_allocate_def space_allocate_def)
qed

lemma par_alloc_inv:
  assumes "region_inv g r" and "\<forall>f \<in> set others. \<forall>t \<le> hr_end r. t \<le> f t \<and> f t \<le> hr_end r"
    and "hr_par_allocate others sz r = (res, r')"
  shows "region_inv g r'"
proof -
  obtain o' t where l: "par_allocate_loop sz (hr_end r) others (hr_top r) = (o', t)" by fastforce
  have "hr_top r \<le> t" "t \<le> hr_end r"
    using par_allocate_top [OF assms(2), of "hr_top r" sz] assms(1) l by (simp_all add: region_inv_def)
  then show ?thesis using assms(3) inv_alloc [OF assms(1)] l
    by (cases o') (auto simp: hr_par_allocate_def space_par_allocate_def alloc_block_def)
qed

lemma copying_inv:
  assumes "region_inv g r"
  shows "note_start_of_copying im r = Inr r' \<Longrightarrow> region_inv g r'" and "note_end_of_copying im r = Inr r' \<Longrightarrow> region_inv g r'"
proof -
  have b: "hr_bottom r \<le> hr_end r" using assms by (simp add: region_inv_def)
  then have up: "region_inv g (r\<lparr>hr_next_top_at_mark_start := hr_end r\<rparr>)" "region_inv g (r\<lparr>hr_next_top_at_mark_start := hr_top r\<rparr>)"
    using assms by (simp_all add: region_inv_def region_preds)
  show "note_start_of_copying im r = Inr r' \<Longrightarrow> region_inv g r'"
    using assms up(1) by (auto simp: note_start_of_copying_def res_simps split: if_splits)
  show "note_end_of_copying im r = Inr r' \<Longrightarrow> region_inv g r'"
    using assms up(2) by (auto simp: note_end_of_copying_def res_simps split: if_splits)
qed

lemma marking_inv:
  assumes "region_inv g r"
  shows "region_inv g (note_start_of_marking r)" and "note_end_of_marking r = Inr r' \<Longrightarrow> region_inv g r'"
    and "add_to_marked_bytes n r = Inr r' \<Longrightarrow> region_inv g r'"
proof -
  show "region_inv g (note_start_of_marking r)"
    using assms by (simp add: note_start_of_marking_def region_inv_def region_preds)
  show "region_inv g r'" if "note_end_of_marking r = Inr r'"
  proof -
    have r': "r' = r\<lparr>hr_prev_top_at_mark_start := hr_next_top_at_mark_start r,
        hr_prev_marked_bytes := hr_next_marked_bytes r, hr_next_marked_bytes := 0\<rparr>"
      and le: "hr_next_marked_bytes r \<le> (hr_next_top_at_mark_start r - hr_bottom r) * HeapWordSize"
      using that by (simp_all add: note_end_of_marking_def res_simps)
    show ?thesis unfolding r' using assms le by (simp add: region_inv_def region_preds)
  qed
  show "region_inv g r'" if "add_to_marked_bytes n r = Inr r'"
  proof -
    have r': "r' = r\<lparr>hr_next_marked_bytes := hr_next_marked_bytes r + n\<rparr>"
      using that by (simp add: add_to_marked_bytes_def Let_def res_simps)
    show ?thesis unfolding r' using assms by (simp add: region_inv_def region_preds)
  qed
qed


lemma young_inv:
  assumes "region_inv g r"
  shows "t \<noteq> NotYoung \<Longrightarrow> region_inv g (set_young_type t r)"
    and "0 \<le> a \<Longrightarrow> install_surv_rate_group grp a r = Inr r' \<Longrightarrow> region_inv g r'"
    and "uninstall_surv_rate_group r = Inr r' \<Longrightarrow> region_inv g r'"
proof -
  show "t \<noteq> NotYoung \<Longrightarrow> region_inv g (set_young_type t r)"
    using assms by (simp add: set_young_type_def region_inv_def region_preds)
  show "region_inv g r'" if a: "0 \<le> a" and "install_surv_rate_group grp a r = Inr r'"
  proof -
    have r': "r' = r\<lparr>hr_surv_rate_group := Some grp, hr_age_index := a\<rparr>" and y: "is_young r"
      using that(2) by (simp_all add: install_surv_rate_group_def res_simps)
    show ?thesis unfolding r' using assms a y by (simp add: region_inv_def region_preds)
  qed
  show "region_inv g r'" if "uninstall_surv_rate_group r = Inr r'"
  proof -
    have "r' = r \<or> r' = r\<lparr>hr_surv_rate_group := None, hr_age_index := -1\<rparr>"
      using that by (auto simp: uninstall_surv_rate_group_def res_simps split: if_splits)
    moreover have "region_inv g (r\<lparr>hr_surv_rate_group := None, hr_age_index := -1\<rparr>)"
      using assms by (simp add: region_inv_def region_preds)
    ultimately show ?thesis using assms by blast
  qed
qed

lemma humongous_inv:
  assumes "region_inv g r"
  shows "hr_orig_end r \<le> new_end \<Longrightarrow> set_startsHumongous new_top new_end r = Inr r' \<Longrightarrow> region_inv g (r'\<lparr>hr_top := new_top\<rparr>)"
    and "set_continuesHumongous first r = Inr r' \<Longrightarrow> hr_bottom r \<le> tp \<Longrightarrow> tp \<le> hr_end r \<Longrightarrow> region_inv g (r'\<lparr>hr_top := tp\<rparr>)"
proof -
  show "region_inv g (r'\<lparr>hr_top := new_top\<rparr>)"
    if oe: "hr_orig_end r \<le> new_end" and "set_startsHumongous new_top new_end r = Inr r'"
  proof -
    have r': "r' = r\<lparr>hr_humongous_type := StartsHumongous, hr_humongous_start := Some (hr_index r),
              hr_end := new_end, hr_bot_blocks := [(hr_bottom r, new_top - hr_bottom r)]\<rparr>"
      and le: "hr_bottom r \<le> new_top" "new_top \<le> new_end" and e: "hr_end r = hr_orig_end r"
      using that(2) by (simp_all add: set_startsHumongous_def res_simps)
    show ?thesis unfolding r' using assms le oe e by (simp add: region_inv_def region_preds)
  qed
  show "region_inv g (r'\<lparr>hr_top := tp\<rparr>)"
    if "set_continuesHumongous first r = Inr r'" and tp: "hr_bottom r \<le> tp" "tp \<le> hr_end r"
  proof -
    have r': "r' = r\<lparr>hr_humongous_type := ContinuesHumongous, hr_humongous_start := Some (hr_index first)\<rparr>"
      and e: "hr_end r = hr_orig_end r"
      using that(1) by (simp_all add: set_continuesHumongous_def res_simps)
    show ?thesis unfolding r' using assms tp e by (simp add: region_inv_def region_preds)
  qed
qed

lemma region_step_inv: "region_step g r r' \<Longrightarrow> region_inv g r \<Longrightarrow> region_inv g r'"
proof (induction rule: region_step.induct)
  case (clears stamp par r r')
  then show ?case by (intro hr_clear_inv) (auto simp: region_inv_def)
next
  case (frees_humongous r r1 stamp par r')
  have "hr_orig_end r1 = hr_orig_end r \<and> hr_bottom r1 = hr_bottom r"
    using frees_humongous(1) by (auto simp: set_notHumongous_def res_simps Let_def split: if_splits)
  then show ?case using frees_humongous(2,3) by (intro hr_clear_inv) (auto simp: region_inv_def)
next
  case (changes_gen r e b n)
  then show ?case by (simp add: set_epoch_def set_gen_alloc_region_def set_gen_def region_inv_def region_preds)
qed (erule alloc_inv par_alloc_inv copying_inv marking_inv young_inv humongous_inv; assumption)+

lemma new_region_inv:
  assumes "HeapRegion stamp i start (start + GrainWords g) = Inr r"
  shows "region_inv g r"
proof -
  obtain r0 where r0: "hr_clear stamp False False
        \<lparr>hr_index = i, hr_bottom = start, hr_end = start + GrainWords g, hr_top = start, hr_orig_end = start + GrainWords g,
         hr_saved_mark = 0, hr_gc_time_stamp = 0, hr_pre_dummy_top = None,
         hr_humongous_type = NotHumongous, hr_humongous_start = None, hr_in_cset = False,
         hr_evacuation_failed = False, hr_young_type = NotYoung, hr_young_index_in_cset = -1,
         hr_surv_rate_group = None, hr_age_index = -1, hr_gen = -1, hr_epoch = -1,
         hr_is_gen_alloc_region = False, hr_active_tlabs = 0, hr_prev_marked_bytes = 0,
         hr_next_marked_bytes = 0, hr_prev_top_at_mark_start = start, hr_next_top_at_mark_start = start,
         hr_claimed = 0, hr_containing_set = None, hr_pending_removal = False, hr_rem_set = {},
         hr_bot_blocks = []\<rparr> = Inr r0" and r: "r = set_saved_mark stamp (r0\<lparr>hr_top := hr_bottom r0\<rparr>)"
    using assms unfolding HeapRegion_def rbind_eq_Inr by auto
  from hr_clear_result [OF r0] show ?thesis
    unfolding r by (simp add: set_saved_mark_def region_inv_def region_preds)
qed


lemma ptr_bytes_le:
  assumes "b \<le> a" and "a * HeapWordSize < 2 ^ 64"
  shows "ptr_bytes a b = (a - b) * HeapWordSize"
proof -
  have e: "(int a - int b) * int HeapWordSize = int ((a - b) * HeapWordSize)" using assms(1) by (simp add: of_nat_diff)
  have "(a - b) * HeapWordSize < 2 ^ 64" using assms(2) by (rule le_less_trans [rotated]) simp
  then have "int ((a - b) * HeapWordSize) < 2 ^ 64" by (metis of_nat_less_iff of_nat_numeral of_nat_power)
  then show ?thesis unfolding ptr_bytes_def e by (simp only: mod_pos_pos_trivial of_nat_0_le_iff nat_int)
qed

text \<open>A competing request of \<open>s\<close> words: it advances the top when it fits.\<close>

definition compete :: "nat \<Rightarrow> nat \<Rightarrow> nat \<Rightarrow> nat" where
  "compete en s t = (if s \<le> en - t then t + s else t)"

lemma compete_mono: "tp \<le> en \<Longrightarrow> tp \<le> fold (compete en) ss tp \<and> fold (compete en) ss tp \<le> en"
proof (induction ss arbitrary: tp)
  case (Cons s ss)
  have "tp \<le> compete en s tp" "compete en s tp \<le> en" using Cons(2) by (auto simp: compete_def)
  then show ?case using Cons(1) [of "compete en s tp"] by (auto intro: le_trans)
qed simp

lemma fold_map_apply: "fold (\<lambda>f. f) (map h xs) t = fold h xs t"
  by (induction xs arbitrary: t) simp_all

text \<open>An empty region of 128 words, for examples.\<close>

definition sample_region :: heap_region where
  "sample_region =
       \<lparr>hr_index = 0, hr_bottom = 64, hr_end = 192, hr_top = 64, hr_orig_end = 192, hr_saved_mark = 0,
        hr_gc_time_stamp = 0, hr_pre_dummy_top = None, hr_humongous_type = NotHumongous, hr_humongous_start = None,
        hr_in_cset = False, hr_evacuation_failed = False, hr_young_type = NotYoung, hr_young_index_in_cset = -1,
        hr_surv_rate_group = None, hr_age_index = -1, hr_gen = -1, hr_epoch = -1, hr_is_gen_alloc_region = False,
        hr_active_tlabs = 0, hr_prev_marked_bytes = 0, hr_next_marked_bytes = 0, hr_prev_top_at_mark_start = 64,
        hr_next_top_at_mark_start = 64, hr_claimed = 0, hr_containing_set = None, hr_pending_removal = False,
        hr_rem_set = {}, hr_bot_blocks = []\<rparr>"

section \<open>Properties\<close>

text \<open>C39. The region size is set up once, without a failing guarantee, to a power of two between 1M
  and 32M bytes, and the derived sizes in words and cards and their logarithms agree with it,
  for every heap size and every nonzero size requested on the command line.\<close>

theorem region_size_bounds:
  assumes "flag \<noteq> Some 0"
  shows "\<exists>g. setup_heap_region_size flag initial_heap_size max_heap_size grain_unset = Inr g \<and> grain_ok g"
proof -
  define s0 where "s0 = (case flag of Some s \<Rightarrow> s
      | None \<Rightarrow> max ((initial_heap_size + max_heap_size) mod 2 ^ 64 div 2 div TARGET_REGION_NUMBER) MIN_REGION_SIZE)"
  have s0: "s0 \<noteq> 0" using assms by (auto simp: s0_def MIN_REGION_SIZE_def split: option.splits)
  define s where "s = (if 2 ^ nat (log2_long s0) < MIN_REGION_SIZE then MIN_REGION_SIZE
      else if MAX_REGION_SIZE < 2 ^ nat (log2_long s0) then MAX_REGION_SIZE else 2 ^ nat (log2_long s0))"
  obtain j where j: "s = 2 ^ j" "20 \<le> j" "j \<le> 25"
    using region_size_exponent [OF refl, of "nat (log2_long s0)"] unfolding s_def by blast
  have l: "log2_long s = int j" unfolding j(1) by (rule log2_long_power)
  have w: "s div 2 ^ LogHeapWordSize = 2 ^ (j - 3)" "s div 2 ^ card_shift = 2 ^ (j - 9)"
    using j power_diff [of "2 :: nat" 3 j] power_diff [of "2 :: nat" 9 j] by (simp_all add: LogHeapWordSize_def card_shift_def)
  have n: "nat (int j - int LogHeapWordSize) = j - 3" "int j - int LogHeapWordSize = int (j - 3)"
    using j(2) by (simp_all add: LogHeapWordSize_def of_nat_diff)
  have "setup_heap_region_size flag initial_heap_size max_heap_size grain_unset =
      Inr \<lparr>LogOfHRGrainBytes = int j, LogOfHRGrainWords = int (j - 3), GrainBytes = s, GrainWords = 2 ^ (j - 3),
           CardsPerRegion = 2 ^ (j - 9)\<rparr>"
    using s0 unfolding setup_heap_region_size_def Let_def s0_def [symmetric] s_def [symmetric]
    by (simp add: l w n grain_unset_def vguarantee_def)
  then show ?thesis using j by (auto simp: grain_ok_def)
qed

theorem region_size_bounds_witness:
  "\<exists>g. setup_heap_region_size (Some 3000000) 1 2 grain_unset = Inr g \<and> grain_ok g"
  using region_size_bounds [of "Some 3000000" 1 2] by simp

text \<open>C37. In every state a region reaches from its construction through allocation, marking,
  copying, ageing, humongous use, clearing and generation changes the region invariant holds,
  and the garbage estimate does not fail its assertion.\<close>

theorem region_reachable_inv:
  assumes "HeapRegion stamp i start (start + GrainWords g) = Inr r0" and "rtranclp (region_step g) r0 r"
    and "hr_end r * HeapWordSize < 2 ^ 64"
  shows "region_inv g r \<and>
    garbage_bytes r = Inr ((hr_prev_top_at_mark_start r - hr_bottom r) * HeapWordSize - hr_prev_marked_bytes r)"
proof -
  have inv: "region_inv g r"
    using assms(2) by (induction rule: rtranclp_induct) (use new_region_inv [OF assms(1)] region_step_inv in blast)+
  then have b: "hr_bottom r \<le> hr_prev_top_at_mark_start r" "hr_prev_top_at_mark_start r \<le> hr_end r"
      "hr_prev_marked_bytes r \<le> (hr_prev_top_at_mark_start r - hr_bottom r) * HeapWordSize"
    by (simp_all add: region_inv_def)
  have "hr_prev_top_at_mark_start r * HeapWordSize < 2 ^ 64"
    using assms(3) b(2) by (meson le_less_trans mult_le_mono1)
  then show ?thesis using inv b ptr_bytes_le [OF b(1)] by (simp add: garbage_bytes_def)
qed

theorem region_reachable_inv_witness:
  "\<exists>r. HeapRegion 0 0 64 (64 + GrainWords (grain_unset\<lparr>GrainWords := 128\<rparr>)) = Inr r \<and>
     region_inv (grain_unset\<lparr>GrainWords := 128\<rparr>) (note_start_of_marking r)"
proof -
  obtain r where r: "HeapRegion 0 0 64 (64 + GrainWords (grain_unset\<lparr>GrainWords := 128\<rparr>)) = Inr r"
      "hr_end r = 192"
    by (simp add: HeapRegion_def hr_clear_def set_young_index_in_cset_def uninstall_surv_rate_group_def
        init_top_at_mark_start_def zero_marked_bytes_def reset_pre_dummy_top_def set_young_type_def set_saved_mark_def
        grain_unset_def)
  have "rtranclp (region_step (grain_unset\<lparr>GrainWords := 128\<rparr>)) r (note_start_of_marking r)"
    by (rule r_into_rtranclp) (rule region_step.starts_marking)
  then show ?thesis using r region_reachable_inv [OF r(1), of "note_start_of_marking r"]
    by (simp add: note_start_of_marking_def HeapWordSize_def)
qed

text \<open>C38. A lock-free allocation in competition with any sequence of other requests takes effect at
  one instant: it returns the top at that instant, inside the region and at or above the old
  top, when the block fits there, and fails only when it does not fit, so no two requests
  get overlapping blocks and no space is lost.\<close>

theorem par_allocate_exclusive:
  assumes "region_inv g r" and "hr_par_allocate (map (compete (hr_end r)) ss) sz r = (res, r')"
  shows "\<exists>k \<le> length ss. \<exists>t. t = fold (compete (hr_end r)) (take k ss) (hr_top r) \<and> hr_top r \<le> t \<and>
    (case res of
       Some obj \<Rightarrow> obj = t \<and> t + sz \<le> hr_end r \<and> hr_top r' = t + sz \<and> (t, sz) \<in> set (hr_bot_blocks r')
     | None \<Rightarrow> hr_end r < t + sz \<and> hr_top r' = t)"
proof -
  have le: "hr_top r \<le> hr_end r" using assms(1) by (simp add: region_inv_def)
  obtain k where k: "k \<le> length ss" "let t = fold (\<lambda>f. f) (take k (map (compete (hr_end r)) ss)) (hr_top r)
     in par_allocate_loop sz (hr_end r) (map (compete (hr_end r)) ss) (hr_top r) =
        (if sz \<le> hr_end r - t then (Some t, t + sz) else (None, t))"
    using par_allocate_linear [of "map (compete (hr_end r)) ss" "hr_top r" sz "hr_end r"] by auto
  define t where "t = fold (compete (hr_end r)) (take k ss) (hr_top r)"
  have run: "par_allocate_loop sz (hr_end r) (map (compete (hr_end r)) ss) (hr_top r) =
      (if sz \<le> hr_end r - t then (Some t, t + sz) else (None, t))"
    using k(2) by (simp add: Let_def take_map fold_map_apply t_def)
  have t: "hr_top r \<le> t" "t \<le> hr_end r" using compete_mono [OF le] by (simp_all add: t_def)
  show ?thesis
    using assms(2) k(1) t by (intro exI [of _ k] conjI exI [of _ t])
      (auto simp: t_def [symmetric] hr_par_allocate_def space_par_allocate_def run alloc_block_def split: if_splits)
qed

theorem par_allocate_exclusive_witness:
  "\<exists>res r' t. hr_par_allocate (map (compete (hr_end sample_region)) [5, 200]) 7 sample_region = (res, r') \<and>
     hr_top sample_region \<le> t \<and> (res = Some t \<or> res = None \<and> hr_end sample_region < t + 7)"
proof -
  obtain res r' where run: "hr_par_allocate (map (compete (hr_end sample_region)) [5, 200]) 7 sample_region = (res, r')"
    by fastforce
  have "region_inv (grain_unset\<lparr>GrainWords := 128\<rparr>) sample_region" by (simp add: sample_region_def region_inv_def region_preds)
  from par_allocate_exclusive [OF this run]
  obtain t where "hr_top sample_region \<le> t" "case res of
       Some obj \<Rightarrow> obj = t \<and> t + 7 \<le> hr_end sample_region \<and> hr_top r' = t + 7 \<and> (t, 7) \<in> set (hr_bot_blocks r')
     | None \<Rightarrow> hr_end sample_region < t + 7 \<and> hr_top r' = t" by blast
  then show ?thesis using run by (cases res) auto
qed

end
