(* ===== verification/Region_Set.thy ===== *)
theory Region_Set
  imports Heap_Region
begin

text \<open>
  The sets and linked lists of heap regions (\<^verbatim>\<open>heapRegionSet\<close>, \<^verbatim>\<open>heapRegionSets\<close>).  A region is
  addressed by its index.  The store holds the regions, their \<^verbatim>\<open>_next\<close> links, whether the
  iteration state of their remembered sets is reset, and the locks the running thread holds.
  A set only counts its members; a list also links them, from its head to its tail.  The
  refinement lemmas show that the operations on links and counts implement the operations on
  sequences of regions.
\<close>

section \<open>The store\<close>

datatype hrs_phase = HRSPhaseNone | HRSPhaseEvacuation | HRSPhaseCleanup | HRSPhaseFullGC

record mt_state =
  is_at_safepoint :: bool
  is_VM_thread :: bool
  Heap_lock :: bool
  FreeList_lock :: bool
  OldSets_lock :: bool
  SecondaryFreeList_lock :: bool
  mt_phase :: hrs_phase

definition set_phase :: "hrs_phase \<Rightarrow> mt_state \<Rightarrow> mt_state res" where
  "set_phase phase m =
     vassert (mt_phase m = HRSPhaseNone) ''pre-condition''
       (vassert (phase \<noteq> HRSPhaseNone) ''pre-condition'' (Inr (m\<lparr>mt_phase := phase\<rparr>)))"

definition clear_phase :: "mt_state \<Rightarrow> mt_state res" where
  "clear_phase m = vassert (mt_phase m \<noteq> HRSPhaseNone) ''pre-condition'' (Inr (m\<lparr>mt_phase := HRSPhaseNone\<rparr>))"

record region_store =
  st_grain :: grain
  st_hr :: "nat \<Rightarrow> heap_region"
  st_next :: "nat \<Rightarrow> nat option"
  st_rs_ready :: "nat \<Rightarrow> bool"
  st_mt :: mt_state
  st_unrealistic :: nat

definition set_unrealistically_long_length :: "nat \<Rightarrow> region_store \<Rightarrow> region_store res" where
  "set_unrealistically_long_length len st =
     vguarantee (st_unrealistic st = 0) ''should only be set once'' (Inr (st\<lparr>st_unrealistic := len\<rparr>))"

definition put_hr :: "nat \<Rightarrow> heap_region \<Rightarrow> region_store \<Rightarrow> region_store" where
  "put_hr p r st = st\<lparr>st_hr := (st_hr st)(p := r)\<rparr>"

definition set_next :: "nat \<Rightarrow> nat option \<Rightarrow> region_store \<Rightarrow> region_store" where
  "set_next p q st = st\<lparr>st_next := (st_next st)(p := q)\<rparr>"

text \<open>Apply an operation of a region to the region at an address.\<close>

definition on_hr :: "nat \<Rightarrow> (heap_region \<Rightarrow> heap_region res) \<Rightarrow> region_store \<Rightarrow> region_store res" where
  "on_hr p f st = rbind (f (st_hr st p)) (\<lambda>r. Inr (put_hr p r st))"

section \<open>Sets\<close>

datatype set_kind = FreeRegionList | MasterFreeRegionList | SecondaryFreeRegionList
  | OldRegionSet | MasterOldRegionSet | HumongousRegionSet | MasterHumongousRegionSet

fun regions_humongous :: "set_kind \<Rightarrow> bool" where
  "regions_humongous HumongousRegionSet = True"
| "regions_humongous MasterHumongousRegionSet = True"
| "regions_humongous _ = False"

fun regions_empty :: "set_kind \<Rightarrow> bool" where
  "regions_empty FreeRegionList = True"
| "regions_empty MasterFreeRegionList = True"
| "regions_empty SecondaryFreeRegionList = True"
| "regions_empty _ = False"

text \<open>Whether the members are linked: the kinds derived from \<^verbatim>\<open>HeapRegionLinkedList\<close>.\<close>

definition linked_kind :: "set_kind \<Rightarrow> bool" where
  "linked_kind k = regions_empty k"

fun check_mt_safety :: "set_kind \<Rightarrow> mt_state \<Rightarrow> bool" where
  "check_mt_safety MasterFreeRegionList m =
     (if is_at_safepoint m then is_VM_thread m \<or> FreeList_lock m else Heap_lock m)"
| "check_mt_safety SecondaryFreeRegionList m = SecondaryFreeList_lock m"
| "check_mt_safety MasterOldRegionSet m =
     (if is_at_safepoint m
      then is_VM_thread m \<or> mt_phase m = HRSPhaseEvacuation \<and> FreeList_lock m
           \<or> mt_phase m = HRSPhaseCleanup \<and> OldSets_lock m
      else Heap_lock m)"
| "check_mt_safety MasterHumongousRegionSet m =
     (if is_at_safepoint m then is_VM_thread m \<or> OldSets_lock m else Heap_lock m)"
| "check_mt_safety _ m = True"

record region_set =
  rs_id :: nat
  rs_kind :: set_kind
  rs_length :: nat
  rs_region_num :: nat
  rs_total_used_bytes :: nat

definition set_is_empty :: "'a region_set_scheme \<Rightarrow> bool" where
  "set_is_empty s = (rs_length s = 0)"

definition total_capacity_bytes :: "grain \<Rightarrow> 'a region_set_scheme \<Rightarrow> nat" where
  "total_capacity_bytes g s = rs_region_num s * 2 ^ nat (LogOfHRGrainBytes g)"

fun verify_region_extra :: "set_kind \<Rightarrow> nat \<Rightarrow> region_store \<Rightarrow> bool" where
  "verify_region_extra FreeRegionList p st = (\<not> is_young (st_hr st p))"
| "verify_region_extra SecondaryFreeRegionList p st = (\<not> is_young (st_hr st p))"
| "verify_region_extra MasterFreeRegionList p st = (st_rs_ready st p \<and> \<not> is_young (st_hr st p))"
| "verify_region_extra _ p st = (\<not> is_young (st_hr st p) \<and> st_next st p = None)"

definition verify_region :: "'a region_set_scheme \<Rightarrow> nat option \<Rightarrow> nat \<Rightarrow> region_store \<Rightarrow> bool" where
  "verify_region s expected p st =
     (let r = st_hr st p
      in (if regions_humongous (rs_kind s) then isHumongous r \<and> startsHumongous r else \<not> isHumongous r) \<and>
         (if regions_empty (rs_kind s) then hr_is_empty r else \<not> hr_is_empty r) \<and>
         hr_containing_set r = expected \<and> verify_region_extra (rs_kind s) p st)"

definition base_verify :: "'a region_set_scheme \<Rightarrow> region_store \<Rightarrow> unit res" where
  "base_verify s st =
     vassert (check_mt_safety (rs_kind s) (st_mt st)) ''MT safety''
    (vguarantee (set_is_empty s \<and> rs_length s = 0 \<and> rs_region_num s = 0 \<and> rs_total_used_bytes s = 0 \<and>
                 total_capacity_bytes (st_grain st) s = 0 \<or> \<not> set_is_empty s) ''invariant''
    (vguarantee (\<not> regions_humongous (rs_kind s) \<and> rs_region_num s = rs_length s \<or>
                 regions_humongous (rs_kind s) \<and> rs_length s \<le> rs_region_num s) ''invariant''
    (vguarantee (\<not> regions_empty (rs_kind s) \<or> rs_total_used_bytes s = 0) ''invariant''
    (vguarantee (rs_total_used_bytes s \<le> total_capacity_bytes (st_grain st) s) ''invariant'' (Inr ())))))"

text \<open>The four \<^verbatim>\<open>_calc\<close> sums of a verification: length, regions, capacity and used bytes.\<close>

record set_calc =
  calc_length :: nat
  calc_region_num :: nat
  calc_total_capacity_bytes :: nat
  calc_total_used_bytes :: nat

definition verify_start :: "'a region_set_scheme \<Rightarrow> region_store \<Rightarrow> set_calc res" where
  "verify_start s st =
     rbind (base_verify s st) (\<lambda>_.
       Inr \<lparr>calc_length = 0, calc_region_num = 0, calc_total_capacity_bytes = 0, calc_total_used_bytes = 0\<rparr>)"

definition verify_next_region :: "'a region_set_scheme \<Rightarrow> nat \<Rightarrow> region_store \<Rightarrow> set_calc \<Rightarrow> set_calc res" where
  "verify_next_region s p st c =
     vguarantee (verify_region s (Some (rs_id s)) p st) ''region verification''
       (rbind (region_num (st_grain st) (st_hr st p)) (\<lambda>n.
          Inr \<lparr>calc_length = calc_length c + 1, calc_region_num = calc_region_num c + n,
               calc_total_capacity_bytes = calc_total_capacity_bytes c + capacity (st_hr st p),
               calc_total_used_bytes = calc_total_used_bytes c + used (st_hr st p)\<rparr>))"

definition verify_end :: "'a region_set_scheme \<Rightarrow> region_store \<Rightarrow> set_calc \<Rightarrow> unit res" where
  "verify_end s st c =
     vguarantee (rs_length s = calc_length c) ''length should be == calc length''
    (vguarantee (rs_region_num s = calc_region_num c) ''region num should be == calc region num''
    (vguarantee (total_capacity_bytes (st_grain st) s = calc_total_capacity_bytes c)
       ''capacity bytes should be == calc capacity bytes''
    (vguarantee (rs_total_used_bytes s \<le> calc_total_used_bytes c)
       ''used bytes should be == calc used bytes'' (Inr ()))))"

definition base_clear :: "'a region_set_scheme \<Rightarrow> 'a region_set_scheme" where
  "base_clear s = s\<lparr>rs_length := 0, rs_region_num := 0, rs_total_used_bytes := 0\<rparr>"

definition update_for_addition :: "nat \<Rightarrow> 'a region_set_scheme \<Rightarrow> region_store \<Rightarrow> 'a region_set_scheme res" where
  "update_for_addition p s st =
     rbind (region_num (st_grain st) (st_hr st p)) (\<lambda>n.
       Inr (s\<lparr>rs_length := rs_length s + 1, rs_region_num := rs_region_num s + n,
              rs_total_used_bytes := rs_total_used_bytes s + used (st_hr st p)\<rparr>))"

definition add_internal ::
    "nat \<Rightarrow> 'a region_set_scheme \<Rightarrow> region_store \<Rightarrow> ('a region_set_scheme \<times> region_store) res" where
  "add_internal p s st =
     vassert (verify_region s None p st) ''region verification''
    (vassert (st_next st p = None) ''should not already be linked''
      (rbind (update_for_addition p s st) (\<lambda>s'.
       rbind (on_hr p (set_containing_set (Some (rs_id s))) st) (\<lambda>st'. Inr (s', st')))))"

definition update_for_removal :: "nat \<Rightarrow> 'a region_set_scheme \<Rightarrow> region_store \<Rightarrow> 'a region_set_scheme res" where
  "update_for_removal p s st =
     vassert (0 < rs_length s) ''pre-condition''
       (rbind (region_num (st_grain st) (st_hr st p)) (\<lambda>region_num_diff.
          vassert (region_num_diff \<le> rs_region_num s) ''region num should be <= region num''
            (let used_bytes = used (st_hr st p)
             in vassert (used_bytes \<le> rs_total_used_bytes s) ''used bytes should be <= used bytes''
                  (Inr (s\<lparr>rs_length := rs_length s - 1, rs_region_num := rs_region_num s - region_num_diff,
                          rs_total_used_bytes := rs_total_used_bytes s - used_bytes\<rparr>)))))"

definition remove_internal ::
    "nat \<Rightarrow> 'a region_set_scheme \<Rightarrow> region_store \<Rightarrow> ('a region_set_scheme \<times> region_store) res" where
  "remove_internal p s st =
     vassert (verify_region s (Some (rs_id s)) p st) ''region verification''
    (vassert (st_next st p = None) ''should already be unlinked''
      (rbind (on_hr p (set_containing_set None) st) (\<lambda>st'.
       rbind (update_for_removal p s st') (\<lambda>s'. Inr (s', st')))))"

definition HeapRegionSet :: "nat \<Rightarrow> set_kind \<Rightarrow> region_set" where
  "HeapRegionSet i k = \<lparr>rs_id = i, rs_kind = k, rs_length = 0, rs_region_num = 0, rs_total_used_bytes = 0\<rparr>"

definition set_add :: "nat \<Rightarrow> region_set \<Rightarrow> region_store \<Rightarrow> (region_set \<times> region_store) res" where
  "set_add p s st = vassert (check_mt_safety (rs_kind s) (st_mt st)) ''MT safety'' (add_internal p s st)"

definition set_remove :: "nat \<Rightarrow> region_set \<Rightarrow> region_store \<Rightarrow> (region_set \<times> region_store) res" where
  "set_remove p s st = vassert (check_mt_safety (rs_kind s) (st_mt st)) ''MT safety'' (remove_internal p s st)"

definition sets_match :: "region_set \<Rightarrow> region_set \<Rightarrow> bool" where
  "sets_match s t =
     (regions_humongous (rs_kind s) = regions_humongous (rs_kind t) \<and>
      regions_empty (rs_kind s) = regions_empty (rs_kind t))"

definition remove_with_proxy ::
    "nat \<Rightarrow> region_set \<Rightarrow> region_set \<Rightarrow> region_store \<Rightarrow> (region_set \<times> region_store) res" where
  "remove_with_proxy p proxy_set s st =
     vassert (sets_match s proxy_set) ''the contents should match''
    (vassert (verify_region s (Some (rs_id s)) p st) ''region verification''
      (rbind (on_hr p (set_containing_set None) st) (\<lambda>st'.
       rbind (update_for_addition p proxy_set st') (\<lambda>proxy'. Inr (proxy', st')))))"

definition update_from_proxy ::
    "region_set \<Rightarrow> region_set \<Rightarrow> region_store \<Rightarrow> (region_set \<times> region_set) res" where
  "update_from_proxy proxy_set s st =
     vassert (check_mt_safety (rs_kind s) (st_mt st)) ''MT safety''
    (vassert (check_mt_safety (rs_kind proxy_set) (st_mt st)) ''MT safety''
    (vassert (sets_match s proxy_set) ''the contents should match''
      (rbind (base_verify s st) (\<lambda>_.
       rbind (base_verify proxy_set st) (\<lambda>_.
         if set_is_empty proxy_set then Inr (proxy_set, s)
         else vassert (rs_length proxy_set \<le> rs_length s) ''proxy set length''
             (vassert (rs_region_num proxy_set \<le> rs_region_num s) ''proxy set region num''
             (vassert (rs_total_used_bytes proxy_set \<le> rs_total_used_bytes s) ''proxy set used bytes''
               (let s' = s\<lparr>rs_length := rs_length s - rs_length proxy_set,
                           rs_region_num := rs_region_num s - rs_region_num proxy_set,
                           rs_total_used_bytes := rs_total_used_bytes s - rs_total_used_bytes proxy_set\<rparr>;
                    proxy' = base_clear proxy_set
                in rbind (base_verify s' st) (\<lambda>_.
                   rbind (base_verify proxy' st) (\<lambda>_. Inr (proxy', s')))))))))))"

section \<open>Linked lists\<close>

record region_list = region_set +
  rl_head :: "nat option"
  rl_tail :: "nat option"

definition HeapRegionLinkedList :: "nat \<Rightarrow> set_kind \<Rightarrow> region_list" where
  "HeapRegionLinkedList i k =
     \<lparr>rs_id = i, rs_kind = k, rs_length = 0, rs_region_num = 0, rs_total_used_bytes = 0, rl_head = None, rl_tail = None\<rparr>"

definition list_clear :: "region_list \<Rightarrow> region_list" where
  "list_clear l = (base_clear l)\<lparr>rl_head := None, rl_tail := None\<rparr>"

function list_verify_loop ::
    "region_list \<Rightarrow> region_store \<Rightarrow> nat option \<Rightarrow> nat option \<Rightarrow> nat \<Rightarrow> set_calc \<Rightarrow> (nat option \<times> set_calc) res" where
  "list_verify_loop l st cur prev0 cnt c =
     (case cur of
        None \<Rightarrow> Inr (prev0, c)
      | Some p \<Rightarrow>
          (case verify_next_region l p st c of
             Inl e \<Rightarrow> Inl e
           | Inr c' \<Rightarrow>
               if cnt + 1 < st_unrealistic st
               then list_verify_loop l st (st_next st p) (Some p) (cnt + 1) c'
               else Inl (Guarantee_Failed ''the calculated length seems very long, is there maybe a cycle?'')))"
  by pat_completeness auto
termination
  by (relation "measure (\<lambda>(l, st, cur, prev0, cnt, c). st_unrealistic st - cnt)") auto

declare list_verify_loop.simps [simp del]

definition list_verify :: "region_list \<Rightarrow> region_store \<Rightarrow> unit res" where
  "list_verify l st =
     vassert (check_mt_safety (rs_kind l) (st_mt st)) ''MT safety''
       (rbind (verify_start l st) (\<lambda>c0.
        rbind (list_verify_loop l st (rl_head l) None 0 c0) (\<lambda>(prev0, c).
          vguarantee (rl_tail l = prev0) ''post-condition'' (verify_end l st c))))"

definition ends_agree :: "region_list \<Rightarrow> bool" where
  "ends_agree l =
     (rs_length l = 0 \<and> rl_head l = None \<and> rl_tail l = None \<or> 0 < rs_length l \<and> rl_head l \<noteq> None \<and> rl_tail l \<noteq> None)"

definition add_as_head :: "nat \<Rightarrow> region_list \<Rightarrow> region_store \<Rightarrow> (region_list \<times> region_store) res" where
  "add_as_head p l st =
     vassert (check_mt_safety (rs_kind l) (st_mt st)) ''MT safety''
    (vassert (ends_agree l) ''invariant''
      (rbind (add_internal p l st) (\<lambda>(l1, st1).
         case rl_head l1 of
           Some h \<Rightarrow> Inr (l1\<lparr>rl_head := Some p\<rparr>, set_next p (Some h) st1)
         | None \<Rightarrow> Inr (l1\<lparr>rl_tail := Some p, rl_head := Some p\<rparr>, st1))))"

definition add_as_tail :: "nat \<Rightarrow> region_list \<Rightarrow> region_store \<Rightarrow> (region_list \<times> region_store) res" where
  "add_as_tail p l st =
     vassert (check_mt_safety (rs_kind l) (st_mt st)) ''MT safety''
    (vassert (ends_agree l) ''invariant''
      (rbind (add_internal p l st) (\<lambda>(l1, st1).
         case rl_tail l1 of
           Some t \<Rightarrow> Inr (l1\<lparr>rl_tail := Some p\<rparr>, set_next t (Some p) st1)
         | None \<Rightarrow> Inr (l1\<lparr>rl_head := Some p, rl_tail := Some p\<rparr>, st1))))"

definition remove_head :: "region_list \<Rightarrow> region_store \<Rightarrow> (nat \<times> region_list \<times> region_store) res" where
  "remove_head l st =
     vassert (check_mt_safety (rs_kind l) (st_mt st)) ''MT safety''
    (vassert (\<not> set_is_empty l) ''the list should not be empty''
    (vassert (0 < rs_length l \<and> rl_head l \<noteq> None \<and> rl_tail l \<noteq> None) ''invariant''
      (rbind (deref (rl_head l) ''head'') (\<lambda>p.
         let l1 = l\<lparr>rl_head := st_next st p\<rparr>;
             l2 = (if rl_head l1 = None then l1\<lparr>rl_tail := None\<rparr> else l1)
         in rbind (remove_internal p l2 (set_next p None st)) (\<lambda>(l3, st3). Inr (p, l3, st3))))))"

definition remove_head_or_null :: "region_list \<Rightarrow> region_store \<Rightarrow> (nat option \<times> region_list \<times> region_store) res" where
  "remove_head_or_null l st =
     vassert (check_mt_safety (rs_kind l) (st_mt st)) ''MT safety''
       (if \<not> set_is_empty l
        then rbind (remove_head l st) (\<lambda>(p, l', st'). Inr (Some p, l', st'))
        else Inr (None, l, st))"

text \<open>
  The loops below follow the links of a list.  They have a fuel, which the operations set to the
  bound on the length of a list that the verification before each loop has checked.
\<close>

fun retag_regions :: "nat \<Rightarrow> region_list \<Rightarrow> nat \<Rightarrow> nat option \<Rightarrow> region_store \<Rightarrow> region_store res" where
  "retag_regions n from_list i None st = Inr st"
| "retag_regions 0 from_list i (Some p) st = Inl (Diverged ''iterator'')"
| "retag_regions (Suc n) from_list i (Some p) st =
     vassert (verify_region from_list (Some (rs_id from_list)) p st) ''region verification''
       (let nxt = st_next st p
        in rbind (on_hr p (set_containing_set None) st) (\<lambda>st1.
           rbind (on_hr p (set_containing_set (Some i)) st1) (\<lambda>st2. retag_regions n from_list i nxt st2)))"

definition take_counts :: "region_list \<Rightarrow> region_list \<Rightarrow> region_list" where
  "take_counts from_list l =
     l\<lparr>rs_length := rs_length l + rs_length from_list, rs_region_num := rs_region_num l + rs_region_num from_list,
       rs_total_used_bytes := rs_total_used_bytes l + rs_total_used_bytes from_list\<rparr>"

definition add_list_as_head ::
    "region_list \<Rightarrow> region_list \<Rightarrow> region_store \<Rightarrow> (region_list \<times> region_list \<times> region_store) res" where
  "add_list_as_head from_list l st =
     vassert (check_mt_safety (rs_kind l) (st_mt st)) ''MT safety''
    (vassert (check_mt_safety (rs_kind from_list) (st_mt st)) ''MT safety''
      (rbind (list_verify l st) (\<lambda>_. rbind (list_verify from_list st) (\<lambda>_.
         if set_is_empty from_list then Inr (from_list, l, st)
         else rbind (retag_regions (st_unrealistic st) from_list (rs_id l) (rl_head from_list) st) (\<lambda>st1.
              rbind (case rl_head l of
                       Some h \<Rightarrow> vassert (0 < rs_length l \<and> rl_tail l \<noteq> None) ''invariant''
                                   (rbind (deref (rl_tail from_list) ''tail'') (\<lambda>t. Inr (l, set_next t (Some h) st1)))
                     | None \<Rightarrow> vassert (rs_length l = 0 \<and> rl_tail l = None) ''invariant''
                                 (Inr (l\<lparr>rl_tail := rl_tail from_list\<rparr>, st1)))
                (\<lambda>(l1, st2).
                   let l2 = take_counts from_list (l1\<lparr>rl_head := rl_head from_list\<rparr>);
                       from' = list_clear from_list
                   in rbind (list_verify l2 st2) (\<lambda>_. rbind (list_verify from' st2) (\<lambda>_.
                        Inr (from', l2, st2)))))))))"

definition add_list_as_tail ::
    "region_list \<Rightarrow> region_list \<Rightarrow> region_store \<Rightarrow> (region_list \<times> region_list \<times> region_store) res" where
  "add_list_as_tail from_list l st =
     vassert (check_mt_safety (rs_kind l) (st_mt st)) ''MT safety''
    (vassert (check_mt_safety (rs_kind from_list) (st_mt st)) ''MT safety''
      (rbind (list_verify l st) (\<lambda>_. rbind (list_verify from_list st) (\<lambda>_.
         if set_is_empty from_list then Inr (from_list, l, st)
         else rbind (retag_regions (st_unrealistic st) from_list (rs_id l) (rl_head from_list) st) (\<lambda>st1.
              rbind (case rl_tail l of
                       Some t \<Rightarrow> vassert (0 < rs_length l \<and> rl_head l \<noteq> None) ''invariant''
                                   (Inr (l, set_next t (rl_head from_list) st1))
                     | None \<Rightarrow> vassert (rs_length l = 0 \<and> rl_head l = None) ''invariant''
                                 (Inr (l\<lparr>rl_head := rl_head from_list\<rparr>, st1)))
                (\<lambda>(l1, st2).
                   let l2 = take_counts from_list (l1\<lparr>rl_tail := rl_tail from_list\<rparr>);
                       from' = list_clear from_list
                   in rbind (list_verify l2 st2) (\<lambda>_. rbind (list_verify from' st2) (\<lambda>_.
                        Inr (from', l2, st2)))))))))"

fun remove_all_loop :: "nat \<Rightarrow> region_list \<Rightarrow> nat option \<Rightarrow> region_store \<Rightarrow> region_store res" where
  "remove_all_loop n l None st = Inr st"
| "remove_all_loop 0 l (Some p) st = Inl (Diverged ''remove_all'')"
| "remove_all_loop (Suc n) l (Some p) st =
     vassert (verify_region l (Some (rs_id l)) p st) ''region verification''
       (let nxt = st_next st p
        in rbind (on_hr p (set_containing_set None) (set_next p None st)) (remove_all_loop n l nxt))"

definition remove_all :: "region_list \<Rightarrow> region_store \<Rightarrow> (region_list \<times> region_store) res" where
  "remove_all l st =
     vassert (check_mt_safety (rs_kind l) (st_mt st)) ''MT safety''
       (rbind (list_verify l st) (\<lambda>_.
        rbind (remove_all_loop (st_unrealistic st) l (rl_head l) st) (\<lambda>st'.
          let l' = list_clear l in rbind (list_verify l' st') (\<lambda>_. Inr (l', st')))))"

text \<open>The loop leaves when the target count is reached, as it does where assertions are compiled in.\<close>

fun remove_pending_loop ::
    "nat \<Rightarrow> nat \<Rightarrow> nat option \<Rightarrow> nat option \<Rightarrow> nat \<Rightarrow> region_list \<Rightarrow> region_store \<Rightarrow> (nat \<times> region_list \<times> region_store) res" where
  "remove_pending_loop n target_count None prev cnt l st = Inr (cnt, l, st)"
| "remove_pending_loop 0 target_count (Some p) prev cnt l st = Inl (Diverged ''remove_all_pending'')"
| "remove_pending_loop (Suc n) target_count (Some p) prev cnt l st =
     vassert (verify_region l (Some (rs_id l)) p st) ''region verification''
       (let nxt = st_next st p
        in if hr_pending_removal (st_hr st p)
           then vassert (cnt < target_count) ''more regions pending for removal than target_count''
             (rbind (case prev of
                       None \<Rightarrow> vassert (rl_head l = Some p) ''invariant'' (Inr (l\<lparr>rl_head := nxt\<rparr>, st))
                     | Some q \<Rightarrow> vassert (rl_head l \<noteq> Some p) ''invariant'' (Inr (l, set_next q nxt st)))
               (\<lambda>(l1, st1).
              rbind (if nxt = None then vassert (rl_tail l1 = Some p) ''invariant'' (Inr (l1\<lparr>rl_tail := prev\<rparr>))
                     else vassert (rl_tail l1 \<noteq> Some p) ''invariant'' (Inr l1)) (\<lambda>l2.
              rbind (remove_internal p l2 (set_next p None st1)) (\<lambda>(l3, st3).
              rbind (on_hr p (set_pending_removal False) st3) (\<lambda>st4.
                if cnt + 1 = target_count then Inr (cnt + 1, l3, st4)
                else remove_pending_loop n target_count nxt prev (cnt + 1) l3 st4)))))
           else remove_pending_loop n target_count nxt (Some p) cnt l st)"

definition remove_all_pending :: "nat \<Rightarrow> region_list \<Rightarrow> region_store \<Rightarrow> (region_list \<times> region_store) res" where
  "remove_all_pending target_count l st =
     vassert (check_mt_safety (rs_kind l) (st_mt st)) ''MT safety''
    (vassert (1 < target_count) ''pre-condition''
    (vassert (\<not> set_is_empty l) ''pre-condition''
      (rbind (list_verify l st) (\<lambda>_.
       rbind (remove_pending_loop (st_unrealistic st) target_count (rl_head l) None 0 l st) (\<lambda>(cnt, l', st').
         vassert (cnt = target_count) ''count should be == target_count''
        (vassert (rs_length l' + target_count = rs_length l) ''new length should be consistent''
          (rbind (list_verify l' st') (\<lambda>_. Inr (l', st')))))))))"

section \<open>Lemmas\<close>

text \<open>A segment of links: from \<open>p\<close> through the regions of the sequence to \<open>q\<close>.\<close>

fun seg :: "(nat \<Rightarrow> nat option) \<Rightarrow> nat option \<Rightarrow> nat list \<Rightarrow> nat option \<Rightarrow> bool" where
  "seg nx p [] q = (p = q)"
| "seg nx p (x # xs) q = (p = Some x \<and> seg nx (nx x) xs q)"

lemma seg_append: "seg nx p (xs @ ys) q \<longleftrightarrow> (\<exists>m. seg nx p xs m \<and> seg nx m ys q)"
  by (induction xs arbitrary: p) auto

lemma seg_cong: "(\<And>x. x \<in> set xs \<Longrightarrow> nx x = ny x) \<Longrightarrow> seg nx p xs q = seg ny p xs q"
  by (induction xs arbitrary: p) auto

lemma seg_upd [simp]: "x \<notin> set xs \<Longrightarrow> seg (nx(x := v)) p xs q = seg nx p xs q"
  by (rule seg_cong) auto

lemma seg_upd_if [simp]: "x \<notin> set xs \<Longrightarrow> seg (\<lambda>a. if a = x then v else nx a) p xs q = seg nx p xs q"
  by (rule seg_cong) auto

text \<open>The region at \<open>p\<close> fits the list \<open>l\<close> and is tagged with \<open>tag\<close>.\<close>

definition fits :: "region_list \<Rightarrow> nat option \<Rightarrow> nat \<Rightarrow> region_store \<Rightarrow> bool" where
  "fits l tag p st =
     (verify_region l tag p st \<and> capacity (st_hr st p) = 2 ^ nat (LogOfHRGrainBytes (st_grain st)))"

definition spare :: "region_list \<Rightarrow> nat \<Rightarrow> region_store \<Rightarrow> bool" where
  "spare l p st = (fits l None p st \<and> st_next st p = None)"

text \<open>The list \<open>l\<close> of the store represents the sequence \<open>xs\<close>.\<close>

definition lists_as :: "region_list \<Rightarrow> nat list \<Rightarrow> region_store \<Rightarrow> bool" where
  "lists_as l xs st =
     (linked_kind (rs_kind l) \<and> seg (st_next st) (rl_head l) xs None \<and>
      rl_tail l = (if xs = [] then None else Some (last xs)) \<and> distinct xs \<and>
      rs_length l = length xs \<and> rs_region_num l = length xs \<and> rs_total_used_bytes l = 0 \<and>
      (\<forall>x \<in> set xs. fits l (Some (rs_id l)) x st))"

lemma linked_not_humongous: "linked_kind k \<Longrightarrow> \<not> regions_humongous k \<and> regions_empty k"
  by (cases k) (simp_all add: linked_kind_def)

lemma verify_linked:
  assumes "linked_kind (rs_kind l)" and "verify_region l tag p st"
  shows "\<not> isHumongous (st_hr st p)" "used (st_hr st p) = 0" "\<not> is_young (st_hr st p)"
    "hr_containing_set (st_hr st p) = tag"
  using assms by (cases "rs_kind l"; simp add: verify_region_def linked_kind_def hr_is_empty_def Let_def)+

lemma verify_retag:
  assumes "linked_kind (rs_kind l)"
  shows "verify_region l tag p (put_hr p ((st_hr st p)\<lparr>hr_containing_set := tag\<rparr>) st) \<longleftrightarrow>
    verify_region l (hr_containing_set (st_hr st p)) p st"
  using assms by (cases "rs_kind l")
    (simp_all add: verify_region_def linked_kind_def put_hr_def hr_is_empty_def used_def isHumongous_def is_young_def Let_def)

lemma fits_frame:
  assumes "linked_kind (rs_kind l)" "st_hr st' p = st_hr st p" "st_rs_ready st' p = st_rs_ready st p" "st_grain st' = st_grain st"
  shows "fits l tag p st' \<longleftrightarrow> fits l tag p st"
  using assms by (cases "rs_kind l") (simp_all add: fits_def verify_region_def linked_kind_def Let_def)

lemma put_hr_simps [simp]:
  "st_hr (put_hr p r st) = (st_hr st)(p := r)" "st_next (put_hr p r st) = st_next st"
  "st_rs_ready (put_hr p r st) = st_rs_ready st" "st_mt (put_hr p r st) = st_mt st"
  "st_grain (put_hr p r st) = st_grain st" "st_unrealistic (put_hr p r st) = st_unrealistic st"
  by (simp_all add: put_hr_def)

lemma set_next_simps [simp]:
  "st_next (set_next p q st) = (st_next st)(p := q)" "st_hr (set_next p q st) = st_hr st"
  "st_rs_ready (set_next p q st) = st_rs_ready st" "st_mt (set_next p q st) = st_mt st"
  "st_grain (set_next p q st) = st_grain st" "st_unrealistic (set_next p q st) = st_unrealistic st"
  by (simp_all add: set_next_def)

lemma lists_as_frame:
  assumes "lists_as l xs st" and "\<And>x. x \<in> set xs \<Longrightarrow> st_hr st' x = st_hr st x \<and> st_next st' x = st_next st x
      \<and> st_rs_ready st' x = st_rs_ready st x" and "st_grain st' = st_grain st"
  shows "lists_as l xs st'"
proof -
  have k: "linked_kind (rs_kind l)" using assms(1) by (simp add: lists_as_def)
  have "fits l (Some (rs_id l)) x st'" if "x \<in> set xs" for x
    using that assms fits_frame [OF k, of st' x st] by (simp add: lists_as_def)
  moreover have "seg (st_next st') (rl_head l) xs None = seg (st_next st) (rl_head l) xs None"
    using assms(2) by (intro seg_cong) simp
  ultimately show ?thesis using assms(1) by (simp add: lists_as_def)
qed

text \<open>Outside \<open>A\<close> the stores agree, and inside \<open>A\<close> up to the links and the tags of the regions.\<close>

definition untagged :: "heap_region \<Rightarrow> heap_region" where
  "untagged r = r\<lparr>hr_containing_set := None, hr_pending_removal := False\<rparr>"

lemma untagged_simps [simp]:
  "untagged (r\<lparr>hr_containing_set := t\<rparr>) = untagged r" "untagged (r\<lparr>hr_pending_removal := b\<rparr>) = untagged r"
  by (simp_all add: untagged_def)

definition same_frame :: "nat set \<Rightarrow> region_store \<Rightarrow> region_store \<Rightarrow> bool" where
  "same_frame A st st' =
     (st_grain st' = st_grain st \<and> st_rs_ready st' = st_rs_ready st \<and> st_mt st' = st_mt st \<and>
      st_unrealistic st' = st_unrealistic st \<and>
      (\<forall>x. x \<notin> A \<longrightarrow> st_hr st' x = st_hr st x \<and> st_next st' x = st_next st x) \<and>
      (\<forall>x. untagged (st_hr st' x) = untagged (st_hr st x)))"

text \<open>Unlinking and tagging: the two updates of the store every operation is made of.\<close>

definition tag_hr :: "nat \<Rightarrow> nat option \<Rightarrow> region_store \<Rightarrow> region_store" where
  "tag_hr p tag st = put_hr p ((st_hr st p)\<lparr>hr_containing_set := tag\<rparr>) st"

lemma tag_hr_simps [simp]:
  "st_hr (tag_hr p t st) = (st_hr st)(p := (st_hr st p)\<lparr>hr_containing_set := t\<rparr>)"
  "st_next (tag_hr p t st) = st_next st" "st_rs_ready (tag_hr p t st) = st_rs_ready st"
  "st_mt (tag_hr p t st) = st_mt st" "st_grain (tag_hr p t st) = st_grain st"
  "st_unrealistic (tag_hr p t st) = st_unrealistic st"
  by (simp_all add: tag_hr_def)

lemma on_hr_containing:
  "on_hr p (set_containing_set t) st =
     (if (t = None) = (hr_containing_set (st_hr st p) \<noteq> None) then Inr (tag_hr p t st)
      else Inl (Assert_Failed ''containing_set''))"
  by (auto simp: on_hr_def set_containing_set_def tag_hr_def vassert_def)

lemma fits_tag:
  assumes "linked_kind (rs_kind l)"
  shows "fits l t p (tag_hr p t st) \<longleftrightarrow> fits l (hr_containing_set (st_hr st p)) p st"
  using verify_retag [OF assms, of t p st] by (simp add: fits_def tag_hr_def capacity_def)

lemma fits_other: "linked_kind (rs_kind l) \<Longrightarrow> q \<noteq> p \<Longrightarrow> fits l t q (tag_hr p u st) \<longleftrightarrow> fits l t q st"
  by (rule fits_frame) simp_all

lemma fits_set_next: "linked_kind (rs_kind l) \<Longrightarrow> fits l t q (set_next p u st) \<longleftrightarrow> fits l t q st"
  by (rule fits_frame) simp_all

lemma fits_same:
  assumes "rs_kind l' = rs_kind l" shows "fits l' t p st \<longleftrightarrow> fits l t p st"
  using assms by (simp add: fits_def verify_region_def)

lemma containing_simps [simp]:
  "used (r\<lparr>hr_containing_set := t\<rparr>) = used r" "isHumongous (r\<lparr>hr_containing_set := t\<rparr>) = isHumongous r"
  "is_young (r\<lparr>hr_containing_set := t\<rparr>) = is_young r" "capacity (r\<lparr>hr_containing_set := t\<rparr>) = capacity r"
  by (simp_all add: used_def isHumongous_def is_young_def capacity_def)

lemma add_internal_spare:
  assumes "linked_kind (rs_kind l)" and "spare l p st"
  shows "add_internal p l st =
    Inr (l\<lparr>rs_length := rs_length l + 1, rs_region_num := rs_region_num l + 1\<rparr>, tag_hr p (Some (rs_id l)) st)"
proof -
  have v: "verify_region l None p st" "st_next st p = None" using assms(2) by (simp_all add: spare_def fits_def)
  then show ?thesis using verify_linked [OF assms(1) v(1)]
    by (simp add: add_internal_def update_for_addition_def region_num_def on_hr_containing)
qed

lemma remove_internal_member:
  assumes "linked_kind (rs_kind l)" and "fits l (Some (rs_id l)) p st" and "st_next st p = None"
    and "0 < rs_length l" "0 < rs_region_num l"
  shows "remove_internal p l st =
    Inr (l\<lparr>rs_length := rs_length l - 1, rs_region_num := rs_region_num l - 1\<rparr>, tag_hr p None st)"
proof -
  have v: "verify_region l (Some (rs_id l)) p st" using assms(2) by (simp add: fits_def)
  show ?thesis using v verify_linked [OF assms(1) v] assms
    by (simp add: remove_internal_def update_for_removal_def region_num_def on_hr_containing Let_def)
qed

lemma spare_notin: "lists_as l xs st \<Longrightarrow> spare m p st \<Longrightarrow> linked_kind (rs_kind m) \<Longrightarrow> p \<notin> set xs"
  using verify_linked(4) [of m None p st] verify_linked(4) [of l "Some (rs_id l)" p st]
  by (auto simp: lists_as_def spare_def fits_def)

lemma lists_as_ends: "lists_as l xs st \<Longrightarrow> ends_agree l \<and> (rl_head l = None \<longleftrightarrow> xs = [])"
  by (cases xs) (auto simp: lists_as_def ends_agree_def)

lemma fits_new:
  assumes "lists_as l xs st" and "spare l p st" and "x \<in> insert p (set xs)" and "rs_kind l' = rs_kind l"
  shows "fits l' (Some (rs_id l)) x (tag_hr p (Some (rs_id l)) st)"
    and "fits l' (Some (rs_id l)) x (set_next q u (tag_hr p (Some (rs_id l)) st))"
proof -
  have k: "linked_kind (rs_kind l)" using assms(1) by (simp add: lists_as_def)
  have p: "p \<notin> set xs" by (rule spare_notin [OF assms(1,2) k])
  show "fits l' (Some (rs_id l)) x (tag_hr p (Some (rs_id l)) st)"
  proof (cases "x = p")
    case True
    then show ?thesis using assms(2) k verify_linked(4) [OF k, of None p st] unfolding fits_same [OF assms(4)]
      by (simp add: fits_tag spare_def) (simp add: fits_def)
  next
    case False
    then show ?thesis using assms(1,3) unfolding fits_same [OF assms(4)] fits_other [OF k False]
      by (simp add: lists_as_def)
  qed
  then show "fits l' (Some (rs_id l)) x (set_next q u (tag_hr p (Some (rs_id l)) st))"
    using k assms(4) by (simp add: fits_set_next)
qed

lemma add_as_head_lists:
  assumes "lists_as l xs st" and "spare l p st" and "check_mt_safety (rs_kind l) (st_mt st)"
  shows "\<exists>l' st'. add_as_head p l st = Inr (l', st') \<and> lists_as l' (p # xs) st' \<and> same_frame {p} st st' \<and>
    rs_id l' = rs_id l \<and> rs_kind l' = rs_kind l"
proof -
  have k: "linked_kind (rs_kind l)" using assms(1) by (simp add: lists_as_def)
  have p: "p \<notin> set xs" by (rule spare_notin [OF assms(1,2) k])
  have f: "fits l (hr_containing_set (st_hr st p)) p st" "st_next st p = None" "hr_containing_set (st_hr st p) = None"
    using assms(2) verify_linked(4) [OF k] by (auto simp: spare_def fits_def)
  let ?l = "l\<lparr>rs_length := rs_length l + 1, rs_region_num := rs_region_num l + 1\<rparr>"
  have "add_as_head p l st =
      Inr (if xs = [] then (?l\<lparr>rl_tail := Some p, rl_head := Some p\<rparr>, tag_hr p (Some (rs_id l)) st)
           else (?l\<lparr>rl_head := Some p\<rparr>, set_next p (rl_head l) (tag_hr p (Some (rs_id l)) st)))"
    using lists_as_ends [OF assms(1)] assms(3)
    by (auto simp: add_as_head_def add_internal_spare [OF k assms(2)] split: option.splits)
  then show ?thesis using assms(1) p f fits_new [OF assms(1,2)]
    by (auto simp: lists_as_def same_frame_def)
qed


lemma add_as_tail_lists:
  assumes "lists_as l xs st" and "spare l p st" and "check_mt_safety (rs_kind l) (st_mt st)"
  shows "\<exists>l' st'. add_as_tail p l st = Inr (l', st') \<and> lists_as l' (xs @ [p]) st' \<and>
    same_frame (insert p (set xs)) st st' \<and> rs_id l' = rs_id l \<and> rs_kind l' = rs_kind l"
proof -
  have k: "linked_kind (rs_kind l)" using assms(1) by (simp add: lists_as_def)
  have p: "p \<notin> set xs" by (rule spare_notin [OF assms(1,2) k])
  have f: "fits l (hr_containing_set (st_hr st p)) p st" "st_next st p = None" "hr_containing_set (st_hr st p) = None"
    using assms(2) verify_linked(4) [OF k] by (auto simp: spare_def fits_def)
  let ?l = "l\<lparr>rs_length := rs_length l + 1, rs_region_num := rs_region_num l + 1\<rparr>"
  have run: "add_as_tail p l st =
      Inr (if xs = [] then (?l\<lparr>rl_head := Some p, rl_tail := Some p\<rparr>, tag_hr p (Some (rs_id l)) st)
           else (?l\<lparr>rl_tail := Some p\<rparr>, set_next (last xs) (Some p) (tag_hr p (Some (rs_id l)) st)))"
    using lists_as_ends [OF assms(1)] assms(1,3)
    by (auto simp: add_as_tail_def add_internal_spare [OF k assms(2)] lists_as_def split: option.splits)
  note fit = fits_new [OF assms(1,2)]
  show ?thesis
  proof (cases "xs = []")
    case True
    then show ?thesis using run fit assms(1) f by (auto simp: lists_as_def same_frame_def)
  next
    case False
    then obtain ys y where ys: "xs = ys @ [y]" by (meson rev_exhaust)
    have "p \<noteq> y" "y \<notin> set ys" using p ys assms(1) by (auto simp: lists_as_def)
    moreover have "seg (st_next st) (rl_head l) ys (Some y)" "st_next st y = None"
      using assms(1) ys by (auto simp: lists_as_def seg_append)
    ultimately show ?thesis using run fit assms(1) f p ys
      by (auto simp: lists_as_def same_frame_def seg_append)
  qed
qed

lemma remove_head_lists:
  assumes "lists_as l (p # xs) st" and "check_mt_safety (rs_kind l) (st_mt st)"
  shows "\<exists>l' st'. remove_head l st = Inr (p, l', st') \<and> lists_as l' xs st' \<and> spare l p st' \<and>
    same_frame {p} st st' \<and> rs_id l' = rs_id l \<and> rs_kind l' = rs_kind l"
proof -
  have k: "linked_kind (rs_kind l)" and p: "p \<notin> set xs" "rl_head l = Some p" "fits l (Some (rs_id l)) p st"
    using assms(1) by (simp_all add: lists_as_def)
  let ?l = "if xs = [] then l\<lparr>rl_head := None, rl_tail := None\<rparr> else l\<lparr>rl_head := st_next st p\<rparr>"
  have l: "rs_kind ?l = rs_kind l" "rs_id ?l = rs_id l" "rs_length ?l = Suc (length xs)" "rs_region_num ?l = Suc (length xs)"
    using assms(1) by (simp_all add: lists_as_def)
  have "remove_internal p ?l (set_next p None st) =
      Inr (?l\<lparr>rs_length := length xs, rs_region_num := length xs\<rparr>, tag_hr p None (set_next p None st))"
    using remove_internal_member [of ?l p "set_next p None st"] k p(3) fits_same [OF l(1)] l by (simp add: fits_set_next)
  moreover have "st_next st p = None \<longleftrightarrow> xs = []" using assms(1) by (cases xs) (auto simp: lists_as_def)
  ultimately have run: "remove_head l st =
      Inr (p, ?l\<lparr>rs_length := length xs, rs_region_num := length xs\<rparr>, tag_hr p None (set_next p None st))"
    using assms by (auto simp: remove_head_def set_is_empty_def lists_as_def Let_def)
  have c: "hr_containing_set (st_hr st p) = Some (rs_id l)" using p(3) verify_linked(4) [OF k] by (auto simp: fits_def)
  have fit: "fits l' (Some (rs_id l)) x (tag_hr p None (set_next p None st))"
    if "x \<in> set xs" "rs_kind l' = rs_kind l" for x l'
  proof -
    have "x \<noteq> p" using that(1) p(1) by blast
    then show ?thesis using that assms(1) k unfolding fits_same [OF that(2)]
      by (simp add: fits_other fits_set_next lists_as_def)
  qed
  have "spare l p (tag_hr p None (set_next p None st))"
    using p(3) c k by (simp add: spare_def fits_tag fits_set_next)
  moreover have "lists_as (?l\<lparr>rs_length := length xs, rs_region_num := length xs\<rparr>) xs (tag_hr p None (set_next p None st))"
    using fit assms(1) p(1) by (simp add: lists_as_def)
  ultimately show ?thesis using run by (auto simp: same_frame_def)
qed

lemma fits_iff:
  assumes "linked_kind (rs_kind l)"
  shows "fits l t p st \<longleftrightarrow> \<not> isHumongous (st_hr st p) \<and> used (st_hr st p) = 0 \<and> hr_containing_set (st_hr st p) = t \<and>
    \<not> is_young (st_hr st p) \<and> (rs_kind l = MasterFreeRegionList \<longrightarrow> st_rs_ready st p) \<and>
    capacity (st_hr st p) = 2 ^ nat (LogOfHRGrainBytes (st_grain st))"
  using assms by (cases "rs_kind l") (auto simp: fits_def verify_region_def linked_kind_def hr_is_empty_def Let_def)

lemma verify_next_member:
  assumes "linked_kind (rs_kind l)" and "fits l (Some (rs_id l)) p st"
  shows "verify_next_region l p st c = Inr (c\<lparr>calc_length := calc_length c + 1, calc_region_num := calc_region_num c + 1,
    calc_total_capacity_bytes := calc_total_capacity_bytes c + 2 ^ nat (LogOfHRGrainBytes (st_grain st))\<rparr>)"
  using assms by (simp add: fits_iff verify_next_region_def vguarantee_def region_num_def)
    (simp add: fits_iff [symmetric] assms(1), use assms(2) in \<open>simp add: fits_def\<close>)

lemma verify_loop_lists:
  assumes "linked_kind (rs_kind l)" and "\<forall>x \<in> set xs. fits l (Some (rs_id l)) x st" and "seg (st_next st) p xs None"
    and "cnt + length xs < st_unrealistic st"
  shows "list_verify_loop l st p prev0 cnt c = Inr (if xs = [] then prev0 else Some (last xs),
    c\<lparr>calc_length := calc_length c + length xs, calc_region_num := calc_region_num c + length xs,
      calc_total_capacity_bytes := calc_total_capacity_bytes c + length xs * 2 ^ nat (LogOfHRGrainBytes (st_grain st))\<rparr>)"
  using assms
proof (induction xs arbitrary: p prev0 cnt c)
  case Nil
  then show ?case by (subst list_verify_loop.simps) simp
next
  case (Cons x xs)
  then show ?case
    by (subst list_verify_loop.simps) (simp add: verify_next_member algebra_simps)
qed

lemma list_verify_lists:
  assumes "lists_as l xs st" and "check_mt_safety (rs_kind l) (st_mt st)" and "length xs < st_unrealistic st"
  shows "list_verify l st = Inr ()"
  using assms verify_loop_lists [of l xs st "rl_head l" 0 None] linked_not_humongous [of "rs_kind l"]
  by (auto simp: list_verify_def verify_start_def base_verify_def verify_end_def vguarantee_def lists_as_def
      set_is_empty_def total_capacity_bytes_def)

text \<open>The effect of the loops on the store.\<close>

definition tag_all :: "nat list \<Rightarrow> nat option \<Rightarrow> region_store \<Rightarrow> region_store" where
  "tag_all xs t st =
     st\<lparr>st_hr := \<lambda>x. if x \<in> set xs then (st_hr st x)\<lparr>hr_containing_set := t\<rparr> else st_hr st x\<rparr>"

definition unlink_all :: "nat list \<Rightarrow> region_store \<Rightarrow> region_store" where
  "unlink_all xs st = (tag_all xs None st)\<lparr>st_next := \<lambda>x. if x \<in> set xs then None else st_next st x\<rparr>"

lemma tag_all_Cons: "x \<notin> set xs \<Longrightarrow> tag_all xs t (tag_hr x t st) = tag_all (x # xs) t st"
  by (auto simp: tag_all_def tag_hr_def put_hr_def fun_eq_iff)

lemma unlink_all_Cons:
  "x \<notin> set xs \<Longrightarrow> unlink_all xs (tag_hr x None (set_next x None st)) = unlink_all (x # xs) st"
  by (auto simp: unlink_all_def tag_all_def tag_hr_def put_hr_def set_next_def fun_eq_iff)

lemma retag_lists:
  assumes "linked_kind (rs_kind f)" and "\<forall>x \<in> set xs. fits f (Some (rs_id f)) x st" and "seg (st_next st) p xs None"
    and "length xs \<le> n" and "distinct xs"
  shows "retag_regions n f i p st = Inr (tag_all xs (Some i) st)"
  using assms
proof (induction xs arbitrary: p n st)
  case Nil
  then show ?case by (simp add: tag_all_def)
next
  case (Cons x xs)
  then obtain m where n: "n = Suc m" by (cases n) auto
  have v: "verify_region f (Some (rs_id f)) x st" "hr_containing_set (st_hr st x) = Some (rs_id f)"
    using Cons.prems(1,2) by (auto simp: fits_def dest: verify_linked(4))
  have two: "tag_hr x (Some i) (tag_hr x None st) = tag_hr x (Some i) st"
    by (simp add: tag_hr_def put_hr_def)
  have "retag_regions m f i (st_next st x) (tag_hr x (Some i) st) = Inr (tag_all xs (Some i) (tag_hr x (Some i) st))"
    using Cons.prems n by (intro Cons.IH) (auto simp: fits_iff)
  then show ?case using Cons.prems n v by (simp add: on_hr_containing two tag_all_Cons)
qed

lemma remove_all_loop_lists:
  assumes "linked_kind (rs_kind l)" and "\<forall>x \<in> set xs. fits l (Some (rs_id l)) x st" and "seg (st_next st) p xs None"
    and "length xs \<le> n" and "distinct xs"
  shows "remove_all_loop n l p st = Inr (unlink_all xs st)"
  using assms
proof (induction xs arbitrary: p n st)
  case Nil
  then show ?case by (simp add: unlink_all_def tag_all_def)
next
  case (Cons x xs)
  then obtain m where n: "n = Suc m" by (cases n) auto
  have v: "verify_region l (Some (rs_id l)) x st" "hr_containing_set (st_hr st x) = Some (rs_id l)"
    using Cons.prems(1,2) by (auto simp: fits_def dest: verify_linked(4))
  have "remove_all_loop m l (st_next st x) (tag_hr x None (set_next x None st)) =
      Inr (unlink_all xs (tag_hr x None (set_next x None st)))"
  proof (rule Cons.IH)
    show "\<forall>y \<in> set xs. fits l (Some (rs_id l)) y (tag_hr x None (set_next x None st))"
      using Cons.prems by (auto simp: fits_iff)
  qed (use Cons.prems n in simp_all)
  then show ?case using Cons.prems n v by (simp add: on_hr_containing unlink_all_Cons)
qed

lemma lists_as_frame_eq:
  assumes "lists_as l xs st" and "same_frame A st st'" and "A \<inter> set xs = {}"
  shows "lists_as l xs st'"
  using assms by (intro lists_as_frame [OF assms(1)]) (auto simp: same_frame_def)

lemma add_list_as_head_lists:
  assumes "lists_as l xs st" and "lists_as f ys st" and "set xs \<inter> set ys = {}"
    and "check_mt_safety (rs_kind l) (st_mt st)" "check_mt_safety (rs_kind f) (st_mt st)"
    and "length xs + length ys < st_unrealistic st"
    and "rs_kind l = MasterFreeRegionList \<Longrightarrow> \<forall>y \<in> set ys. st_rs_ready st y"
  shows "\<exists>f' l' st'. add_list_as_head f l st = Inr (f', l', st') \<and> lists_as l' (ys @ xs) st' \<and> lists_as f' [] st' \<and>
    same_frame (set ys) st st' \<and> rs_id l' = rs_id l \<and> rs_kind l' = rs_kind l \<and> rs_id f' = rs_id f \<and> rs_kind f' = rs_kind f"
proof (cases "ys = []")
  case True
  then have "rs_length f = 0" using assms(2) by (simp add: lists_as_def)
  then show ?thesis using True assms list_verify_lists [OF assms(1,4)] list_verify_lists [OF assms(2,5)]
    by (simp add: add_list_as_head_def set_is_empty_def same_frame_def)
next
  case False
  then obtain zs z where ys: "ys = zs @ [z]" by (meson rev_exhaust)
  have k: "linked_kind (rs_kind l)" "linked_kind (rs_kind f)" using assms(1,2) by (simp_all add: lists_as_def)
  have tag: "retag_regions (st_unrealistic st) f (rs_id l) (rl_head f) st = Inr (tag_all ys (Some (rs_id l)) st)"
    using assms(2,6) k by (intro retag_lists) (simp_all add: lists_as_def)
  let ?st = "if xs = [] then tag_all ys (Some (rs_id l)) st else set_next z (rl_head l) (tag_all ys (Some (rs_id l)) st)"
  let ?l = "take_counts f (if xs = [] then l\<lparr>rl_tail := rl_tail f, rl_head := rl_head f\<rparr> else l\<lparr>rl_head := rl_head f\<rparr>)"
  have z: "z \<notin> set zs" "z \<notin> set xs" "seg (st_next st) (rl_head f) zs (Some z)" "st_next st z = None"
    using assms(2,3) ys by (auto simp: lists_as_def seg_append)
  have fit: "fits ?l (Some (rs_id l)) x ?st" if "x \<in> set ys \<union> set xs" for x
    using that assms(1,2,3,7) k by (auto simp: lists_as_def fits_iff tag_all_def take_counts_def)
  have L: "lists_as ?l (ys @ xs) ?st"
    using assms(1,2,3) z fit unfolding lists_as_def ys
    by (cases xs) (auto simp: lists_as_def seg_append take_counts_def tag_all_def)
  have F: "lists_as (list_clear f) [] ?st" using k(2) by (simp add: lists_as_def list_clear_def base_clear_def)
  have sf: "same_frame (set ys) st ?st" using ys by (auto simp: same_frame_def tag_all_def)
  have kinds: "rs_kind ?l = rs_kind l" "rs_id ?l = rs_id l" "rs_kind (list_clear f) = rs_kind f" "rs_id (list_clear f) = rs_id f"
    by (simp_all add: take_counts_def list_clear_def base_clear_def)
  have m: "st_mt ?st = st_mt st" "st_unrealistic ?st = st_unrealistic st" by (simp_all add: tag_all_def)
  have v: "list_verify ?l ?st = Inr ()"
    by (rule list_verify_lists [OF L]) (use assms(4,6) kinds m in simp_all)
  have w: "list_verify (list_clear f) ?st = Inr ()"
    by (rule list_verify_lists [OF F]) (use assms(5,6) kinds m in simp_all)
  have "add_list_as_head f l st = Inr (list_clear f, ?l, ?st)"
    using assms(1,2,4,5,6) v w list_verify_lists [OF assms(1,4)] list_verify_lists [OF assms(2,5)] False ys
      lists_as_ends [OF assms(1)] lists_as_ends [OF assms(2)]
    by (cases xs) (simp_all add: add_list_as_head_def tag set_is_empty_def lists_as_def Let_def ends_agree_def)
  then show ?thesis using L F sf kinds by blast
qed

lemma add_list_as_tail_lists:
  assumes "lists_as l xs st" and "lists_as f ys st" and "set xs \<inter> set ys = {}"
    and "check_mt_safety (rs_kind l) (st_mt st)" "check_mt_safety (rs_kind f) (st_mt st)"
    and "length xs + length ys < st_unrealistic st"
    and "rs_kind l = MasterFreeRegionList \<Longrightarrow> \<forall>y \<in> set ys. st_rs_ready st y"
  shows "\<exists>f' l' st'. add_list_as_tail f l st = Inr (f', l', st') \<and> lists_as l' (xs @ ys) st' \<and> lists_as f' [] st' \<and>
    same_frame (set xs \<union> set ys) st st'"
proof (cases "ys = []")
  case True
  then have "rs_length f = 0" using assms(2) by (simp add: lists_as_def)
  then show ?thesis using True assms list_verify_lists [OF assms(1,4)] list_verify_lists [OF assms(2,5)]
    by (simp add: add_list_as_tail_def set_is_empty_def same_frame_def)
next
  case False
  have k: "linked_kind (rs_kind l)" "linked_kind (rs_kind f)" using assms(1,2) by (simp_all add: lists_as_def)
  have tag: "retag_regions (st_unrealistic st) f (rs_id l) (rl_head f) st = Inr (tag_all ys (Some (rs_id l)) st)"
    using assms(2,6) k by (intro retag_lists) (simp_all add: lists_as_def)
  let ?st = "if xs = [] then tag_all ys (Some (rs_id l)) st else set_next (last xs) (rl_head f) (tag_all ys (Some (rs_id l)) st)"
  let ?l = "take_counts f (if xs = [] then l\<lparr>rl_head := rl_head f, rl_tail := rl_tail f\<rparr> else l\<lparr>rl_tail := rl_tail f\<rparr>)"
  have fit: "fits ?l (Some (rs_id l)) x ?st" if "x \<in> set ys \<union> set xs" for x
    using that assms(1,2,3,7) k by (auto simp: lists_as_def fits_iff tag_all_def take_counts_def)
  have nx: "seg (st_next ?st) (rl_head ?l) (xs @ ys) None"
  proof (cases xs rule: rev_cases)
    case Nil
    then show ?thesis using assms(2) by (simp add: lists_as_def take_counts_def tag_all_def)
  next
    case (snoc us u)
    then have "u \<notin> set us" "u \<notin> set ys" "seg (st_next st) (rl_head l) us (Some u)" using assms(1,3)
      by (auto simp: lists_as_def seg_append)
    then show ?thesis using assms(2) snoc by (simp add: lists_as_def take_counts_def tag_all_def seg_append)
  qed
  have L: "lists_as ?l (xs @ ys) ?st"
    using assms(1,2,3) nx fit False by (auto simp: lists_as_def take_counts_def)
  have F: "lists_as (list_clear f) [] ?st" using k(2) by (simp add: lists_as_def list_clear_def base_clear_def)
  have sf: "same_frame (set xs \<union> set ys) st ?st" by (auto simp: same_frame_def tag_all_def)
  have kinds: "rs_kind ?l = rs_kind l" "rs_kind (list_clear f) = rs_kind f"
    by (simp_all add: take_counts_def list_clear_def base_clear_def)
  have m: "st_mt ?st = st_mt st" "st_unrealistic ?st = st_unrealistic st" by (simp_all add: tag_all_def)
  have v: "list_verify ?l ?st = Inr ()"
    by (rule list_verify_lists [OF L]) (use assms(4,6) kinds m in simp_all)
  have w: "list_verify (list_clear f) ?st = Inr ()"
    by (rule list_verify_lists [OF F]) (use assms(5,6) kinds m in simp_all)
  have "add_list_as_tail f l st = Inr (list_clear f, ?l, ?st)"
    using assms(1,2,4,5,6) v w list_verify_lists [OF assms(1,4)] list_verify_lists [OF assms(2,5)] False
      lists_as_ends [OF assms(1)] lists_as_ends [OF assms(2)]
    by (cases xs) (simp_all add: add_list_as_tail_def tag set_is_empty_def lists_as_def Let_def ends_agree_def)
  then show ?thesis using L F sf by blast
qed

lemma remove_all_lists:
  assumes "lists_as l xs st" and "check_mt_safety (rs_kind l) (st_mt st)" and "length xs < st_unrealistic st"
  shows "\<exists>l' st'. remove_all l st = Inr (l', st') \<and> lists_as l' [] st' \<and> (\<forall>x \<in> set xs. spare l x st') \<and>
    same_frame (set xs) st st'"
proof -
  have k: "linked_kind (rs_kind l)" using assms(1) by (simp add: lists_as_def)
  have F: "lists_as (list_clear l) [] (unlink_all xs st)" using k by (simp add: lists_as_def list_clear_def base_clear_def)
  have "list_verify (list_clear l) (unlink_all xs st) = Inr ()"
    using list_verify_lists [OF F] assms(2,3) by (simp add: unlink_all_def tag_all_def list_clear_def base_clear_def)
  moreover have "remove_all_loop (st_unrealistic st) l (rl_head l) st = Inr (unlink_all xs st)"
    using assms by (intro remove_all_loop_lists) (simp_all add: lists_as_def)
  ultimately have "remove_all l st = Inr (list_clear l, unlink_all xs st)"
    using assms(2) list_verify_lists [OF assms] by (simp add: remove_all_def Let_def)
  moreover have "spare l x (unlink_all xs st)" if "x \<in> set xs" for x
    using assms(1) that k by (simp add: spare_def fits_iff lists_as_def unlink_all_def tag_all_def)
  ultimately show ?thesis using F by (auto simp: same_frame_def unlink_all_def tag_all_def)
qed

text \<open>Removal of one region from the middle of a list, as the loop over the pending regions does it.\<close>

lemma unlink_lists:
  assumes "lists_as l (ds @ p # xs) st"
  defines "prev \<equiv> if ds = [] then None else Some (last ds)"
  shows "\<exists>l1 st1 l2 l3 st3.
    (case prev of None \<Rightarrow> vassert (rl_head l = Some p) ''invariant'' (Inr (l\<lparr>rl_head := st_next st p\<rparr>, st))
     | Some q \<Rightarrow> vassert (rl_head l \<noteq> Some p) ''invariant'' (Inr (l, set_next q (st_next st p) st))) = Inr (l1, st1) \<and>
    (if st_next st p = None then vassert (rl_tail l1 = Some p) ''invariant'' (Inr (l1\<lparr>rl_tail := prev\<rparr>))
     else vassert (rl_tail l1 \<noteq> Some p) ''invariant'' (Inr l1)) = Inr l2 \<and>
    remove_internal p l2 (set_next p None st1) = Inr (l3, st3) \<and> lists_as l3 (ds @ xs) st3 \<and> spare l p st3 \<and>
    same_frame (set (ds @ [p])) st st3 \<and> rs_id l3 = rs_id l \<and> rs_kind l3 = rs_kind l \<and>
    (\<forall>x. hr_pending_removal (st_hr st3 x) = hr_pending_removal (st_hr st x))"
proof -
  have k: "linked_kind (rs_kind l)" and fp: "fits l (Some (rs_id l)) p st"
    and d: "p \<notin> set ds" "p \<notin> set xs" "distinct ds" "distinct xs" "set ds \<inter> set xs = {}"
    and sg: "seg (st_next st) (rl_head l) ds (Some p)" "seg (st_next st) (st_next st p) xs None"
    and len: "rs_length l = Suc (length ds + length xs)" "rs_region_num l = Suc (length ds + length xs)" "rs_total_used_bytes l = 0"
    and tl: "rl_tail l = Some (last (p # xs))"
    and fit: "\<forall>x \<in> set ds \<union> set xs. fits l (Some (rs_id l)) x st"
    using assms(1) by (auto simp: lists_as_def seg_append)
  have n0: "st_next st p = None \<longleftrightarrow> xs = []" using sg(2) by (cases xs) auto
  have hd: "rl_head l = (case ds of [] \<Rightarrow> Some p | x # _ \<Rightarrow> Some x)" using sg(1) by (cases ds) auto
  define st1 where "st1 = (if ds = [] then st else set_next (last ds) (st_next st p) st)"
  define l1 where "l1 = (if ds = [] then l\<lparr>rl_head := st_next st p\<rparr> else l)"
  define l2 where "l2 = (if xs = [] then l1\<lparr>rl_tail := prev\<rparr> else l1)"
  define l3 where "l3 = l2\<lparr>rs_length := length ds + length xs, rs_region_num := length ds + length xs\<rparr>"
  define st3 where "st3 = tag_hr p None (set_next p None st1)"
  have q: "ds \<noteq> [] \<Longrightarrow> last ds \<noteq> p" "xs \<noteq> [] \<Longrightarrow> last xs \<noteq> p" using d last_in_set by blast+
  have 1: "(case prev of None \<Rightarrow> vassert (rl_head l = Some p) ''invariant'' (Inr (l\<lparr>rl_head := st_next st p\<rparr>, st))
     | Some q \<Rightarrow> vassert (rl_head l \<noteq> Some p) ''invariant'' (Inr (l, set_next q (st_next st p) st))) = Inr (l1, st1)"
    using hd d(1) by (cases ds) (simp_all add: prev_def st1_def l1_def)
  have 2: "(if st_next st p = None then vassert (rl_tail l1 = Some p) ''invariant'' (Inr (l1\<lparr>rl_tail := prev\<rparr>))
     else vassert (rl_tail l1 \<noteq> Some p) ''invariant'' (Inr l1)) = Inr l2"
    using n0 tl q(2) by (simp add: l1_def l2_def)
  have lk: "rs_kind l2 = rs_kind l" "rs_id l2 = rs_id l" "rs_length l2 = Suc (length ds + length xs)"
      "rs_region_num l2 = Suc (length ds + length xs)"
    using len by (simp_all add: l2_def l1_def)
  have "fits l2 (Some (rs_id l2)) p (set_next p None st1)"
    using fp k lk by (simp add: fits_iff st1_def)
  from remove_internal_member [OF _ this] have 3: "remove_internal p l2 (set_next p None st1) = Inr (l3, st3)"
    using k lk by (simp add: l3_def st3_def)
  have sg3: "seg (st_next st3) (rl_head l3) (ds @ xs) None"
  proof (cases ds rule: rev_cases)
    case Nil
    then show ?thesis using sg(2) d n0 by (auto simp: st3_def st1_def l3_def l2_def l1_def)
  next
    case (snoc us u)
    then have "u \<notin> set us" "u \<notin> set xs" "p \<notin> set us" "u \<noteq> p" "seg (st_next st) (rl_head l) us (Some u)"
      using d sg(1) by (auto simp: seg_append)
    then show ?thesis using sg(2) d snoc by (simp add: st3_def st1_def l3_def l2_def l1_def seg_append)
  qed
  have "lists_as l3 (ds @ xs) st3"
    using k d sg3 fit tl len unfolding lists_as_def
    by (auto simp: fits_iff l3_def l2_def l1_def st3_def st1_def prev_def)
  moreover have "spare l p st3" using fp k by (simp add: spare_def fits_iff st3_def st1_def)
  moreover have "same_frame (set (ds @ [p])) st st3" by (auto simp: same_frame_def st3_def st1_def)
  moreover have "\<forall>x. hr_pending_removal (st_hr st3 x) = hr_pending_removal (st_hr st x)" by (simp add: st3_def st1_def)
  moreover have "rs_id l3 = rs_id l" "rs_kind l3 = rs_kind l" by (simp_all add: l3_def lk)
  ultimately show ?thesis using 1 2 3 by blast
qed

lemma unpend_lists:
  assumes "lists_as l xs st" and "p \<notin> set xs" and "spare m p st" and "linked_kind (rs_kind m)" and "hr_pending_removal (st_hr st p)"
  shows "\<exists>st'. on_hr p (set_pending_removal False) st = Inr st' \<and> lists_as l xs st' \<and> spare m p st' \<and> same_frame {p} st st' \<and>
    \<not> hr_pending_removal (st_hr st' p) \<and> (\<forall>x. x \<noteq> p \<longrightarrow> st_hr st' x = st_hr st x)"
proof -
  have "hr_containing_set (st_hr st p) = None" using assms(3) fits_iff [OF assms(4)] by (simp add: spare_def)
  then have run: "on_hr p (set_pending_removal False) st = Inr (put_hr p ((st_hr st p)\<lparr>hr_pending_removal := False\<rparr>) st)"
    using assms(5) by (simp add: on_hr_def set_pending_removal_def)
  have "lists_as l xs (put_hr p ((st_hr st p)\<lparr>hr_pending_removal := False\<rparr>) st)"
    using assms(2) by (intro lists_as_frame [OF assms(1)]) auto
  moreover have "spare m p (put_hr p ((st_hr st p)\<lparr>hr_pending_removal := False\<rparr>) st)"
    using assms(3,4) by (simp add: spare_def fits_iff isHumongous_def used_def is_young_def capacity_def)
  ultimately show ?thesis using run by (simp add: same_frame_def)
qed

lemma same_frame_trans:
  "same_frame A st st' \<Longrightarrow> same_frame B st' st'' \<Longrightarrow> A \<subseteq> C \<Longrightarrow> B \<subseteq> C \<Longrightarrow> same_frame C st st''"
  unfolding same_frame_def by (simp add: subset_iff) metis

lemma remove_pending_loop_lists:
  assumes "lists_as l (ds @ xs) st" and "length xs \<le> n" and "tgt = cnt + length (filter (\<lambda>x. hr_pending_removal (st_hr st x)) xs)"
    and "cnt < tgt"
  shows "\<exists>l' st'. remove_pending_loop n tgt (if xs = [] then None else Some (hd xs)) (if ds = [] then None else Some (last ds)) cnt l st
        = Inr (tgt, l', st') \<and>
     lists_as l' (ds @ filter (\<lambda>x. \<not> hr_pending_removal (st_hr st x)) xs) st' \<and> rs_id l' = rs_id l \<and> rs_kind l' = rs_kind l \<and>
     same_frame (set (ds @ xs)) st st'"
  using assms
proof (induction xs arbitrary: ds n cnt l st)
  case Nil
  then show ?case by simp
next
  case (Cons p xs)
  obtain m where n: "n = Suc m" using Cons.prems(2) by (cases n) auto
  have k: "linked_kind (rs_kind l)" and v: "verify_region l (Some (rs_id l)) p st" and d: "distinct (ds @ p # xs)"
    and nxt: "st_next st p = (if xs = [] then None else Some (hd xs))"
    using Cons.prems(1) by (auto simp: lists_as_def fits_def seg_append neq_Nil_conv)
  show ?case
  proof (cases "hr_pending_removal (st_hr st p)")
    case False
    then show ?thesis using Cons.IH [of l "ds @ [p]" st m cnt] Cons.prems n v nxt by (simp add: Let_def)
  next
    case True
    from unlink_lists [OF Cons.prems(1)] obtain l1 st1 l2 l3 st3 where
      1: "(case if ds = [] then None else Some (last ds) of
            None \<Rightarrow> vassert (rl_head l = Some p) ''invariant'' (Inr (l\<lparr>rl_head := st_next st p\<rparr>, st))
          | Some q \<Rightarrow> vassert (rl_head l \<noteq> Some p) ''invariant'' (Inr (l, set_next q (st_next st p) st))) = Inr (l1, st1)" and
      2: "(if st_next st p = None then vassert (rl_tail l1 = Some p) ''invariant'' (Inr (l1\<lparr>rl_tail := if ds = [] then None else Some (last ds)\<rparr>))
           else vassert (rl_tail l1 \<noteq> Some p) ''invariant'' (Inr l1)) = Inr l2" and
      3: "remove_internal p l2 (set_next p None st1) = Inr (l3, st3)" "lists_as l3 (ds @ xs) st3" "spare l p st3"
        "same_frame (set (ds @ [p])) st st3" "rs_id l3 = rs_id l" "rs_kind l3 = rs_kind l"
        "\<forall>x. hr_pending_removal (st_hr st3 x) = hr_pending_removal (st_hr st x)" by blast
    from unpend_lists [OF 3(2) _ 3(3) k] obtain st4 where
      4: "on_hr p (set_pending_removal False) st3 = Inr st4" "lists_as l3 (ds @ xs) st4" "same_frame {p} st3 st4"
        "\<forall>x. x \<noteq> p \<longrightarrow> st_hr st4 x = st_hr st3 x"
      using d 3(7) True by auto
    have pend: "hr_pending_removal (st_hr st4 x) = hr_pending_removal (st_hr st x)" if "x \<in> set xs" for x
      using that 3(7) 4(4) d by auto
    have fl: "filter (\<lambda>x. hr_pending_removal (st_hr st4 x)) xs = filter (\<lambda>x. hr_pending_removal (st_hr st x)) xs"
        "filter (\<lambda>x. \<not> hr_pending_removal (st_hr st4 x)) xs = filter (\<lambda>x. \<not> hr_pending_removal (st_hr st x)) xs"
      using pend by (auto intro: filter_cong)
    have sf: "same_frame (set (ds @ p # xs)) st st4" by (rule same_frame_trans [OF 3(4) 4(3)]) auto
    have step: "remove_pending_loop n tgt (Some p) (if ds = [] then None else Some (last ds)) cnt l st =
        (if cnt + 1 = tgt then Inr (tgt, l3, st4)
         else remove_pending_loop m tgt (st_next st p) (if ds = [] then None else Some (last ds)) (cnt + 1) l3 st4)"
      using n v True Cons.prems(4) by (simp add: Let_def 1 2 3(1) 4(1))
    show ?thesis
    proof (cases "cnt + 1 = tgt")
      case True
      then have "filter (\<lambda>x. \<not> hr_pending_removal (st_hr st x)) xs = xs"
        using Cons.prems(3) \<open>hr_pending_removal (st_hr st p)\<close> by (simp add: filter_empty_conv filter_id_conv)
      then show ?thesis using step True \<open>hr_pending_removal (st_hr st p)\<close> 3(5,6) 4(2) sf by simp
    next
      case False
      from Cons.IH [of l3 ds st4 m "cnt + 1"] obtain l' st' where
        "remove_pending_loop m tgt (st_next st p) (if ds = [] then None else Some (last ds)) (cnt + 1) l3 st4 = Inr (tgt, l', st')"
        "lists_as l' (ds @ filter (\<lambda>x. \<not> hr_pending_removal (st_hr st x)) xs) st'" "rs_id l' = rs_id l" "rs_kind l' = rs_kind l"
        "same_frame (set (ds @ xs)) st4 st'"
        using 4(2) Cons.prems n fl False True 3(5,6) nxt by auto
      moreover have "same_frame (set (ds @ p # xs)) st st'"
        by (rule same_frame_trans [OF sf \<open>same_frame (set (ds @ xs)) st4 st'\<close>]) auto
      ultimately show ?thesis using step False True by simp
    qed
  qed
qed

lemma remove_all_pending_lists:
  assumes "lists_as l xs st" and "check_mt_safety (rs_kind l) (st_mt st)" and "length xs < st_unrealistic st"
    and "tgt = length (filter (\<lambda>x. hr_pending_removal (st_hr st x)) xs)" and "1 < tgt"
  shows "\<exists>l' st'. remove_all_pending tgt l st = Inr (l', st') \<and>
    lists_as l' (filter (\<lambda>x. \<not> hr_pending_removal (st_hr st x)) xs) st' \<and> same_frame (set xs) st st'"
proof -
  have ne: "xs \<noteq> []" using assms(4,5) by auto
  then have hd: "rl_head l = Some (hd xs)" "rs_length l = length xs"
    using assms(1) by (auto simp: lists_as_def neq_Nil_conv)
  have fl: "filter (\<lambda>x. hr_pending_removal (st_hr st x)) xs \<noteq> []" using assms(4,5) by auto
  from remove_pending_loop_lists [of l "[]" xs st "st_unrealistic st" tgt 0] obtain l' st' where
    r: "remove_pending_loop (st_unrealistic st) tgt (rl_head l) None 0 l st = Inr (tgt, l', st')"
      "lists_as l' (filter (\<lambda>x. \<not> hr_pending_removal (st_hr st x)) xs) st'" "rs_kind l' = rs_kind l" "same_frame (set xs) st st'"
    using assms ne hd fl by auto
  have len: "length (filter (\<lambda>x. \<not> hr_pending_removal (st_hr st x)) xs) + tgt = length xs"
    using assms(4) sum_length_filter_compl [of "\<lambda>x. hr_pending_removal (st_hr st x)" xs] by simp
  have "list_verify l' st' = Inr ()"
    using list_verify_lists [OF r(2)] assms(2,3) r(3,4) len by (simp add: same_frame_def)
  moreover have "rs_length l' + tgt = rs_length l" using r(2) len hd(2) by (simp add: lists_as_def)
  ultimately have "remove_all_pending tgt l st = Inr (l', st')"
    using assms(2,5) list_verify_lists [OF assms(1-3)] r(1) ne hd(2)
    by (simp add: remove_all_pending_def set_is_empty_def)
  then show ?thesis using r by blast
qed

text \<open>A path of links that ends is free of repetitions.\<close>

lemma seg_inj: "seg nx p xs None \<Longrightarrow> seg nx p ys None \<Longrightarrow> xs = ys"
  by (induction xs arbitrary: p ys; case_tac ys) auto

lemma seg_suffix: "seg nx p xs None \<Longrightarrow> x \<in> set xs \<Longrightarrow> \<exists>us vs. xs = us @ x # vs \<and> seg nx (Some x) (x # vs) None"
  by (auto simp: in_set_conv_decomp seg_append) blast

lemma seg_distinct: "seg nx p xs None \<Longrightarrow> distinct xs"
proof (induction xs arbitrary: p)
  case (Cons x xs)
  have "x \<notin> set xs"
  proof
    assume "x \<in> set xs"
    then obtain us vs where "xs = us @ x # vs" "seg nx (Some x) (x # vs) None" using seg_suffix Cons.prems by force
    then have "x # vs = x # us @ x # vs" using Cons.prems seg_inj [of nx "Some x" "x # vs" "x # xs"] by auto
    then show False by simp
  qed
  then show ?case using Cons by auto
qed simp

lemma verify_loop_success:
  assumes "list_verify_loop l st p prev0 cnt c = Inr (q, c')"
  shows "\<exists>xs. seg (st_next st) p xs None \<and> (\<forall>x \<in> set xs. verify_region l (Some (rs_id l)) x st) \<and>
    q = (if xs = [] then prev0 else Some (last xs)) \<and> (xs = [] \<or> cnt + length xs < st_unrealistic st) \<and>
    calc_length c' = calc_length c + length xs"
  using assms
proof (induction l st p prev0 cnt c rule: list_verify_loop.induct)
  case (1 l st p prev0 cnt c)
  show ?case
  proof (cases p)
    case None
    then show ?thesis using "1.prems" by (subst (asm) list_verify_loop.simps) (auto intro: exI [of _ "[]"])
  next
    case (Some x)
    with "1.prems" obtain c1 where c1: "verify_next_region l x st c = Inr c1" "cnt + 1 < st_unrealistic st"
      "list_verify_loop l st (st_next st x) (Some x) (cnt + 1) c1 = Inr (q, c')"
      by (subst (asm) list_verify_loop.simps) (auto split: sum.splits if_splits)
    from "1.IH" [OF Some c1] obtain xs where xs: "seg (st_next st) (st_next st x) xs None"
      "\<forall>x \<in> set xs. verify_region l (Some (rs_id l)) x st" "q = (if xs = [] then Some x else Some (last xs))"
      "xs = [] \<or> cnt + 1 + length xs < st_unrealistic st" "calc_length c' = calc_length c1 + length xs" by auto
    have "verify_region l (Some (rs_id l)) x st" "calc_length c1 = calc_length c + 1"
      using c1(1) by (auto simp: verify_next_region_def vguarantee_def res_simps split: if_splits)
    then show ?thesis using xs Some c1(2) by (intro exI [of _ "x # xs"]) auto
  qed
qed

text \<open>A store of empty regions of 1024 bytes, as seen by a thread that holds the heap lock.\<close>

definition sample_store :: region_store where
  "sample_store =
     \<lparr>st_grain = \<lparr>LogOfHRGrainBytes = 10, LogOfHRGrainWords = 7, GrainBytes = 1024, GrainWords = 128, CardsPerRegion = 2\<rparr>,
      st_hr = (\<lambda>i. sample_region\<lparr>hr_index := i, hr_bottom := 128 * i, hr_top := 128 * i, hr_end := 128 * i + 128,
         hr_orig_end := 128 * i + 128, hr_prev_top_at_mark_start := 128 * i, hr_next_top_at_mark_start := 128 * i\<rparr>),
      st_next = (\<lambda>i. None), st_rs_ready = (\<lambda>i. True),
      st_mt = \<lparr>is_at_safepoint = False, is_VM_thread = False, Heap_lock = True, FreeList_lock = False, OldSets_lock = False,
               SecondaryFreeList_lock = False, mt_phase = HRSPhaseNone\<rparr>,
      st_unrealistic = 100\<rparr>"

section \<open>Properties\<close>

text \<open>C40. The linked lists of regions implement sequences: in every state in which a list represents
  a sequence of regions and its locking protocol is respected, adding a spare region at
  the head or the tail, taking the head, emptying the list and removing the regions marked
  for removal return without a failing assertion or guarantee, represent the corresponding
  sequence afterwards, and leave the other regions untouched.\<close>

theorem region_list_refines:
  assumes "lists_as l xs st" and "check_mt_safety (rs_kind l) (st_mt st)" and "length xs < st_unrealistic st"
  shows "(\<forall>p. spare l p st \<longrightarrow>
      (\<exists>l' st'. add_as_head p l st = Inr (l', st') \<and> lists_as l' (p # xs) st' \<and> same_frame {p} st st') \<and>
      (\<exists>l' st'. add_as_tail p l st = Inr (l', st') \<and> lists_as l' (xs @ [p]) st' \<and> same_frame (insert p (set xs)) st st')) \<and>
    (\<forall>q ys. xs = q # ys \<longrightarrow>
      (\<exists>l' st'. remove_head l st = Inr (q, l', st') \<and> lists_as l' ys st' \<and> spare l q st' \<and> same_frame {q} st st')) \<and>
    (\<exists>l' st'. remove_all l st = Inr (l', st') \<and> lists_as l' [] st' \<and> (\<forall>x \<in> set xs. spare l x st') \<and> same_frame (set xs) st st') \<and>
    (1 < length (filter (\<lambda>x. hr_pending_removal (st_hr st x)) xs) \<longrightarrow>
      (\<exists>l' st'. remove_all_pending (length (filter (\<lambda>x. hr_pending_removal (st_hr st x)) xs)) l st = Inr (l', st') \<and>
        lists_as l' (filter (\<lambda>x. \<not> hr_pending_removal (st_hr st x)) xs) st' \<and> same_frame (set xs) st st'))"
proof (intro conjI allI impI)
  fix p assume "spare l p st"
  then show "\<exists>l' st'. add_as_head p l st = Inr (l', st') \<and> lists_as l' (p # xs) st' \<and> same_frame {p} st st'"
    using add_as_head_lists [OF assms(1) _ assms(2)] by blast
next
  fix p assume "spare l p st"
  then show "\<exists>l' st'. add_as_tail p l st = Inr (l', st') \<and> lists_as l' (xs @ [p]) st' \<and> same_frame (insert p (set xs)) st st'"
    using add_as_tail_lists [OF assms(1) _ assms(2)] by blast
next
  fix q ys assume "xs = q # ys"
  then show "\<exists>l' st'. remove_head l st = Inr (q, l', st') \<and> lists_as l' ys st' \<and> spare l q st' \<and> same_frame {q} st st'"
    using remove_head_lists [of l q ys st] assms by blast
qed (use remove_all_lists [OF assms] remove_all_pending_lists [OF assms refl] in blast)+

theorem region_list_refines_witness:
  "\<exists>l' st'. add_as_head 3 (HeapRegionLinkedList 0 MasterFreeRegionList) sample_store = Inr (l', st') \<and> lists_as l' [3] st'"
proof -
  have "lists_as (HeapRegionLinkedList 0 MasterFreeRegionList) [] sample_store"
      "spare (HeapRegionLinkedList 0 MasterFreeRegionList) 3 sample_store"
    by (simp_all add: lists_as_def HeapRegionLinkedList_def linked_kind_def spare_def fits_iff sample_store_def
        sample_region_def isHumongous_def is_young_def used_def capacity_def HeapWordSize_def)
  then show ?thesis using region_list_refines [of "HeapRegionLinkedList 0 MasterFreeRegionList" "[]" sample_store]
    by (auto simp: HeapRegionLinkedList_def sample_store_def)
qed

text \<open>The verification of a list always ends, also on cyclic links, and it decides well-formedness:
  it passes exactly when the links from the head form a finite path without repetition to the
  recorded tail, of the recorded length, below the length bound, over regions that satisfy the
  requirements of the list and carry its tag.\<close>

theorem list_verify_decides:
  assumes "linked_kind (rs_kind l)" and "check_mt_safety (rs_kind l) (st_mt st)"
    and "\<And>p. \<not> isHumongous (st_hr st p) \<Longrightarrow> capacity (st_hr st p) = 2 ^ nat (LogOfHRGrainBytes (st_grain st))"
  shows "list_verify l st = Inr () \<longleftrightarrow> (\<exists>xs. lists_as l xs st \<and> (xs = [] \<or> length xs < st_unrealistic st))"
proof
  assume run: "list_verify l st = Inr ()"
  define c0 where "c0 = \<lparr>calc_length = 0, calc_region_num = 0, calc_total_capacity_bytes = 0, calc_total_used_bytes = 0\<rparr>"
  from run obtain q c where loop: "list_verify_loop l st (rl_head l) None 0 c0 = Inr (q, c)" and tl: "rl_tail l = q"
    and e: "rs_length l = calc_length c" and b: "rs_region_num l = rs_length l" "rs_total_used_bytes l = 0"
    using assms(1) linked_not_humongous [OF assms(1)]
    by (auto simp: list_verify_def verify_start_def base_verify_def verify_end_def vguarantee_def res_simps c0_def split: if_splits)
  obtain xs where xs: "seg (st_next st) (rl_head l) xs None" "\<forall>x \<in> set xs. verify_region l (Some (rs_id l)) x st"
      "q = (if xs = [] then None else Some (last xs))" "xs = [] \<or> length xs < st_unrealistic st" "calc_length c = length xs"
    using verify_loop_success [OF loop] by (auto simp: c0_def)
  then have "lists_as l xs st"
    using assms(1,3) tl e b seg_distinct [OF xs(1)] verify_linked(1) [OF assms(1)] by (auto simp: lists_as_def fits_def)
  with xs(4) show "\<exists>xs. lists_as l xs st \<and> (xs = [] \<or> length xs < st_unrealistic st)" by blast
next
  assume "\<exists>xs. lists_as l xs st \<and> (xs = [] \<or> length xs < st_unrealistic st)"
  then obtain xs where xs: "lists_as l xs st" "xs = [] \<or> length xs < st_unrealistic st" by blast
  show "list_verify l st = Inr ()"
  proof (cases "xs = []")
    case True
    then show ?thesis using xs(1) assms(2) linked_not_humongous [OF assms(1)]
      by (subst (1) list_verify_def, subst list_verify_loop.simps)
        (auto simp: verify_start_def base_verify_def verify_end_def vguarantee_def lists_as_def set_is_empty_def total_capacity_bytes_def)
  qed (use list_verify_lists [OF xs(1) assms(2)] xs(2) in simp)
qed

theorem list_verify_decides_witness:
  "list_verify (HeapRegionLinkedList 0 MasterFreeRegionList\<lparr>rl_head := Some 1, rl_tail := Some 1\<rparr>)
     (sample_store\<lparr>st_next := (\<lambda>i. Some 1)\<rparr>) \<noteq> Inr ()"
proof -
  let ?l = "HeapRegionLinkedList 0 MasterFreeRegionList\<lparr>rl_head := Some 1, rl_tail := Some 1\<rparr>"
  let ?st = "sample_store\<lparr>st_next := (\<lambda>i. Some 1)\<rparr>"
  have "\<not> lists_as ?l xs ?st" for xs by (cases xs) (auto simp: lists_as_def HeapRegionLinkedList_def)
  moreover have "linked_kind (rs_kind ?l)" "check_mt_safety (rs_kind ?l) (st_mt ?st)"
      "capacity (st_hr ?st p) = 2 ^ nat (LogOfHRGrainBytes (st_grain ?st))" for p
    by (simp_all add: HeapRegionLinkedList_def linked_kind_def sample_store_def sample_region_def capacity_def HeapWordSize_def)
  ultimately show ?thesis using list_verify_decides [of ?l ?st] by blast
qed

end
