(* ===== verification/Alloc_Region.thy ===== *)
theory Alloc_Region
  imports Region_Set
begin

text \<open>
  The allocation regions of G1 (\<^verbatim>\<open>g1AllocRegion\<close>) and their four kinds: the mutator, survivor, old
  and, per dynamic generation, the \<^verbatim>\<open>GenAllocRegion\<close>, with the parts of \<^verbatim>\<open>G1CollectedHeap\<close>,
  \<^verbatim>\<open>YoungList\<close> and \<^verbatim>\<open>G1CollectorPolicy\<close> that hand out and take back regions for them.
  The virtual functions \<^verbatim>\<open>allocate_new_region\<close> and \<^verbatim>\<open>retire_region\<close> are arguments of the generic
  operations; the locale \<open>region_provider\<close> states what the generic code needs of them and is
  interpreted for each kind.  What other threads allocate while an allocation is in progress
  is a list of request sizes.
\<close>

section \<open>The heap\<close>

record g1_heap =
  gh_st :: region_store
  gh_free_list :: region_list
  gh_secondary_free_list :: region_list
  gh_old_set :: region_set
  gh_humongous_set :: region_set
  gh_expand_heap_after_alloc_failure :: bool
  gh_dummy_region :: heap_region
  gh_gc_time_stamp :: nat
  gh_summary_bytes_used :: nat
  gh_bytes_copied_during_gc :: nat
  gh_during_initial_mark :: bool
  gh_next_young :: "nat \<Rightarrow> nat option"
  gh_young_head :: "nat option"
  gh_young_length :: nat
  gh_survivor_head :: "nat option"
  gh_survivor_tail :: "nat option"
  gh_survivor_length :: nat
  gh_young_list_target_length :: nat
  gh_young_list_max_length :: nat
  gh_max_survivor_regions :: nat
  gh_tenuring_threshold :: nat
  gh_all_regions_allocated :: int
  gh_inc_cset_active :: bool
  gh_next_in_cset :: "nat \<Rightarrow> nat option"
  gh_inc_cset_head :: "nat option"
  gh_inc_cset_tail :: "nat option"
  gh_inc_cset_bytes_used_before :: nat
  gh_inc_cset_recorded_rs_lengths :: nat
  gh_inc_cset_max_finger :: nat
  gh_enqueued :: "nat list"

text \<open>
  The environment: the stress flag, what a concurrent cleanup does to the heap between the waits
  for free regions (none left means no free regions are coming), the expansion of the
  heap, the size of the object at an address, and whether the build updates the block offset
  table of a region whose cards it enqueues (the makefile switches this off, with
  \<^verbatim>\<open>DISABLE_NG2C_PROF_BOT_UPDATES\<close>).
\<close>

record g1_env =
  env_G1StressConcRegionFreeing :: bool
  env_cleanup :: "(g1_heap \<Rightarrow> g1_heap) list"
  env_expand :: "nat \<Rightarrow> g1_heap \<Rightarrow> bool \<times> g1_heap"
  env_obj_size :: "nat \<Rightarrow> nat"
  env_bot_updates :: bool

abbreviation gh_hr :: "g1_heap \<Rightarrow> nat \<Rightarrow> heap_region" where
  "gh_hr h p \<equiv> st_hr (gh_st h) p"

abbreviation gh_grain :: "g1_heap \<Rightarrow> grain" where
  "gh_grain h \<equiv> st_grain (gh_st h)"

abbreviation gh_mt :: "g1_heap \<Rightarrow> mt_state" where
  "gh_mt h \<equiv> st_mt (gh_st h)"

definition gh_put :: "nat \<Rightarrow> heap_region \<Rightarrow> g1_heap \<Rightarrow> g1_heap" where
  "gh_put p r h = h\<lparr>gh_st := put_hr p r (gh_st h)\<rparr>"

definition gh_on :: "nat \<Rightarrow> (heap_region \<Rightarrow> heap_region res) \<Rightarrow> g1_heap \<Rightarrow> g1_heap res" where
  "gh_on p f h = rbind (f (gh_hr h p)) (\<lambda>r. Inr (gh_put p r h))"

definition g1_isHumongous :: "grain \<Rightarrow> nat \<Rightarrow> bool" where
  "g1_isHumongous g word_size = (GrainWords g div 2 < word_size)"

section \<open>Young list and policy\<close>

definition set_region_eden :: "nat \<Rightarrow> int \<Rightarrow> g1_heap \<Rightarrow> g1_heap res" where
  "set_region_eden p young_index_in_cset h =
     rbind (gh_on p (\<lambda>r. Inr (set_young_type Young r)) h) (\<lambda>h1.
     let next_age = gh_all_regions_allocated h1 + 1
     in rbind (gh_on p (install_surv_rate_group 0 next_age) (h1\<lparr>gh_all_regions_allocated := next_age\<rparr>)) (\<lambda>h2.
          gh_on p (set_young_index_in_cset young_index_in_cset) h2))"

definition push_region :: "nat \<Rightarrow> g1_heap \<Rightarrow> g1_heap res" where
  "push_region p h =
     vassert (\<not> is_young (gh_hr h p)) ''should not already be young''
    (vassert (gh_next_young h p = None) ''cause it should!''
      (let h1 = h\<lparr>gh_next_young := (gh_next_young h)(p := gh_young_head h), gh_young_head := Some p\<rparr>
       in rbind (set_region_eden p (int (gh_young_length h1)) h1) (\<lambda>h2.
            Inr (h2\<lparr>gh_young_length := gh_young_length h2 + 1\<rparr>))))"

definition add_survivor_region :: "nat \<Rightarrow> g1_heap \<Rightarrow> g1_heap res" where
  "add_survivor_region p h =
     vassert (is_survivor (gh_hr h p)) ''should be flagged as survivor region''
    (vassert (gh_next_young h p = None) ''cause it should!''
      (let h1 = h\<lparr>gh_next_young := (gh_next_young h)(p := gh_survivor_head h)\<rparr>;
           h2 = (if gh_survivor_head h1 = None then h1\<lparr>gh_survivor_tail := Some p\<rparr> else h1)
       in Inr (h2\<lparr>gh_survivor_head := Some p, gh_survivor_length := gh_survivor_length h2 + 1\<rparr>)))"

definition is_young_list_full :: "g1_heap \<Rightarrow> bool" where
  "is_young_list_full h = (gh_young_list_target_length h \<le> gh_young_length h)"

definition can_expand_young_list :: "g1_heap \<Rightarrow> bool" where
  "can_expand_young_list h = (gh_young_length h < gh_young_list_max_length h)"

datatype gc_alloc_purpose = GCAllocForTenured | GCAllocForSurvived

text \<open>\<open>None\<close> is \<^verbatim>\<open>REGIONS_UNLIMITED\<close>, the largest value of the count.\<close>

fun max_regions :: "gc_alloc_purpose \<Rightarrow> g1_heap \<Rightarrow> nat option" where
  "max_regions GCAllocForSurvived h = Some (gh_max_survivor_regions h)"
| "max_regions GCAllocForTenured h = None"

definition note_alloc_region_limit_reached :: "gc_alloc_purpose \<Rightarrow> g1_heap \<Rightarrow> g1_heap" where
  "note_alloc_region_limit_reached ap h =
     (if ap = GCAllocForSurvived then h\<lparr>gh_tenuring_threshold := 0\<rparr> else h)"

text \<open>The predicted times of the regions are floating-point statistics and are left out.\<close>

definition add_to_incremental_cset_info :: "nat \<Rightarrow> nat \<Rightarrow> g1_heap \<Rightarrow> g1_heap" where
  "add_to_incremental_cset_info p rs_len h =
     h\<lparr>gh_inc_cset_recorded_rs_lengths := gh_inc_cset_recorded_rs_lengths h + rs_len,
       gh_inc_cset_bytes_used_before := gh_inc_cset_bytes_used_before h + used (gh_hr h p)\<rparr>"

definition add_region_to_incremental_cset_common :: "nat \<Rightarrow> g1_heap \<Rightarrow> g1_heap res" where
  "add_region_to_incremental_cset_common p h =
     vassert (is_young (gh_hr h p)) ''invariant''
    (vassert (-1 < hr_young_index_in_cset (gh_hr h p)) ''should have already been set''
    (vassert (gh_inc_cset_active h) ''Precondition''
      (let h1 = add_to_incremental_cset_info p (card (hr_rem_set (gh_hr h p))) h;
           h2 = h1\<lparr>gh_inc_cset_max_finger := max (gh_inc_cset_max_finger h1) (hr_end (gh_hr h p))\<rparr>
       in vassert (\<not> hr_in_cset (gh_hr h2 p)) ''invariant''
            (rbind (gh_on p (\<lambda>r. Inr (r\<lparr>hr_in_cset := True\<rparr>)) h2) (\<lambda>h3.
               vassert (gh_next_in_cset h3 p = None) ''invariant'' (Inr h3))))))"

definition add_region_to_incremental_cset_lhs :: "nat \<Rightarrow> g1_heap \<Rightarrow> g1_heap res" where
  "add_region_to_incremental_cset_lhs p h =
     vassert (\<not> is_survivor (gh_hr h p)) ''Logic''
       (rbind (add_region_to_incremental_cset_common p h) (\<lambda>h1.
          let h2 = h1\<lparr>gh_next_in_cset := (gh_next_in_cset h1)(p := gh_inc_cset_head h1)\<rparr>
          in rbind (if gh_inc_cset_head h2 = None
                    then vassert (gh_inc_cset_tail h2 = None) ''Invariant'' (Inr (h2\<lparr>gh_inc_cset_tail := Some p\<rparr>))
                    else Inr h2) (\<lambda>h3. Inr (h3\<lparr>gh_inc_cset_head := Some p\<rparr>))))"

definition add_region_to_incremental_cset_rhs :: "nat \<Rightarrow> g1_heap \<Rightarrow> g1_heap res" where
  "add_region_to_incremental_cset_rhs p h =
     vassert (is_survivor (gh_hr h p)) ''Logic''
       (rbind (add_region_to_incremental_cset_common p h) (\<lambda>h1.
          rbind (case gh_inc_cset_tail h1 of
                   None \<Rightarrow> vassert (gh_inc_cset_head h1 = None) ''invariant'' (Inr (h1\<lparr>gh_inc_cset_head := Some p\<rparr>))
                 | Some t \<Rightarrow> Inr (h1\<lparr>gh_next_in_cset := (gh_next_in_cset h1)(t := Some p)\<rparr>))
            (\<lambda>h2. Inr (h2\<lparr>gh_inc_cset_tail := Some p\<rparr>))))"

section \<open>Free regions\<close>

definition set_secondary_lock :: "bool \<Rightarrow> g1_heap \<Rightarrow> g1_heap" where
  "set_secondary_lock b h =
     h\<lparr>gh_st := (gh_st h)\<lparr>st_mt := (gh_mt h)\<lparr>SecondaryFreeList_lock := b\<rparr>\<rparr>\<rparr>"

definition append_secondary_free_list :: "g1_heap \<Rightarrow> g1_heap res" where
  "append_secondary_free_list h =
     rbind (add_list_as_head (gh_secondary_free_list h) (gh_free_list h) (gh_st h)) (\<lambda>(sec, fl, st).
       Inr (h\<lparr>gh_secondary_free_list := sec, gh_free_list := fl, gh_st := st\<rparr>))"

definition take_free :: "g1_heap \<Rightarrow> (nat option \<times> g1_heap) res" where
  "take_free h =
     rbind (remove_head_or_null (gh_free_list h) (gh_st h)) (\<lambda>(p, fl, st).
       Inr (p, h\<lparr>gh_free_list := fl, gh_st := st\<rparr>))"

fun try_secondary_loop :: "(g1_heap \<Rightarrow> g1_heap) list \<Rightarrow> g1_heap \<Rightarrow> (nat option \<times> g1_heap) res" where
  "try_secondary_loop waits h =
     (if \<not> set_is_empty (gh_secondary_free_list h)
      then rbind (append_secondary_free_list h) (\<lambda>h1.
             vassert (\<not> set_is_empty (gh_free_list h1)) ''we should have moved at least one entry to the free_list''
               (rbind (remove_head (gh_free_list h1) (gh_st h1)) (\<lambda>(p, fl, st).
                  Inr (Some p, h1\<lparr>gh_free_list := fl, gh_st := st\<rparr>))))
      else (case waits of [] \<Rightarrow> Inr (None, h) | w # ws \<Rightarrow> try_secondary_loop ws (w h)))"

declare try_secondary_loop.simps [simp del]

definition new_region_try_secondary_free_list :: "g1_env \<Rightarrow> g1_heap \<Rightarrow> (nat option \<times> g1_heap) res" where
  "new_region_try_secondary_free_list env h =
     rbind (try_secondary_loop (env_cleanup env) (set_secondary_lock True h)) (\<lambda>(p, h').
       Inr (p, set_secondary_lock False h'))"

definition new_region :: "g1_env \<Rightarrow> nat \<Rightarrow> bool \<Rightarrow> g1_heap \<Rightarrow> (nat option \<times> g1_heap) res" where
  "new_region env word_size do_expand h =
     vassert (\<not> g1_isHumongous (gh_grain h) word_size \<or> word_size \<le> GrainWords (gh_grain h))
       ''we are allocating a single humongous region''
      (rbind (if env_G1StressConcRegionFreeing env \<and> \<not> set_is_empty (gh_secondary_free_list h)
              then new_region_try_secondary_free_list env h else Inr (None, h)) (\<lambda>(res0, h0).
        if res0 \<noteq> None then Inr (res0, h0)
        else rbind (take_free h0) (\<lambda>(res1, h1).
             rbind (if res1 = None then new_region_try_secondary_free_list env h1 else Inr (res1, h1)) (\<lambda>(res2, h2).
               if res2 = None \<and> do_expand \<and> gh_expand_heap_after_alloc_failure h2
               then vassert (is_at_safepoint (gh_mt h2) \<or> Heap_lock (gh_mt h2)) ''invariant''
                      (let (ok, h3) = env_expand env (word_size * HeapWordSize) h2
                       in if ok then take_free h3
                          else Inr (None, h3\<lparr>gh_expand_heap_after_alloc_failure := False\<rparr>))
               else Inr (res2, h2)))))"

section \<open>Allocation regions\<close>

datatype ar_ptr = AR_Null | AR_Dummy | AR_Region nat

record alloc_region =
  ar_region :: ar_ptr
  ar_count :: nat
  ar_used_bytes_before :: nat
  ar_bot_updates :: bool

record gen_alloc_region = alloc_region +
  gr_gen :: int
  gr_epoch :: int
  gr_nregions :: int

definition min_fill_size :: nat where "min_fill_size = 2"

definition G1AllocRegion :: "bool \<Rightarrow> alloc_region" where
  "G1AllocRegion bot_updates =
     \<lparr>ar_region = AR_Null, ar_count = 0, ar_used_bytes_before = 0, ar_bot_updates = bot_updates\<rparr>"

definition ar_allocate :: "bool \<Rightarrow> nat \<Rightarrow> heap_region \<Rightarrow> (nat option \<times> heap_region) res" where
  "ar_allocate bot_updates word_size r =
     (if \<not> bot_updates then allocate_no_bot_updates word_size r else Inr (hr_allocate word_size r))"

text \<open>\<open>ss\<close> are the sizes other threads request from the region in the meantime.\<close>

definition ar_par_allocate :: "bool \<Rightarrow> nat list \<Rightarrow> nat \<Rightarrow> heap_region \<Rightarrow> (nat option \<times> heap_region) res" where
  "ar_par_allocate bot_updates ss word_size r =
     vassert (\<not> hr_is_empty r) ''pre-condition''
       (if \<not> bot_updates then par_allocate_no_bot_updates (map (compete (hr_end r)) ss) word_size r
        else Inr (hr_par_allocate (map (compete (hr_end r)) ss) word_size r))"

definition ar_setup :: "heap_region \<Rightarrow> g1_heap \<Rightarrow> g1_heap res" where
  "ar_setup dummy h =
     vassert (free dummy = 0) ''pre-condition''
    (rbind (ar_allocate False 1 dummy) (\<lambda>(x, _). vassert (x = None) ''should fail''
    (rbind (ar_par_allocate False [] 1 dummy) (\<lambda>(x, _). vassert (x = None) ''should fail''
    (rbind (ar_allocate True 1 dummy) (\<lambda>(x, _). vassert (x = None) ''should fail''
    (rbind (ar_par_allocate True [] 1 dummy) (\<lambda>(x, _). vassert (x = None) ''should fail''
      (Inr (h\<lparr>gh_dummy_region := dummy\<rparr>))))))))))"

text \<open>
  The loop that fills up a region; \<open>batches\<close> are the requests that get in before each attempt.
  Without interference the attempt takes all that is left.  The loop is modelled on the state of
  the region: the filler object that \<^verbatim>\<open>fill_with_object\<close> writes into the block it took is a
  matter of the memory, which the theory of object layouts has, and does not show here.
\<close>

fun fill_up_loop :: "bool \<Rightarrow> nat list list \<Rightarrow> nat \<Rightarrow> heap_region \<Rightarrow> heap_region res" where
  "fill_up_loop bot_updates batches free_word_size r =
     (if min_fill_size \<le> free_word_size
      then rbind (ar_par_allocate bot_updates (case batches of [] \<Rightarrow> [] | ss # _ \<Rightarrow> ss) free_word_size r) (\<lambda>(dummy, r1).
             case dummy of
               Some p \<Rightarrow> set_pre_dummy_top p r1
             | None \<Rightarrow>
                 (case batches of
                    [] \<Rightarrow> Inl (Diverged ''fill_up_remaining_space'')
                  | _ # rest \<Rightarrow> fill_up_loop bot_updates rest (free r1 div HeapWordSize) r1))
      else Inr r)"

declare fill_up_loop.simps [simp del]

definition fill_up_remaining_space :: "bool \<Rightarrow> nat list list \<Rightarrow> heap_region \<Rightarrow> heap_region res" where
  "fill_up_remaining_space bot_updates batches r =
     rbind (fill_up_loop bot_updates batches (free r div HeapWordSize) r) (\<lambda>r1.
       vassert (free r1 div HeapWordSize < min_fill_size) ''post-condition'' (Inr r1))"

type_synonym 'a retirer = "nat \<Rightarrow> nat \<Rightarrow> 'a alloc_region_scheme \<Rightarrow> g1_heap \<Rightarrow> g1_heap res"

type_synonym 'a allocator =
  "nat \<Rightarrow> bool \<Rightarrow> 'a alloc_region_scheme \<Rightarrow> g1_heap \<Rightarrow> (nat option \<times> 'a alloc_region_scheme \<times> g1_heap) res"

definition retire ::
    "'a retirer \<Rightarrow> nat list list \<Rightarrow> bool \<Rightarrow> 'a alloc_region_scheme \<Rightarrow> g1_heap \<Rightarrow> ('a alloc_region_scheme \<times> g1_heap) res" where
  "retire retire_region batches fill_up ar h =
     (case ar_region ar of
        AR_Null \<Rightarrow> Inl (Assert_Failed ''not initialized properly'')
      | AR_Dummy \<Rightarrow> Inr (ar, h)
      | AR_Region p \<Rightarrow>
          vassert (\<not> hr_is_empty (gh_hr h p)) ''the alloc region should never be empty''
            (rbind (if fill_up then gh_on p (fill_up_remaining_space (ar_bot_updates ar) batches) h else Inr h) (\<lambda>h1.
               vassert (ar_used_bytes_before ar \<le> used (gh_hr h1 p)) ''invariant''
                 (let allocated_bytes = used (gh_hr h1 p) - ar_used_bytes_before ar
                  in rbind (retire_region p allocated_bytes ar h1) (\<lambda>h2.
                       Inr (ar\<lparr>ar_used_bytes_before := 0, ar_region := AR_Dummy\<rparr>, h2))))))"

definition new_alloc_region_and_allocate ::
    "'a allocator \<Rightarrow> nat \<Rightarrow> bool \<Rightarrow> 'a alloc_region_scheme \<Rightarrow> g1_heap \<Rightarrow> (nat option \<times> 'a alloc_region_scheme \<times> g1_heap) res" where
  "new_alloc_region_and_allocate allocate_new_region word_size force ar h =
     vassert (ar_region ar = AR_Dummy) ''pre-condition''
    (vassert (ar_used_bytes_before ar = 0) ''pre-condition''
      (rbind (allocate_new_region word_size force ar h) (\<lambda>(new, ar1, h1).
         case new of
           None \<Rightarrow> Inr (None, ar1, h1)
         | Some p \<Rightarrow>
             let r = reset_pre_dummy_top (gh_hr h1 p);
                 ar2 = ar1\<lparr>ar_used_bytes_before := used r\<rparr>
             in rbind (ar_allocate (ar_bot_updates ar2) word_size r) (\<lambda>(result, r1).
                  vassert (result \<noteq> None) ''the allocation should succeeded''
                    (Inr (result, ar2\<lparr>ar_region := AR_Region p, ar_count := ar_count ar2 + 1\<rparr>, gh_put p r1 h1))))))"

definition ar_get :: "'a alloc_region_scheme \<Rightarrow> nat option" where
  "ar_get ar = (case ar_region ar of AR_Region p \<Rightarrow> Some p | _ \<Rightarrow> None)"

definition ar_init :: "'a alloc_region_scheme \<Rightarrow> 'a alloc_region_scheme res" where
  "ar_init ar =
     vassert (ar_region ar = AR_Null \<and> ar_used_bytes_before ar = 0) ''pre-condition''
       (Inr (ar\<lparr>ar_region := AR_Dummy, ar_count := 0\<rparr>))"

definition ar_set :: "nat \<Rightarrow> 'a alloc_region_scheme \<Rightarrow> g1_heap \<Rightarrow> 'a alloc_region_scheme res" where
  "ar_set p ar h =
     vassert (\<not> hr_is_empty (gh_hr h p)) ''pre-condition''
    (vassert (ar_region ar = AR_Dummy \<and> ar_used_bytes_before ar = 0 \<and> ar_count ar = 0) ''pre-condition''
      (Inr (ar\<lparr>ar_used_bytes_before := used (gh_hr h p), ar_region := AR_Region p, ar_count := ar_count ar + 1\<rparr>)))"

text \<open>The region an allocation region points to.\<close>

definition ar_hr :: "'a alloc_region_scheme \<Rightarrow> g1_heap \<Rightarrow> heap_region res" where
  "ar_hr ar h =
     (case ar_region ar of AR_Null \<Rightarrow> Inl (Null_Deref ''_alloc_region'') | AR_Dummy \<Rightarrow> Inr (gh_dummy_region h)
      | AR_Region p \<Rightarrow> Inr (gh_hr h p))"

definition release ::
    "'a retirer \<Rightarrow> nat list list \<Rightarrow> 'a alloc_region_scheme \<Rightarrow> g1_heap \<Rightarrow> (nat option \<times> 'a alloc_region_scheme \<times> g1_heap) res" where
  "release retire_region batches ar h =
     rbind (ar_hr ar h) (\<lambda>r.
     rbind (retire retire_region batches (0 < hr_gen r) ar h) (\<lambda>(ar1, h1).
       vassert (ar_region ar1 = AR_Dummy) ''post-condition of retire()''
         (Inr (ar_get ar, ar1\<lparr>ar_region := AR_Null\<rparr>, h1))))"

definition attempt_allocation ::
    "nat list \<Rightarrow> nat \<Rightarrow> bool \<Rightarrow> 'a alloc_region_scheme \<Rightarrow> g1_heap \<Rightarrow> (nat option \<times> g1_heap) res" where
  "attempt_allocation ss word_size bot_updates ar h =
     vassert (bot_updates = ar_bot_updates ar) ''pre-condition''
       (case ar_region ar of
          AR_Null \<Rightarrow> Inl (Assert_Failed ''not initialized properly'')
        | AR_Dummy \<Rightarrow> rbind (ar_par_allocate bot_updates ss word_size (gh_dummy_region h)) (\<lambda>(result, r).
                        Inr (result, h\<lparr>gh_dummy_region := r\<rparr>))
        | AR_Region p \<Rightarrow> rbind (ar_par_allocate bot_updates ss word_size (gh_hr h p)) (\<lambda>(result, r).
                          Inr (result, gh_put p r h)))"

definition attempt_allocation_locked ::
    "'a allocator \<Rightarrow> 'a retirer \<Rightarrow> nat list \<Rightarrow> nat list list \<Rightarrow> nat \<Rightarrow> bool \<Rightarrow> 'a alloc_region_scheme \<Rightarrow> g1_heap
     \<Rightarrow> (nat option \<times> 'a alloc_region_scheme \<times> g1_heap) res" where
  "attempt_allocation_locked allocate_new_region retire_region ss batches word_size bot_updates ar h =
     rbind (attempt_allocation ss word_size bot_updates ar h) (\<lambda>(result, h1).
       if result \<noteq> None then Inr (result, ar, h1)
       else rbind (retire retire_region batches True ar h1) (\<lambda>(ar2, h2).
            new_alloc_region_and_allocate allocate_new_region word_size False ar2 h2))"

definition attempt_allocation_force ::
    "'a allocator \<Rightarrow> nat \<Rightarrow> bool \<Rightarrow> 'a alloc_region_scheme \<Rightarrow> g1_heap \<Rightarrow> (nat option \<times> 'a alloc_region_scheme \<times> g1_heap) res" where
  "attempt_allocation_force allocate_new_region word_size bot_updates ar h =
     vassert (bot_updates = ar_bot_updates ar) ''pre-condition''
    (vassert (ar_region ar \<noteq> AR_Null) ''not initialized properly''
      (new_alloc_region_and_allocate allocate_new_region word_size True ar h))"

section \<open>The four kinds of allocation region\<close>

definition new_mutator_alloc_region :: "g1_env \<Rightarrow> nat \<Rightarrow> bool \<Rightarrow> g1_heap \<Rightarrow> (nat option \<times> g1_heap) res" where
  "new_mutator_alloc_region env word_size force h =
     vassert (Heap_lock (gh_mt h) \<or> is_at_safepoint (gh_mt h) \<and> is_VM_thread (gh_mt h)) ''should be VM thread''
    (vassert (\<not> force \<or> can_expand_young_list h) ''if force is true we should be able to expand the young list''
      (if force \<or> \<not> is_young_list_full h
       then rbind (new_region env word_size False h) (\<lambda>(new, h1).
              case new of
                Some p \<Rightarrow> rbind (push_region p h1) (\<lambda>h2. Inr (Some p, h2))
              | None \<Rightarrow> Inr (None, h1))
       else Inr (None, h)))"

definition retire_mutator_alloc_region :: "nat \<Rightarrow> nat \<Rightarrow> g1_heap \<Rightarrow> g1_heap res" where
  "retire_mutator_alloc_region p allocated_bytes h =
     vassert (Heap_lock (gh_mt h) \<or> is_at_safepoint (gh_mt h) \<and> is_VM_thread (gh_mt h)) ''should be VM thread''
    (vassert (is_young (gh_hr h p)) ''all mutator alloc regions should be young''
      (rbind (add_region_to_incremental_cset_lhs p h) (\<lambda>h1.
         Inr (h1\<lparr>gh_summary_bytes_used := gh_summary_bytes_used h1 + allocated_bytes\<rparr>))))"

definition new_gc_alloc_region :: "g1_env \<Rightarrow> nat \<Rightarrow> nat \<Rightarrow> gc_alloc_purpose \<Rightarrow> g1_heap \<Rightarrow> (nat option \<times> g1_heap) res" where
  "new_gc_alloc_region env word_size cnt ap h =
     vassert (FreeList_lock (gh_mt h)) ''pre-condition''
       (if (case max_regions ap h of None \<Rightarrow> True | Some m \<Rightarrow> cnt < m)
        then rbind (new_region env word_size True h) (\<lambda>(new, h1).
               case new of
                 Some p \<Rightarrow>
                   rbind (gh_on p (\<lambda>r. Inr (set_saved_mark (gh_gc_time_stamp h1) r)) h1) (\<lambda>h2.
                   rbind (gh_on p (\<lambda>r. Inr (if ap = GCAllocForSurvived then set_young_type Survivor r else r)) h2) (\<lambda>h3.
                   rbind (gh_on p (note_start_of_copying (gh_during_initial_mark h3)) h3) (\<lambda>h4. Inr (Some p, h4))))
               | None \<Rightarrow> Inr (None, note_alloc_region_limit_reached ap h1))
        else Inr (None, h))"

definition retire_gc_alloc_region :: "nat \<Rightarrow> nat \<Rightarrow> gc_alloc_purpose \<Rightarrow> g1_heap \<Rightarrow> g1_heap res" where
  "retire_gc_alloc_region p allocated_bytes ap h =
     rbind (gh_on p (note_end_of_copying (gh_during_initial_mark h)) h) (\<lambda>h1.
       let h2 = h1\<lparr>gh_bytes_copied_during_gc := gh_bytes_copied_during_gc h1 + allocated_bytes\<rparr>
       in if ap = GCAllocForSurvived then add_survivor_region p h2
          else rbind (set_add p (gh_old_set h2) (gh_st h2)) (\<lambda>(s, st). Inr (h2\<lparr>gh_old_set := s, gh_st := st\<rparr>)))"

definition new_gen_alloc_region :: "g1_env \<Rightarrow> nat \<Rightarrow> nat \<Rightarrow> g1_heap \<Rightarrow> (nat option \<times> g1_heap) res" where
  "new_gen_alloc_region env word_size cnt h =
     vassert (Heap_lock (gh_mt h)) ''pre-condition''
       (if (case max_regions GCAllocForTenured h of None \<Rightarrow> True | Some m \<Rightarrow> cnt < m)
        then rbind (new_region env word_size True h) (\<lambda>(new, h1).
               vassert (new \<noteq> None) ''New gen alloc regions should always succeed.''
                 (case new of
                    Some p \<Rightarrow> rbind (gh_on p (\<lambda>r. Inr (set_saved_mark (gh_gc_time_stamp h1) r)) h1) (\<lambda>h2. Inr (Some p, h2))
                  | None \<Rightarrow> Inr (None, h1)))
        else Inr (None, h))"

definition retire_gen_alloc_region :: "nat \<Rightarrow> nat \<Rightarrow> g1_heap \<Rightarrow> g1_heap res" where
  "retire_gen_alloc_region p allocated_bytes h =
     (let h1 = h\<lparr>gh_summary_bytes_used := gh_summary_bytes_used h + used (gh_hr h p)\<rparr>
      in rbind (set_add p (gh_old_set h1) (gh_st h1)) (\<lambda>(s, st). Inr (h1\<lparr>gh_old_set := s, gh_st := st\<rparr>)))"

definition mutator_allocate_new_region :: "g1_env \<Rightarrow> unit allocator" where
  "mutator_allocate_new_region env word_size force ar h =
     rbind (new_mutator_alloc_region env word_size force h) (\<lambda>(p, h1). Inr (p, ar, h1))"

definition mutator_retire_region :: "unit retirer" where
  "mutator_retire_region p allocated_bytes ar h = retire_mutator_alloc_region p allocated_bytes h"

definition survivor_allocate_new_region :: "g1_env \<Rightarrow> unit allocator" where
  "survivor_allocate_new_region env word_size force ar h =
     vassert (\<not> force) ''not supported for GC alloc regions''
       (rbind (new_gc_alloc_region env word_size (ar_count ar) GCAllocForSurvived h) (\<lambda>(p, h1). Inr (p, ar, h1)))"

definition survivor_retire_region :: "unit retirer" where
  "survivor_retire_region p allocated_bytes ar h = retire_gc_alloc_region p allocated_bytes GCAllocForSurvived h"

definition old_allocate_new_region :: "g1_env \<Rightarrow> unit allocator" where
  "old_allocate_new_region env word_size force ar h =
     vassert (\<not> force) ''not supported for GC alloc regions''
       (rbind (new_gc_alloc_region env word_size (ar_count ar) GCAllocForTenured h) (\<lambda>(p, h1). Inr (p, ar, h1)))"

definition old_retire_region :: "unit retirer" where
  "old_retire_region p allocated_bytes ar h = retire_gc_alloc_region p allocated_bytes GCAllocForTenured h"

definition gen_allocate_new_region ::
    "g1_env \<Rightarrow> nat \<Rightarrow> bool \<Rightarrow> gen_alloc_region \<Rightarrow> g1_heap \<Rightarrow> (nat option \<times> gen_alloc_region \<times> g1_heap) res" where
  "gen_allocate_new_region env word_size force ar h =
     vassert (\<not> force) ''not supported for Gen alloc regions''
       (rbind (new_gen_alloc_region env word_size (ar_count ar) h) (\<lambda>(region, h1).
          vassert (region \<noteq> None) ''New gen alloc regions shouldn't return NULL.''
            (rbind (deref region ''region'') (\<lambda>p.
             rbind (gh_on p (\<lambda>r. Inr (set_epoch (gr_epoch ar) (set_gen_alloc_region True (set_gen (gr_gen ar) r)))) h1) (\<lambda>h2.
               Inr (Some p, ar\<lparr>gr_nregions := gr_nregions ar + 1\<rparr>, h2))))))"

definition enqueue_gen_cards :: "g1_env \<Rightarrow> nat \<Rightarrow> g1_heap \<Rightarrow> g1_heap res" where
  "enqueue_gen_cards env p h =
     rbind (if env_bot_updates env
            then (case bot_update_all (env_obj_size env) (gh_hr h p) of
                    None \<Rightarrow> Inl (Diverged ''bot_update_all'')
                  | Some r \<Rightarrow> Inr (gh_put p r h))
            else Inr h)
       (\<lambda>h1. Inr (h1\<lparr>gh_enqueued := p # gh_enqueued h1\<rparr>))"

definition gen_retire_region :: "g1_env \<Rightarrow> nat \<Rightarrow> nat \<Rightarrow> gen_alloc_region \<Rightarrow> g1_heap \<Rightarrow> g1_heap res" where
  "gen_retire_region env p allocated_bytes ar h =
     rbind (retire_gen_alloc_region p allocated_bytes h) (\<lambda>h1.
     rbind (gh_on p (\<lambda>r. Inr (set_gen_alloc_region False r)) h1) (\<lambda>h2.
       if hr_gen (gh_hr h2 p) \<noteq> 0 \<and> hr_active_tlabs (gh_hr h2 p) = 0
       then enqueue_gen_cards env p h2 else Inr h2))"

definition GenAllocRegion :: "int \<Rightarrow> gen_alloc_region res" where
  "GenAllocRegion gen =
     vassert (gen \<noteq> 0) ''gen alloc region should not belong to gen 0''
       (Inr \<lparr>ar_region = AR_Null, ar_count = 0, ar_used_bytes_before = 0, ar_bot_updates = True,
             gr_gen = gen, gr_epoch = 0, gr_nregions = 0\<rparr>)"

definition new_epoch :: "gen_alloc_region \<Rightarrow> gen_alloc_region" where
  "new_epoch ar = ar\<lparr>gr_epoch := gr_epoch ar + 1, gr_nregions := 0\<rparr>"

end
