(* ===== verification/Alloc_Progress.thy ===== *)
theory Alloc_Progress
  imports Alloc_Region
begin

text \<open>
  Correctness of the allocation regions.  \<open>heap_rep\<close> is the invariant of the heap: the two free
  lists are well-formed, disjoint, and hold only regions that are ready for use.  The locale
  \<open>region_provider\<close> states the contract of the virtual functions; from it follows, once
  for all kinds, that an allocation under the lock succeeds whenever a free region is left
  and the kind may take it, whatever other threads allocate in the meantime.
\<close>

section \<open>The invariant of the heap\<close>

text \<open>A region that is ready for use.\<close>

definition ready :: "g1_heap \<Rightarrow> nat \<Rightarrow> bool" where
  "ready h p =
     (st_rs_ready (gh_st h) p \<and> gh_next_young h p = None \<and> gh_next_in_cset h p = None \<and>
      region_inv (gh_grain h) (gh_hr h p) \<and> hr_surv_rate_group (gh_hr h p) = None \<and>
      hr_next_top_at_mark_start (gh_hr h p) = hr_bottom (gh_hr h p) \<and> \<not> hr_in_cset (gh_hr h p))"

definition heap_rep :: "g1_heap \<Rightarrow> nat list \<Rightarrow> nat list \<Rightarrow> bool" where
  "heap_rep h xs ys =
     (lists_as (gh_free_list h) xs (gh_st h) \<and> lists_as (gh_secondary_free_list h) ys (gh_st h) \<and>
      rs_kind (gh_free_list h) = MasterFreeRegionList \<and> rs_kind (gh_secondary_free_list h) = SecondaryFreeRegionList \<and>
      set xs \<inter> set ys = {} \<and> length xs + length ys < st_unrealistic (gh_st h) \<and>
      rs_kind (gh_old_set h) = MasterOldRegionSet \<and> \<not> SecondaryFreeList_lock (gh_mt h) \<and>
      is_young (gh_dummy_region h) \<and> hr_bottom (gh_dummy_region h) < hr_top (gh_dummy_region h) \<and>
      hr_top (gh_dummy_region h) = hr_end (gh_dummy_region h) \<and> 0 \<le> gh_all_regions_allocated h \<and>
      (gh_inc_cset_head h = None \<longrightarrow> gh_inc_cset_tail h = None) \<and> (\<forall>p \<in> set xs \<union> set ys. ready h p))"

text \<open>A region outside all sets and lists, neither humongous nor linked.\<close>

definition unowned :: "g1_heap \<Rightarrow> nat \<Rightarrow> bool" where
  "unowned h p =
     (hr_containing_set (gh_hr h p) = None \<and> st_next (gh_st h) p = None \<and> \<not> isHumongous (gh_hr h p) \<and>
      region_inv (gh_grain h) (gh_hr h p))"

lemma gh_put_simps [simp]:
  "gh_st (gh_put p r h) = put_hr p r (gh_st h)" "gh_free_list (gh_put p r h) = gh_free_list h"
  "gh_secondary_free_list (gh_put p r h) = gh_secondary_free_list h" "gh_old_set (gh_put p r h) = gh_old_set h"
  "gh_dummy_region (gh_put p r h) = gh_dummy_region h" "gh_next_young (gh_put p r h) = gh_next_young h"
  "gh_next_in_cset (gh_put p r h) = gh_next_in_cset h" "gh_all_regions_allocated (gh_put p r h) = gh_all_regions_allocated h"
  "gh_inc_cset_head (gh_put p r h) = gh_inc_cset_head h" "gh_inc_cset_tail (gh_put p r h) = gh_inc_cset_tail h"
  "gh_inc_cset_active (gh_put p r h) = gh_inc_cset_active h" "gh_during_initial_mark (gh_put p r h) = gh_during_initial_mark h"
  "gh_young_length (gh_put p r h) = gh_young_length h" "gh_young_list_target_length (gh_put p r h) = gh_young_list_target_length h"
  "gh_max_survivor_regions (gh_put p r h) = gh_max_survivor_regions h" "gh_gc_time_stamp (gh_put p r h) = gh_gc_time_stamp h"
  "gh_young_head (gh_put p r h) = gh_young_head h" "gh_summary_bytes_used (gh_put p r h) = gh_summary_bytes_used h"
  by (simp_all add: gh_put_def)

lemma rep_notin: "heap_rep h xs ys \<Longrightarrow> unowned h p \<Longrightarrow> p \<notin> set xs \<and> p \<notin> set ys"
  by (auto simp: heap_rep_def unowned_def lists_as_def fits_iff)

text \<open>The heaps agree up to the region \<open>p\<close> and what does not concern the free regions.\<close>

definition keeps :: "nat \<Rightarrow> g1_heap \<Rightarrow> g1_heap \<Rightarrow> bool" where
  "keeps p h h' =
     (gh_free_list h' = gh_free_list h \<and> gh_secondary_free_list h' = gh_secondary_free_list h \<and>
      rs_kind (gh_old_set h') = rs_kind (gh_old_set h) \<and> gh_dummy_region h' = gh_dummy_region h \<and>
      gh_grain h' = gh_grain h \<and> st_rs_ready (gh_st h') = st_rs_ready (gh_st h) \<and> gh_mt h' = gh_mt h \<and>
      st_unrealistic (gh_st h') = st_unrealistic (gh_st h) \<and>
      (\<forall>q. q \<noteq> p \<longrightarrow> gh_hr h' q = gh_hr h q \<and> st_next (gh_st h') q = st_next (gh_st h) q \<and>
             gh_next_young h' q = gh_next_young h q \<and> gh_next_in_cset h' q = gh_next_in_cset h q) \<and>
      gh_all_regions_allocated h \<le> gh_all_regions_allocated h' \<and>
      (gh_inc_cset_head h' = None \<longrightarrow> gh_inc_cset_head h = None \<and> gh_inc_cset_tail h' = gh_inc_cset_tail h))"

lemma keeps_rep:
  assumes "heap_rep h xs ys" and "keeps p h h'" and "p \<notin> set xs" "p \<notin> set ys"
  shows "heap_rep h' xs ys"
proof -
  have eq: "gh_hr h' q = gh_hr h q \<and> st_next (gh_st h') q = st_next (gh_st h) q \<and> st_rs_ready (gh_st h') q = st_rs_ready (gh_st h) q"
    if "q \<in> set xs \<union> set ys" for q using assms that by (auto simp: keeps_def)
  have l: "lists_as (gh_free_list h) xs (gh_st h')" "lists_as (gh_secondary_free_list h) ys (gh_st h')"
    using assms(1,2) eq
    by (auto simp: heap_rep_def keeps_def intro!: lists_as_frame [of "gh_free_list h" xs "gh_st h"]
        lists_as_frame [of "gh_secondary_free_list h" ys "gh_st h"])
  have r: "ready h' q" if "q \<in> set xs \<union> set ys" for q
    using assms that eq [OF that] by (auto simp: heap_rep_def ready_def keeps_def)
  show ?thesis using assms(1,2) l r by (auto simp: heap_rep_def keeps_def)
qed

lemma keeps_put: "keeps p h (gh_put p r h)"
  by (simp add: keeps_def)

lemma keeps_trans: "keeps p h h' \<Longrightarrow> keeps p h' h'' \<Longrightarrow> keeps p h h''"
  by (auto simp: keeps_def)

text \<open>
  What allocation leaves alone: the place of every region and its count of buffers; except for the regions in
  \<open>A\<close>, its generation and whether it is young; and except for the regions in \<open>B\<close>, everything else.  Tops only grow.
\<close>

definition placed :: "heap_region \<Rightarrow> heap_region \<Rightarrow> bool" where
  "placed r r' =
     (hr_index r' = hr_index r \<and> hr_bottom r' = hr_bottom r \<and> hr_end r' = hr_end r \<and> hr_orig_end r' = hr_orig_end r \<and>
      hr_humongous_type r' = hr_humongous_type r \<and> hr_active_tlabs r' = hr_active_tlabs r \<and> hr_top r \<le> hr_top r')"

definition untouched :: "nat set \<Rightarrow> g1_heap \<Rightarrow> g1_heap \<Rightarrow> bool" where
  "untouched B h h' =
     (\<forall>q. q \<notin> B \<longrightarrow> gh_hr h' q = gh_hr h q \<and> st_next (gh_st h') q = st_next (gh_st h) q \<and>
            gh_next_young h' q = gh_next_young h q \<and> gh_next_in_cset h' q = gh_next_in_cset h q)"

definition steady :: "nat set \<Rightarrow> nat set \<Rightarrow> g1_heap \<Rightarrow> g1_heap \<Rightarrow> bool" where
  "steady A B h h' =
     (gh_grain h' = gh_grain h \<and> gh_mt h' = gh_mt h \<and> gh_inc_cset_active h' = gh_inc_cset_active h \<and>
      (\<forall>q. placed (gh_hr h q) (gh_hr h' q)) \<and>
      (\<forall>q. q \<notin> A \<longrightarrow> hr_gen (gh_hr h' q) = hr_gen (gh_hr h q) \<and> hr_young_type (gh_hr h' q) = hr_young_type (gh_hr h q)) \<and>
      untouched B h h')"

lemma placed_trans: "placed r r' \<Longrightarrow> placed r' r'' \<Longrightarrow> placed r r''"
  by (simp add: placed_def)

lemma steady_refl: "steady A B h h"
  by (simp add: steady_def placed_def untouched_def)

lemma steady_mono: "steady A B h h' \<Longrightarrow> A \<subseteq> C \<Longrightarrow> B \<subseteq> D \<Longrightarrow> steady C D h h'"
  unfolding steady_def untouched_def by blast

lemma steady_trans:
  assumes "steady A B h h'" "steady A' B' h' h''" and "A \<subseteq> C" "A' \<subseteq> C" "B \<subseteq> D" "B' \<subseteq> D"
  shows "steady C D h h''"
proof -
  have 1: "steady C D h h'" "steady C D h' h''" using assms steady_mono by blast+
  then have "placed (gh_hr h q) (gh_hr h'' q)" for q unfolding steady_def using placed_trans by blast
  then show ?thesis using 1 by (simp add: steady_def untouched_def)
qed

lemma keeps_steady:
  assumes "keeps p h h'" and "placed (gh_hr h p) (gh_hr h' p)" and "gh_inc_cset_active h' = gh_inc_cset_active h"
    and "p \<in> A \<or> hr_gen (gh_hr h' p) = hr_gen (gh_hr h p) \<and> hr_young_type (gh_hr h' p) = hr_young_type (gh_hr h p)" and "p \<in> B"
  shows "steady A B h h'"
proof -
  have o: "q \<noteq> p \<Longrightarrow> gh_hr h' q = gh_hr h q" for q using assms(1) by (simp add: keeps_def)
  have "placed (gh_hr h q) (gh_hr h' q)" for q using o [of q] assms(2) by (cases "q = p") (auto simp: placed_def)
  moreover have "hr_gen (gh_hr h' q) = hr_gen (gh_hr h q) \<and> hr_young_type (gh_hr h' q) = hr_young_type (gh_hr h q)" if "q \<notin> A" for q
    using o [of q] assms(4) that by (cases "q = p") auto
  moreover have "untouched B h h'" using assms(1,5) by (auto simp: untouched_def keeps_def)
  ultimately show ?thesis using assms(1,3) by (simp add: steady_def keeps_def)
qed

section \<open>Taking a free region\<close>

lemma untagged_inv: "untagged r' = untagged r \<Longrightarrow> region_inv g r' = region_inv g r"
proof -
  have "region_inv g (untagged r) = region_inv g r" for r by (simp add: region_inv_def untagged_def region_preds)
  then show "untagged r' = untagged r \<Longrightarrow> region_inv g r' = region_inv g r" by metis
qed

lemma untagged_eq:
  assumes "untagged r' = untagged r"
  shows "hr_bottom r' = hr_bottom r" "hr_top r' = hr_top r" "hr_end r' = hr_end r" "hr_young_type r' = hr_young_type r"
    "hr_surv_rate_group r' = hr_surv_rate_group r" "hr_next_top_at_mark_start r' = hr_next_top_at_mark_start r"
    "hr_in_cset r' = hr_in_cset r" "hr_gen r' = hr_gen r" "placed r r'"
proof -
  have u: "hr_bottom (untagged r) = hr_bottom r" "hr_top (untagged r) = hr_top r" "hr_end (untagged r) = hr_end r"
      "hr_young_type (untagged r) = hr_young_type r" "hr_surv_rate_group (untagged r) = hr_surv_rate_group r"
      "hr_next_top_at_mark_start (untagged r) = hr_next_top_at_mark_start r" "hr_in_cset (untagged r) = hr_in_cset r"
      "hr_gen (untagged r) = hr_gen r" "hr_active_tlabs (untagged r) = hr_active_tlabs r" "hr_index (untagged r) = hr_index r"
      "hr_orig_end (untagged r) = hr_orig_end r" "hr_humongous_type (untagged r) = hr_humongous_type r" for r
    by (simp_all add: untagged_def)
  then show "hr_bottom r' = hr_bottom r" "hr_top r' = hr_top r" "hr_end r' = hr_end r" "hr_young_type r' = hr_young_type r"
    "hr_surv_rate_group r' = hr_surv_rate_group r" "hr_next_top_at_mark_start r' = hr_next_top_at_mark_start r"
    "hr_in_cset r' = hr_in_cset r" "hr_gen r' = hr_gen r" using assms by metis+
  show "placed r r'" using u [of r] u [of r'] assms by (simp add: placed_def)
qed

text \<open>The heap after an operation on the free lists.\<close>

definition with_lists :: "region_list \<Rightarrow> region_list \<Rightarrow> region_store \<Rightarrow> g1_heap \<Rightarrow> g1_heap" where
  "with_lists fl sec st h = h\<lparr>gh_free_list := fl, gh_secondary_free_list := sec, gh_st := st\<rparr>"

lemma with_lists_simps [simp]:
  "gh_st (with_lists fl sec st h) = st" "gh_free_list (with_lists fl sec st h) = fl"
  "gh_secondary_free_list (with_lists fl sec st h) = sec" "gh_inc_cset_active (with_lists fl sec st h) = gh_inc_cset_active h"
  "gh_during_initial_mark (with_lists fl sec st h) = gh_during_initial_mark h"
  "gh_young_length (with_lists fl sec st h) = gh_young_length h" "gh_all_regions_allocated (with_lists fl sec st h) = gh_all_regions_allocated h"
  "gh_young_list_target_length (with_lists fl sec st h) = gh_young_list_target_length h"
  "gh_max_survivor_regions (with_lists fl sec st h) = gh_max_survivor_regions h"
  "gh_young_head (with_lists fl sec st h) = gh_young_head h" "gh_next_young (with_lists fl sec st h) = gh_next_young h"
  by (simp_all add: with_lists_def)

lemma ready_with_lists:
  assumes "same_frame A (gh_st h) st" and "ready h p" shows "ready (with_lists fl sec st h) p"
proof -
  have u: "untagged (st_hr st p) = untagged (gh_hr h p)" using assms(1) by (simp add: same_frame_def)
  show ?thesis using assms untagged_eq [OF u] untagged_inv [OF u] by (simp add: ready_def with_lists_def same_frame_def)
qed

lemma rep_with_lists:
  assumes "heap_rep h xs ys" and "lists_as fl xs' st" "lists_as sec ys' st"
    and "rs_kind fl = MasterFreeRegionList" "rs_kind sec = SecondaryFreeRegionList" and "same_frame A (gh_st h) st"
    and "set xs' \<union> set ys' \<subseteq> set xs \<union> set ys" "set xs' \<inter> set ys' = {}" "length xs' + length ys' \<le> length xs + length ys"
  shows "heap_rep (with_lists fl sec st h) xs' ys'"
proof -
  have "ready (with_lists fl sec st h) p" if "p \<in> set xs' \<union> set ys'" for p
    using ready_with_lists [OF assms(6)] assms(1,7) that by (auto simp: heap_rep_def)
  moreover have "st_mt st = gh_mt h" "st_unrealistic st = st_unrealistic (gh_st h)" using assms(6) by (simp_all add: same_frame_def)
  ultimately show ?thesis using assms unfolding heap_rep_def by (simp add: with_lists_def)
qed

text \<open>The result of taking a region: it is ready, unowned and empty, and the rest is still represented.\<close>

definition taken :: "g1_heap \<Rightarrow> nat \<Rightarrow> g1_heap \<Rightarrow> nat list \<Rightarrow> nat list \<Rightarrow> bool" where
  "taken h p h' xs ys =
     (heap_rep h' xs ys \<and> ready h' p \<and> unowned h' p \<and> \<not> is_young (gh_hr h' p) \<and> used (gh_hr h' p) = 0 \<and>
      p \<notin> set xs \<union> set ys \<and>
      (\<exists>fl sec st. h' = with_lists fl sec st h \<and> same_frame (insert p (set xs \<union> set ys)) (gh_st h) st))"

lemma same_frame_mono: "same_frame A st st' \<Longrightarrow> A \<subseteq> B \<Longrightarrow> same_frame B st st'"
  by (auto simp: same_frame_def)

lemma spare_unowned:
  assumes "spare l p st" and "linked_kind (rs_kind l)" and "ready (with_lists fl sec st h) p"
  shows "unowned (with_lists fl sec st h) p \<and> \<not> is_young (st_hr st p) \<and> used (st_hr st p) = 0"
  using assms by (simp add: spare_def fits_iff unowned_def ready_def with_lists_def)

lemma take_free_rep:
  assumes "heap_rep h (p # xs) ys" and "check_mt_safety MasterFreeRegionList (gh_mt h)"
  shows "\<exists>h'. take_free h = Inr (Some p, h') \<and> taken h p h' xs ys"
proof -
  have l: "lists_as (gh_free_list h) (p # xs) (gh_st h)" "lists_as (gh_secondary_free_list h) ys (gh_st h)"
      and k: "rs_kind (gh_free_list h) = MasterFreeRegionList" "rs_kind (gh_secondary_free_list h) = SecondaryFreeRegionList"
      and d: "set (p # xs) \<inter> set ys = {}" and rd: "ready h p"
    using assms(1) by (auto simp: heap_rep_def)
  obtain fl st where r: "remove_head (gh_free_list h) (gh_st h) = Inr (p, fl, st)" "lists_as fl xs st"
      "spare (gh_free_list h) p st" "same_frame {p} (gh_st h) st" "rs_kind fl = rs_kind (gh_free_list h)"
    using remove_head_lists [OF l(1)] assms(2) k(1) by auto
  have "take_free h = Inr (Some p, with_lists fl (gh_secondary_free_list h) st h)"
    using r(1) assms(2) k(1) l(1) by (simp add: take_free_def remove_head_or_null_def set_is_empty_def lists_as_def with_lists_def)
  moreover have "lists_as (gh_secondary_free_list h) ys st" by (rule lists_as_frame_eq [OF l(2) r(4)]) (use d in auto)
  then have "heap_rep (with_lists fl (gh_secondary_free_list h) st h) xs ys"
    by (intro rep_with_lists [OF assms(1) r(2) _ _ k(2) r(4)]) (use r(5) k(1) d in auto)
  moreover have "p \<notin> set xs \<union> set ys" using l(1) d by (auto simp: lists_as_def)
  moreover note rd' = ready_with_lists [OF r(4) rd, of fl "gh_secondary_free_list h"]
  moreover have "unowned (with_lists fl (gh_secondary_free_list h) st h) p \<and> \<not> is_young (st_hr st p) \<and> used (st_hr st p) = 0"
    by (rule spare_unowned [OF r(3) _ rd']) (simp add: k linked_kind_def)
  moreover have "same_frame (insert p (set xs \<union> set ys)) (gh_st h) st" using same_frame_mono [OF r(4)] by simp
  ultimately show ?thesis unfolding taken_def by (metis UnCI with_lists_simps(1))
qed

lemma set_secondary_lock_simps [simp]:
  "gh_st (set_secondary_lock b h) = (gh_st h)\<lparr>st_mt := (gh_mt h)\<lparr>SecondaryFreeList_lock := b\<rparr>\<rparr>"
  "gh_free_list (set_secondary_lock b h) = gh_free_list h"
  "gh_secondary_free_list (set_secondary_lock b h) = gh_secondary_free_list h"
  by (simp_all add: set_secondary_lock_def)

lemma try_secondary_rep:
  assumes "heap_rep h xs ys" and "check_mt_safety MasterFreeRegionList (gh_mt h)" and "ys = p # zs"
  shows "\<exists>h'. new_region_try_secondary_free_list env h = Inr (Some p, h') \<and> taken h p h' (zs @ xs) []"
proof -
  define h0 where "h0 = set_secondary_lock True h"
  have sf0: "gh_st h0 = (gh_st h)\<lparr>st_mt := (gh_mt h)\<lparr>SecondaryFreeList_lock := True\<rparr>\<rparr>" by (simp add: h0_def)
  have l: "lists_as (gh_free_list h) xs (gh_st h0)" "lists_as (gh_secondary_free_list h) ys (gh_st h0)"
    using assms(1) by (auto simp: heap_rep_def sf0 intro: lists_as_frame)
  have k: "rs_kind (gh_free_list h) = MasterFreeRegionList" "rs_kind (gh_secondary_free_list h) = SecondaryFreeRegionList"
    and d: "set xs \<inter> set ys = {}" and rd: "\<forall>q \<in> set ys. ready h q" and n: "length xs + length ys < st_unrealistic (gh_st h)"
    and nl: "\<not> SecondaryFreeList_lock (gh_mt h)"
    using assms(1) by (auto simp: heap_rep_def)
  have mt0: "check_mt_safety MasterFreeRegionList (gh_mt h0)" "check_mt_safety SecondaryFreeRegionList (gh_mt h0)"
    using assms(2) by (simp_all add: sf0)
  obtain sec fl st where a: "add_list_as_head (gh_secondary_free_list h) (gh_free_list h) (gh_st h0) = Inr (sec, fl, st)"
      "lists_as fl (p # zs @ xs) st" "lists_as sec [] st" "same_frame (set ys) (gh_st h0) st"
      "rs_kind fl = MasterFreeRegionList" "rs_kind sec = SecondaryFreeRegionList"
    using add_list_as_head_lists [OF l d] mt0 k n rd assms(3) by (auto simp: sf0 ready_def)
  have mt1: "check_mt_safety (rs_kind fl) (st_mt st)" using mt0 a(4,5) by (simp add: same_frame_def)
  obtain fl2 st2 where r: "remove_head fl st = Inr (p, fl2, st2)" "lists_as fl2 (zs @ xs) st2" "spare fl p st2"
      "same_frame {p} st st2" "rs_kind fl2 = rs_kind fl"
    using remove_head_lists [OF a(2) mt1] by auto
  define st3 where "st3 = st2\<lparr>st_mt := gh_mt h\<rparr>"
  have mt2: "st_mt st2 = (gh_mt h)\<lparr>SecondaryFreeList_lock := True\<rparr>"
    using a(4) r(4) by (simp add: same_frame_def sf0)
  have bk: "st2\<lparr>st_mt := (st_mt st2)\<lparr>SecondaryFreeList_lock := False\<rparr>\<rparr> = st3"
    using nl by (simp add: st3_def mt2)
  have "\<not> set_is_empty fl" "\<not> set_is_empty (gh_secondary_free_list h)"
    using a(2) l(2) assms(3) by (auto simp: set_is_empty_def lists_as_def)
  then have run: "new_region_try_secondary_free_list env h = Inr (Some p, with_lists fl2 sec st3 h)"
    using a(1) r(1) bk
    by (subst new_region_try_secondary_free_list_def, subst try_secondary_loop.simps)
      (simp add: h0_def [symmetric] append_secondary_free_list_def h0_def with_lists_def set_secondary_lock_def)
  have sf: "same_frame (set ys) (gh_st h) st3"
    using a(4) r(4) assms(3) by (auto simp: same_frame_def sf0 st3_def)
  have L: "lists_as fl2 (zs @ xs) st3" by (rule lists_as_frame [OF r(2)]) (simp_all add: st3_def)
  have L2: "lists_as sec [] st3" using a(3) by (simp add: lists_as_def)
  have "heap_rep (with_lists fl2 sec st3 h) (zs @ xs) []"
    by (rule rep_with_lists [OF assms(1) L L2 _ a(6) sf]) (use r(5) a(5) d assms(3) in auto)
  moreover have rd': "ready (with_lists fl2 sec st3 h) p" using ready_with_lists [OF sf] rd assms(3) by simp
  moreover have "spare fl p st3" using r(3) a(5) by (auto simp: spare_def st3_def fits_iff linked_kind_def)
  then have "unowned (with_lists fl2 sec st3 h) p \<and> \<not> is_young (st_hr st3 p) \<and> used (st_hr st3 p) = 0"
    by (intro spare_unowned [OF _ _ rd', of fl]) (simp_all add: a(5) linked_kind_def)
  moreover have "p \<notin> set (zs @ xs) \<union> set []" using a(2) by (auto simp: lists_as_def)
  moreover have "same_frame (insert p (set (zs @ xs) \<union> set [])) (gh_st h) st3" by (rule same_frame_mono [OF sf]) (use assms(3) in auto)
  ultimately show ?thesis using run unfolding taken_def by (metis with_lists_simps(1))
qed

text \<open>Whenever a region is on one of the free lists, a new region is handed out.\<close>

lemma new_region_rep:
  assumes "heap_rep h xs ys" and "check_mt_safety MasterFreeRegionList (gh_mt h)" and "xs @ ys \<noteq> []"
    and "sz \<le> GrainWords (gh_grain h)"
  shows "\<exists>p h' xs' ys'. new_region env sz do_expand h = Inr (Some p, h') \<and> taken h p h' xs' ys' \<and> p \<in> set xs \<union> set ys \<and>
    set xs' \<union> set ys' \<subseteq> set xs \<union> set ys"
proof -
  have e: "set_is_empty (gh_secondary_free_list h) \<longleftrightarrow> ys = []" "set_is_empty (gh_free_list h) \<longleftrightarrow> xs = []"
    using assms(1) by (auto simp: heap_rep_def lists_as_def set_is_empty_def)
  consider (stress) p zs where "env_G1StressConcRegionFreeing env" "ys = p # zs"
    | (free) p zs where "\<not> (env_G1StressConcRegionFreeing env \<and> ys \<noteq> [])" "xs = p # zs"
    | (sec) p zs where "\<not> (env_G1StressConcRegionFreeing env \<and> ys \<noteq> [])" "xs = []" "ys = p # zs"
    using assms(3) by (cases xs; cases ys) auto
  then show ?thesis
  proof cases
    case stress
    obtain h' where r: "new_region_try_secondary_free_list env h = Inr (Some p, h')" "taken h p h' (zs @ xs) []"
      using try_secondary_rep [OF assms(1,2) stress(2)] by blast
    then have "new_region env sz do_expand h = Inr (Some p, h')" using stress assms(4) e by (simp add: new_region_def)
    then show ?thesis using r(2) stress(2) by (intro exI [of _ p] exI [of _ h'] exI [of _ "zs @ xs"] exI [of _ "[]"]) auto
  next
    case free
    obtain h' where r: "take_free h = Inr (Some p, h')" "taken h p h' zs ys"
      using take_free_rep [of h p zs ys] assms free(2) by blast
    moreover have "\<not> (env_G1StressConcRegionFreeing env \<and> \<not> set_is_empty (gh_secondary_free_list h))" using free(1) e by blast
    ultimately have "new_region env sz do_expand h = Inr (Some p, h')"
      using assms(4) unfolding new_region_def by (simp only: if_False rbind_simps) (simp add: vassert_def)
    then show ?thesis using r(2) free(2) by (intro exI [of _ p] exI [of _ h'] exI [of _ zs] exI [of _ ys]) auto
  next
    case sec
    have "take_free h = Inr (None, h)"
      using e(2) sec(2) assms(1,2) by (simp add: take_free_def remove_head_or_null_def heap_rep_def)
    moreover obtain h' where r: "new_region_try_secondary_free_list env h = Inr (Some p, h')" "taken h p h' (zs @ xs) []"
      using try_secondary_rep [OF assms(1,2) sec(3)] by blast
    moreover have "\<not> (env_G1StressConcRegionFreeing env \<and> \<not> set_is_empty (gh_secondary_free_list h))" using sec(1) e by blast
    ultimately have "new_region env sz do_expand h = Inr (Some p, h')"
      using assms(4) unfolding new_region_def by (simp only: if_False rbind_simps) (simp add: vassert_def)
    then show ?thesis using r(2) sec(3) by (intro exI [of _ p] exI [of _ h'] exI [of _ "zs @ xs"] exI [of _ "[]"]) auto
  qed
qed

section \<open>Allocation inside a region\<close>

definition grown :: "heap_region \<Rightarrow> heap_region \<Rightarrow> bool" where
  "grown r r' = (\<exists>t bs pd. r' = r\<lparr>hr_top := t, hr_bot_blocks := bs, hr_pre_dummy_top := pd\<rparr> \<and> hr_top r \<le> t \<and> t \<le> hr_end r)"

lemma grownI:
  "r' = r\<lparr>hr_top := t, hr_bot_blocks := bs, hr_pre_dummy_top := pd\<rparr> \<Longrightarrow> hr_top r \<le> t \<Longrightarrow> t \<le> hr_end r \<Longrightarrow> grown r r'"
  unfolding grown_def by blast

lemma grown_facts:
  assumes "grown r r'"
  shows "hr_bottom r' = hr_bottom r" "hr_end r' = hr_end r" "hr_top r \<le> hr_top r'" "hr_top r' \<le> hr_end r"
    "hr_young_type r' = hr_young_type r" "hr_containing_set r' = hr_containing_set r" "isHumongous r' = isHumongous r"
    "hr_next_top_at_mark_start r' = hr_next_top_at_mark_start r" "hr_in_cset r' = hr_in_cset r" "hr_gen r' = hr_gen r"
    "hr_young_index_in_cset r' = hr_young_index_in_cset r" "is_young r' = is_young r" "is_survivor r' = is_survivor r"
    "hr_is_gen_alloc_region r' = hr_is_gen_alloc_region r" "hr_active_tlabs r' = hr_active_tlabs r"
  using assms by (auto simp: grown_def isHumongous_def is_young_def is_survivor_def)

lemma grown_placed: "grown r r' \<Longrightarrow> placed r r'"
  by (auto simp: grown_def placed_def)

lemma grown_steady: "grown (gh_hr h p) r \<Longrightarrow> p \<in> B \<Longrightarrow> steady A B h (gh_put p r h)"
  by (rule keeps_steady [OF keeps_put]) (simp_all add: grown_facts [of "gh_hr h p" r] grown_placed)

lemma grown_used: "grown r r' \<Longrightarrow> used r \<le> used r'"
  using grown_facts(1,3) [of r r'] by (simp add: used_def diff_le_mono)

lemma grown_inv:
  assumes "region_inv g r" and "grown r r'" shows "region_inv g r'"
proof -
  obtain t bs pd where r': "r' = r\<lparr>hr_top := t, hr_bot_blocks := bs, hr_pre_dummy_top := pd\<rparr>" "hr_top r \<le> t" "t \<le> hr_end r"
    using assms(2) by (auto simp: grown_def)
  show ?thesis using assms(1) r'(2,3) unfolding r'(1) by (simp add: region_inv_def region_preds)
qed

lemma grown_trans:
  assumes "grown r r'" "grown r' r''" shows "grown r r''"
proof -
  obtain t bs pd where 1: "r' = r\<lparr>hr_top := t, hr_bot_blocks := bs, hr_pre_dummy_top := pd\<rparr>" "hr_top r \<le> t" "t \<le> hr_end r"
    using assms(1) by (auto simp: grown_def)
  obtain t2 bs2 pd2 where 2: "r'' = r'\<lparr>hr_top := t2, hr_bot_blocks := bs2, hr_pre_dummy_top := pd2\<rparr>" "hr_top r' \<le> t2" "t2 \<le> hr_end r'"
    using assms(2) by (auto simp: grown_def)
  have "r'' = r\<lparr>hr_top := t2, hr_bot_blocks := bs2, hr_pre_dummy_top := pd2\<rparr>" unfolding 2(1) 1(1) by simp
  then show ?thesis by (rule grownI) (use 1 2 in auto)
qed

lemma grown_pre_dummy:
  assumes "grown r r'" shows "grown r (r'\<lparr>hr_pre_dummy_top := x\<rparr>)"
proof -
  obtain t bs pd where r': "r' = r\<lparr>hr_top := t, hr_bot_blocks := bs, hr_pre_dummy_top := pd\<rparr>" "hr_top r \<le> t" "t \<le> hr_end r"
    using assms by (auto simp: grown_def)
  have "r'\<lparr>hr_pre_dummy_top := x\<rparr> = r\<lparr>hr_top := t, hr_bot_blocks := bs, hr_pre_dummy_top := x\<rparr>" unfolding r'(1) by simp
  then show ?thesis using r'(2,3) unfolding grown_def by blast
qed

lemma grown_refl: "hr_top r \<le> hr_end r \<Longrightarrow> grown r r"
  unfolding grown_def by (intro exI [of _ "hr_top r"] exI [of _ "hr_bot_blocks r"] exI [of _ "hr_pre_dummy_top r"]) simp

lemma not_empty_iff: "\<not> hr_is_empty r \<longleftrightarrow> hr_bottom r < hr_top r"
  by (auto simp: hr_is_empty_def used_def HeapWordSize_def)

text \<open>An allocation in competition with others: it takes effect at some top at or above the current one.\<close>

lemma par_loop_spec:
  assumes "tp \<le> en"
  obtains t where "tp \<le> t" "t \<le> en" "ss = [] \<Longrightarrow> t = tp" "par_allocate_loop sz en (map (compete en) ss) tp =
    (if sz \<le> en - t then (Some t, t + sz) else (None, t))"
proof -
  obtain k where k: "k \<le> length ss" "let t = fold (\<lambda>f. f) (take k (map (compete en) ss)) tp
     in par_allocate_loop sz en (map (compete en) ss) tp = (if sz \<le> en - t then (Some t, t + sz) else (None, t))"
    using par_allocate_linear [of "map (compete en) ss" tp sz en] by auto
  show thesis
    by (rule that [of "fold (compete en) (take k ss) tp"])
      (use k compete_mono [OF assms, of "take k ss"] in \<open>auto simp: Let_def take_map fold_map_apply\<close>)
qed

lemma ar_par_allocate_spec:
  assumes "\<not> hr_is_empty r" and "hr_top r \<le> hr_end r" and "bu \<or> is_young r"
  obtains t res r' where "hr_top r \<le> t" "t \<le> hr_end r" "ss = [] \<Longrightarrow> t = hr_top r"
    "ar_par_allocate bu ss sz r = Inr (res, r')" "grown r r'"
    "if sz \<le> hr_end r - t then res = Some t \<and> hr_top r' = t + sz else res = None \<and> hr_top r' = t"
    "hr_pre_dummy_top r' = hr_pre_dummy_top r"
proof -
  obtain t where t: "hr_top r \<le> t" "t \<le> hr_end r" "ss = [] \<Longrightarrow> t = hr_top r"
      "par_allocate_loop sz (hr_end r) (map (compete (hr_end r)) ss) (hr_top r) =
        (if sz \<le> hr_end r - t then (Some t, t + sz) else (None, t))"
    using par_loop_spec [OF assms(2), of ss sz] by blast
  define r1 where "r1 = r\<lparr>hr_top := if sz \<le> hr_end r - t then t + sz else t\<rparr>"
  define r2 where "r2 = (if bu \<and> sz \<le> hr_end r - t then alloc_block t sz r1 else r1)"
  have run: "ar_par_allocate bu ss sz r = Inr (if sz \<le> hr_end r - t then Some t else None, r2)"
    using assms(1,3) t(4) by (auto simp: ar_par_allocate_def par_allocate_no_bot_updates_def hr_par_allocate_def
        space_par_allocate_def r1_def r2_def vassert_def)
  have "r2 = r\<lparr>hr_top := if sz \<le> hr_end r - t then t + sz else t, hr_bot_blocks := hr_bot_blocks r2,
      hr_pre_dummy_top := hr_pre_dummy_top r\<rparr>"
    by (simp add: r2_def r1_def alloc_block_def)
  then have "grown r r2" by (rule grownI) (use t(1,2) in auto)
  moreover have "hr_top r2 = (if sz \<le> hr_end r - t then t + sz else t)" "hr_pre_dummy_top r2 = hr_pre_dummy_top r"
    by (simp_all add: r2_def r1_def alloc_block_def)
  ultimately show thesis using that [of t _ r2] t(1-3) run by auto
qed

lemma fill_up_hit:
  assumes "min_fill_size \<le> hr_end r - hr_top r"
    and "ar_par_allocate bu (case batches of [] \<Rightarrow> [] | ss # _ \<Rightarrow> ss) (hr_end r - hr_top r) r = Inr (Some (hr_top r), r')"
    and "hr_top r' = hr_end r" and "hr_bottom r' \<le> hr_top r"
  shows "fill_up_loop bu batches (hr_end r - hr_top r) r = Inr (r'\<lparr>hr_pre_dummy_top := Some (hr_top r)\<rparr>)"
proof -
  have "hr_top r < hr_end r" using assms(1) by (simp add: min_fill_size_def)
  then show ?thesis using assms by (subst fill_up_loop.simps) (simp add: set_pre_dummy_top_def)
qed

text \<open>The loop that fills up a region ends, whatever gets in between, and leaves less than a filler.\<close>

lemma fill_up_loop_spec:
  assumes "\<not> hr_is_empty r" and "hr_top r \<le> hr_end r" and "bu \<or> is_young r"
  shows "\<exists>r'. fill_up_loop bu batches (hr_end r - hr_top r) r = Inr r' \<and> grown r r' \<and> hr_end r' - hr_top r' < min_fill_size"
  using assms
proof (induction batches arbitrary: r)
  case Nil
  obtain t res r' where s: "ar_par_allocate bu [] (hr_end r - hr_top r) r = Inr (res, r')"
      "grown r r'" "res = Some (hr_top r) \<and> hr_top r' = hr_end r"
    using ar_par_allocate_spec [OF Nil, of "[]" "hr_end r - hr_top r"] Nil(2) by (metis add_diff_inverse_nat le_refl not_less)
  have b: "hr_bottom r < hr_top r" using Nil(1) by (simp add: not_empty_iff)
  show ?case
  proof (cases "min_fill_size \<le> hr_end r - hr_top r")
    case False
    then show ?thesis using grown_refl [OF Nil(2)] by (subst fill_up_loop.simps) simp
  next
    case True
    then have "fill_up_loop bu [] (hr_end r - hr_top r) r = Inr (r'\<lparr>hr_pre_dummy_top := Some (hr_top r)\<rparr>)"
      using s b grown_facts(1) [OF s(2)] by (intro fill_up_hit) simp_all
    then show ?thesis using grown_pre_dummy [OF s(2)] s(3) grown_facts(2) [OF s(2)] by (simp add: min_fill_size_def)
  qed
next
  case (Cons ss rest)
  obtain t res r' where s: "hr_top r \<le> t" "t \<le> hr_end r" "ar_par_allocate bu ss (hr_end r - hr_top r) r = Inr (res, r')"
      "grown r r'" "if hr_end r - hr_top r \<le> hr_end r - t then res = Some t \<and> hr_top r' = t + (hr_end r - hr_top r) else res = None \<and> hr_top r' = t"
    by (rule ar_par_allocate_spec [OF Cons.prems, of ss "hr_end r - hr_top r"]) (rule that)
  note g = grown_facts [OF s(4)]
  have b: "hr_bottom r < hr_top r" using Cons.prems(1) by (simp add: not_empty_iff)
  have fr: "free r' div HeapWordSize = hr_end r' - hr_top r'" by (simp add: free_def HeapWordSize_def)
  have "\<exists>r''. fill_up_loop bu rest (hr_end r' - hr_top r') r' = Inr r'' \<and> grown r' r'' \<and> hr_end r'' - hr_top r'' < min_fill_size"
    using Cons.IH [of r'] Cons.prems b g by (simp add: not_empty_iff)
  then obtain r'' where r'': "fill_up_loop bu rest (hr_end r' - hr_top r') r' = Inr r''" "grown r r''" "hr_end r'' - hr_top r'' < min_fill_size"
    using grown_trans [OF s(4)] by blast
  consider (small) "\<not> min_fill_size \<le> hr_end r - hr_top r" | (fails) "min_fill_size \<le> hr_end r - hr_top r" "res = None"
    | (hits) "min_fill_size \<le> hr_end r - hr_top r" "res = Some t" "t = hr_top r" "hr_top r' = hr_end r"
  proof (cases "hr_end r - hr_top r \<le> hr_end r - t")
    case True
    then have "t = hr_top r" using s(1,2) by linarith
    then show thesis using s(5) Cons.prems(2) small hits by force
  qed (use s(5) small fails in force)
  then show ?case
  proof cases
    case small
    then show ?thesis using grown_refl [OF Cons.prems(2)] by (subst fill_up_loop.simps) simp
  next
    case fails
    then have "fill_up_loop bu (ss # rest) (hr_end r - hr_top r) r = Inr r''"
      using s(3) r''(1) fr by (subst fill_up_loop.simps) simp
    then show ?thesis using r'' by blast
  next
    case hits
    then have "fill_up_loop bu (ss # rest) (hr_end r - hr_top r) r = Inr (r'\<lparr>hr_pre_dummy_top := Some (hr_top r)\<rparr>)"
      using s(3) b g(1) by (intro fill_up_hit) simp_all
    then show ?thesis using grown_pre_dummy [OF s(4)] hits(4) g(2) by (simp add: min_fill_size_def)
  qed
qed

lemma fill_up_spec:
  assumes "\<not> hr_is_empty r" and "hr_top r \<le> hr_end r" and "bu \<or> is_young r"
  shows "\<exists>r'. fill_up_remaining_space bu batches r = Inr r' \<and> grown r r' \<and> hr_end r' - hr_top r' < min_fill_size"
  using fill_up_loop_spec [OF assms, of batches]
  by (auto simp: fill_up_remaining_space_def free_def HeapWordSize_def)

section \<open>The contract of the providers of regions\<close>

text \<open>The state of an initialized allocation region.\<close>

definition alloc_region_ok :: "bool \<Rightarrow> (g1_heap \<Rightarrow> nat \<Rightarrow> bool) \<Rightarrow> 'a alloc_region_scheme \<Rightarrow> g1_heap \<Rightarrow> bool" where
  "alloc_region_ok bu active ar h =
     (ar_bot_updates ar = bu \<and>
      (case ar_region ar of
         AR_Null \<Rightarrow> False
       | AR_Dummy \<Rightarrow> ar_used_bytes_before ar = 0
       | AR_Region p \<Rightarrow> active h p \<and> \<not> hr_is_empty (gh_hr h p) \<and> ar_used_bytes_before ar \<le> used (gh_hr h p)))"

definition ar_regs :: "'a alloc_region_scheme \<Rightarrow> nat set" where
  "ar_regs ar = (case ar_region ar of AR_Region p \<Rightarrow> {p} | _ \<Rightarrow> {})"

text \<open>
  \<open>amb\<close> is what the kind requires of locks and phases, \<open>active\<close> what it keeps of a region it allocates
  in, and \<open>room\<close> its permission to take another region.
\<close>

locale region_provider =
  fixes allocate_new_region :: "nat \<Rightarrow> bool \<Rightarrow> 'a alloc_region_scheme \<Rightarrow> g1_heap \<Rightarrow> (nat option \<times> 'a alloc_region_scheme \<times> g1_heap) res"
    and retire_region :: "nat \<Rightarrow> nat \<Rightarrow> 'a alloc_region_scheme \<Rightarrow> g1_heap \<Rightarrow> g1_heap res"
    and bu :: bool
    and amb :: "g1_heap \<Rightarrow> bool"
    and active :: "g1_heap \<Rightarrow> nat \<Rightarrow> bool"
    and room :: "'a alloc_region_scheme \<Rightarrow> g1_heap \<Rightarrow> bool"
  assumes amb_put: "amb (gh_put p r h) = amb h"
    and room_put: "room ar (gh_put p r h) = room ar h"
    and active_unowned: "active h p \<Longrightarrow> unowned h p"
    and active_young: "active h p \<Longrightarrow> bu \<or> is_young (gh_hr h p)"
    and active_grown: "active h p \<Longrightarrow> grown (gh_hr h p) r \<Longrightarrow> active (gh_put p r h) p"
    and new_region_law: "\<lbrakk>heap_rep h xs ys; amb h; room ar h; xs @ ys \<noteq> []; sz \<le> GrainWords (gh_grain h)\<rbrakk> \<Longrightarrow>
      \<exists>p ar' h' xs' ys'. allocate_new_region sz False ar h = Inr (Some p, ar', h') \<and> heap_rep h' xs' ys' \<and> amb h' \<and> active h' p \<and>
        hr_top (gh_hr h' p) = hr_bottom (gh_hr h' p) \<and> gh_grain h' = gh_grain h \<and> ar_bot_updates ar' = ar_bot_updates ar \<and>
        steady (set xs \<union> set ys) (set xs \<union> set ys) h h' \<and> p \<in> set xs \<union> set ys \<and> set xs' \<union> set ys' \<subseteq> set xs \<union> set ys"
    and retire_law: "\<lbrakk>heap_rep h xs ys; amb h; active h p; \<not> hr_is_empty (gh_hr h p)\<rbrakk> \<Longrightarrow>
      \<exists>h'. retire_region p n ar h = Inr h' \<and> heap_rep h' xs ys \<and> amb h' \<and> gh_grain h' = gh_grain h \<and> steady {} {p} h h' \<and>
        (room ar h \<longrightarrow> room (ar\<lparr>ar_used_bytes_before := 0, ar_region := AR_Dummy\<rparr>) h')"
begin

abbreviation ar_ok :: "'a alloc_region_scheme \<Rightarrow> g1_heap \<Rightarrow> bool" where
  "ar_ok \<equiv> alloc_region_ok bu active"

lemma attempt_dummy:
  assumes "heap_rep h xs ys" and "ar_region ar = AR_Dummy" and "ar_bot_updates ar = bu" and "0 < sz"
  shows "attempt_allocation ss sz bu ar h = Inr (None, h)"
proof -
  have d: "is_young (gh_dummy_region h)" "\<not> hr_is_empty (gh_dummy_region h)" "hr_top (gh_dummy_region h) = hr_end (gh_dummy_region h)"
    using assms(1) by (auto simp: heap_rep_def not_empty_iff)
  have "par_allocate_loop sz en others en = (None, en)" for en others
    using assms(4) by (cases others) simp_all
  then have "space_par_allocate others sz (gh_dummy_region h) = (None, gh_dummy_region h)" for others
    using d(3) by (simp add: space_par_allocate_def)
  then show ?thesis using assms d
    by (simp add: attempt_allocation_def ar_par_allocate_def par_allocate_no_bot_updates_def hr_par_allocate_def)
qed

lemma attempt_region:
  assumes "heap_rep h xs ys" and "ar_ok ar h" and "ar_region ar = AR_Region p"
  shows "\<exists>res h'. attempt_allocation ss sz bu ar h = Inr (res, h') \<and> heap_rep h' xs ys \<and> ar_ok ar h' \<and> amb h' = amb h \<and>
    gh_grain h' = gh_grain h \<and> (room ar h \<longrightarrow> room ar h') \<and> steady {} {p} h h' \<and>
    (\<forall>obj. res = Some obj \<longrightarrow> hr_top (gh_hr h p) \<le> obj \<and> obj + sz = hr_top (gh_hr h' p) \<and>
      obj + sz \<le> hr_end (gh_hr h' p) \<and> hr_bottom (gh_hr h' p) \<le> hr_top (gh_hr h p))"
proof -
  have a: "active h p" "\<not> hr_is_empty (gh_hr h p)" "ar_used_bytes_before ar \<le> used (gh_hr h p)" "ar_bot_updates ar = bu"
    using assms(2,3) by (auto simp: alloc_region_ok_def)
  have le: "hr_top (gh_hr h p) \<le> hr_end (gh_hr h p)" using active_unowned [OF a(1)] by (auto simp: unowned_def region_inv_def)
  obtain t res r' where s: "hr_top (gh_hr h p) \<le> t" "t \<le> hr_end (gh_hr h p)" "ar_par_allocate bu ss sz (gh_hr h p) = Inr (res, r')"
      "grown (gh_hr h p) r'" "if sz \<le> hr_end (gh_hr h p) - t then res = Some t \<and> hr_top r' = t + sz else res = None \<and> hr_top r' = t"
    by (rule ar_par_allocate_spec [OF a(2) le active_young [OF a(1)], of ss sz]) (rule that)
  note g = grown_facts [OF s(4)]
  have "attempt_allocation ss sz bu ar h = Inr (res, gh_put p r' h)"
    using assms(3) a(4) s(3) by (simp add: attempt_allocation_def)
  moreover have "heap_rep (gh_put p r' h) xs ys"
    using keeps_rep [OF assms(1) keeps_put] rep_notin [OF assms(1) active_unowned [OF a(1)]] by blast
  moreover have "ar_used_bytes_before ar \<le> used r'" using a(3) grown_used [OF s(4)] by linarith
  then have "ar_ok ar (gh_put p r' h)"
    using active_grown [OF a(1) s(4)] a g assms(3) by (auto simp: alloc_region_ok_def not_empty_iff)
  moreover have "\<forall>obj. res = Some obj \<longrightarrow> hr_top (gh_hr h p) \<le> obj \<and> obj + sz = hr_top r' \<and> obj + sz \<le> hr_end r' \<and>
      hr_bottom r' \<le> hr_top (gh_hr h p)"
    using s(1,5) g(1,2,4) a(2) by (auto simp: not_empty_iff split: if_splits)
  ultimately show ?thesis using grown_steady [OF s(4), of "{p}"] by (auto simp: amb_put room_put)
qed

lemma retire_ok:
  assumes "heap_rep h xs ys" and "ar_ok ar h" and "amb h" and "room ar h"
  shows "\<exists>ar' h'. retire retire_region batches fill_up ar h = Inr (ar', h') \<and> heap_rep h' xs ys \<and> amb h' \<and> room ar' h' \<and>
    ar_region ar' = AR_Dummy \<and> ar_used_bytes_before ar' = 0 \<and> ar_bot_updates ar' = bu \<and> gh_grain h' = gh_grain h \<and> steady {} (ar_regs ar) h h'"
proof (cases "ar_region ar")
  case (AR_Region p)
  have a: "active h p" "\<not> hr_is_empty (gh_hr h p)" "ar_used_bytes_before ar \<le> used (gh_hr h p)" "ar_bot_updates ar = bu"
    using assms(2) AR_Region by (auto simp: alloc_region_ok_def)
  have le: "hr_top (gh_hr h p) \<le> hr_end (gh_hr h p)" using active_unowned [OF a(1)] by (auto simp: unowned_def region_inv_def)
  obtain r' where r': "grown (gh_hr h p) r'"
      "(if fill_up then gh_on p (fill_up_remaining_space bu batches) h else Inr h) = Inr (gh_put p r' h)"
  proof (cases fill_up)
    case True
    then show ?thesis using fill_up_spec [OF a(2) le active_young [OF a(1)], of batches] that by (auto simp: gh_on_def)
  next
    case False
    then show ?thesis using that [of "gh_hr h p"] grown_refl [OF le] by (simp add: gh_put_def put_hr_def)
  qed
  note g = grown_facts [OF r'(1)]
  have u: "ar_used_bytes_before ar \<le> used r'" using a(3) grown_used [OF r'(1)] by linarith
  have rep: "heap_rep (gh_put p r' h) xs ys"
    using keeps_rep [OF assms(1) keeps_put] rep_notin [OF assms(1) active_unowned [OF a(1)]] by blast
  have ne: "\<not> hr_is_empty (gh_hr (gh_put p r' h) p)" using a(2) g by (simp add: not_empty_iff)
  obtain h' where h': "retire_region p (used r' - ar_used_bytes_before ar) ar (gh_put p r' h) = Inr h'" "heap_rep h' xs ys" "amb h'"
      "gh_grain h' = gh_grain h" "room (ar\<lparr>ar_used_bytes_before := 0, ar_region := AR_Dummy\<rparr>) h'" "steady {} {p} (gh_put p r' h) h'"
    using retire_law [OF rep _ active_grown [OF a(1) r'(1)] ne, of "used r' - ar_used_bytes_before ar" ar] assms(3,4)
    by (auto simp: amb_put room_put)
  have "retire retire_region batches fill_up ar h = Inr (ar\<lparr>ar_used_bytes_before := 0, ar_region := AR_Dummy\<rparr>, h')"
    using a(2) u h'(1) unfolding retire_def AR_Region ar_ptr.case a(4) r'(2) by (simp add: Let_def)
  then show ?thesis using h' a(4) AR_Region steady_trans [OF grown_steady [OF r'(1), of "{p}" "{}"] h'(6), of "{}" "{p}"]
    by (auto simp: ar_regs_def)
qed (use assms steady_refl in \<open>auto simp: alloc_region_ok_def retire_def\<close>)

lemma new_alloc_ok:
  assumes "heap_rep h xs ys" and "amb h" and "room ar h" and "xs @ ys \<noteq> []" and "0 < sz" "sz \<le> GrainWords (gh_grain h)"
    and "ar_region ar = AR_Dummy" "ar_used_bytes_before ar = 0" "ar_bot_updates ar = bu"
  shows "\<exists>obj ar' h' xs' ys' p. new_alloc_region_and_allocate allocate_new_region sz False ar h = Inr (Some obj, ar', h') \<and>
    heap_rep h' xs' ys' \<and> amb h' \<and> ar_ok ar' h' \<and> ar_region ar' = AR_Region p \<and>
    obj = hr_bottom (gh_hr h' p) \<and> obj + sz = hr_top (gh_hr h' p) \<and> obj + sz \<le> hr_end (gh_hr h' p) \<and>
    steady (set xs \<union> set ys) (set xs \<union> set ys) h h' \<and> p \<in> set xs \<union> set ys \<and> set xs' \<union> set ys' \<subseteq> set xs \<union> set ys"
proof -
  obtain p ar1 h1 xs' ys' where n: "allocate_new_region sz False ar h = Inr (Some p, ar1, h1)" "heap_rep h1 xs' ys'" "amb h1"
      "active h1 p" "hr_top (gh_hr h1 p) = hr_bottom (gh_hr h1 p)" "gh_grain h1 = gh_grain h" "ar_bot_updates ar1 = ar_bot_updates ar"
      "steady (set xs \<union> set ys) (set xs \<union> set ys) h h1" "p \<in> set xs \<union> set ys" "set xs' \<union> set ys' \<subseteq> set xs \<union> set ys"
    using new_region_law [OF assms(1-4,6)] by blast
  define r where "r = reset_pre_dummy_top (gh_hr h1 p)"
  define r1 where "r1 = (let r' = r\<lparr>hr_top := hr_bottom r + sz\<rparr> in if bu then alloc_block (hr_bottom r) sz r' else r')"
  have inv: "region_inv (gh_grain h1) (gh_hr h1 p)" "\<not> isHumongous (gh_hr h1 p)"
    using active_unowned [OF n(4)] by (simp_all add: unowned_def)
  have e: "hr_end (gh_hr h1 p) = hr_bottom (gh_hr h1 p) + GrainWords (gh_grain h)"
    using inv n(6) by (simp add: region_inv_def isHumongous_def startsHumongous_def)
  have "r1 = (gh_hr h1 p)\<lparr>hr_top := hr_bottom (gh_hr h1 p) + sz, hr_bot_blocks := hr_bot_blocks r1, hr_pre_dummy_top := None\<rparr>"
    by (simp add: r1_def r_def reset_pre_dummy_top_def alloc_block_def Let_def)
  then have g: "grown (gh_hr h1 p) r1" by (rule grownI) (use n(5) e assms(6) in auto)
  have r1: "hr_top r1 = hr_bottom (gh_hr h1 p) + sz" by (simp add: r1_def r_def reset_pre_dummy_top_def alloc_block_def Let_def)
  have y: "bu \<or> is_young r" using active_young [OF n(4)] by (simp add: r_def reset_pre_dummy_top_def is_young_def)
  have "ar_allocate bu sz r = Inr (Some (hr_bottom r), r1)"
    using y e n(5) assms(6) by (auto simp: ar_allocate_def allocate_no_bot_updates_def hr_allocate_def space_allocate_def
        r_def reset_pre_dummy_top_def r1_def Let_def)
  moreover have "hr_bottom r = hr_bottom (gh_hr h1 p)" "used r = 0" using n(5) by (simp_all add: r_def reset_pre_dummy_top_def used_def)
  ultimately have run: "new_alloc_region_and_allocate allocate_new_region sz False ar h =
      Inr (Some (hr_bottom (gh_hr h1 p)), ar1\<lparr>ar_used_bytes_before := 0, ar_region := AR_Region p, ar_count := ar_count ar1 + 1\<rparr>, gh_put p r1 h1)"
    using n(1,7) assms(7-9) by (simp add: new_alloc_region_and_allocate_def r_def [symmetric] Let_def)
  have "heap_rep (gh_put p r1 h1) xs' ys'"
    using keeps_rep [OF n(2) keeps_put] rep_notin [OF n(2) active_unowned [OF n(4)]] by blast
  moreover have "ar_ok (ar1\<lparr>ar_used_bytes_before := 0, ar_region := AR_Region p, ar_count := ar_count ar1 + 1\<rparr>) (gh_put p r1 h1)"
    using active_grown [OF n(4) g] n(5,7) assms(5,9) r1 grown_facts(1) [OF g] by (simp add: alloc_region_ok_def not_empty_iff)
  moreover have "steady (set xs \<union> set ys) (set xs \<union> set ys) h (gh_put p r1 h1)"
    by (rule steady_trans [OF n(8) grown_steady [OF g n(9), of "{}"]]) auto
  ultimately show ?thesis using run n(3,9,10) r1 grown_facts [OF g]
    by (intro exI [of _ "hr_bottom (gh_hr h1 p)"] exI [of _ "ar1\<lparr>ar_used_bytes_before := 0, ar_region := AR_Region p, ar_count := ar_count ar1 + 1\<rparr>"]
        exI [of _ "gh_put p r1 h1"] exI [of _ xs'] exI [of _ ys'] exI [of _ p]) (simp add: amb_put)
qed

text \<open>The first attempt, with or without the lock.\<close>

lemma attempt_ok:
  assumes "heap_rep h xs ys" and "ar_ok ar h" and "0 < sz"
  shows "\<exists>res h'. attempt_allocation ss sz bu ar h = Inr (res, h') \<and> heap_rep h' xs ys \<and> ar_ok ar h' \<and> amb h' = amb h \<and>
    gh_grain h' = gh_grain h \<and> (room ar h \<longrightarrow> room ar h') \<and> steady {} (ar_regs ar) h h' \<and>
    (\<forall>obj. res = Some obj \<longrightarrow> (\<exists>p. ar_region ar = AR_Region p \<and> hr_top (gh_hr h p) \<le> obj \<and> obj + sz = hr_top (gh_hr h' p) \<and>
        obj + sz \<le> hr_end (gh_hr h' p) \<and> hr_bottom (gh_hr h' p) \<le> hr_top (gh_hr h p)))"
proof (cases "ar_region ar")
  case AR_Dummy
  then show ?thesis using attempt_dummy [OF assms(1) AR_Dummy _ assms(3), of ss] assms steady_refl
    by (simp add: alloc_region_ok_def)
next
  case (AR_Region p)
  then show ?thesis using attempt_region [OF assms(1,2) AR_Region, of ss sz] unfolding ar_regs_def AR_Region ar_ptr.case by blast
qed (use assms(2) in \<open>simp add: alloc_region_ok_def\<close>)

text \<open>
  The allocation under the lock succeeds as long as a free region is left and may be taken.
\<close>

lemma attempt_locked_ok:
  assumes "heap_rep h xs ys" and "ar_ok ar h" and "amb h" and "room ar h" and "xs @ ys \<noteq> []"
    and "0 < sz" "sz \<le> GrainWords (gh_grain h)"
  shows "\<exists>obj ar' h' xs' ys' p.
    attempt_allocation_locked allocate_new_region retire_region ss batches sz bu ar h = Inr (Some obj, ar', h') \<and>
    heap_rep h' xs' ys' \<and> amb h' \<and> ar_ok ar' h' \<and> ar_region ar' = AR_Region p \<and>
    (ar_region ar = AR_Region p \<and> hr_top (gh_hr h p) \<le> obj \<or> p \<in> set xs \<union> set ys \<and> obj = hr_bottom (gh_hr h' p)) \<and>
    hr_bottom (gh_hr h' p) \<le> obj \<and> obj + sz = hr_top (gh_hr h' p) \<and> obj + sz \<le> hr_end (gh_hr h' p) \<and>
    steady (set xs \<union> set ys) (ar_regs ar \<union> set xs \<union> set ys) h h' \<and> set xs' \<union> set ys' \<subseteq> set xs \<union> set ys"
proof -
  obtain res h1 where at: "attempt_allocation ss sz bu ar h = Inr (res, h1)" "heap_rep h1 xs ys" "ar_ok ar h1" "amb h1"
      "gh_grain h1 = gh_grain h" "room ar h1" "steady {} (ar_regs ar) h h1"
      "\<forall>obj. res = Some obj \<longrightarrow> (\<exists>p. ar_region ar = AR_Region p \<and> hr_top (gh_hr h p) \<le> obj \<and> obj + sz = hr_top (gh_hr h1 p) \<and>
          obj + sz \<le> hr_end (gh_hr h1 p) \<and> hr_bottom (gh_hr h1 p) \<le> hr_top (gh_hr h p))"
    using attempt_ok [OF assms(1,2,6), of ss] assms(3,4) by blast
  show ?thesis
  proof (cases res)
    case (Some obj)
    then obtain p where p: "ar_region ar = AR_Region p" "hr_top (gh_hr h p) \<le> obj" "obj + sz = hr_top (gh_hr h1 p)"
          "obj + sz \<le> hr_end (gh_hr h1 p)" "hr_bottom (gh_hr h1 p) \<le> hr_top (gh_hr h p)" using at(8) by blast
    have "attempt_allocation_locked allocate_new_region retire_region ss batches sz bu ar h = Inr (Some obj, ar, h1)"
      using at(1) Some by (simp add: attempt_allocation_locked_def)
    then show ?thesis using at(2-4) p steady_mono [OF at(7), of "set xs \<union> set ys" "ar_regs ar \<union> set xs \<union> set ys"]
      by (intro exI [of _ obj] exI [of _ ar] exI [of _ h1] exI [of _ xs] exI [of _ ys] exI [of _ p]) auto
  next
    case None
    obtain ar2 h2 where r: "retire retire_region batches True ar h1 = Inr (ar2, h2)" "heap_rep h2 xs ys" "amb h2" "room ar2 h2"
        "ar_region ar2 = AR_Dummy" "ar_used_bytes_before ar2 = 0" "ar_bot_updates ar2 = bu" "gh_grain h2 = gh_grain h1" "steady {} (ar_regs ar) h1 h2"
      using retire_ok [OF at(2,3,4,6), of batches True] by blast
    have "attempt_allocation_locked allocate_new_region retire_region ss batches sz bu ar h =
        new_alloc_region_and_allocate allocate_new_region sz False ar2 h2"
      using at(1) None r(1) by (simp add: attempt_allocation_locked_def)
    moreover obtain obj ar' h' xs' ys' p where n: "new_alloc_region_and_allocate allocate_new_region sz False ar2 h2 = Inr (Some obj, ar', h')"
        "heap_rep h' xs' ys'" "amb h'" "ar_ok ar' h'" "ar_region ar' = AR_Region p" "obj = hr_bottom (gh_hr h' p)" "obj + sz = hr_top (gh_hr h' p)"
        "obj + sz \<le> hr_end (gh_hr h' p)" "steady (set xs \<union> set ys) (set xs \<union> set ys) h2 h'" "p \<in> set xs \<union> set ys" "set xs' \<union> set ys' \<subseteq> set xs \<union> set ys"
      using new_alloc_ok [OF r(2-4) assms(5,6) _ r(5-7)] assms(7) at(5) r(8) by auto
    moreover have "steady (set xs \<union> set ys) (ar_regs ar \<union> set xs \<union> set ys) h h'"
      by (rule steady_trans [OF steady_trans [OF at(7) r(9), of "{}" "ar_regs ar"] n(9)]) auto
    ultimately show ?thesis
      by (intro exI [of _ obj] exI [of _ ar'] exI [of _ h'] exI [of _ xs'] exI [of _ ys'] exI [of _ p]) simp
  qed
qed

end

end
