(* ===== verification/Alloc_Kinds.thy ===== *)
theory Alloc_Kinds
  imports Alloc_Progress
begin

text \<open>
  The four kinds of allocation region satisfy the contract of \<open>region_provider\<close>: mutator regions are
  young and join the incremental collection set when they are retired, survivor regions
  are young and join the survivor list, old regions and the regions of the dynamic
  generations join the old set; the latter also carry their generation and epoch and have
  their cards enqueued.
\<close>

definition mutator_amb :: "g1_heap \<Rightarrow> bool" where
  "mutator_amb h = (Heap_lock (gh_mt h) \<and> \<not> is_at_safepoint (gh_mt h) \<and> gh_inc_cset_active h)"

definition mutator_active :: "g1_heap \<Rightarrow> nat \<Rightarrow> bool" where
  "mutator_active h p =
     (unowned h p \<and> hr_young_type (gh_hr h p) = Young \<and> -1 < hr_young_index_in_cset (gh_hr h p) \<and>
      \<not> hr_in_cset (gh_hr h p) \<and> gh_next_in_cset h p = None)"

definition mutator_room :: "alloc_region \<Rightarrow> g1_heap \<Rightarrow> bool" where
  "mutator_room ar h = (\<not> is_young_list_full h)"

definition gc_amb :: "g1_heap \<Rightarrow> bool" where
  "gc_amb h = (is_at_safepoint (gh_mt h) \<and> FreeList_lock (gh_mt h) \<and> mt_phase (gh_mt h) = HRSPhaseEvacuation)"

definition survivor_active :: "g1_heap \<Rightarrow> nat \<Rightarrow> bool" where
  "survivor_active h p =
     (unowned h p \<and> hr_young_type (gh_hr h p) = Survivor \<and> gh_next_young h p = None \<and>
      hr_next_top_at_mark_start (gh_hr h p) = hr_bottom (gh_hr h p))"

definition survivor_room :: "alloc_region \<Rightarrow> g1_heap \<Rightarrow> bool" where
  "survivor_room ar h = (ar_count ar < gh_max_survivor_regions h)"

definition old_active :: "g1_heap \<Rightarrow> nat \<Rightarrow> bool" where
  "old_active h p =
     (unowned h p \<and> hr_young_type (gh_hr h p) = NotYoung \<and>
      (if gh_during_initial_mark h then hr_next_top_at_mark_start (gh_hr h p) = hr_end (gh_hr h p)
       else hr_next_top_at_mark_start (gh_hr h p) \<le> hr_top (gh_hr h p)))"

definition old_room :: "alloc_region \<Rightarrow> g1_heap \<Rightarrow> bool" where
  "old_room ar h = True"

text \<open>Every object of a generation region has a positive size.\<close>

definition gen_amb :: "g1_env \<Rightarrow> g1_heap \<Rightarrow> bool" where
  "gen_amb env h = (Heap_lock (gh_mt h) \<and> (is_at_safepoint (gh_mt h) \<longrightarrow> is_VM_thread (gh_mt h)) \<and> (\<forall>p. 0 < env_obj_size env p))"

definition gen_active :: "int \<Rightarrow> g1_heap \<Rightarrow> nat \<Rightarrow> bool" where
  "gen_active g h p =
     (unowned h p \<and> hr_young_type (gh_hr h p) = NotYoung \<and> hr_gen (gh_hr h p) = g \<and> hr_is_gen_alloc_region (gh_hr h p))"

definition gen_room :: "int \<Rightarrow> gen_alloc_region \<Rightarrow> g1_heap \<Rightarrow> bool" where
  "gen_room g ar h = (gr_gen ar = g)"

section \<open>Growth and taking\<close>

lemma unowned_grown: "unowned h p \<Longrightarrow> grown (gh_hr h p) r \<Longrightarrow> unowned (gh_put p r h) p"
  using grown_facts(6,7) [of "gh_hr h p" r] grown_inv [of "gh_grain h" "gh_hr h p" r] by (simp add: unowned_def)

lemma taken_facts:
  assumes "taken h p h' xs ys"
  shows "heap_rep h' xs ys" "ready h' p" "unowned h' p" "hr_young_type (gh_hr h' p) = NotYoung"
    "hr_top (gh_hr h' p) = hr_bottom (gh_hr h' p)" "p \<notin> set xs" "p \<notin> set ys" "gh_mt h' = gh_mt h" "gh_grain h' = gh_grain h"
    "gh_inc_cset_active h' = gh_inc_cset_active h" "gh_during_initial_mark h' = gh_during_initial_mark h"
    "gh_max_survivor_regions h' = gh_max_survivor_regions h" "steady A (insert p (set xs \<union> set ys)) h h'"
proof -
  obtain fl sec st where w: "h' = with_lists fl sec st h" "same_frame (insert p (set xs \<union> set ys)) (gh_st h) st"
    and t: "heap_rep h' xs ys" "ready h' p" "unowned h' p" "\<not> is_young (gh_hr h' p)" "used (gh_hr h' p) = 0" "p \<notin> set xs \<union> set ys"
    using assms by (auto simp: taken_def)
  have u: "untagged (gh_hr h' q) = untagged (gh_hr h q)" for q using w by (simp add: same_frame_def)
  show "gh_mt h' = gh_mt h" "gh_grain h' = gh_grain h" using w by (simp_all add: same_frame_def)
  then show "steady A (insert p (set xs \<union> set ys)) h h'"
    using untagged_eq(4,8,9) [OF u] w by (simp add: steady_def untouched_def same_frame_def with_lists_def)
  show "heap_rep h' xs ys" "ready h' p" "unowned h' p" "p \<notin> set xs" "p \<notin> set ys" using t by auto
  show "hr_young_type (gh_hr h' p) = NotYoung" using t(4) by (simp add: is_young_def)
  have "hr_bottom (gh_hr h' p) \<le> hr_top (gh_hr h' p)" using t(3) by (simp add: unowned_def region_inv_def)
  then show "hr_top (gh_hr h' p) = hr_bottom (gh_hr h' p)" using t(5) by (simp add: used_def HeapWordSize_def)
qed (use assms in \<open>auto simp: taken_def\<close>)

section \<open>Mutator regions\<close>

lemma push_region_ok:
  assumes "ready h p" and "unowned h p" and "hr_young_type (gh_hr h p) = NotYoung" and "0 \<le> gh_all_regions_allocated h"
  shows "\<exists>h'. push_region p h = Inr h' \<and> keeps p h h' \<and> mutator_active h' p \<and> hr_top (gh_hr h' p) = hr_top (gh_hr h p) \<and>
    hr_bottom (gh_hr h' p) = hr_bottom (gh_hr h p) \<and> gh_inc_cset_active h' = gh_inc_cset_active h \<and> steady {p} {p} h h'"
proof -
  define r2 where "r2 = (gh_hr h p)\<lparr>hr_young_type := Young, hr_surv_rate_group := Some 0,
    hr_age_index := gh_all_regions_allocated h + 1, hr_young_index_in_cset := int (gh_young_length h)\<rparr>"
  define h1 where "h1 = h\<lparr>gh_next_young := (gh_next_young h)(p := gh_young_head h), gh_young_head := Some p,
    gh_all_regions_allocated := gh_all_regions_allocated h + 1, gh_young_length := gh_young_length h + 1, gh_st := put_hr p r2 (gh_st h)\<rparr>"
  have rd: "gh_next_young h p = None" "hr_surv_rate_group (gh_hr h p) = None" "\<not> hr_in_cset (gh_hr h p)" "gh_next_in_cset h p = None"
    using assms(1) by (auto simp: ready_def)
  have inv: "region_inv (gh_grain h) (gh_hr h p)" using assms(2) by (simp add: unowned_def)
  then have inv2: "region_inv (gh_grain h) r2" using assms(4) unfolding r2_def by (simp add: region_inv_def region_preds)
  have "push_region p h = Inr h1"
    using rd(1,2) assms(3)
    by (simp add: push_region_def set_region_eden_def gh_on_def gh_put_def put_hr_def set_young_type_def install_surv_rate_group_def
        set_young_index_in_cset_def is_young_def Let_def h1_def r2_def)
  moreover have k: "keeps p h h1" using assms(4) by (simp add: keeps_def h1_def)
  moreover have "steady {p} {p} h h1" by (rule keeps_steady [OF k]) (simp_all add: h1_def r2_def placed_def)
  moreover have "mutator_active h1 p" using assms(2) rd(3,4) inv2
    by (simp add: mutator_active_def unowned_def h1_def r2_def isHumongous_def)
  ultimately show ?thesis by (auto simp: h1_def r2_def)
qed

lemma mutator_new:
  assumes "heap_rep h xs ys" and "mutator_amb h" and "mutator_room ar h" and "xs @ ys \<noteq> []" and "sz \<le> GrainWords (gh_grain h)"
  shows "\<exists>p ar' h' xs' ys'. mutator_allocate_new_region env sz False ar h = Inr (Some p, ar', h') \<and> heap_rep h' xs' ys' \<and>
    mutator_amb h' \<and> mutator_active h' p \<and> hr_top (gh_hr h' p) = hr_bottom (gh_hr h' p) \<and> gh_grain h' = gh_grain h \<and>
    ar_bot_updates ar' = ar_bot_updates ar \<and> steady (set xs \<union> set ys) (set xs \<union> set ys) h h' \<and> p \<in> set xs \<union> set ys \<and>
    set xs' \<union> set ys' \<subseteq> set xs \<union> set ys"
proof -
  have "check_mt_safety MasterFreeRegionList (gh_mt h)" using assms(2) by (simp add: mutator_amb_def)
  then obtain p h1 xs' ys' where n: "new_region env sz False h = Inr (Some p, h1)" "taken h p h1 xs' ys'" "p \<in> set xs \<union> set ys"
      "set xs' \<union> set ys' \<subseteq> set xs \<union> set ys"
    using new_region_rep [OF assms(1) _ assms(4,5)] by blast
  note t = taken_facts [OF n(2)]
  have "0 \<le> gh_all_regions_allocated h1" using t(1) by (simp add: heap_rep_def)
  then obtain h2 where h2: "push_region p h1 = Inr h2" "keeps p h1 h2" "mutator_active h2 p" "hr_top (gh_hr h2 p) = hr_top (gh_hr h1 p)"
      "hr_bottom (gh_hr h2 p) = hr_bottom (gh_hr h1 p)" "gh_inc_cset_active h2 = gh_inc_cset_active h1" "steady {p} {p} h1 h2"
    using push_region_ok [OF t(2-4)] by blast
  have "mutator_allocate_new_region env sz False ar h = Inr (Some p, ar, h2)"
    using n(1) h2(1) assms(2,3) by (simp add: mutator_allocate_new_region_def new_mutator_alloc_region_def mutator_amb_def mutator_room_def)
  moreover have "mutator_amb h2" "gh_grain h2 = gh_grain h" using assms(2) h2(2,6) t(8-10) by (simp_all add: mutator_amb_def keeps_def)
  ultimately show ?thesis using keeps_rep [OF t(1) h2(2) t(6,7)] h2(3-5) t(5) n(3,4) steady_trans [OF t(13) h2(7), of "{}" "set xs \<union> set ys" "set xs \<union> set ys"]
    by (intro exI [of _ p] exI [of _ ar] exI [of _ h2] exI [of _ xs'] exI [of _ ys']) simp
qed

lemma mutator_retire:
  assumes "heap_rep h xs ys" and "mutator_amb h" and "mutator_active h p"
  shows "\<exists>h'. mutator_retire_region p n ar h = Inr h' \<and> heap_rep h' xs ys \<and> mutator_amb h' \<and> gh_grain h' = gh_grain h \<and> steady {} {p} h h' \<and>
    (mutator_room ar h \<longrightarrow> mutator_room ar' h')"
proof -
  have a: "unowned h p" "hr_young_type (gh_hr h p) = Young" "-1 < hr_young_index_in_cset (gh_hr h p)" "\<not> hr_in_cset (gh_hr h p)"
      "gh_next_in_cset h p = None" using assms(3) by (simp_all add: mutator_active_def)
  have c: "gh_inc_cset_head h = None \<longrightarrow> gh_inc_cset_tail h = None" using assms(1) by (simp add: heap_rep_def)
  obtain h' where h': "mutator_retire_region p n ar h = Inr h'" "keeps p h h'" "mutator_amb h'" "is_young_list_full h' = is_young_list_full h"
      "steady {} {p} h h'"
  proof -
    let ?r = "(gh_hr h p)\<lparr>hr_in_cset := True\<rparr>"
    let ?h = "h\<lparr>gh_inc_cset_recorded_rs_lengths := gh_inc_cset_recorded_rs_lengths h + card (hr_rem_set (gh_hr h p)),
      gh_inc_cset_bytes_used_before := gh_inc_cset_bytes_used_before h + used (gh_hr h p),
      gh_inc_cset_max_finger := max (gh_inc_cset_max_finger h) (hr_end (gh_hr h p)), gh_st := put_hr p ?r (gh_st h),
      gh_next_in_cset := (gh_next_in_cset h)(p := gh_inc_cset_head h),
      gh_inc_cset_tail := (if gh_inc_cset_head h = None then Some p else gh_inc_cset_tail h), gh_inc_cset_head := Some p,
      gh_summary_bytes_used := gh_summary_bytes_used h + n\<rparr>"
    have "mutator_retire_region p n ar h = Inr ?h"
      using a c assms(2)
      by (simp add: mutator_retire_region_def retire_mutator_alloc_region_def mutator_amb_def add_region_to_incremental_cset_lhs_def
          add_region_to_incremental_cset_common_def add_to_incremental_cset_info_def gh_on_def gh_put_def put_hr_def is_young_def is_survivor_def Let_def)
    moreover have k: "keeps p h ?h" by (simp add: keeps_def)
    moreover have "steady {} {p} h ?h" by (rule keeps_steady [OF k]) (simp_all add: placed_def)
    ultimately show thesis by (intro that [of ?h]) (use assms(2) in \<open>simp_all add: mutator_amb_def is_young_list_full_def\<close>)
  qed
  then show ?thesis using keeps_rep [OF assms(1) h'(2)] rep_notin [OF assms(1) a(1)] h'
    by (auto simp: mutator_room_def keeps_def)
qed

lemma mutator_grown: "mutator_active h p \<Longrightarrow> grown (gh_hr h p) r \<Longrightarrow> mutator_active (gh_put p r h) p"
  using grown_facts(5,9,11) [of "gh_hr h p" r] unowned_grown [of h p r] by (simp add: mutator_active_def)

interpretation mut: region_provider "mutator_allocate_new_region env" mutator_retire_region False mutator_amb mutator_active mutator_room
  for env
proof
  show "mutator_amb (gh_put p r h) = mutator_amb h" for p r h by (simp add: mutator_amb_def)
  show "mutator_room ar (gh_put p r h) = mutator_room ar h" for ar p r h by (simp add: mutator_room_def is_young_list_full_def)
  show "mutator_active h p \<Longrightarrow> unowned h p" for h p by (simp add: mutator_active_def)
  show "mutator_active h p \<Longrightarrow> False \<or> is_young (gh_hr h p)" for h p by (simp add: mutator_active_def is_young_def)
qed (use mutator_grown mutator_new mutator_retire in blast)+

section \<open>Survivor and old regions of a collection\<close>

lemma gc_amb_lock: "gc_amb h \<Longrightarrow> check_mt_safety MasterFreeRegionList (gh_mt h) \<and> check_mt_safety MasterOldRegionSet (gh_mt h)"
  by (simp add: gc_amb_def)

text \<open>The region a collection gets, before it is told that copying starts.\<close>

lemma gc_new:
  assumes "heap_rep h xs ys" and "gc_amb h" and "case max_regions ap h of None \<Rightarrow> True | Some m \<Rightarrow> cnt < m"
    and "xs @ ys \<noteq> []" and "sz \<le> GrainWords (gh_grain h)"
  shows "\<exists>p h' xs' ys'. new_gc_alloc_region env sz cnt ap h = Inr (Some p, h') \<and> heap_rep h' xs' ys' \<and> gc_amb h' \<and>
    (if ap = GCAllocForSurvived then survivor_active h' p else old_active h' p) \<and>
    hr_top (gh_hr h' p) = hr_bottom (gh_hr h' p) \<and> gh_grain h' = gh_grain h \<and>
    steady (set xs \<union> set ys) (set xs \<union> set ys) h h' \<and> p \<in> set xs \<union> set ys \<and> set xs' \<union> set ys' \<subseteq> set xs \<union> set ys"
proof -
  obtain p h1 xs' ys' where n: "new_region env sz True h = Inr (Some p, h1)" "taken h p h1 xs' ys'" "p \<in> set xs \<union> set ys"
      "set xs' \<union> set ys' \<subseteq> set xs \<union> set ys"
    using new_region_rep [OF assms(1) _ assms(4,5)] gc_amb_lock [OF assms(2)] by blast
  note t = taken_facts [OF n(2)]
  define r where "r = gh_hr h1 p"
  define r1 where "r1 = set_saved_mark (gh_gc_time_stamp h1) r"
  define r2 where "r2 = (if ap = GCAllocForSurvived then set_young_type Survivor r1 else r1)"
  define r3 where "r3 = (if ap \<noteq> GCAllocForSurvived \<and> gh_during_initial_mark h1 then r2\<lparr>hr_next_top_at_mark_start := hr_end r2\<rparr> else r2)"
  have rr: "region_inv (gh_grain h1) r" "hr_surv_rate_group r = None" "hr_next_top_at_mark_start r = hr_bottom r" "hr_top r = hr_bottom r"
      "hr_young_type r = NotYoung" "hr_containing_set r = None" "\<not> isHumongous r" "gh_next_young h1 p = None" "st_next (gh_st h1) p = None"
    using t(2-5) by (auto simp: ready_def unowned_def r_def)
  have r1: "hr_young_type r1 = NotYoung" "hr_bottom r1 = hr_bottom r" "hr_top r1 = hr_bottom r" "hr_end r1 = hr_end r"
      "hr_next_top_at_mark_start r1 = hr_bottom r" "hr_containing_set r1 = None" "\<not> isHumongous r1" "region_inv (gh_grain h1) r1"
      "hr_surv_rate_group r1 = None" "placed r r1" "hr_gen r1 = hr_gen r"
    using rr by (auto simp: r1_def set_saved_mark_def isHumongous_def region_inv_def region_preds placed_def)
  have r3: "hr_young_type r3 = (if ap = GCAllocForSurvived then Survivor else NotYoung)" "hr_bottom r3 = hr_bottom r" "hr_top r3 = hr_bottom r"
      "hr_containing_set r3 = None" "\<not> isHumongous r3" "region_inv (gh_grain h1) r3" "hr_end r3 = hr_end r"
      "placed r r3" "hr_gen r3 = hr_gen r"
    using r1 by (auto simp: r2_def r3_def set_young_type_def isHumongous_def region_inv_def region_preds placed_def)
  have nt: "note_start_of_copying (gh_during_initial_mark h1) r2 = Inr r3"
    using r1 by (simp add: note_start_of_copying_def r2_def r3_def is_survivor_def set_young_type_def)
  have "new_gc_alloc_region env sz cnt ap h = Inr (Some p, gh_put p r3 h1)"
    using n(1) assms(2,3) nt
    by (simp add: new_gc_alloc_region_def gc_amb_def gh_on_def r_def [symmetric] r1_def [symmetric] r2_def [symmetric])
      (cases "ap = GCAllocForSurvived", simp_all add: gh_put_def put_hr_def r2_def)
  moreover have "heap_rep (gh_put p r3 h1) xs' ys'" by (rule keeps_rep [OF t(1) keeps_put t(6,7)])
  moreover have "gc_amb (gh_put p r3 h1)" using assms(2) t(8) by (simp add: gc_amb_def)
  moreover have "unowned (gh_put p r3 h1) p" using r3 rr(9) by (simp add: unowned_def)
  then have "if ap = GCAllocForSurvived then survivor_active (gh_put p r3 h1) p else old_active (gh_put p r3 h1) p"
    using r3 rr(8) r1 by (auto simp: survivor_active_def old_active_def r3_def r2_def set_young_type_def)
  moreover have "steady {p} {p} h1 (gh_put p r3 h1)"
    by (rule keeps_steady [OF keeps_put]) (use r3 in \<open>simp_all add: r_def\<close>)
  from steady_trans [OF t(13) this, of "{}" "set xs \<union> set ys" "set xs \<union> set ys"] n(3,4)
  have "steady (set xs \<union> set ys) (set xs \<union> set ys) h (gh_put p r3 h1)" by simp
  ultimately show ?thesis using r3(2,3) t(9) n(3,4)
    by (intro exI [of _ p] exI [of _ "gh_put p r3 h1"] exI [of _ xs'] exI [of _ ys']) simp
qed

lemma survivor_retire:
  assumes "heap_rep h xs ys" and "gc_amb h" and "survivor_active h p"
  shows "\<exists>h'. survivor_retire_region p n ar h = Inr h' \<and> heap_rep h' xs ys \<and> gc_amb h' \<and> gh_grain h' = gh_grain h \<and> steady {} {p} h h' \<and>
    gh_max_survivor_regions h' = gh_max_survivor_regions h"
proof -
  have a: "unowned h p" "hr_young_type (gh_hr h p) = Survivor" "gh_next_young h p = None"
      "hr_next_top_at_mark_start (gh_hr h p) = hr_bottom (gh_hr h p)" using assms(3) by (simp_all add: survivor_active_def)
  have same: "gh_put p (gh_hr h p) h = h" by (simp add: gh_put_def put_hr_def)
  obtain h' where h': "survivor_retire_region p n ar h = Inr h'" "keeps p h h'" "gh_max_survivor_regions h' = gh_max_survivor_regions h"
      "steady {} {p} h h'"
  proof -
    let ?h = "h\<lparr>gh_bytes_copied_during_gc := gh_bytes_copied_during_gc h + n,
      gh_next_young := (gh_next_young h)(p := gh_survivor_head h),
      gh_survivor_tail := (if gh_survivor_head h = None then Some p else gh_survivor_tail h), gh_survivor_head := Some p,
      gh_survivor_length := gh_survivor_length h + 1\<rparr>"
    have "survivor_retire_region p n ar h = Inr ?h"
      using a by (simp add: survivor_retire_region_def retire_gc_alloc_region_def gh_on_def note_end_of_copying_def is_survivor_def
          same add_survivor_region_def Let_def)
    moreover have k: "keeps p h ?h" by (simp add: keeps_def)
    moreover have "steady {} {p} h ?h" by (rule keeps_steady [OF k]) (simp_all add: placed_def)
    ultimately show thesis by (intro that [of ?h]) simp_all
  qed
  then show ?thesis using keeps_rep [OF assms(1) h'(2)] rep_notin [OF assms(1) a(1)] assms(2)
    by (auto simp: gc_amb_def keeps_def)
qed

text \<open>Adding a region to the old set.\<close>

lemma old_set_add:
  assumes "unowned h p" and "hr_young_type (gh_hr h p) = NotYoung" and "\<not> hr_is_empty (gh_hr h p)"
    and "rs_kind (gh_old_set h) = MasterOldRegionSet" and "check_mt_safety MasterOldRegionSet (gh_mt h)"
  shows "\<exists>s. set_add p (gh_old_set h) (gh_st h) = Inr (s, tag_hr p (Some (rs_id (gh_old_set h))) (gh_st h)) \<and>
    rs_kind s = MasterOldRegionSet"
proof -
  have v: "verify_region (gh_old_set h) None p (gh_st h)"
    using assms by (simp add: verify_region_def unowned_def is_young_def Let_def)
  have "\<not> isHumongous (gh_hr h p)" "hr_containing_set (gh_hr h p) = None" "st_next (gh_st h) p = None"
    using assms(1) by (simp_all add: unowned_def)
  then show ?thesis using v assms(4,5)
    by (simp add: set_add_def add_internal_def update_for_addition_def region_num_def on_hr_containing)
qed

lemma old_retire:
  assumes "heap_rep h xs ys" and "gc_amb h" and "old_active h p" and "\<not> hr_is_empty (gh_hr h p)"
  shows "\<exists>h'. old_retire_region p n ar h = Inr h' \<and> heap_rep h' xs ys \<and> gc_amb h' \<and> gh_grain h' = gh_grain h \<and> steady {} {p} h h'"
proof -
  define r where "r = (if gh_during_initial_mark h then (gh_hr h p)\<lparr>hr_next_top_at_mark_start := hr_top (gh_hr h p)\<rparr> else gh_hr h p)"
  define h1 where "h1 = (gh_put p r h)\<lparr>gh_bytes_copied_during_gc := gh_bytes_copied_during_gc h + n\<rparr>"
  have a: "unowned h p" "hr_young_type (gh_hr h p) = NotYoung" using assms(3) by (simp_all add: old_active_def)
  have "note_end_of_copying (gh_during_initial_mark h) (gh_hr h p) = Inr r"
    using assms(3) by (simp add: note_end_of_copying_def is_survivor_def old_active_def r_def)
  then have e: "old_retire_region p n ar h =
      rbind (set_add p (gh_old_set h1) (gh_st h1)) (\<lambda>(s, st). Inr (h1\<lparr>gh_old_set := s, gh_st := st\<rparr>))"
    by (simp add: old_retire_region_def retire_gc_alloc_region_def gh_on_def h1_def gh_put_def Let_def)
  have inv: "region_inv (gh_grain h) r" using a(1) by (auto simp: unowned_def r_def region_inv_def region_preds)
  have u: "unowned h1 p" "hr_young_type (gh_hr h1 p) = NotYoung" "\<not> hr_is_empty (gh_hr h1 p)"
      "rs_kind (gh_old_set h1) = MasterOldRegionSet" "check_mt_safety MasterOldRegionSet (gh_mt h1)"
    using a assms(1,4) inv gc_amb_lock [OF assms(2)]
    by (auto simp: unowned_def h1_def r_def isHumongous_def hr_is_empty_def used_def heap_rep_def)
  obtain s where s: "set_add p (gh_old_set h1) (gh_st h1) = Inr (s, tag_hr p (Some (rs_id (gh_old_set h1))) (gh_st h1))"
      "rs_kind s = MasterOldRegionSet" using old_set_add [OF u] by blast
  let ?h = "h1\<lparr>gh_old_set := s, gh_st := tag_hr p (Some (rs_id (gh_old_set h1))) (gh_st h1)\<rparr>"
  have k: "keeps p h ?h" using s(2) u(4) by (simp add: keeps_def h1_def)
  have "steady {} {p} h ?h" by (rule keeps_steady [OF k]) (simp_all add: h1_def r_def tag_hr_def placed_def)
  then show ?thesis using k e s(1) keeps_rep [OF assms(1) k] rep_notin [OF assms(1) a(1)] assms(2)
    by (auto simp: gc_amb_def keeps_def)
qed

lemma survivor_new:
  assumes "heap_rep h xs ys" and "gc_amb h" and "survivor_room ar h" and "xs @ ys \<noteq> []" and "sz \<le> GrainWords (gh_grain h)"
  shows "\<exists>p ar' h' xs' ys'. survivor_allocate_new_region env sz False ar h = Inr (Some p, ar', h') \<and> heap_rep h' xs' ys' \<and>
    gc_amb h' \<and> survivor_active h' p \<and> hr_top (gh_hr h' p) = hr_bottom (gh_hr h' p) \<and> gh_grain h' = gh_grain h \<and>
    ar_bot_updates ar' = ar_bot_updates ar \<and> steady (set xs \<union> set ys) (set xs \<union> set ys) h h' \<and> p \<in> set xs \<union> set ys \<and>
    set xs' \<union> set ys' \<subseteq> set xs \<union> set ys"
proof -
  have "case max_regions GCAllocForSurvived h of None \<Rightarrow> True | Some m \<Rightarrow> ar_count ar < m"
    using assms(3) by (simp add: survivor_room_def)
  from gc_new [OF assms(1,2) this assms(4,5), of env] obtain p h' xs' ys' where
    "new_gc_alloc_region env sz (ar_count ar) GCAllocForSurvived h = Inr (Some p, h')" "heap_rep h' xs' ys'" "gc_amb h'"
    "survivor_active h' p" "hr_top (gh_hr h' p) = hr_bottom (gh_hr h' p)" "gh_grain h' = gh_grain h"
    "steady (set xs \<union> set ys) (set xs \<union> set ys) h h'" "p \<in> set xs \<union> set ys" "set xs' \<union> set ys' \<subseteq> set xs \<union> set ys" by auto
  then show ?thesis unfolding survivor_allocate_new_region_def
    by (intro exI [of _ p] exI [of _ ar] exI [of _ h'] exI [of _ xs'] exI [of _ ys']) simp
qed

lemma old_new:
  assumes "heap_rep h xs ys" and "gc_amb h" and "xs @ ys \<noteq> []" and "sz \<le> GrainWords (gh_grain h)"
  shows "\<exists>p ar' h' xs' ys'. old_allocate_new_region env sz False ar h = Inr (Some p, ar', h') \<and> heap_rep h' xs' ys' \<and>
    gc_amb h' \<and> old_active h' p \<and> hr_top (gh_hr h' p) = hr_bottom (gh_hr h' p) \<and> gh_grain h' = gh_grain h \<and>
    ar_bot_updates ar' = ar_bot_updates ar \<and> steady (set xs \<union> set ys) (set xs \<union> set ys) h h' \<and> p \<in> set xs \<union> set ys \<and>
    set xs' \<union> set ys' \<subseteq> set xs \<union> set ys"
proof -
  have "case max_regions GCAllocForTenured h of None \<Rightarrow> True | Some m \<Rightarrow> ar_count ar < m" by simp
  from gc_new [OF assms(1,2) this assms(3,4), of env] obtain p h' xs' ys' where
    "new_gc_alloc_region env sz (ar_count ar) GCAllocForTenured h = Inr (Some p, h')" "heap_rep h' xs' ys'" "gc_amb h'"
    "old_active h' p" "hr_top (gh_hr h' p) = hr_bottom (gh_hr h' p)" "gh_grain h' = gh_grain h"
    "steady (set xs \<union> set ys) (set xs \<union> set ys) h h'" "p \<in> set xs \<union> set ys" "set xs' \<union> set ys' \<subseteq> set xs \<union> set ys" by auto
  then show ?thesis unfolding old_allocate_new_region_def
    by (intro exI [of _ p] exI [of _ ar] exI [of _ h'] exI [of _ xs'] exI [of _ ys']) simp
qed

lemma survivor_grown: "survivor_active h p \<Longrightarrow> grown (gh_hr h p) r \<Longrightarrow> survivor_active (gh_put p r h) p"
  using grown_facts(1,5,8) [of "gh_hr h p" r] unowned_grown [of h p r] by (simp add: survivor_active_def)

lemma old_grown: "old_active h p \<Longrightarrow> grown (gh_hr h p) r \<Longrightarrow> old_active (gh_put p r h) p"
  using grown_facts(2,3,5,8) [of "gh_hr h p" r] unowned_grown [of h p r] by (auto simp: old_active_def split: if_splits)

interpretation surv: region_provider "survivor_allocate_new_region env" survivor_retire_region False gc_amb survivor_active survivor_room
  for env
proof
  show "gc_amb (gh_put p r h) = gc_amb h" for p r h by (simp add: gc_amb_def)
  show "survivor_room ar (gh_put p r h) = survivor_room ar h" for ar p r h by (simp add: survivor_room_def)
  show "survivor_active h p \<Longrightarrow> unowned h p" for h p by (simp add: survivor_active_def)
  show "survivor_active h p \<Longrightarrow> False \<or> is_young (gh_hr h p)" for h p by (simp add: survivor_active_def is_young_def)
  show "\<exists>h'. survivor_retire_region p n ar h = Inr h' \<and> heap_rep h' xs ys \<and> gc_amb h' \<and> gh_grain h' = gh_grain h \<and> steady {} {p} h h' \<and>
      (survivor_room ar h \<longrightarrow> survivor_room (ar\<lparr>ar_used_bytes_before := 0, ar_region := AR_Dummy\<rparr>) h')"
    if "heap_rep h xs ys" "gc_amb h" "survivor_active h p" for h xs ys p n ar
    using survivor_retire [OF that, of n ar] by (auto simp: survivor_room_def)
qed (use survivor_grown survivor_new in blast)+

interpretation old: region_provider "old_allocate_new_region env" old_retire_region True gc_amb old_active old_room for env
proof
  show "gc_amb (gh_put p r h) = gc_amb h" for p r h by (simp add: gc_amb_def)
  show "old_room ar (gh_put p r h) = old_room ar h" for ar p r h by (simp add: old_room_def)
  show "old_active h p \<Longrightarrow> unowned h p" for h p by (simp add: old_active_def)
  show "\<exists>h'. old_retire_region p n ar h = Inr h' \<and> heap_rep h' xs ys \<and> gc_amb h' \<and> gh_grain h' = gh_grain h \<and> steady {} {p} h h' \<and>
      (old_room ar h \<longrightarrow> old_room (ar\<lparr>ar_used_bytes_before := 0, ar_region := AR_Dummy\<rparr>) h')"
    if "heap_rep h xs ys" "gc_amb h" "old_active h p" "\<not> hr_is_empty (gh_hr h p)" for h xs ys p n ar
    using old_retire [OF that, of n ar] by (auto simp: old_room_def)
qed (use old_grown old_new in blast)+

section \<open>Regions of the dynamic generations\<close>

lemma gen_new:
  assumes "heap_rep h xs ys" and "gen_amb env h" and "xs @ ys \<noteq> []" and "sz \<le> GrainWords (gh_grain h)"
  shows "\<exists>p h' xs' ys'. gen_allocate_new_region env sz False ar h = Inr (Some p, ar\<lparr>gr_nregions := gr_nregions ar + 1\<rparr>, h') \<and>
    heap_rep h' xs' ys' \<and> gen_amb env h' \<and> gen_active (gr_gen ar) h' p \<and> hr_top (gh_hr h' p) = hr_bottom (gh_hr h' p) \<and>
    gh_grain h' = gh_grain h \<and> hr_epoch (gh_hr h' p) = gr_epoch ar \<and> steady (set xs \<union> set ys) (set xs \<union> set ys) h h' \<and> p \<in> set xs \<union> set ys \<and>
    set xs' \<union> set ys' \<subseteq> set xs \<union> set ys"
proof -
  have "check_mt_safety MasterFreeRegionList (gh_mt h)" using assms(2) by (simp add: gen_amb_def)
  then obtain p h1 xs' ys' where n: "new_region env sz True h = Inr (Some p, h1)" "taken h p h1 xs' ys'" "p \<in> set xs \<union> set ys"
      "set xs' \<union> set ys' \<subseteq> set xs \<union> set ys"
    using new_region_rep [OF assms(1) _ assms(3,4)] by blast
  note t = taken_facts [OF n(2)]
  define r where "r = gh_hr h1 p"
  define r1 where "r1 = set_saved_mark (gh_gc_time_stamp h1) r"
  define r2 where "r2 = set_epoch (gr_epoch ar) (set_gen_alloc_region True (set_gen (gr_gen ar) r1))"
  have rr: "region_inv (gh_grain h1) r" "hr_top r = hr_bottom r" "hr_young_type r = NotYoung" "hr_containing_set r = None"
      "\<not> isHumongous r" "st_next (gh_st h1) p = None"
    using t(3-5) by (auto simp: unowned_def r_def)
  have r1: "region_inv (gh_grain h1) r1" "hr_top r1 = hr_bottom r1" "hr_young_type r1 = NotYoung" "hr_containing_set r1 = None"
      "\<not> isHumongous r1" "placed r r1" "hr_bottom r1 = hr_bottom r"
    using rr by (auto simp: r1_def set_saved_mark_def isHumongous_def region_inv_def region_preds placed_def)
  have inv2: "region_inv (gh_grain h1) r2"
    unfolding r2_def by (rule region_step_inv [OF region_step.changes_gen r1(1)])
  have r2: "hr_top r2 = hr_bottom r2" "hr_young_type r2 = NotYoung" "hr_containing_set r2 = None"
      "\<not> isHumongous r2" "hr_gen r2 = gr_gen ar" "hr_epoch r2 = gr_epoch ar" "hr_is_gen_alloc_region r2"
      "placed r r2"
    using r1 by (simp_all add: r2_def set_epoch_def set_gen_def set_gen_alloc_region_def isHumongous_def placed_def)
  have "gen_allocate_new_region env sz False ar h = Inr (Some p, ar\<lparr>gr_nregions := gr_nregions ar + 1\<rparr>, gh_put p r2 h1)"
    using n(1) assms(2)
    by (simp add: gen_allocate_new_region_def new_gen_alloc_region_def gen_amb_def gh_on_def r_def [symmetric] r1_def [symmetric])
      (simp add: r2_def gh_put_def put_hr_def)
  moreover have "heap_rep (gh_put p r2 h1) xs' ys'" by (rule keeps_rep [OF t(1) keeps_put t(6,7)])
  moreover have "gen_amb env (gh_put p r2 h1)" using assms(2) t(8) by (simp add: gen_amb_def)
  moreover have "gen_active (gr_gen ar) (gh_put p r2 h1) p" using r2 inv2 rr(6) by (simp add: gen_active_def unowned_def)
  moreover have "steady (set xs \<union> set ys) {p} h1 (gh_put p r2 h1)"
    by (rule keeps_steady [OF keeps_put]) (use r2 n(3) in \<open>simp_all add: r_def\<close>)
  from steady_trans [OF t(13) this, of "{}" "set xs \<union> set ys" "set xs \<union> set ys"] n(3,4)
  have "steady (set xs \<union> set ys) (set xs \<union> set ys) h (gh_put p r2 h1)" by simp
  ultimately show ?thesis using r2 t(9) n(3,4)
    by (intro exI [of _ p] exI [of _ "gh_put p r2 h1"] exI [of _ xs'] exI [of _ ys']) simp
qed

text \<open>The walk over the objects of a region ends, since every object has a size.\<close>

lemma bot_update_from_total:
  assumes "\<forall>p. 0 < obj_size p"
  shows "\<exists>bs. bot_update_from obj_size p r = Some (r\<lparr>hr_bot_blocks := bs\<rparr>) \<and> set (hr_bot_blocks r) \<subseteq> set bs"
proof (induction "hr_end r - p" arbitrary: p r rule: less_induct)
  case less
  show ?case
  proof (cases "p < hr_end r")
    case True
    then have "hr_end (alloc_block p (obj_size p) r) - (p + obj_size p) < hr_end r - p"
      using assms [rule_format, of p] by (simp add: alloc_block_def)
    from less [OF this] obtain bs where
      "bot_update_from obj_size (p + obj_size p) (alloc_block p (obj_size p) r) = Some (alloc_block p (obj_size p) r\<lparr>hr_bot_blocks := bs\<rparr>)"
      "set (hr_bot_blocks (alloc_block p (obj_size p) r)) \<subseteq> set bs" by blast
    then have "bot_update_from obj_size p r = Some (r\<lparr>hr_bot_blocks := bs\<rparr>) \<and> set (hr_bot_blocks r) \<subseteq> set bs"
      using True assms [rule_format, of p] by (simp add: bot_update_from.simps [of obj_size p r] alloc_block_def)
    then show ?thesis by blast
  next
    case False
    then show ?thesis by (intro exI [of _ "hr_bot_blocks r"]) (simp add: bot_update_from.simps [of obj_size p r])
  qed
qed

lemma bot_update_from_visits:
  assumes "\<forall>p. 0 < obj_size p" and "((\<lambda>p. p + obj_size p) ^^ n) p = t" and "t < hr_end r"
  shows "\<exists>r'. bot_update_from obj_size p r = Some r' \<and> (t, obj_size t) \<in> set (hr_bot_blocks r')"
  using assms(2,3)
proof (induction n arbitrary: p r)
  case 0
  have "p < hr_end r" using 0 by simp
  then have "bot_update_from obj_size p r = bot_update_from obj_size (p + obj_size p) (alloc_block p (obj_size p) r)"
    using assms(1) [rule_format, of p] by (simp add: bot_update_from.simps [of obj_size p r])
  then show ?case using 0 bot_update_from_total [OF assms(1), of "p + obj_size p" "alloc_block p (obj_size p) r"]
    by (auto simp: alloc_block_def)
next
  case (Suc n)
  have up: "q \<le> ((\<lambda>p. p + obj_size p) ^^ m) q" for m q by (induction m) (auto intro: le_trans)
  have nx: "((\<lambda>p. p + obj_size p) ^^ n) (p + obj_size p) = t" using Suc.prems(1) unfolding funpow_Suc_right by simp
  then have "p < hr_end r" using up [of "p + obj_size p" n] Suc.prems(2) by simp
  then have "bot_update_from obj_size p r = bot_update_from obj_size (p + obj_size p) (alloc_block p (obj_size p) r)"
    using assms(1) [rule_format, of p] by (simp add: bot_update_from.simps [of obj_size p r])
  then show ?case using Suc.IH [OF nx, of "alloc_block p (obj_size p) r"] Suc.prems(2) by (simp add: alloc_block_def)
qed

lemma enqueue_total:
  assumes "\<forall>p. 0 < env_obj_size env p"
  shows "\<exists>bs. enqueue_gen_cards env p h = Inr ((gh_put p ((gh_hr h p)\<lparr>hr_bot_blocks := bs\<rparr>) h)\<lparr>gh_enqueued := p # gh_enqueued h\<rparr>)"
proof (cases "env_bot_updates env")
  case True
  then show ?thesis
    using bot_update_from_total [OF assms, of "hr_bottom (gh_hr h p)" "gh_hr h p"]
    by (auto simp: enqueue_gen_cards_def bot_update_all_def gh_put_def)
next
  case False
  have "gh_put p ((gh_hr h p)\<lparr>hr_bot_blocks := hr_bot_blocks (gh_hr h p)\<rparr>) h = h"
    by (simp add: gh_put_def put_hr_def)
  then show ?thesis using False by (intro exI [of _ "hr_bot_blocks (gh_hr h p)"]) (simp add: enqueue_gen_cards_def)
qed

lemma gen_retire:
  assumes "heap_rep h xs ys" and "gen_amb env h" and "gen_active g h p" and "\<not> hr_is_empty (gh_hr h p)"
  shows "\<exists>h'. gen_retire_region env p n ar h = Inr h' \<and> heap_rep h' xs ys \<and> gen_amb env h' \<and> gh_grain h' = gh_grain h \<and>
    \<not> hr_is_gen_alloc_region (gh_hr h' p) \<and> steady {} {p} h h' \<and>
    gh_enqueued h' = (if hr_gen (gh_hr h p) \<noteq> 0 \<and> hr_active_tlabs (gh_hr h p) = 0 then p # gh_enqueued h else gh_enqueued h)"
proof -
  define h1 where "h1 = h\<lparr>gh_summary_bytes_used := gh_summary_bytes_used h + used (gh_hr h p)\<rparr>"
  have a: "unowned h p" "hr_young_type (gh_hr h p) = NotYoung" using assms(3) by (simp_all add: gen_active_def)
  have u: "unowned h1 p" "hr_young_type (gh_hr h1 p) = NotYoung" "\<not> hr_is_empty (gh_hr h1 p)"
      "rs_kind (gh_old_set h1) = MasterOldRegionSet" "check_mt_safety MasterOldRegionSet (gh_mt h1)"
    using a assms(1,2,4) by (simp_all add: h1_def unowned_def heap_rep_def gen_amb_def)
  obtain s where s: "set_add p (gh_old_set h1) (gh_st h1) = Inr (s, tag_hr p (Some (rs_id (gh_old_set h1))) (gh_st h1))"
      "rs_kind s = MasterOldRegionSet" using old_set_add [OF u] by blast
  define h2 where "h2 = gh_put p (set_gen_alloc_region False ((gh_hr h p)\<lparr>hr_containing_set := Some (rs_id (gh_old_set h))\<rparr>))
      (h1\<lparr>gh_old_set := s\<rparr>)"
  have run: "gen_retire_region env p n ar h = (if hr_gen (gh_hr h p) \<noteq> 0 \<and> hr_active_tlabs (gh_hr h p) = 0
      then enqueue_gen_cards env p h2 else Inr h2)"
    using s(1) by (simp add: gen_retire_region_def retire_gen_alloc_region_def h1_def [symmetric] gh_on_def Let_def)
      (simp add: h1_def h2_def gh_put_def put_hr_def tag_hr_def set_gen_alloc_region_def)
  have k2: "keeps p h h2" using s(2) u(4) by (simp add: keeps_def h2_def h1_def)
  have f2: "\<not> hr_is_gen_alloc_region (gh_hr h2 p)" "gh_enqueued h2 = gh_enqueued h"
    by (simp_all add: h2_def h1_def set_gen_alloc_region_def gh_put_def put_hr_def)
  have s2: "steady {} {p} h h2" by (rule keeps_steady [OF k2]) (simp_all add: h2_def h1_def set_gen_alloc_region_def placed_def)
  have fin: "heap_rep h' xs ys \<and> gen_amb env h' \<and> gh_grain h' = gh_grain h" if "keeps p h h'" for h'
    using keeps_rep [OF assms(1) that] rep_notin [OF assms(1) a(1)] assms(2) that by (auto simp: gen_amb_def keeps_def)
  show ?thesis
  proof (cases "hr_gen (gh_hr h p) \<noteq> 0 \<and> hr_active_tlabs (gh_hr h p) = 0")
    case True
    obtain bs where bs: "enqueue_gen_cards env p h2 =
        Inr ((gh_put p ((gh_hr h2 p)\<lparr>hr_bot_blocks := bs\<rparr>) h2)\<lparr>gh_enqueued := p # gh_enqueued h2\<rparr>)"
      using enqueue_total [of env p h2] assms(2) by (auto simp: gen_amb_def)
    let ?h = "(gh_put p ((gh_hr h2 p)\<lparr>hr_bot_blocks := bs\<rparr>) h2)\<lparr>gh_enqueued := p # gh_enqueued h2\<rparr>"
    have k3: "keeps p h ?h" using k2 by (simp add: keeps_def)
    have "steady {} {p} h ?h"
      by (rule keeps_steady [OF k3]) (use s2 in \<open>simp_all add: steady_def placed_def gh_put_def\<close>)
    then show ?thesis using fin [OF k3] True run bs f2 by simp
  next
    case False
    have "gen_retire_region env p n ar h = Inr h2" unfolding run by (rule if_not_P [OF False])
    then show ?thesis unfolding if_not_P [OF False] using fin [OF k2] f2 s2 by blast
  qed
qed

lemma gen_grown: "gen_active g h p \<Longrightarrow> grown (gh_hr h p) r \<Longrightarrow> gen_active g (gh_put p r h) p"
  using grown_facts(5,10,14) [of "gh_hr h p" r] unowned_grown [of h p r] by (simp add: gen_active_def)

interpretation gen: region_provider "gen_allocate_new_region env" "gen_retire_region env" True "gen_amb env" "gen_active g" "gen_room g"
  for env g
proof
  show "gen_amb env (gh_put p r h) = gen_amb env h" for p r h by (simp add: gen_amb_def)
  show "gen_room g ar (gh_put p r h) = gen_room g ar h" for ar p r h by (simp add: gen_room_def)
  show "gen_active g h p \<Longrightarrow> unowned h p" for h p by (simp add: gen_active_def)
  show "\<exists>p ar' h' xs' ys'. gen_allocate_new_region env sz False ar h = Inr (Some p, ar', h') \<and> heap_rep h' xs' ys' \<and> gen_amb env h' \<and>
      gen_active g h' p \<and> hr_top (gh_hr h' p) = hr_bottom (gh_hr h' p) \<and> gh_grain h' = gh_grain h \<and> ar_bot_updates ar' = ar_bot_updates ar \<and>
      steady (set xs \<union> set ys) (set xs \<union> set ys) h h' \<and> p \<in> set xs \<union> set ys \<and> set xs' \<union> set ys' \<subseteq> set xs \<union> set ys"
    if "heap_rep h xs ys" "gen_amb env h" "gen_room g ar h" "xs @ ys \<noteq> []" "sz \<le> GrainWords (gh_grain h)" for h xs ys ar sz
    using gen_new [OF that(1,2,4,5), of ar] that(3) unfolding gen_room_def by fastforce
  show "\<exists>h'. gen_retire_region env p n ar h = Inr h' \<and> heap_rep h' xs ys \<and> gen_amb env h' \<and> gh_grain h' = gh_grain h \<and> steady {} {p} h h' \<and>
      (gen_room g ar h \<longrightarrow> gen_room g (ar\<lparr>ar_used_bytes_before := 0, ar_region := AR_Dummy\<rparr>) h')"
    if "heap_rep h xs ys" "gen_amb env h" "gen_active g h p" "\<not> hr_is_empty (gh_hr h p)" for h xs ys p n ar
    using gen_retire [OF that, of n ar] by (auto simp: gen_room_def)
qed (use gen_grown in blast)+

section \<open>An example heap\<close>

text \<open>A heap with one free region, region 3.\<close>

definition sample_heap :: g1_heap where
  "sample_heap =
     \<lparr>gh_st = tag_hr 3 (Some 0) sample_store,
      gh_free_list = \<lparr>rs_id = 0, rs_kind = MasterFreeRegionList, rs_length = 1, rs_region_num = 1, rs_total_used_bytes = 0,
         rl_head = Some 3, rl_tail = Some 3\<rparr>,
      gh_secondary_free_list = HeapRegionLinkedList 1 SecondaryFreeRegionList,
      gh_old_set = HeapRegionSet 2 MasterOldRegionSet, gh_humongous_set = HeapRegionSet 3 MasterHumongousRegionSet,
      gh_expand_heap_after_alloc_failure = True,
      gh_dummy_region = sample_region\<lparr>hr_top := hr_end sample_region, hr_young_type := Young\<rparr>,
      gh_gc_time_stamp = 0, gh_summary_bytes_used = 0, gh_bytes_copied_during_gc = 0, gh_during_initial_mark = False,
      gh_next_young = (\<lambda>i. None), gh_young_head = None, gh_young_length = 0, gh_survivor_head = None, gh_survivor_tail = None,
      gh_survivor_length = 0, gh_young_list_target_length = 5, gh_young_list_max_length = 8, gh_max_survivor_regions = 2,
      gh_tenuring_threshold = 15, gh_all_regions_allocated = 0, gh_inc_cset_active = True, gh_next_in_cset = (\<lambda>i. None),
      gh_inc_cset_head = None, gh_inc_cset_tail = None, gh_inc_cset_bytes_used_before = 0, gh_inc_cset_recorded_rs_lengths = 0,
      gh_inc_cset_max_finger = 0, gh_enqueued = []\<rparr>"

definition sample_env :: g1_env where
  "sample_env = \<lparr>env_G1StressConcRegionFreeing = False, env_cleanup = [], env_expand = (\<lambda>n h. (False, h)), env_obj_size = (\<lambda>p. 2),
      env_bot_updates = True\<rparr>"

definition sample_gen_region :: gen_alloc_region where
  "sample_gen_region =
     \<lparr>ar_region = AR_Dummy, ar_count = 0, ar_used_bytes_before = 0, ar_bot_updates = True, gr_gen = 4, gr_epoch = 0, gr_nregions = 0\<rparr>"

lemma sample_heap_rep: "heap_rep sample_heap [3] []"
  by (simp add: heap_rep_def sample_heap_def lists_as_def fits_iff linked_kind_def HeapRegionLinkedList_def HeapRegionSet_def
      sample_store_def sample_region_def tag_hr_def put_hr_def isHumongous_def is_young_def used_def capacity_def HeapWordSize_def
      ready_def region_inv_def region_preds)

lemma sample_heap_grain: "GrainWords (gh_grain sample_heap) = 128" "Heap_lock (gh_mt sample_heap)"
    "\<not> is_at_safepoint (gh_mt sample_heap)" "gh_inc_cset_active sample_heap" "\<not> is_young_list_full sample_heap"
  by (simp_all add: sample_heap_def sample_store_def tag_hr_def put_hr_def is_young_list_full_def)

section \<open>Properties\<close>

text \<open>C15. Allocation in a dynamic generation: with the heap lock held and a region left on a free list,
  a request of at most a region succeeds, whatever the other threads allocate meanwhile.  The
  block lies inside a region that carries the generation: at or above the former top of the region in
  use, or at the bottom of a region taken from a free list.  The allocation region stays usable and the
  free lists stay well-formed.\<close>

theorem gen_allocation_succeeds:
  assumes "heap_rep h xs ys" and "alloc_region_ok True (gen_active g) ar h" and "gen_amb env h" and "gr_gen ar = g"
    and "xs @ ys \<noteq> []" and "0 < sz" "sz \<le> GrainWords (gh_grain h)"
  shows "\<exists>obj ar' h' xs' ys' p.
    attempt_allocation_locked (gen_allocate_new_region env) (gen_retire_region env) ss batches sz True ar h = Inr (Some obj, ar', h') \<and>
    heap_rep h' xs' ys' \<and> alloc_region_ok True (gen_active g) ar' h' \<and> ar_region ar' = AR_Region p \<and> hr_gen (gh_hr h' p) = g \<and>
    (ar_region ar = AR_Region p \<and> hr_top (gh_hr h p) \<le> obj \<or> p \<in> set xs \<union> set ys \<and> obj = hr_bottom (gh_hr h' p)) \<and>
    hr_bottom (gh_hr h' p) \<le> obj \<and> obj + sz = hr_top (gh_hr h' p) \<and> obj + sz \<le> hr_end (gh_hr h' p)"
proof -
  have "gen_room g ar h" using assms(4) by (simp add: gen_room_def)
  from gen.attempt_locked_ok [OF assms(1-3) this assms(5-7), of ss batches]
  obtain obj ar' h' xs' ys' p where
    "attempt_allocation_locked (gen_allocate_new_region env) (gen_retire_region env) ss batches sz True ar h = Inr (Some obj, ar', h')"
    and c: "heap_rep h' xs' ys'" "alloc_region_ok True (gen_active g) ar' h'" "ar_region ar' = AR_Region p"
    "ar_region ar = AR_Region p \<and> hr_top (gh_hr h p) \<le> obj \<or> p \<in> set xs \<union> set ys \<and> obj = hr_bottom (gh_hr h' p)"
    "hr_bottom (gh_hr h' p) \<le> obj" "obj + sz = hr_top (gh_hr h' p)" "obj + sz \<le> hr_end (gh_hr h' p)" by blast
  moreover have "hr_gen (gh_hr h' p) = g" using c(2,3) by (simp add: alloc_region_ok_def gen_active_def)
  ultimately show ?thesis by blast
qed

theorem gen_allocation_succeeds_witness:
  "\<exists>obj ar' h' p. attempt_allocation_locked (gen_allocate_new_region sample_env) (gen_retire_region sample_env) [7] [[3]] 5 True
     sample_gen_region sample_heap = Inr (Some obj, ar', h') \<and> ar_region ar' = AR_Region p \<and> hr_gen (gh_hr h' p) = 4"
proof -
  have "alloc_region_ok True (gen_active 4) sample_gen_region sample_heap" "gen_amb sample_env sample_heap" "gr_gen sample_gen_region = 4"
    using sample_heap_grain by (simp_all add: alloc_region_ok_def sample_gen_region_def gen_amb_def sample_env_def)
  then show ?thesis
    using gen_allocation_succeeds [OF sample_heap_rep, of 4 sample_gen_region sample_env 5 "[7]" "[[3]]"] sample_heap_grain by auto
qed

text \<open>C16. Allocation in the mutator, survivor and old regions under their locks succeeds in the same way,
  as long as the young list is not full or the limit on survivor regions is not reached.\<close>

theorem stock_allocation_succeeds:
  assumes "heap_rep h xs ys" and "xs @ ys \<noteq> []" and "0 < sz" "sz \<le> GrainWords (gh_grain h)"
  shows "(mutator_amb h \<and> \<not> is_young_list_full h \<and> alloc_region_ok False mutator_active ar h \<longrightarrow>
      (\<exists>obj ar' h' xs' ys'. attempt_allocation_locked (mutator_allocate_new_region env) mutator_retire_region ss batches sz False ar h =
         Inr (Some obj, ar', h') \<and> heap_rep h' xs' ys' \<and> alloc_region_ok False mutator_active ar' h')) \<and>
    (gc_amb h \<and> ar_count ar < gh_max_survivor_regions h \<and> alloc_region_ok False survivor_active ar h \<longrightarrow>
      (\<exists>obj ar' h' xs' ys'. attempt_allocation_locked (survivor_allocate_new_region env) survivor_retire_region ss batches sz False ar h =
         Inr (Some obj, ar', h') \<and> heap_rep h' xs' ys' \<and> alloc_region_ok False survivor_active ar' h')) \<and>
    (gc_amb h \<and> alloc_region_ok True old_active ar h \<longrightarrow>
      (\<exists>obj ar' h' xs' ys'. attempt_allocation_locked (old_allocate_new_region env) old_retire_region ss batches sz True ar h =
         Inr (Some obj, ar', h') \<and> heap_rep h' xs' ys' \<and> alloc_region_ok True old_active ar' h'))"
proof (intro conjI impI)
  assume "mutator_amb h \<and> \<not> is_young_list_full h \<and> alloc_region_ok False mutator_active ar h"
  then show "\<exists>obj ar' h' xs' ys'. attempt_allocation_locked (mutator_allocate_new_region env) mutator_retire_region ss batches sz False ar h =
      Inr (Some obj, ar', h') \<and> heap_rep h' xs' ys' \<and> alloc_region_ok False mutator_active ar' h'"
    using mut.attempt_locked_ok [OF assms(1) _ _ _ assms(2-4), of ar env ss batches] unfolding mutator_room_def by blast
next
  assume "gc_amb h \<and> ar_count ar < gh_max_survivor_regions h \<and> alloc_region_ok False survivor_active ar h"
  then show "\<exists>obj ar' h' xs' ys'. attempt_allocation_locked (survivor_allocate_new_region env) survivor_retire_region ss batches sz False ar h =
      Inr (Some obj, ar', h') \<and> heap_rep h' xs' ys' \<and> alloc_region_ok False survivor_active ar' h'"
    using surv.attempt_locked_ok [OF assms(1) _ _ _ assms(2-4), of ar env ss batches] unfolding survivor_room_def by blast
next
  assume "gc_amb h \<and> alloc_region_ok True old_active ar h"
  then show "\<exists>obj ar' h' xs' ys'. attempt_allocation_locked (old_allocate_new_region env) old_retire_region ss batches sz True ar h =
      Inr (Some obj, ar', h') \<and> heap_rep h' xs' ys' \<and> alloc_region_ok True old_active ar' h'"
    using old.attempt_locked_ok [OF assms(1) _ _ _ assms(2-4), of ar env ss batches] unfolding old_room_def by blast
qed

theorem stock_allocation_succeeds_witness:
  "\<exists>obj ar' h'. attempt_allocation_locked (mutator_allocate_new_region sample_env) mutator_retire_region [] [] 128 False
     \<lparr>ar_region = AR_Dummy, ar_count = 0, ar_used_bytes_before = 0, ar_bot_updates = False\<rparr> sample_heap = Inr (Some obj, ar', h')"
proof -
  have "mutator_amb sample_heap \<and> \<not> is_young_list_full sample_heap \<and> alloc_region_ok False mutator_active
      \<lparr>ar_region = AR_Dummy, ar_count = 0, ar_used_bytes_before = 0, ar_bot_updates = False\<rparr> sample_heap"
    using sample_heap_grain by (simp add: alloc_region_ok_def mutator_amb_def)
  then show ?thesis
    using stock_allocation_succeeds [OF sample_heap_rep, of 128
        "\<lparr>ar_region = AR_Dummy, ar_count = 0, ar_used_bytes_before = 0, ar_bot_updates = False\<rparr>" sample_env "[]" "[]"]
      sample_heap_grain by fastforce
qed

text \<open>C17. Before a region is retired it is filled up: the loop returns under every sequence of competing
  allocations, no assertion fails, and less than the smallest object is left.\<close>

theorem fill_up_ends:
  assumes "region_inv g r" and "\<not> hr_is_empty r" and "bu \<or> is_young r"
  shows "\<exists>r'. fill_up_remaining_space bu batches r = Inr r' \<and> region_inv g r' \<and> hr_bottom r' = hr_bottom r \<and> hr_top r \<le> hr_top r' \<and>
    free r' div HeapWordSize < min_fill_size"
proof -
  have "hr_top r \<le> hr_end r" using assms(1) by (simp add: region_inv_def)
  from fill_up_spec [OF assms(2) this assms(3)] obtain r' where
    r': "fill_up_remaining_space bu batches r = Inr r'" "grown r r'" "hr_end r' - hr_top r' < min_fill_size" by blast
  then show ?thesis using grown_inv [OF assms(1) r'(2)] grown_facts [OF r'(2)] by (simp add: free_def HeapWordSize_def)
qed

theorem fill_up_ends_witness:
  "\<exists>r'. fill_up_remaining_space True [[3, 4], [200]] (sample_region\<lparr>hr_top := 70\<rparr>) = Inr r' \<and> free r' div HeapWordSize < min_fill_size"
proof -
  have "region_inv (grain_unset\<lparr>GrainWords := 128\<rparr>) (sample_region\<lparr>hr_top := 70\<rparr>)" "\<not> hr_is_empty (sample_region\<lparr>hr_top := 70\<rparr>)"
    by (simp_all add: sample_region_def region_inv_def region_preds hr_is_empty_def used_def HeapWordSize_def)
  then show ?thesis using fill_up_ends [of _ "sample_region\<lparr>hr_top := 70\<rparr>" True "[[3, 4], [200]]"] by blast
qed

text \<open>C24. When one word is left of a retired generation region, which is too small for a filler, the walk
  that updates the offset table does not stop at the top: over every sequence of objects that
  ends at the top it records a block at the unallocated last word as well.\<close>

theorem bot_walk_passes_top:
  assumes "((\<lambda>p. p + obj_size p) ^^ n) (hr_bottom r) = hr_top r" and "hr_top r + 1 = hr_end r" and "\<forall>p. 0 < obj_size p"
  shows "\<exists>r'. bot_update_all obj_size r = Some r' \<and> (hr_top r, obj_size (hr_top r)) \<in> set (hr_bot_blocks r')"
  using bot_update_from_visits [OF assms(3,1)] assms(2) by (auto simp: bot_update_all_def)

theorem bot_walk_passes_top_witness:
  "\<exists>r'. bot_update_all (\<lambda>p. 127) (sample_region\<lparr>hr_top := 191\<rparr>) = Some r' \<and> (191, 127) \<in> set (hr_bot_blocks r')"
  using bot_walk_passes_top [where n = 1 and obj_size = "\<lambda>p. 127" and r = "sample_region\<lparr>hr_top := 191\<rparr>"] by (simp add: sample_region_def)

end
