(* ===== verification/Biased_Array.thy ===== *)
theory Biased_Array
  imports Heap_Region
begin

unbundle bit_operations_syntax

text \<open>
  Arrays that are indexed by heap addresses (gc_implementation/g1/g1BiasedArray.hpp,
  g1BiasedArray.cpp).  The source subtracts the bias once from the base pointer and then indexes
  with the shifted address; the model subtracts it from the index.  Addresses are word indices,
  and the shift applies to byte addresses.  An array that has not been initialized has no elements
  (\<^verbatim>\<open>_base == NULL\<close>).
\<close>

record 'v biased_array =
  ba_base :: "'v list option"
  ba_length :: nat
  ba_bias :: nat
  ba_shift_by :: nat

definition G1BiasedMappedArray :: "'v biased_array" where
  "G1BiasedMappedArray = \<lparr>ba_base = None, ba_length = 0, ba_bias = 0, ba_shift_by = 0\<rparr>"

definition is_power_of_2 :: "nat \<Rightarrow> bool" where
  "is_power_of_2 x = (x \<noteq> 0 \<and> x AND (x - 1) = 0)"

text \<open>A new array of the given length; the elements are what the memory held.\<close>

definition create_new_base_array :: "nat \<Rightarrow> 'v list \<Rightarrow> 'v list res" where
  "create_new_base_array n garbage = vassert (0 < n) ''just checking'' (Inr (take n garbage))"

definition initialize_base :: "'v list \<Rightarrow> nat \<Rightarrow> nat \<Rightarrow> int \<Rightarrow> 'v biased_array res" where
  "initialize_base base n bias shift_by =
     vassert (0 < n) ''just checking''
    (vassert (shift_by < 64) ''Shifting by more than the word size''
      (Inr \<lparr>ba_base = Some base, ba_length = n, ba_bias = bias, ba_shift_by = nat shift_by\<rparr>))"

definition ba_initialize_base :: "nat \<Rightarrow> nat \<Rightarrow> nat \<Rightarrow> 'v list \<Rightarrow> 'v biased_array res" where
  "ba_initialize_base bottom en granularity garbage =
     vassert (0 < granularity) ''just checking''
    (vassert (is_power_of_2 granularity) ''mapping granularity must be power of 2''
    (vassert (bottom * HeapWordSize mod granularity = 0) ''bottom mapping area address must be a multiple of mapping granularity''
    (vassert (en * HeapWordSize mod granularity = 0) ''end mapping area address must be a multiple of mapping granularity''
      (let num_target_elems = (en - bottom) div (granularity div HeapWordSize);
           bias = bottom * HeapWordSize div granularity
       in rbind (create_new_base_array num_target_elems garbage) (\<lambda>base.
            initialize_base base num_target_elems bias (log2_intptr granularity))))))"

definition ba_verify_index :: "nat \<Rightarrow> 'v biased_array \<Rightarrow> 'v list res" where
  "ba_verify_index index a =
     (case ba_base a of
        None \<Rightarrow> Inl (Guarantee_Failed ''Array not initialized'')
      | Some base \<Rightarrow> vguarantee (index < ba_length a) ''Index out of bounds'' (Inr base))"

definition verify_biased_index :: "nat \<Rightarrow> 'v biased_array \<Rightarrow> 'v list res" where
  "verify_biased_index biased_index a =
     (case ba_base a of
        None \<Rightarrow> Inl (Guarantee_Failed ''Array not initialized'')
      | Some base \<Rightarrow> vguarantee (ba_bias a \<le> biased_index \<and> biased_index < ba_bias a + ba_length a) ''Biased index out of bounds'' (Inr base))"

definition get_by_index :: "nat \<Rightarrow> 'v biased_array \<Rightarrow> 'v res" where
  "get_by_index index a = rbind (ba_verify_index index a) (\<lambda>base. Inr (base ! index))"

definition set_by_index :: "nat \<Rightarrow> 'v \<Rightarrow> 'v biased_array \<Rightarrow> 'v biased_array res" where
  "set_by_index index v a = rbind (ba_verify_index index a) (\<lambda>base. Inr (a\<lparr>ba_base := Some (base[index := v])\<rparr>))"

definition biased_index :: "nat \<Rightarrow> 'v biased_array \<Rightarrow> nat" where
  "biased_index addr a = addr * HeapWordSize div 2 ^ ba_shift_by a"

definition get_by_address :: "nat \<Rightarrow> 'v biased_array \<Rightarrow> 'v res" where
  "get_by_address addr a =
     rbind (verify_biased_index (biased_index addr a) a) (\<lambda>base. Inr (base ! (biased_index addr a - ba_bias a)))"

definition set_by_address :: "nat \<Rightarrow> 'v \<Rightarrow> 'v biased_array \<Rightarrow> 'v biased_array res" where
  "set_by_address addr v a =
     rbind (verify_biased_index (biased_index addr a) a) (\<lambda>base.
       Inr (a\<lparr>ba_base := Some (base[biased_index addr a - ba_bias a := v])\<rparr>))"

definition bottom_address_mapped :: "'v biased_array \<Rightarrow> nat" where
  "bottom_address_mapped a = ba_bias a * 2 ^ ba_shift_by a div HeapWordSize"

definition end_address_mapped :: "'v biased_array \<Rightarrow> nat" where
  "end_address_mapped a = (ba_bias a + ba_length a) * 2 ^ ba_shift_by a div HeapWordSize"

definition ba_clear :: "'v \<Rightarrow> 'v biased_array \<Rightarrow> 'v biased_array res" where
  "ba_clear default_value a = rfold (\<lambda>i. set_by_index i default_value) [0..<ba_length a] a"

definition ba_initialize :: "'v \<Rightarrow> nat \<Rightarrow> nat \<Rightarrow> nat \<Rightarrow> 'v list \<Rightarrow> 'v biased_array res" where
  "ba_initialize default_value bottom en granularity garbage =
     rbind (ba_initialize_base bottom en granularity garbage) (ba_clear default_value)"

section \<open>Lemmas\<close>

definition ba_wf :: "'v biased_array \<Rightarrow> bool" where
  "ba_wf a \<longleftrightarrow> (\<exists>base. ba_base a = Some base \<and> length base = ba_length a)"

lemma is_power_of_2_exp: "is_power_of_2 (2 ^ k)"
proof -
  have "(2 :: nat) ^ k AND mask k = 0" by (simp add: take_bit_eq_mask [symmetric] take_bit_eq_mod)
  then show ?thesis by (simp add: is_power_of_2_def mask_eq_exp_minus_1)
qed

lemma get_set_by_index:
  assumes "ba_wf a" and "i < ba_length a"
  shows "\<exists>a'. set_by_index i v a = Inr a' \<and> ba_wf a' \<and> ba_length a' = ba_length a \<and> ba_bias a' = ba_bias a \<and> ba_shift_by a' = ba_shift_by a \<and>
    (\<forall>j < ba_length a. get_by_index j a' = (if j = i then Inr v else get_by_index j a))"
  using assms by (auto simp: ba_wf_def set_by_index_def get_by_index_def ba_verify_index_def vguarantee_def)

lemma ba_clear_spec:
  assumes "ba_wf a"
  shows "\<exists>a'. ba_clear v a = Inr a' \<and> ba_wf a' \<and> ba_length a' = ba_length a \<and> ba_bias a' = ba_bias a \<and> ba_shift_by a' = ba_shift_by a \<and>
    (\<forall>j < ba_length a. get_by_index j a' = Inr v)"
proof -
  have "\<exists>a'. rfold (\<lambda>i. set_by_index i v) [0..<n] a = Inr a' \<and> ba_wf a' \<and> ba_length a' = ba_length a \<and> ba_bias a' = ba_bias a \<and>
      ba_shift_by a' = ba_shift_by a \<and> (\<forall>j < n. get_by_index j a' = Inr v)" if "n \<le> ba_length a" for n
    using that
  proof (induction n)
    case (Suc n)
    then obtain a1 where a1: "rfold (\<lambda>i. set_by_index i v) [0..<n] a = Inr a1" "ba_wf a1" "ba_length a1 = ba_length a" "ba_bias a1 = ba_bias a"
        "ba_shift_by a1 = ba_shift_by a" "\<forall>j < n. get_by_index j a1 = Inr v" by auto
    have "n < ba_length a1" using Suc.prems a1(3) by simp
    from get_set_by_index [OF a1(2) this, of v] obtain a2 where "set_by_index n v a1 = Inr a2" "ba_wf a2" "ba_length a2 = ba_length a1"
        "ba_bias a2 = ba_bias a1" "ba_shift_by a2 = ba_shift_by a1" "\<forall>j < ba_length a1. get_by_index j a2 = (if j = n then Inr v else get_by_index j a1)"
      by blast
    then show ?case using a1 Suc.prems by (auto simp: rfold_append less_Suc_eq)
  qed (use assms in simp)
  from this [of "ba_length a"] show ?thesis by (simp add: ba_clear_def)
qed

text \<open>The array covers the addresses from \<open>bottom\<close> to \<open>en\<close> with granules of \<open>2 ^ k\<close> bytes.\<close>

definition ba_maps :: "'v biased_array \<Rightarrow> nat \<Rightarrow> nat \<Rightarrow> nat \<Rightarrow> bool" where
  "ba_maps a bottom en k \<longleftrightarrow>
     ba_wf a \<and> ba_shift_by a = k \<and> ba_bias a * 2 ^ k = bottom * HeapWordSize \<and> (ba_bias a + ba_length a) * 2 ^ k = en * HeapWordSize"

lemma ba_maps_index:
  assumes "ba_maps a bottom en k"
  shows "(ba_bias a \<le> biased_index x a \<longleftrightarrow> bottom \<le> x) \<and> (biased_index x a < ba_bias a + ba_length a \<longleftrightarrow> x < en)"
proof -
  have "biased_index x a = x * HeapWordSize div 2 ^ k" using assms by (simp add: ba_maps_def biased_index_def)
  then have "ba_bias a \<le> biased_index x a \<longleftrightarrow> ba_bias a * 2 ^ k \<le> x * HeapWordSize"
      "biased_index x a < ba_bias a + ba_length a \<longleftrightarrow> x * HeapWordSize < (ba_bias a + ba_length a) * 2 ^ k"
    by (simp_all add: less_eq_div_iff_mult_less_eq div_less_iff_less_mult)
  then show ?thesis using assms by (simp add: ba_maps_def HeapWordSize_def)
qed

lemma ba_address_get:
  assumes "ba_maps a bottom en k" and "bottom \<le> x" "x < en"
  shows "get_by_address x a = get_by_index (biased_index x a - ba_bias a) a" "biased_index x a - ba_bias a < ba_length a"
  using ba_maps_index [OF assms(1), of x] assms
  by (auto simp: ba_maps_def ba_wf_def get_by_address_def get_by_index_def verify_biased_index_def ba_verify_index_def vguarantee_def)

lemma ba_address_set:
  assumes "ba_maps a bottom en k" and "bottom \<le> x" "x < en"
  shows "\<exists>a'. set_by_address x v a = Inr a' \<and> ba_maps a' bottom en k \<and>
    (\<forall>y. bottom \<le> y \<and> y < en \<longrightarrow> get_by_address y a' = (if biased_index y a = biased_index x a then Inr v else get_by_address y a))"
proof -
  obtain base where b: "ba_base a = Some base" "length base = ba_length a" using assms(1) by (auto simp: ba_maps_def ba_wf_def)
  let ?i = "biased_index x a - ba_bias a" and ?a = "a\<lparr>ba_base := Some (base[biased_index x a - ba_bias a := v])\<rparr>"
  have bi: "biased_index y ?a = biased_index y a" for y by (simp add: biased_index_def)
  have m: "ba_maps ?a bottom en k" using assms(1) b by (simp add: ba_maps_def ba_wf_def)
  have "set_by_address x v a = Inr ?a"
    using ba_maps_index [OF assms(1), of x] assms(2,3) b by (simp add: set_by_address_def verify_biased_index_def vguarantee_def)
  moreover have "get_by_address y ?a = (if biased_index y a = biased_index x a then Inr v else get_by_address y a)"
    if "bottom \<le> y" "y < en" for y
    using ba_maps_index [OF assms(1), of x] ba_maps_index [OF assms(1), of y] assms(2,3) that b
    by (auto simp: get_by_address_def verify_biased_index_def vguarantee_def bi nth_list_update)
  ultimately show ?thesis using m by blast
qed

lemma ba_initialize_spec:
  assumes "3 \<le> k" "k < 64" and "2 ^ k dvd bottom * HeapWordSize" "2 ^ k dvd en * HeapWordSize" and "bottom < en"
    and "(en - bottom) div (2 ^ k div HeapWordSize) \<le> length garbage"
  shows "\<exists>a. ba_initialize d bottom en (2 ^ k) garbage = Inr a \<and> ba_maps a bottom en k \<and> (\<forall>j < ba_length a. get_by_index j a = Inr d)"
proof -
  obtain u w where uw: "bottom * HeapWordSize = 2 ^ k * u" "en * HeapWordSize = 2 ^ k * w" using assms(3,4) by (auto simp: dvd_def)
  obtain g where g: "(2 :: nat) ^ k = HeapWordSize * g"
    using le_imp_power_dvd [OF assms(1), of "2 :: nat"] by (auto simp: HeapWordSize_def dvd_def)
  have g0: "0 < g" using g by (metis gr0I mult_0_right power_not_zero zero_neq_numeral)
  have bw: "bottom = g * u" "en = g * w" using uw g by (simp_all add: HeapWordSize_def)
  have uw2: "u < w" using assms(5) g0 by (simp add: bw)
  have n: "(en - bottom) div (2 ^ k div HeapWordSize) = w - u"
    using g g0 by (simp add: bw diff_mult_distrib2 [symmetric] HeapWordSize_def)
  let ?a = "\<lparr>ba_base = Some (take (w - u) garbage), ba_length = w - u, ba_bias = u, ba_shift_by = k\<rparr>"
  have "log2_intptr (2 ^ k) = int k" using log2_long_power [of k] by (simp add: log2_long_def log2_intptr_def)
  then have "ba_initialize_base bottom en (2 ^ k) garbage = Inr ?a"
    using assms uw2 is_power_of_2_exp [of k] n uw(1)
    by (simp add: ba_initialize_base_def create_new_base_array_def initialize_base_def Let_def)
  moreover have "ba_wf ?a" using assms(6) n by (simp add: ba_wf_def)
  from ba_clear_spec [OF this, of d] obtain a where a: "ba_clear d ?a = Inr a" "ba_wf a" "ba_length a = w - u" "ba_bias a = u"
      "ba_shift_by a = k" "\<forall>j < w - u. get_by_index j a = Inr d" by auto
  ultimately show ?thesis using a uw uw2 by (simp add: ba_initialize_def ba_maps_def mult.commute)
qed

section \<open>Properties\<close>

text \<open>C22. Arrays indexed by heap addresses: initialized over an aligned range they answer the default
  value at every address of the range and report its bounds; a value stored at an address
  is found at exactly the addresses of the same granule, and every access outside the range is
  caught.\<close>

theorem biased_array_maps:
  assumes "3 \<le> k" "k < 64" and "2 ^ k dvd bottom * HeapWordSize" "2 ^ k dvd en * HeapWordSize" and "bottom < en"
    and "(en - bottom) div (2 ^ k div HeapWordSize) \<le> length garbage"
  shows "\<exists>a. ba_initialize d bottom en (2 ^ k) garbage = Inr a \<and> bottom_address_mapped a = bottom \<and> end_address_mapped a = en \<and>
    (\<forall>x. get_by_address x a = (if bottom \<le> x \<and> x < en then Inr d else Inl (Guarantee_Failed ''Biased index out of bounds''))) \<and>
    (\<forall>x v. bottom \<le> x \<and> x < en \<longrightarrow> (\<exists>a'. set_by_address x v a = Inr a' \<and>
      (\<forall>y. bottom \<le> y \<and> y < en \<longrightarrow> get_by_address y a' = Inr (if y * HeapWordSize div 2 ^ k = x * HeapWordSize div 2 ^ k then v else d))))"
proof -
  obtain a where a: "ba_initialize d bottom en (2 ^ k) garbage = Inr a" "ba_maps a bottom en k" "\<forall>j < ba_length a. get_by_index j a = Inr d"
    using ba_initialize_spec [OF assms] by blast
  have "bottom_address_mapped a = bottom" "end_address_mapped a = en"
    using a(2) by (simp_all add: ba_maps_def bottom_address_mapped_def end_address_mapped_def HeapWordSize_def)
  moreover have "get_by_address x a = Inl (Guarantee_Failed ''Biased index out of bounds'')" if "\<not> (bottom \<le> x \<and> x < en)" for x
    using ba_maps_index [OF a(2), of x] a(2) that by (auto simp: ba_maps_def ba_wf_def get_by_address_def verify_biased_index_def vguarantee_def)
  moreover have d: "get_by_address x a = Inr d" if "bottom \<le> x" "x < en" for x
    using ba_address_get [OF a(2) that] a(3) by simp
  moreover have "\<exists>a'. set_by_address x v a = Inr a' \<and>
      (\<forall>y. bottom \<le> y \<and> y < en \<longrightarrow> get_by_address y a' = Inr (if y * HeapWordSize div 2 ^ k = x * HeapWordSize div 2 ^ k then v else d))"
    if "bottom \<le> x" "x < en" for x v
    using ba_address_set [OF a(2) that, of v] a(2) d by (auto simp: biased_index_def ba_maps_def)
  ultimately show ?thesis using a(1) by (intro exI [of _ a]) auto
qed

theorem biased_array_maps_witness:
  "\<exists>a a'. ba_initialize (7 :: int) 64 192 512 [1, 2, 3] = Inr a \<and> set_by_address 130 9 a = Inr a' \<and>
     get_by_address 191 a' = Inr 9 \<and> get_by_address 127 a' = Inr 7"
proof -
  from biased_array_maps [of 9 64 192 "[1, 2, 3 :: int]" 7] obtain a where a: "ba_initialize (7 :: int) 64 192 512 [1, 2, 3] = Inr a"
      "\<And>x v. 64 \<le> x \<and> x < 192 \<Longrightarrow> (\<exists>a'. set_by_address x v a = Inr a' \<and>
        (\<forall>y. 64 \<le> y \<and> y < 192 \<longrightarrow> get_by_address y a' = Inr (if y * HeapWordSize div 2 ^ 9 = x * HeapWordSize div 2 ^ 9 then v else 7)))"
    by (auto simp: HeapWordSize_def)
  from a(2) [of 130 9] obtain a' where "set_by_address 130 9 a = Inr a'"
      "\<And>y. 64 \<le> y \<and> y < 192 \<Longrightarrow> get_by_address y a' = Inr (if y * HeapWordSize div 2 ^ 9 = 130 * HeapWordSize div 2 ^ 9 then 9 else 7)" by auto
  from this(1) this(2) [of 191] this(2) [of 127] a(1) show ?thesis by (auto simp: HeapWordSize_def)
qed

end
