(* ===== verification/Region_Seq.thy ===== *)
theory Region_Seq
  imports Alloc_Kinds Biased_Array
begin

text \<open>
  The sequence of heap regions (gc_implementation/g1/heapRegionSeq.hpp, heapRegionSeq.inline.hpp,
  heapRegionSeq.cpp): the table from indices and addresses to regions, growing and
  shrinking the committed part, and the search for runs of empty regions.  The table holds pointers
  into the region store; the region created for index \<open>i\<close> gets the pointer \<open>i\<close>.
  \<^verbatim>\<open>G1_NULL_HRS_INDEX\<close> is \<open>None\<close>.
\<close>

record region_seq =
  hs_regions :: "nat option biased_array"
  hs_committed_length :: nat
  hs_next_search_index :: nat
  hs_allocated_length :: nat

definition HeapRegionSeq :: region_seq where
  "HeapRegionSeq = \<lparr>hs_regions = G1BiasedMappedArray, hs_committed_length = 0, hs_next_search_index = 0, hs_allocated_length = 0\<rparr>"

definition seq_length :: "region_seq \<Rightarrow> nat" where
  "seq_length sq = hs_committed_length sq"

definition seq_max_length :: "region_seq \<Rightarrow> nat" where
  "seq_max_length sq = ba_length (hs_regions sq)"

definition seq_heap_bottom :: "region_seq \<Rightarrow> nat" where
  "seq_heap_bottom sq = bottom_address_mapped (hs_regions sq)"

definition seq_heap_end :: "region_seq \<Rightarrow> nat" where
  "seq_heap_end sq = end_address_mapped (hs_regions sq)"

definition increment_allocated_length :: "region_seq \<Rightarrow> region_seq res" where
  "increment_allocated_length sq =
     vassert (hs_allocated_length sq < seq_max_length sq) ''pre-condition'' (Inr (sq\<lparr>hs_allocated_length := hs_allocated_length sq + 1\<rparr>))"

definition increment_length :: "region_seq \<Rightarrow> region_seq res" where
  "increment_length sq =
     vassert (seq_length sq < seq_max_length sq) ''pre-condition'' (Inr (sq\<lparr>hs_committed_length := hs_committed_length sq + 1\<rparr>))"

definition decrement_length :: "region_seq \<Rightarrow> region_seq res" where
  "decrement_length sq =
     vassert (0 < seq_length sq) ''pre-condition'' (Inr (sq\<lparr>hs_committed_length := hs_committed_length sq - 1\<rparr>))"

definition addr_to_region_unsafe :: "nat \<Rightarrow> region_seq \<Rightarrow> nat res" where
  "addr_to_region_unsafe addr sq =
     rbind (get_by_address addr (hs_regions sq)) (\<lambda>hr.
       case hr of None \<Rightarrow> Inl (Assert_Failed ''invariant'') | Some p \<Rightarrow> Inr p)"

definition addr_to_region :: "nat \<Rightarrow> region_seq \<Rightarrow> nat option res" where
  "addr_to_region addr sq =
     (if addr \<noteq> 0 \<and> addr < seq_heap_end sq
      then vassert (seq_heap_bottom sq \<le> addr) ''bottom'' (rbind (addr_to_region_unsafe addr sq) (\<lambda>p. Inr (Some p)))
      else Inr None)"

definition seq_at :: "nat \<Rightarrow> region_seq \<Rightarrow> region_store \<Rightarrow> nat res" where
  "seq_at index sq st =
     vassert (index < seq_length sq) ''pre-condition''
       (rbind (get_by_index index (hs_regions sq)) (\<lambda>hr.
          case hr of
            None \<Rightarrow> Inl (Assert_Failed ''sanity'')
          | Some p \<Rightarrow> vassert (hr_index (st_hr st p) = index) ''sanity'' (Inr p)))"

definition seq_initialize :: "grain \<Rightarrow> nat \<Rightarrow> nat \<Rightarrow> nat option list \<Rightarrow> region_seq \<Rightarrow> region_seq res" where
  "seq_initialize g bottom en garbage sq =
     vassert (bottom * HeapWordSize mod GrainBytes g = 0) ''bottom should be heap region aligned''
    (vassert (en * HeapWordSize mod GrainBytes g = 0) ''end should be heap region aligned''
      (rbind (ba_initialize None bottom en (GrainBytes g) garbage) (\<lambda>a.
         Inr (sq\<lparr>hs_next_search_index := 0, hs_allocated_length := 0, hs_regions := a\<rparr>))))"

section \<open>Searching\<close>

function find_loop ::
    "region_seq \<Rightarrow> region_store \<Rightarrow> nat \<Rightarrow> nat \<Rightarrow> nat option \<Rightarrow> nat \<Rightarrow> (nat \<times> nat option \<times> nat) res" where
  "find_loop sq st num cur first num_so_far =
     (if cur < seq_length sq \<and> num_so_far < num
      then rbind (seq_at cur sq st) (\<lambda>p.
             if hr_is_empty (st_hr st p)
             then if first = None then find_loop sq st num (cur + 1) (Some cur) 1
                  else find_loop sq st num (cur + 1) first (num_so_far + 1)
             else find_loop sq st num (cur + 1) None 0)
      else Inr (cur, first, num_so_far))"
  by pat_completeness auto
termination
  by (relation "measure (\<lambda>(sq, st, num, cur, first, n). seq_length sq - cur)") auto

declare find_loop.simps [simp del]

definition find_contiguous_from :: "nat \<Rightarrow> nat \<Rightarrow> region_seq \<Rightarrow> region_store \<Rightarrow> nat option res" where
  "find_contiguous_from from num sq st =
     vassert (1 < num) ''use this only for sequences of length 2 or greater''
    (vassert (from \<le> seq_length sq) ''from should be valid''
      (rbind (find_loop sq st num from None 0) (\<lambda>(cur, first, num_so_far).
         vassert (num_so_far \<le> num) ''post-condition''
           (if num_so_far = num
            then rbind (deref first ''first'') (\<lambda>f.
                   vassert (from \<le> f \<and> f < seq_length sq) ''post-condition''
                  (vassert (f < cur \<and> cur - f = num) ''post-condition''
                     (rfold (\<lambda>i _. rbind (seq_at i sq st) (\<lambda>p. vassert (hr_is_empty (st_hr st p)) ''post-condition'' (Inr (Some f))))
                        [f..<f + num] (Some f))))
            else Inr None))))"

definition find_contiguous :: "nat \<Rightarrow> region_seq \<Rightarrow> region_store \<Rightarrow> (nat option \<times> region_seq) res" where
  "find_contiguous num sq st =
     vassert (1 < num) ''use this only for sequences of length 2 or greater''
    (vassert (hs_next_search_index sq \<le> seq_length sq) ''_next_search_index should be valid''
      (let start = hs_next_search_index sq
       in rbind (find_contiguous_from start num sq st) (\<lambda>res0.
          rbind (if res0 = None \<and> 0 < start then find_contiguous_from 0 num sq st else Inr res0) (\<lambda>res.
            case res of
              None \<Rightarrow> Inr (None, sq)
            | Some f \<Rightarrow>
                vassert (f < seq_length sq) ''res should be valid''
                  (let sq1 = sq\<lparr>hs_next_search_index := f + num\<rparr>
                   in vassert (hs_next_search_index sq1 \<le> seq_length sq1) ''_next_search_index should be valid'' (Inr (Some f, sq1)))))))"

fun free_suffix_loop :: "region_seq \<Rightarrow> region_store \<Rightarrow> nat \<Rightarrow> nat \<Rightarrow> nat res" where
  "free_suffix_loop sq st 0 res = Inr res"
| "free_suffix_loop sq st (Suc index) res =
     rbind (seq_at index sq st) (\<lambda>p.
       if \<not> hr_is_empty (st_hr st p) then Inr res else free_suffix_loop sq st index (res + 1))"

definition free_suffix :: "region_seq \<Rightarrow> region_store \<Rightarrow> nat res" where
  "free_suffix sq st = free_suffix_loop sq st (seq_length sq) 0"

section \<open>Iteration\<close>

text \<open>A closure answers whether to stop; \<^verbatim>\<open>incomplete\<close> is then reported as the first component.\<close>

fun iterate_indices ::
    "(nat \<Rightarrow> 's \<Rightarrow> (bool \<times> 's) res) \<Rightarrow> nat list \<Rightarrow> region_seq \<Rightarrow> region_store \<Rightarrow> 's \<Rightarrow> (bool \<times> 's) res" where
  "iterate_indices blk [] sq st s = Inr (False, s)"
| "iterate_indices blk (i # is) sq st s =
     rbind (seq_at i sq st) (\<lambda>p.
     rbind (blk p s) (\<lambda>(stop, s1). if stop then Inr (True, s1) else iterate_indices blk is sq st s1))"

definition seq_iterate_from ::
    "nat option \<Rightarrow> (nat \<Rightarrow> 's \<Rightarrow> (bool \<times> 's) res) \<Rightarrow> region_seq \<Rightarrow> region_store \<Rightarrow> 's \<Rightarrow> (bool \<times> 's) res" where
  "seq_iterate_from hr blk sq st s =
     (let hrs_index = (case hr of None \<Rightarrow> 0 | Some p \<Rightarrow> hr_index (st_hr st p))
      in rbind (iterate_indices blk [hrs_index..<seq_length sq] sq st s) (\<lambda>(stop, s1).
           if stop then Inr (True, s1) else iterate_indices blk [0..<hrs_index] sq st s1))"

definition seq_iterate :: "(nat \<Rightarrow> 's \<Rightarrow> (bool \<times> 's) res) \<Rightarrow> region_seq \<Rightarrow> region_store \<Rightarrow> 's \<Rightarrow> (bool \<times> 's) res" where
  "seq_iterate blk sq st s = seq_iterate_from None blk sq st s"

section \<open>Growing and shrinking\<close>

text \<open>\<open>room\<close> tells whether the region object can be allocated; \<open>stamp\<close> is the time stamp of the heap.\<close>

definition new_heap_region :: "(nat \<Rightarrow> bool) \<Rightarrow> nat \<times> nat \<Rightarrow> nat \<Rightarrow> nat \<Rightarrow> nat \<Rightarrow> region_store \<Rightarrow> (nat option \<times> region_store) res" where
  "new_heap_region room reserved stamp hrs_index bottom st =
     (let en = bottom + GrainWords (st_grain st)
      in vassert (fst reserved \<le> bottom \<and> en \<le> snd reserved) ''invariant''
           (if room hrs_index
            then rbind (HeapRegion stamp hrs_index bottom en) (\<lambda>r. Inr (Some hrs_index, put_hr hrs_index r st))
            else Inr (None, st)))"

text \<open>One round of the loop of \<^verbatim>\<open>expand_by\<close>; \<open>None\<close> when a region object could not be allocated.\<close>

definition expand_step ::
    "(nat \<Rightarrow> bool) \<Rightarrow> nat \<times> nat \<Rightarrow> nat \<Rightarrow> nat \<Rightarrow> region_seq \<Rightarrow> region_list \<Rightarrow> region_store
     \<Rightarrow> (nat \<times> region_seq \<times> region_list \<times> region_store) option res" where
  "expand_step room reserved stamp next_bottom sq l st =
     vassert (next_bottom < seq_heap_end sq) ''invariant''
       (let index = seq_length sq
        in vassert (index < seq_max_length sq) ''otherwise we cannot expand further''
          (rbind (if index = 0 then vassert (next_bottom = seq_heap_bottom sq) ''invariant'' (Inr ())
                  else rbind (seq_at (index - 1) sq st) (\<lambda>q. vassert (next_bottom = hr_end (st_hr st q)) ''invariant'' (Inr ()))) (\<lambda>_.
           rbind (if index = hs_allocated_length sq
                  then rbind (new_heap_region room reserved stamp index next_bottom st) (\<lambda>(new_hr, st1).
                         case new_hr of
                           None \<Rightarrow> Inr None
                         | Some p \<Rightarrow>
                             rbind (get_by_index index (hs_regions sq)) (\<lambda>old.
                               vassert (old = None) ''invariant''
                                 (rbind (set_by_index index (Some p) (hs_regions sq)) (\<lambda>a.
                                  rbind (increment_allocated_length (sq\<lparr>hs_regions := a\<rparr>)) (\<lambda>sq1. Inr (Some (sq1, st1)))))))
                  else Inr (Some (sq, st))) (\<lambda>created.
             case created of
               None \<Rightarrow> Inr None
             | Some (sq1, st1) \<Rightarrow>
                 rbind (increment_length sq1) (\<lambda>sq2.
                 rbind (seq_at index sq2 st1) (\<lambda>p.
                 rbind (add_as_tail p l st1) (\<lambda>(l1, st2). Inr (Some (hr_end (st_hr st2 p), sq2, l1, st2)))))))))"

lemma set_by_index_length: "set_by_index i v a = Inr a' \<Longrightarrow> ba_length a' = ba_length a"
  by (auto simp: set_by_index_def res_simps)

lemma expand_step_length:
  assumes "expand_step room reserved stamp nb sq l st = Inr (Some (nb', sq', l', st'))"
  shows "seq_max_length sq' = seq_max_length sq" "seq_length sq' = seq_length sq + 1" "seq_length sq < seq_max_length sq"
  using assms
  by (auto simp: expand_step_def res_simps Let_def increment_length_def increment_allocated_length_def seq_length_def seq_max_length_def
      set_by_index_length split: option.splits if_splits)

function expand_loop ::
    "(nat \<Rightarrow> bool) \<Rightarrow> nat \<times> nat \<Rightarrow> nat \<Rightarrow> nat \<Rightarrow> nat \<Rightarrow> region_seq \<Rightarrow> region_list \<Rightarrow> region_store
     \<Rightarrow> (nat \<times> region_seq \<times> region_list \<times> region_store) res" where
  "expand_loop room reserved stamp new_end next_bottom sq l st =
     (if next_bottom < new_end
      then rbind (expand_step room reserved stamp next_bottom sq l st) (\<lambda>r.
             case r of
               None \<Rightarrow> Inr (next_bottom, sq, l, st)
             | Some (nb1, sq1, l1, st1) \<Rightarrow> expand_loop room reserved stamp new_end nb1 sq1 l1 st1)
      else vassert (next_bottom = new_end) ''post-condition'' (Inr (next_bottom, sq, l, st)))"
  by pat_completeness auto
termination
proof (relation "measure (\<lambda>(room, reserved, stamp, en, nb, sq, l, st). seq_max_length sq - seq_length sq)")
  fix room reserved stamp and new_end next_bottom :: nat and sq l st r x nb1 y sq1 z l1 st1
  assume "expand_step room reserved stamp next_bottom sq l st = Inr r" "r = Some x" "(nb1, y) = x" "(sq1, z) = y" "(l1, st1) = z"
  then have "expand_step room reserved stamp next_bottom sq l st = Inr (Some (nb1, sq1, l1, st1))" by simp
  from expand_step_length [OF this]
  show "((room, reserved, stamp, new_end, nb1, sq1, l1, st1), room, reserved, stamp, new_end, next_bottom, sq, l, st) \<in>
      measure (\<lambda>(room, reserved, stamp, en, nb, sq, l, st). seq_max_length sq - seq_length sq)" by simp
qed simp

declare expand_loop.simps [simp del]

text \<open>The result has the bounds of the new part of the heap.\<close>

definition expand_by ::
    "(nat \<Rightarrow> bool) \<Rightarrow> nat \<times> nat \<Rightarrow> nat \<Rightarrow> nat \<Rightarrow> nat \<Rightarrow> region_seq \<Rightarrow> region_list \<Rightarrow> region_store
     \<Rightarrow> ((nat \<times> nat) \<times> region_seq \<times> region_list \<times> region_store) res" where
  "expand_by room reserved stamp old_end new_end sq l st =
     vassert (old_end < new_end) ''don't call it otherwise''
    (vassert (seq_heap_bottom sq \<le> old_end) ''invariant''
      (rbind (expand_loop room reserved stamp new_end old_end sq l st) (\<lambda>(nb, sq1, l1, st1). Inr ((old_end, nb), sq1, l1, st1))))"

fun shrink_loop :: "nat \<Rightarrow> nat \<Rightarrow> region_seq \<Rightarrow> region_store \<Rightarrow> (nat \<times> region_seq) res" where
  "shrink_loop 0 i sq st = Inr (i, sq)"
| "shrink_loop (Suc n) i sq st =
     rbind (seq_at (seq_length sq - 1) sq st) (\<lambda>p.
       if \<not> hr_is_empty (st_hr st p) then Inr (i, sq)
       else vassert (\<not> isHumongous (st_hr st p)) ''Humongous regions should not be empty''
              (rbind (decrement_length sq) (\<lambda>sq1. shrink_loop n (i + 1) sq1 st)))"

definition shrink_by :: "nat \<Rightarrow> region_seq \<Rightarrow> region_store \<Rightarrow> (nat \<times> region_seq) res" where
  "shrink_by num_regions_to_remove sq st =
     (let sq1 = sq\<lparr>hs_next_search_index := 0\<rparr>
      in vassert (0 < seq_length sq1) ''the region sequence should not be empty''
        (vassert (seq_length sq1 \<le> hs_allocated_length sq1) ''invariant''
        (vassert (0 < hs_allocated_length sq1) ''we should have at least one region committed''
        (vassert (num_regions_to_remove < seq_length sq1) ''We should never remove all regions''
          (shrink_loop num_regions_to_remove 0 sq1 st)))))"

section \<open>Verification\<close>

definition seq_verify_region :: "region_seq \<Rightarrow> region_store \<Rightarrow> nat \<Rightarrow> nat \<Rightarrow> nat res" where
  "seq_verify_region sq st i prev_end =
     rbind (get_by_index i (hs_regions sq)) (\<lambda>hr.
       case hr of
         None \<Rightarrow> Inl (Guarantee_Failed ''invariant'')
       | Some p \<Rightarrow>
           let r = st_hr st p
           in vguarantee (hr_bottom r = prev_end) ''invariant''
             (vguarantee (hr_index r = i) ''invariant''
               (rbind (if i < seq_length sq
                       then rbind (addr_to_region (hr_bottom r) sq) (\<lambda>x. vguarantee (x = Some p) ''sanity''
                              (rbind (addr_to_region_unsafe (hr_bottom r) sq) (\<lambda>y. vguarantee (y = p) ''sanity'' (Inr ()))))
                       else vguarantee (hr_is_empty r) ''sanity''
                              (vguarantee (\<not> isHumongous r) ''sanity'' (vassert (hr_containing_set r = None) ''sanity'' (Inr ()))))
                 (\<lambda>_. Inr (if startsHumongous r then hr_orig_end r else hr_end r)))))"

definition seq_verify_optional :: "region_seq \<Rightarrow> region_store \<Rightarrow> unit res" where
  "seq_verify_optional sq st =
     vguarantee (seq_length sq \<le> hs_allocated_length sq) ''invariant''
    (vguarantee (hs_allocated_length sq \<le> seq_max_length sq) ''invariant''
    (vguarantee (hs_next_search_index sq \<le> seq_length sq) ''invariant''
      (rbind (rfold (seq_verify_region sq st) [0..<hs_allocated_length sq] (seq_heap_bottom sq)) (\<lambda>_.
         rfold (\<lambda>i _. rbind (get_by_index i (hs_regions sq)) (\<lambda>hr. vguarantee (hr = None) ''invariant'' (Inr ())))
           [hs_allocated_length sq..<seq_max_length sq] ()))))"

section \<open>Lemmas\<close>

subsection \<open>Searching\<close>

definition seq_ptr :: "region_seq \<Rightarrow> nat \<Rightarrow> nat" where
  "seq_ptr sq i = (case get_by_index i (hs_regions sq) of Inr (Some p) \<Rightarrow> p | _ \<Rightarrow> 0)"

text \<open>Every committed index has its region.\<close>

definition seq_ok :: "region_seq \<Rightarrow> region_store \<Rightarrow> bool" where
  "seq_ok sq st \<longleftrightarrow>
     (\<forall>i < seq_length sq. \<exists>p. get_by_index i (hs_regions sq) = Inr (Some p) \<and> hr_index (st_hr st p) = i)"

definition empty_at :: "region_seq \<Rightarrow> region_store \<Rightarrow> nat \<Rightarrow> bool" where
  "empty_at sq st i \<longleftrightarrow> hr_is_empty (st_hr st (seq_ptr sq i))"

definition empty_run :: "region_seq \<Rightarrow> region_store \<Rightarrow> nat \<Rightarrow> nat \<Rightarrow> bool" where
  "empty_run sq st s n \<longleftrightarrow> (\<forall>i. s \<le> i \<and> i < s + n \<longrightarrow> empty_at sq st i)"

lemma seq_at_ok: "seq_ok sq st \<Longrightarrow> i < seq_length sq \<Longrightarrow> seq_at i sq st = Inr (seq_ptr sq i)"
  by (fastforce simp: seq_ok_def seq_at_def seq_ptr_def)

text \<open>The state of the search at \<open>cur\<close>.\<close>

definition run_state :: "region_seq \<Rightarrow> region_store \<Rightarrow> nat \<Rightarrow> nat \<Rightarrow> nat \<Rightarrow> nat option \<Rightarrow> nat \<Rightarrow> bool" where
  "run_state sq st from num cur first n \<longleftrightarrow>
     (case first of
        None \<Rightarrow> n = 0 \<and> (cur = from \<or> \<not> empty_at sq st (cur - 1))
      | Some f \<Rightarrow> from \<le> f \<and> f < cur \<and> n = cur - f \<and> n \<le> num \<and> empty_run sq st f n \<and> (f = from \<or> \<not> empty_at sq st (f - 1))) \<and>
     (\<forall>s. from \<le> s \<and> s + num \<le> cur \<and> empty_run sq st s num \<longrightarrow> first = Some s)"

lemma run_state_Some:
  "run_state sq st from num cur (Some f) n \<longleftrightarrow>
     from \<le> f \<and> f < cur \<and> n = cur - f \<and> n \<le> num \<and> empty_run sq st f n \<and> (f = from \<or> \<not> empty_at sq st (f - 1)) \<and>
     (\<forall>s. from \<le> s \<and> s + num \<le> cur \<and> empty_run sq st s num \<longrightarrow> s = f)"
  unfolding run_state_def option.case option.inject by blast

lemma run_state_first:
  assumes "run_state sq st from num cur None n" and "empty_at sq st cur" and "1 < num" "from \<le> cur"
  shows "run_state sq st from num (cur + 1) (Some cur) 1"
proof -
  have c: "cur = from \<or> \<not> empty_at sq st (cur - 1)" "\<And>s. from \<le> s \<Longrightarrow> s + num \<le> cur \<Longrightarrow> \<not> empty_run sq st s num"
    using assms(1) by (auto simp: run_state_def)
  have "\<not> empty_run sq st s num" if "from \<le> s" "s + num \<le> cur + 1" for s
  proof (cases "s + num \<le> cur")
    case False
    then have "s < cur" "s \<le> cur - 1" "cur - 1 < s + num" using that assms(3) by auto
    then show ?thesis using c(1) that(1) by (auto simp: empty_run_def)
  qed (use c(2) that in blast)
  moreover have "empty_run sq st cur 1" using assms(2) by (auto simp: empty_run_def less_Suc_eq)
  ultimately show ?thesis using assms(3,4) c(1) unfolding run_state_Some by auto
qed

lemma run_state_next:
  assumes "run_state sq st from num cur (Some f) n" and "empty_at sq st cur" and "n < num"
  shows "run_state sq st from num (cur + 1) (Some f) (n + 1)"
proof -
  have c: "from \<le> f" "f < cur" "n = cur - f" "empty_run sq st f n" "f = from \<or> \<not> empty_at sq st (f - 1)"
      "\<And>s. from \<le> s \<Longrightarrow> s + num \<le> cur \<Longrightarrow> empty_run sq st s num \<Longrightarrow> s = f"
    using assms(1) unfolding run_state_Some by blast+
  have "s = f" if s: "from \<le> s" "s + num \<le> cur + 1" "empty_run sq st s num" for s
  proof (cases "s + num \<le> cur")
    case False
    have "\<not> s < f"
    proof
      assume "s < f"
      then have "s \<le> f - 1" "f - 1 < s + num" using s(2) False c(2) by auto
      then have "empty_at sq st (f - 1)" using s(3) by (auto simp: empty_run_def)
      then show False using c(5) \<open>s < f\<close> s(1) by auto
    qed
    then show ?thesis using False s(2) assms(3) c(2,3) by auto
  qed (use c(6) s in blast)
  moreover have "empty_run sq st f (n + 1)" using c(2-4) assms(2) by (auto simp: empty_run_def less_Suc_eq)
  moreover have "f < cur + 1" "n + 1 = cur + 1 - f" "n + 1 \<le> num" using c(2,3) assms(3) by simp_all
  ultimately show ?thesis using c(1,5) unfolding run_state_Some by blast
qed

lemma run_state_break:
  assumes "run_state sq st from num cur first n" and "\<not> empty_at sq st cur" and "n < num"
  shows "run_state sq st from num (cur + 1) None 0"
proof -
  have "\<not> empty_run sq st s num" if s: "from \<le> s" "s + num \<le> cur + 1" for s
  proof (cases "s + num \<le> cur")
    case True
    show ?thesis
    proof
      assume "empty_run sq st s num"
      then have "first = Some s" using assms(1) True s(1) unfolding run_state_def by blast
      then have "n = cur - s" using assms(1) by (simp only: run_state_Some)
      then show False using assms(3) True by simp
    qed
  next
    case False
    then have "s \<le> cur" "cur < s + num" using s assms(3) by auto
    then show ?thesis using assms(2) by (auto simp: empty_run_def)
  qed
  then show ?thesis using assms(2) by (auto simp: run_state_def)
qed

lemma find_loop_spec:
  assumes "seq_ok sq st" and "1 < num" and "from \<le> cur" "cur \<le> seq_length sq" and "run_state sq st from num cur first n" "n \<le> num"
  shows "\<exists>cur' first' n'. find_loop sq st num cur first n = Inr (cur', first', n') \<and> run_state sq st from num cur' first' n' \<and>
    n' \<le> num \<and> cur' \<le> seq_length sq \<and> (n' = num \<or> cur' = seq_length sq)"
  using assms(3-)
proof (induction "seq_length sq - cur" arbitrary: cur first n)
  case 0
  then show ?case by (subst find_loop.simps) auto
next
  case (Suc k)
  show ?case
  proof (cases "n < num")
    case True
    define first' n' where "first' = (if empty_at sq st cur then if first = None then Some cur else first else None)"
      and "n' = (if empty_at sq st cur then if first = None then 1 else n + 1 else 0)"
    have "cur < seq_length sq" using Suc.hyps(2) by simp
    then have run: "find_loop sq st num cur first n = find_loop sq st num (cur + 1) first' n'"
      using True seq_at_ok [OF assms(1), of cur]
      by (subst find_loop.simps) (simp add: first'_def n'_def empty_at_def)
    have "run_state sq st from num (cur + 1) first' n'"
      using run_state_first [of sq st "from" num cur n] run_state_next [of sq st "from" num cur _ n] run_state_break [of sq st "from" num cur first n]
        Suc.prems(1,3) assms(2) True by (cases first) (auto simp: first'_def n'_def)
    then show ?thesis unfolding run
      using Suc.hyps(1) [of "cur + 1" first' n'] Suc.hyps(2) Suc.prems True assms(2) by (auto simp: n'_def)
  next
    case False
    then show ?thesis using Suc.prems by (subst find_loop.simps) auto
  qed
qed

text \<open>The search returns the first run of empty regions at or after an index, if there is one.\<close>

lemma find_contiguous_from_spec:
  assumes "seq_ok sq st" and "1 < num" and "from \<le> seq_length sq"
  shows "\<exists>r. find_contiguous_from from num sq st = Inr r \<and>
    (case r of
       Some f \<Rightarrow> from \<le> f \<and> f + num \<le> seq_length sq \<and> empty_run sq st f num \<and>
         (\<forall>s. from \<le> s \<and> s + num \<le> seq_length sq \<and> empty_run sq st s num \<longrightarrow> f \<le> s)
     | None \<Rightarrow> \<forall>s. from \<le> s \<and> s + num \<le> seq_length sq \<longrightarrow> \<not> empty_run sq st s num)"
proof -
  have "run_state sq st from num from None 0" using assms(2) by (auto simp: run_state_def)
  then obtain cur first n where r: "find_loop sq st num from None 0 = Inr (cur, first, n)" "run_state sq st from num cur first n"
      "n \<le> num" "cur \<le> seq_length sq" "n = num \<or> cur = seq_length sq"
    using find_loop_spec [OF assms(1,2) le_refl assms(3)] by blast
  show ?thesis
  proof (cases "n = num")
    case True
    have "first \<noteq> None" using r(2) True assms(2) by (auto simp: run_state_def)
    then obtain f where f1: "first = Some f" by blast
    have rs: "run_state sq st from num cur (Some f) num" using r(2) f1 True by simp
    then have f: "from \<le> f" "f < cur" "num = cur - f" "empty_run sq st f num" unfolding run_state_Some by blast+
    have fu: "s = f" if "from \<le> s" "s + num \<le> cur" "empty_run sq st s num" for s
      using rs that unfolding run_state_Some by blast
    have all: "rfold (\<lambda>i _. rbind (seq_at i sq st) (\<lambda>p. vassert (hr_is_empty (st_hr st p)) m (Inr (Some f)))) is (Some f) = Inr (Some f)"
      if "\<forall>i \<in> set is. i < seq_length sq \<and> empty_at sq st i" for "is" m
      using that by (induction "is") (auto simp: seq_at_ok [OF assms(1)] empty_at_def)
    have "find_contiguous_from from num sq st = Inr (Some f)"
      using r(1,4) assms f f1 True all [of "[f..<f + num]"] by (simp add: find_contiguous_from_def empty_run_def)
    moreover have "f \<le> s" if "from \<le> s" "empty_run sq st s num" for s
      using fu [OF that(1) _ that(2)] f(2,3) by (cases "s + num \<le> cur") auto
    ultimately show ?thesis using f r(4) by (intro exI [of _ "Some f"]) auto
  next
    case False
    have none: "\<not> empty_run sq st s num" if "from \<le> s" "s + num \<le> seq_length sq" for s
    proof
      assume "empty_run sq st s num"
      then have "first = Some s" using r(2,5) that False unfolding run_state_def by blast
      then have "n = cur - s" using r(2) by (simp only: run_state_Some)
      then show False using r(3,5) that(2) False by simp
    qed
    moreover have "find_contiguous_from from num sq st = Inr None" using r assms False by (simp add: find_contiguous_from_def)
    ultimately show ?thesis by auto
  qed
qed

lemma free_suffix_loop_spec:
  assumes "seq_ok sq st" and "i + k = seq_length sq" and "empty_run sq st i k"
  shows "\<exists>n. free_suffix_loop sq st i k = Inr n \<and> n \<le> seq_length sq \<and> empty_run sq st (seq_length sq - n) n \<and>
    (n < seq_length sq \<longrightarrow> \<not> empty_at sq st (seq_length sq - n - 1))"
  using assms(2,3)
proof (induction i arbitrary: k)
  case 0
  then show ?case by auto
next
  case (Suc i)
  show ?case
  proof (cases "empty_at sq st i")
    case True
    have "empty_run sq st i (k + 1)"
      unfolding empty_run_def
    proof (intro allI impI)
      fix j assume "i \<le> j \<and> j < i + (k + 1)"
      then show "empty_at sq st j" using Suc.prems(2) True by (cases "j = i") (auto simp: empty_run_def)
    qed
    then show ?thesis using Suc.IH [of "k + 1"] Suc.prems True by (simp add: seq_at_ok [OF assms(1)] empty_at_def)
  next
    case False
    moreover have "seq_length sq - k = Suc i" "seq_length sq - k - 1 = i" using Suc.prems(1) by simp_all
    ultimately show ?thesis using Suc.prems by (intro exI [of _ k]) (simp add: seq_at_ok [OF assms(1)] empty_at_def)
  qed
qed

lemma free_suffix_spec:
  assumes "seq_ok sq st"
  shows "\<exists>n. free_suffix sq st = Inr n \<and> n \<le> seq_length sq \<and> empty_run sq st (seq_length sq - n) n \<and>
    (n < seq_length sq \<longrightarrow> \<not> empty_at sq st (seq_length sq - n - 1))"
  unfolding free_suffix_def by (rule free_suffix_loop_spec [OF assms]) (auto simp: empty_run_def)

subsection \<open>The layout of the heap\<close>

text \<open>
  The regions of the sequence: index \<open>i\<close> has the region with pointer \<open>i\<close>, which starts \<open>i\<close> regions above
  the bottom of the heap; the regions above the committed ones are spare.
\<close>

definition seq_inv :: "region_seq \<Rightarrow> region_store \<Rightarrow> bool" where
  "seq_inv sq st \<longleftrightarrow>
     GrainBytes (st_grain st) = GrainWords (st_grain st) * HeapWordSize \<and> 0 < GrainWords (st_grain st) \<and>
     GrainBytes (st_grain st) = 2 ^ nat (LogOfHRGrainBytes (st_grain st)) \<and>
     ba_maps (hs_regions sq) (seq_heap_bottom sq) (seq_heap_end sq) (nat (LogOfHRGrainBytes (st_grain st))) \<and>
     0 < seq_heap_bottom sq \<and>
     seq_length sq \<le> hs_allocated_length sq \<and> hs_allocated_length sq \<le> seq_max_length sq \<and> hs_next_search_index sq \<le> seq_length sq \<and>
     (\<forall>i < seq_max_length sq. get_by_index i (hs_regions sq) = Inr (if i < hs_allocated_length sq then Some i else None)) \<and>
     (\<forall>i < hs_allocated_length sq. hr_index (st_hr st i) = i \<and>
        hr_bottom (st_hr st i) = seq_heap_bottom sq + i * GrainWords (st_grain st) \<and>
        (if startsHumongous (st_hr st i) then hr_orig_end (st_hr st i) else hr_end (st_hr st i)) =
          seq_heap_bottom sq + (i + 1) * GrainWords (st_grain st)) \<and>
     (\<forall>i. seq_length sq \<le> i \<longrightarrow> st_next st i = None \<and>
        (i < hs_allocated_length sq \<longrightarrow> used (st_hr st i) = 0 \<and> \<not> isHumongous (st_hr st i) \<and> \<not> is_young (st_hr st i) \<and>
           hr_containing_set (st_hr st i) = None))"

lemma seq_inv_ok:
  assumes "seq_inv sq st" shows "seq_ok sq st" "i < seq_length sq \<Longrightarrow> seq_ptr sq i = i"
  using assms by (auto simp: seq_inv_def seq_ok_def seq_ptr_def)

lemma seq_inv_addr:
  assumes "seq_inv sq st" and "i < seq_length sq" and "seq_heap_bottom sq + i * GrainWords (st_grain st) \<le> x"
    "x < seq_heap_bottom sq + (i + 1) * GrainWords (st_grain st)"
  shows "addr_to_region x sq = Inr (Some i)" "addr_to_region_unsafe x sq = Inr i"
proof -
  let ?a = "hs_regions sq" and ?k = "nat (LogOfHRGrainBytes (st_grain st))" and ?G = "GrainWords (st_grain st)" and ?b = "seq_heap_bottom sq"
  have v: "ba_maps ?a ?b (seq_heap_end sq) ?k" "2 ^ ?k = ?G * HeapWordSize" "0 < ?b" "i < hs_allocated_length sq" "i < ba_length ?a" "0 < ?G"
      "get_by_index i ?a = Inr (Some i)"
    using assms(1,2) by (auto simp: seq_inv_def seq_max_length_def)
  have bb: "ba_bias ?a * ?G = ?b" "(ba_bias ?a + ba_length ?a) * ?G = seq_heap_end sq"
    using v(1,2) by (auto simp: ba_maps_def HeapWordSize_def)
  have "(i + 1) * ?G \<le> ba_length ?a * ?G" using v(5) by (intro mult_le_mono1) simp
  then have "x < seq_heap_end sq" using assms(4) bb by (simp add: algebra_simps)
  moreover have "biased_index x ?a = ba_bias ?a + i"
  proof -
    have "biased_index x ?a = x div ?G"
      using v(1,2) by (simp add: biased_index_def ba_maps_def HeapWordSize_def)
    moreover have "x div ?G = ba_bias ?a + i"
      using assms(3,4) bb(1) by (intro div_nat_eqI) (simp_all add: algebra_simps)
    ultimately show ?thesis by simp
  qed
  moreover have "?b \<le> x" using assms(3) by simp
  ultimately show "addr_to_region_unsafe x sq = Inr i" "addr_to_region x sq = Inr (Some i)"
    using ba_address_get(1) [OF v(1), of x] v(3,7) by (simp_all add: addr_to_region_unsafe_def addr_to_region_def)
qed

text \<open>The invariant is what \<^verbatim>\<open>verify_optional\<close> checks.\<close>

lemma seq_inv_verify:
  assumes "seq_inv sq st" shows "seq_verify_optional sq st = Inr ()"
proof -
  let ?G = "GrainWords (st_grain st)" and ?b = "seq_heap_bottom sq"
  have one: "seq_verify_region sq st i (?b + i * ?G) = Inr (?b + (i + 1) * ?G)" if "i < hs_allocated_length sq" for i
  proof -
    have r: "get_by_index i (hs_regions sq) = Inr (Some i)" "hr_index (st_hr st i) = i" "hr_bottom (st_hr st i) = ?b + i * ?G"
        "(if startsHumongous (st_hr st i) then hr_orig_end (st_hr st i) else hr_end (st_hr st i)) = ?b + (i + 1) * ?G" "0 < ?G"
      using assms that by (auto simp: seq_inv_def)
    show ?thesis
    proof (cases "i < seq_length sq")
      case True
      then show ?thesis using r seq_inv_addr [OF assms True, of "?b + i * ?G"]
        by (simp add: seq_verify_region_def vguarantee_def Let_def)
    next
      case False
      then have "used (st_hr st i) = 0" "\<not> isHumongous (st_hr st i)" "hr_containing_set (st_hr st i) = None"
        using assms that by (auto simp: seq_inv_def)
      then show ?thesis using r False by (simp add: seq_verify_region_def vguarantee_def Let_def hr_is_empty_def)
    qed
  qed
  have "rfold (seq_verify_region sq st) [0..<n] ?b = Inr (?b + n * ?G)" if "n \<le> hs_allocated_length sq" for n
    using that by (induction n) (simp_all add: rfold_append one)
  moreover have "rfold (\<lambda>i _. rbind (get_by_index i (hs_regions sq)) (\<lambda>hr. vguarantee (hr = None) m (Inr ()))) is () = Inr ()"
    if "\<forall>i \<in> set is. hs_allocated_length sq \<le> i \<and> i < seq_max_length sq" for "is" m
    using that assms by (induction "is") (auto simp: seq_inv_def vguarantee_def)
  ultimately show ?thesis using assms by (simp add: seq_verify_optional_def seq_inv_def vguarantee_def)
qed

subsection \<open>Growing and shrinking\<close>

lemma HeapRegion_run:
  "\<exists>r. HeapRegion stamp i start en = Inr r \<and> hr_index r = i \<and> hr_bottom r = start \<and> hr_end r = en \<and> hr_orig_end r = en \<and>
     hr_top r = start \<and> \<not> is_young r \<and> \<not> isHumongous r \<and> hr_containing_set r = None"
  by (simp add: HeapRegion_def hr_clear_def set_young_index_in_cset_def uninstall_surv_rate_group_def init_top_at_mark_start_def
      zero_marked_bytes_def reset_pre_dummy_top_def set_young_type_def Let_def set_saved_mark_def is_young_def isHumongous_def)

lemma untagged_static:
  assumes "untagged r' = untagged r"
  shows "hr_index r' = hr_index r" "hr_bottom r' = hr_bottom r" "hr_end r' = hr_end r" "hr_orig_end r' = hr_orig_end r" "used r' = used r"
    "isHumongous r' = isHumongous r" "startsHumongous r' = startsHumongous r" "is_young r' = is_young r" "capacity r' = capacity r"
proof -
  have "hr_index (untagged r) = hr_index r" "hr_bottom (untagged r) = hr_bottom r" "hr_end (untagged r) = hr_end r"
      "hr_orig_end (untagged r) = hr_orig_end r" "used (untagged r) = used r" "isHumongous (untagged r) = isHumongous r"
      "startsHumongous (untagged r) = startsHumongous r" "is_young (untagged r) = is_young r" "capacity (untagged r) = capacity r" for r
    by (simp_all add: untagged_def used_def isHumongous_def startsHumongous_def is_young_def capacity_def)
  then show "hr_index r' = hr_index r" "hr_bottom r' = hr_bottom r" "hr_end r' = hr_end r" "hr_orig_end r' = hr_orig_end r" "used r' = used r"
    "isHumongous r' = isHumongous r" "startsHumongous r' = startsHumongous r" "is_young r' = is_young r" "capacity r' = capacity r"
    using assms by metis+
qed

text \<open>A change of list membership below the end of the sequence keeps the layout.\<close>

lemma seq_inv_frame:
  assumes "seq_inv sq st" and "same_frame A st st'" and "\<forall>i \<in> A. i < seq_length sq"
  shows "seq_inv sq st'"
proof -
  have u: "untagged (st_hr st' i) = untagged (st_hr st i)" for i using assms(2) by (simp add: same_frame_def)
  have o: "st_hr st' i = st_hr st i" "st_next st' i = st_next st i" if "seq_length sq \<le> i" for i
    using assms(2) assms(3)[rule_format, of i] that unfolding same_frame_def by (meson leD)+
  show ?thesis using assms(1,2) o untagged_static [OF u] unfolding seq_inv_def
    by (simp add: same_frame_def split del: if_split cong: if_cong)
qed

text \<open>The heap can be extended by one region at its end.\<close>

definition at_end :: "nat \<Rightarrow> region_seq \<Rightarrow> region_store \<Rightarrow> bool" where
  "at_end nb sq st \<longleftrightarrow> nb = seq_heap_bottom sq + seq_length sq * GrainWords (st_grain st) \<and>
     (0 < seq_length sq \<longrightarrow> hr_end (st_hr st (seq_length sq - 1)) = nb)"

text \<open>Committing the next region, created before or now.\<close>

lemma commit_next:
  assumes "seq_inv sq st" and "seq_length sq < hs_allocated_length sq"
  shows "\<exists>sq'. increment_length sq = Inr sq' \<and> seq_at (seq_length sq) sq' st = Inr (seq_length sq) \<and> seq_inv sq' st \<and>
    seq_length sq' = seq_length sq + 1 \<and> seq_max_length sq' = seq_max_length sq \<and> seq_heap_bottom sq' = seq_heap_bottom sq \<and>
    seq_heap_end sq' = seq_heap_end sq \<and> hs_allocated_length sq' = hs_allocated_length sq"
proof -
  let ?sq = "sq\<lparr>hs_committed_length := hs_committed_length sq + 1\<rparr>"
  have "seq_length sq < seq_max_length sq" using assms by (auto simp: seq_inv_def)
  then have "increment_length sq = Inr ?sq" by (simp add: increment_length_def)
  moreover have "seq_inv ?sq st"
    using assms by (simp add: seq_inv_def seq_length_def seq_max_length_def seq_heap_bottom_def seq_heap_end_def)
  moreover have "seq_length ?sq = seq_length sq + 1" "seq_max_length ?sq = seq_max_length sq" "seq_heap_bottom ?sq = seq_heap_bottom sq"
      "seq_heap_end ?sq = seq_heap_end sq" by (simp_all add: seq_length_def seq_max_length_def seq_heap_bottom_def seq_heap_end_def)
  moreover from this(1) have "seq_at (seq_length sq) ?sq st = Inr (seq_length sq)"
    using seq_at_ok [OF seq_inv_ok(1) [OF calculation(2)], of "seq_length sq"] seq_inv_ok(2) [OF calculation(2), of "seq_length sq"] by simp
  ultimately show ?thesis by auto
qed

text \<open>Creating the region object for the next index.\<close>

lemma create_next:
  assumes "seq_inv sq st" and "seq_length sq = hs_allocated_length sq" "seq_length sq < seq_max_length sq" and "room (seq_length sq)"
    and "nb = seq_heap_bottom sq + seq_length sq * GrainWords (st_grain st)" and "fst reserved \<le> seq_heap_bottom sq" "seq_heap_end sq \<le> snd reserved"
  shows "\<exists>a sq' r. new_heap_region room reserved stamp (seq_length sq) nb st = Inr (Some (seq_length sq), put_hr (seq_length sq) r st) \<and>
    get_by_index (seq_length sq) (hs_regions sq) = Inr None \<and> set_by_index (seq_length sq) (Some (seq_length sq)) (hs_regions sq) = Inr a \<and>
    increment_allocated_length (sq\<lparr>hs_regions := a\<rparr>) = Inr sq' \<and> seq_inv sq' (put_hr (seq_length sq) r st) \<and>
    seq_length sq' = seq_length sq \<and> hs_allocated_length sq' = hs_allocated_length sq + 1 \<and> seq_max_length sq' = seq_max_length sq \<and>
    seq_heap_bottom sq' = seq_heap_bottom sq \<and> seq_heap_end sq' = seq_heap_end sq"
proof -
  let ?n = "seq_length sq" and ?G = "GrainWords (st_grain st)"
  obtain r where r: "HeapRegion stamp ?n nb (nb + ?G) = Inr r" "hr_index r = ?n" "hr_bottom r = nb" "hr_end r = nb + ?G" "hr_orig_end r = nb + ?G"
      "hr_top r = nb" "\<not> is_young r" "\<not> isHumongous r" "hr_containing_set r = None" using HeapRegion_run by blast
  have m: "ba_maps (hs_regions sq) (seq_heap_bottom sq) (seq_heap_end sq) (nat (LogOfHRGrainBytes (st_grain st)))" and
      G: "2 ^ nat (LogOfHRGrainBytes (st_grain st)) = ?G * HeapWordSize" using assms(1) by (auto simp: seq_inv_def)
  have e: "seq_heap_end sq = seq_heap_bottom sq + seq_max_length sq * ?G"
    using m G by (auto simp: ba_maps_def seq_max_length_def HeapWordSize_def algebra_simps)
  have "(?n + 1) * ?G \<le> seq_max_length sq * ?G" using assms(3) by (intro mult_le_mono1) simp
  then have "nb + ?G \<le> seq_heap_end sq" by (simp add: assms(5) e algebra_simps)
  then have run: "new_heap_region room reserved stamp ?n nb st = Inr (Some ?n, put_hr ?n r st)"
    using assms(4-7) r(1) by (simp add: new_heap_region_def Let_def)
  have g: "get_by_index ?n (hs_regions sq) = Inr None" using assms(1-3) by (auto simp: seq_inv_def)
  obtain a where a: "set_by_index ?n (Some ?n) (hs_regions sq) = Inr a" "ba_wf a" "ba_length a = ba_length (hs_regions sq)"
      "ba_bias a = ba_bias (hs_regions sq)" "ba_shift_by a = ba_shift_by (hs_regions sq)"
      "\<forall>j < ba_length (hs_regions sq). get_by_index j a = (if j = ?n then Inr (Some ?n) else get_by_index j (hs_regions sq))"
    using get_set_by_index [of "hs_regions sq" ?n "Some ?n"] m assms(3) by (auto simp: ba_maps_def seq_max_length_def)
  let ?sq = "sq\<lparr>hs_regions := a, hs_allocated_length := hs_allocated_length sq + 1\<rparr>"
  have s: "seq_length ?sq = ?n" "seq_max_length ?sq = seq_max_length sq" "seq_heap_bottom ?sq = seq_heap_bottom sq" "seq_heap_end ?sq = seq_heap_end sq"
    using a(3-5) by (simp_all add: seq_length_def seq_max_length_def seq_heap_bottom_def seq_heap_end_def bottom_address_mapped_def end_address_mapped_def)
  have ma: "ba_maps a (seq_heap_bottom sq) (seq_heap_end sq) (nat (LogOfHRGrainBytes (st_grain st)))"
    using m a(2-5) by (simp add: ba_maps_def)
  have u: "used r = 0" "\<not> startsHumongous r" using r by (simp_all add: used_def isHumongous_def startsHumongous_def)
  have layout: "hr_index (((st_hr st)(?n := r)) i) = i \<and> hr_bottom (((st_hr st)(?n := r)) i) = seq_heap_bottom sq + i * ?G \<and>
      (if startsHumongous (((st_hr st)(?n := r)) i) then hr_orig_end (((st_hr st)(?n := r)) i) else hr_end (((st_hr st)(?n := r)) i)) =
        seq_heap_bottom sq + (i + 1) * ?G" if "i < Suc (hs_allocated_length sq)" for i
  proof (cases "i = ?n")
    case True then show ?thesis using r u assms(5) by (simp add: algebra_simps)
  next
    case False
    then have "i < hs_allocated_length sq" using that assms(2) by simp
    then show ?thesis using False assms(1) by (simp add: seq_inv_def split del: if_split cong: if_cong)
  qed
  have "seq_inv ?sq (put_hr ?n r st)"
    unfolding seq_inv_def s put_hr_simps
  proof (intro conjI allI impI)
    fix i
    show "get_by_index i (hs_regions ?sq) = Inr (if i < hs_allocated_length ?sq then Some i else None)" if "i < seq_max_length sq"
      using that assms(1,2) a(6) by (auto simp: seq_inv_def seq_max_length_def less_Suc_eq)
    show "hr_index (((st_hr st)(?n := r)) i) = i" "hr_bottom (((st_hr st)(?n := r)) i) = seq_heap_bottom sq + i * ?G"
      "(if startsHumongous (((st_hr st)(?n := r)) i) then hr_orig_end (((st_hr st)(?n := r)) i) else hr_end (((st_hr st)(?n := r)) i)) =
        seq_heap_bottom sq + (i + 1) * ?G" if "i < hs_allocated_length ?sq"
      using layout [of i] that by simp_all
  qed (use assms(1-3) r u ma in \<open>auto simp: seq_inv_def\<close>)
  then show ?thesis using run g a(1) s assms(2,3) a(3)
    by (intro exI [of _ a] exI [of _ ?sq] exI [of _ r]) (simp add: increment_allocated_length_def seq_max_length_def)
qed

text \<open>The sequence is ready to grow at \<open>nb\<close>, its new regions going to the end of the list \<open>l\<close>.\<close>

definition growing :: "nat \<times> nat \<Rightarrow> nat \<Rightarrow> region_seq \<Rightarrow> region_list \<Rightarrow> nat list \<Rightarrow> region_store \<Rightarrow> bool" where
  "growing reserved nb sq l xs st \<longleftrightarrow>
     seq_inv sq st \<and> at_end nb sq st \<and> lists_as l xs st \<and> check_mt_safety (rs_kind l) (st_mt st) \<and> set xs \<subseteq> {..<seq_length sq} \<and>
     fst reserved \<le> seq_heap_bottom sq \<and> seq_heap_end sq \<le> snd reserved \<and>
     (rs_kind l = MasterFreeRegionList \<longrightarrow> (\<forall>i. st_rs_ready st i))"

lemma next_spare:
  assumes "seq_inv sq st" and "seq_length sq < hs_allocated_length sq" and "linked_kind (rs_kind l)"
    and "rs_kind l = MasterFreeRegionList \<longrightarrow> st_rs_ready st (seq_length sq)"
  shows "spare l (seq_length sq) st" "hr_end (st_hr st (seq_length sq)) = seq_heap_bottom sq + (seq_length sq + 1) * GrainWords (st_grain st)"
proof -
  let ?r = "st_hr st (seq_length sq)"
  have n: "used ?r = 0" "\<not> isHumongous ?r" "\<not> is_young ?r" "hr_containing_set ?r = None" "st_next st (seq_length sq) = None"
    using assms(1,2) by (auto simp: seq_inv_def)
  have L: "hr_bottom ?r = seq_heap_bottom sq + seq_length sq * GrainWords (st_grain st) \<and>
      (if startsHumongous ?r then hr_orig_end ?r else hr_end ?r) = seq_heap_bottom sq + (seq_length sq + 1) * GrainWords (st_grain st)"
    using assms(1,2) by (simp add: seq_inv_def split del: if_split)
  have "\<not> startsHumongous ?r" using n(2) by (auto simp: isHumongous_def startsHumongous_def)
  then show e: "hr_end ?r = seq_heap_bottom sq + (seq_length sq + 1) * GrainWords (st_grain st)" using L by simp
  have "capacity ?r = 2 ^ nat (LogOfHRGrainBytes (st_grain st))"
    using assms(1) e L by (simp add: capacity_def seq_inv_def algebra_simps)
  then show "spare l (seq_length sq) st"
    using n assms(3,4) by (cases "rs_kind l")
      (auto simp: spare_def fits_def verify_region_def linked_kind_def hr_is_empty_def Let_def)
qed

lemma at_end_room:
  assumes "seq_inv sq st" and "at_end nb sq st"
  shows "seq_heap_end sq = seq_heap_bottom sq + seq_max_length sq * GrainWords (st_grain st)"
    "seq_length sq < seq_max_length sq \<Longrightarrow> nb + GrainWords (st_grain st) \<le> seq_heap_end sq" "0 < GrainWords (st_grain st)"
proof -
  let ?G = "GrainWords (st_grain st)"
  have "ba_maps (hs_regions sq) (seq_heap_bottom sq) (seq_heap_end sq) (nat (LogOfHRGrainBytes (st_grain st)))" and
      "2 ^ nat (LogOfHRGrainBytes (st_grain st)) = ?G * HeapWordSize" using assms(1) by (auto simp: seq_inv_def)
  then show e: "seq_heap_end sq = seq_heap_bottom sq + seq_max_length sq * ?G"
    by (auto simp: ba_maps_def seq_max_length_def HeapWordSize_def algebra_simps)
  assume "seq_length sq < seq_max_length sq"
  then have "(seq_length sq + 1) * ?G \<le> seq_max_length sq * ?G" by (intro mult_le_mono1) simp
  then show "nb + ?G \<le> seq_heap_end sq" using assms(2) by (simp add: at_end_def e algebra_simps)
qed (use assms(1) in \<open>simp add: seq_inv_def\<close>)

text \<open>The second half of a round: the region exists, it is committed and listed.\<close>

lemma commit_and_list:
  assumes "growing reserved nb sq l xs st" and "seq_length sq < hs_allocated_length sq"
  shows "\<exists>sq' l' st'. increment_length sq = Inr sq' \<and> seq_at (seq_length sq) sq' st = Inr (seq_length sq) \<and>
    add_as_tail (seq_length sq) l st = Inr (l', st') \<and> growing reserved (nb + GrainWords (st_grain st)) sq' l' (xs @ [seq_length sq]) st' \<and>
    hr_end (st_hr st' (seq_length sq)) = nb + GrainWords (st_grain st) \<and> seq_length sq' = seq_length sq + 1 \<and>
    seq_max_length sq' = seq_max_length sq \<and> seq_heap_bottom sq' = seq_heap_bottom sq \<and> st_grain st' = st_grain st \<and>
    (\<forall>i. untagged (st_hr st' i) = untagged (st_hr st i))"
proof -
  let ?n = "seq_length sq" and ?G = "GrainWords (st_grain st)"
  have g: "seq_inv sq st" "at_end nb sq st" "lists_as l xs st" "check_mt_safety (rs_kind l) (st_mt st)" "set xs \<subseteq> {..<?n}"
    using assms(1) by (simp_all add: growing_def)
  obtain sq' where sq': "increment_length sq = Inr sq'" "seq_at ?n sq' st = Inr ?n" "seq_inv sq' st" "seq_length sq' = ?n + 1"
      "seq_max_length sq' = seq_max_length sq" "seq_heap_bottom sq' = seq_heap_bottom sq" "seq_heap_end sq' = seq_heap_end sq"
    using commit_next [OF g(1) assms(2)] by auto
  have sp: "spare l ?n st" "hr_end (st_hr st ?n) = seq_heap_bottom sq + (?n + 1) * ?G"
    using next_spare [OF g(1) assms(2), of l] assms(1) g(3) by (auto simp: growing_def lists_as_def)
  obtain l' st' where a: "add_as_tail ?n l st = Inr (l', st')" "lists_as l' (xs @ [?n]) st'" "same_frame (insert ?n (set xs)) st st'"
      "rs_kind l' = rs_kind l"
    using add_as_tail_lists [OF g(3) sp(1) g(4)] by auto
  have f: "st_grain st' = st_grain st" "st_mt st' = st_mt st" "st_rs_ready st' = st_rs_ready st" "\<forall>i. untagged (st_hr st' i) = untagged (st_hr st i)"
    using a(3) by (simp_all add: same_frame_def)
  have e: "hr_end (st_hr st' ?n) = nb + ?G" using untagged_static(3) [OF f(4) [rule_format], of ?n] sp(2) g(2) by (simp add: at_end_def)
  have "seq_inv sq' st'" using g(5) by (intro seq_inv_frame [OF sq'(3) a(3)]) (auto simp: sq'(4))
  then have "growing reserved (nb + ?G) sq' l' (xs @ [?n]) st'"
    using a(2,4) e f sq'(4-7) g(2,5) assms(1) by (auto simp: growing_def at_end_def)
  then show ?thesis using sq' a(1) e f by auto
qed

text \<open>The first half: the region is there, or it is created.\<close>

lemma growing_put_hr:
  assumes "growing reserved nb sq l xs st" and "seq_inv sq' (put_hr (seq_length sq) r st)"
    and "seq_length sq' = seq_length sq" "seq_heap_bottom sq' = seq_heap_bottom sq" "seq_heap_end sq' = seq_heap_end sq"
  shows "growing reserved nb sq' l xs (put_hr (seq_length sq) r st)"
proof -
  have x: "x \<noteq> seq_length sq" if "x \<in> set xs" for x using assms(1) that by (auto simp: growing_def)
  have "lists_as l xs st" using assms(1) by (simp add: growing_def)
  then have "lists_as l xs (put_hr (seq_length sq) r st)" by (rule lists_as_frame) (simp_all add: x)
  moreover have "at_end nb sq' (put_hr (seq_length sq) r st)"
    using assms(1,3,4) by (cases "seq_length sq") (simp_all add: growing_def at_end_def)
  ultimately show ?thesis using assms by (simp add: growing_def)
qed

lemma previous_end:
  assumes "growing reserved nb sq l xs st"
  shows "(if seq_length sq = 0 then vassert (nb = seq_heap_bottom sq) ''invariant'' (Inr ())
          else rbind (seq_at (seq_length sq - 1) sq st) (\<lambda>q. vassert (nb = hr_end (st_hr st q)) ''invariant'' (Inr ()))) = Inr ()"
proof (cases "seq_length sq")
  case (Suc n)
  have "seq_inv sq st" using assms by (simp add: growing_def)
  then have "seq_at n sq st = Inr n" using seq_at_ok [OF seq_inv_ok(1), of sq st n] seq_inv_ok(2) [of sq st n] Suc by simp
  then show ?thesis using Suc assms by (simp add: growing_def at_end_def)
qed (use assms in \<open>simp add: growing_def at_end_def\<close>)

lemma expand_step_ok:
  assumes "growing reserved nb sq l xs st" and "seq_length sq < seq_max_length sq" and "room (seq_length sq)"
  shows "\<exists>sq' l' st'. expand_step room reserved stamp nb sq l st = Inr (Some (nb + GrainWords (st_grain st), sq', l', st')) \<and>
    growing reserved (nb + GrainWords (st_grain st)) sq' l' (xs @ [seq_length sq]) st' \<and> seq_length sq' = seq_length sq + 1 \<and>
    seq_max_length sq' = seq_max_length sq \<and> seq_heap_bottom sq' = seq_heap_bottom sq \<and> st_grain st' = st_grain st \<and>
    (\<forall>i < seq_length sq. untagged (st_hr st' i) = untagged (st_hr st i))"
proof -
  let ?n = "seq_length sq"
  have g: "seq_inv sq st" "at_end nb sq st" "fst reserved \<le> seq_heap_bottom sq" "seq_heap_end sq \<le> snd reserved"
    using assms(1) by (simp_all add: growing_def)
  have lt: "nb < seq_heap_end sq" using at_end_room(2,3) [OF g(1,2)] assms(2) by simp
  show ?thesis
  proof (cases "?n = hs_allocated_length sq")
    case False
    then have "?n < hs_allocated_length sq" using g(1) by (simp add: seq_inv_def)
    from commit_and_list [OF assms(1) this] obtain sq' l' st' where "increment_length sq = Inr sq'" "seq_at ?n sq' st = Inr ?n"
      "add_as_tail ?n l st = Inr (l', st')" and r: "growing reserved (nb + GrainWords (st_grain st)) sq' l' (xs @ [?n]) st'"
      "hr_end (st_hr st' ?n) = nb + GrainWords (st_grain st)" "seq_length sq' = ?n + 1" "seq_max_length sq' = seq_max_length sq"
      "seq_heap_bottom sq' = seq_heap_bottom sq" "st_grain st' = st_grain st" "\<forall>i. untagged (st_hr st' i) = untagged (st_hr st i)" by auto
    then have "expand_step room reserved stamp nb sq l st = Inr (Some (nb + GrainWords (st_grain st), sq', l', st'))"
      using lt assms(2) False unfolding expand_step_def Let_def previous_end [OF assms(1)] by simp
    then show ?thesis using r by blast
  next
    case True
    have "nb = seq_heap_bottom sq + ?n * GrainWords (st_grain st)" using g(2) by (simp add: at_end_def)
    from create_next [where reserved = reserved and room = room and stamp = stamp, OF g(1) True assms(2,3) this g(3,4)]
    obtain a sq1 r where c: "new_heap_region room reserved stamp ?n nb st = Inr (Some ?n, put_hr ?n r st)"
      "get_by_index ?n (hs_regions sq) = Inr None" "set_by_index ?n (Some ?n) (hs_regions sq) = Inr a"
      "increment_allocated_length (sq\<lparr>hs_regions := a\<rparr>) = Inr sq1" and i: "seq_inv sq1 (put_hr ?n r st)"
      "seq_length sq1 = ?n" "hs_allocated_length sq1 = hs_allocated_length sq + 1" "seq_max_length sq1 = seq_max_length sq"
      "seq_heap_bottom sq1 = seq_heap_bottom sq" "seq_heap_end sq1 = seq_heap_end sq" by blast
    have "growing reserved nb sq1 l xs (put_hr ?n r st)" by (rule growing_put_hr [OF assms(1) i(1,2,5,6)])
    from commit_and_list [OF this] i(2,3) True obtain sq' l' st' where "increment_length sq1 = Inr sq'" "seq_at ?n sq' (put_hr ?n r st) = Inr ?n"
      "add_as_tail ?n l (put_hr ?n r st) = Inr (l', st')" and q: "growing reserved (nb + GrainWords (st_grain st)) sq' l' (xs @ [?n]) st'"
      "hr_end (st_hr st' ?n) = nb + GrainWords (st_grain st)" "seq_length sq' = ?n + 1" "seq_max_length sq' = seq_max_length sq1"
      "seq_heap_bottom sq' = seq_heap_bottom sq1" "st_grain st' = st_grain st" "\<forall>i. untagged (st_hr st' i) = untagged (st_hr (put_hr ?n r st) i)" by auto
    then have "expand_step room reserved stamp nb sq l st = Inr (Some (nb + GrainWords (st_grain st), sq', l', st'))"
      using lt assms(2) True c unfolding expand_step_def Let_def previous_end [OF assms(1)] by simp
    then show ?thesis using q i(4,5) by simp
  qed
qed

lemma expand_loop_ok:
  assumes "growing reserved nb sq l xs st" and "seq_length sq + k \<le> seq_max_length sq" and "\<forall>i < seq_length sq + k. room i"
  shows "\<exists>sq' l' st'. expand_loop room reserved stamp (nb + k * GrainWords (st_grain st)) nb sq l st =
      Inr (nb + k * GrainWords (st_grain st), sq', l', st') \<and>
    growing reserved (nb + k * GrainWords (st_grain st)) sq' l' (xs @ [seq_length sq..<seq_length sq + k]) st' \<and>
    seq_length sq' = seq_length sq + k \<and> seq_heap_bottom sq' = seq_heap_bottom sq \<and>
    st_grain st' = st_grain st \<and> (\<forall>i < seq_length sq. untagged (st_hr st' i) = untagged (st_hr st i))"
  using assms
proof (induction k arbitrary: nb sq l xs st)
  case 0
  then show ?case by (simp add: expand_loop.simps)
next
  case (Suc k)
  let ?G = "GrainWords (st_grain st)" and ?n = "seq_length sq"
  have "0 < ?G" using at_end_room(3) Suc.prems(1) unfolding growing_def by blast
  from expand_step_ok [OF Suc.prems(1), of room stamp] Suc.prems(2,3) obtain sq1 l1 st1 where
    s: "expand_step room reserved stamp nb sq l st = Inr (Some (nb + ?G, sq1, l1, st1))" "growing reserved (nb + ?G) sq1 l1 (xs @ [?n]) st1"
      "seq_length sq1 = ?n + 1" "seq_max_length sq1 = seq_max_length sq" "seq_heap_bottom sq1 = seq_heap_bottom sq" "st_grain st1 = st_grain st"
      "\<forall>i < ?n. untagged (st_hr st1 i) = untagged (st_hr st i)" by auto
  from Suc.IH [OF s(2)] Suc.prems(2,3) s(3,4,6) obtain sq' l' st' where
    t: "expand_loop room reserved stamp (nb + ?G + k * ?G) (nb + ?G) sq1 l1 st1 = Inr (nb + ?G + k * ?G, sq', l', st')"
      "growing reserved (nb + ?G + k * ?G) sq' l' ((xs @ [?n]) @ [?n + 1..<?n + 1 + k]) st'" "seq_length sq' = ?n + 1 + k"
      "seq_heap_bottom sq' = seq_heap_bottom sq1" "st_grain st' = st_grain st" "\<forall>i < ?n + 1. untagged (st_hr st' i) = untagged (st_hr st1 i)"
    by auto
  have "expand_loop room reserved stamp (nb + Suc k * ?G) nb sq l st = Inr (nb + Suc k * ?G, sq', l', st')"
    using s(1) t(1) \<open>0 < ?G\<close> by (subst expand_loop.simps) (simp add: add.assoc)
  moreover have "xs @ [?n..<?n + Suc k] = (xs @ [?n]) @ [?n + 1..<?n + 1 + k]" by (simp add: upt_conv_Cons)
  moreover have "nb + Suc k * ?G = nb + ?G + k * ?G" by simp
  ultimately show ?case using t(2-6) s(5,7)
    by (intro exI [of _ sq'] exI [of _ l'] exI [of _ st'] conjI) (simp_all only: add_Suc_right Suc_eq_plus1 ac_simps, simp)
qed

text \<open>A new sequence over an aligned range satisfies the invariant.\<close>

lemma seq_initialize_inv:
  assumes "GrainBytes (st_grain st) = 2 ^ k" "LogOfHRGrainBytes (st_grain st) = int k" "GrainWords (st_grain st) * HeapWordSize = 2 ^ k"
    and "3 \<le> k" "k < 64" and "2 ^ k dvd bottom * HeapWordSize" "2 ^ k dvd en * HeapWordSize" and "0 < bottom" "bottom < en"
    and "(en - bottom) div (2 ^ k div HeapWordSize) \<le> length garbage" and "\<forall>i. st_next st i = None"
  shows "\<exists>sq. seq_initialize (st_grain st) bottom en garbage HeapRegionSeq = Inr sq \<and> seq_inv sq st \<and> seq_length sq = 0 \<and>
    seq_heap_bottom sq = bottom \<and> seq_heap_end sq = en"
proof -
  obtain a where a: "ba_initialize None bottom en (2 ^ k) garbage = Inr a" "ba_maps a bottom en k" "\<forall>j < ba_length a. get_by_index j a = Inr None"
    using ba_initialize_spec [OF assms(4-7,9,10)] by blast
  let ?sq = "HeapRegionSeq\<lparr>hs_next_search_index := 0, hs_allocated_length := 0, hs_regions := a\<rparr>"
  have w: "(2 :: nat) ^ k div HeapWordSize = GrainWords (st_grain st)" using assms(3) by (simp add: HeapWordSize_def flip: assms(3))
  have "ba_bias a * GrainWords (st_grain st) = bottom" "(ba_bias a + ba_length a) * GrainWords (st_grain st) = en"
    using a(2) by (auto simp: ba_maps_def HeapWordSize_def simp flip: assms(3))
  then have b: "seq_heap_bottom ?sq = bottom" "seq_heap_end ?sq = en"
    using a(2) by (simp_all add: seq_heap_bottom_def seq_heap_end_def bottom_address_mapped_def end_address_mapped_def
        ba_maps_def HeapWordSize_def flip: assms(3))
  have "0 < GrainWords (st_grain st)" using assms(3) by (cases "GrainWords (st_grain st)") simp_all
  then have "seq_inv ?sq st"
    unfolding seq_inv_def b using assms a(2,3) by (simp add: HeapRegionSeq_def seq_length_def seq_max_length_def)
  moreover have "seq_initialize (st_grain st) bottom en garbage HeapRegionSeq = Inr ?sq"
    using a(1) assms(1,6,7) by (simp add: seq_initialize_def dvd_eq_mod_eq_0)
  ultimately show ?thesis using b by (intro exI [of _ ?sq]) (simp add: HeapRegionSeq_def seq_length_def)
qed

lemma shrink_loop_spec:
  assumes "seq_ok sq st" and "k < seq_length sq" and "\<forall>i < seq_length sq. empty_at sq st i \<longrightarrow> \<not> isHumongous (st_hr st (seq_ptr sq i))"
  shows "\<exists>j. shrink_loop k i sq st = Inr (i + j, sq\<lparr>hs_committed_length := seq_length sq - j\<rparr>) \<and> j \<le> k \<and>
    empty_run sq st (seq_length sq - j) j \<and> (j < k \<longrightarrow> \<not> empty_at sq st (seq_length sq - j - 1))"
  using assms
proof (induction k arbitrary: i sq)
  case 0
  then show ?case by (auto simp: empty_run_def seq_length_def)
next
  case (Suc k)
  let ?n = "seq_length sq"
  have a: "seq_at (?n - 1) sq st = Inr (seq_ptr sq (?n - 1))" using seq_at_ok [OF Suc.prems(1)] Suc.prems(2) by simp
  show ?case
  proof (cases "empty_at sq st (?n - 1)")
    case False
    then show ?thesis using a by (intro exI [of _ 0]) (auto simp: empty_at_def empty_run_def seq_length_def)
  next
    case True
    let ?sq = "sq\<lparr>hs_committed_length := hs_committed_length sq - 1\<rparr>"
    have s: "seq_length ?sq = ?n - 1" "seq_ok ?sq st" "\<And>i. seq_ptr ?sq i = seq_ptr sq i" "\<And>i. empty_at ?sq st i = empty_at sq st i"
        "\<And>x y. empty_run ?sq st x y = empty_run sq st x y"
      using Suc.prems(1) by (simp_all add: seq_length_def seq_ok_def seq_ptr_def empty_at_def empty_run_def)
    have "\<not> isHumongous (st_hr st (seq_ptr sq (?n - 1)))" using Suc.prems(2,3) True by simp
    then have step: "shrink_loop (Suc k) i sq st = shrink_loop k (i + 1) ?sq st"
      using True a Suc.prems(2) by (simp add: empty_at_def decrement_length_def)
    have "k < seq_length ?sq" using Suc.prems(2) unfolding s(1) by simp
    moreover have "\<forall>i < seq_length ?sq. empty_at ?sq st i \<longrightarrow> \<not> isHumongous (st_hr st (seq_ptr ?sq i))"
      using Suc.prems(3) unfolding s by simp
    ultimately obtain j where
      j: "shrink_loop k (i + 1) ?sq st = Inr (i + 1 + j, ?sq\<lparr>hs_committed_length := ?n - 1 - j\<rparr>)" "j \<le> k"
        "empty_run sq st (?n - 1 - j) j" "j < k \<longrightarrow> \<not> empty_at sq st (?n - 1 - j - 1)"
      using Suc.IH [OF s(2), of "i + 1"] unfolding s by blast
    have "empty_at sq st x" if "?n - Suc j \<le> x" "x < ?n" for x
      using that j(3) True Suc.prems(2) by (cases "x = ?n - 1") (auto simp: empty_run_def)
    then have "empty_run sq st (?n - Suc j) (Suc j)" using j(2) Suc.prems(2) by (simp add: empty_run_def)
    then show ?thesis using step j by (intro exI [of _ "Suc j"]) simp
  qed
qed

section \<open>Properties\<close>

text \<open>C18. The search for contiguous empty regions, which a humongous allocation relies on, is complete
  in spite of starting at the index where the previous search ended: it fails only when the committed
  heap has no run of that many empty regions, and then changes nothing.  When it
  succeeds, the run it returns lies in the committed heap and has only empty regions, it is the first
  one after the starting index unless there is none there, and the next search starts behind it.\<close>

theorem find_contiguous_complete:
  assumes "seq_ok sq st" and "hs_next_search_index sq \<le> seq_length sq" and "1 < num"
  shows "\<exists>r sq'. find_contiguous num sq st = Inr (r, sq') \<and>
    (r = None \<longleftrightarrow> (\<forall>s. s + num \<le> seq_length sq \<longrightarrow> \<not> empty_run sq st s num)) \<and> (r = None \<longrightarrow> sq' = sq) \<and>
    (\<forall>f. r = Some f \<longrightarrow> f + num \<le> seq_length sq \<and> empty_run sq st f num \<and> sq' = sq\<lparr>hs_next_search_index := f + num\<rparr> \<and>
       (\<forall>s. hs_next_search_index sq \<le> s \<and> s + num \<le> seq_length sq \<and> empty_run sq st s num \<longrightarrow> hs_next_search_index sq \<le> f \<and> f \<le> s))"
proof -
  let ?b = "hs_next_search_index sq"
  note spec = find_contiguous_from_spec [OF assms(1,3)]
  have fin: "find_contiguous num sq st = Inr (Some f, sq\<lparr>hs_next_search_index := f + num\<rparr>)"
    if "rbind (find_contiguous_from ?b num sq st) (\<lambda>r. if r = None \<and> 0 < ?b then find_contiguous_from 0 num sq st else Inr r) = Inr (Some f)"
      "f + num \<le> seq_length sq" for f
    using that assms(2,3) by (auto simp: find_contiguous_def Let_def seq_length_def res_simps split: if_splits)
  obtain r0 where r0: "find_contiguous_from ?b num sq st = Inr r0"
    "case r0 of Some f \<Rightarrow> ?b \<le> f \<and> f + num \<le> seq_length sq \<and> empty_run sq st f num \<and>
         (\<forall>s. ?b \<le> s \<and> s + num \<le> seq_length sq \<and> empty_run sq st s num \<longrightarrow> f \<le> s)
     | None \<Rightarrow> \<forall>s. ?b \<le> s \<and> s + num \<le> seq_length sq \<longrightarrow> \<not> empty_run sq st s num" using spec [OF assms(2)] by blast
  obtain r1 where r1: "find_contiguous_from 0 num sq st = Inr r1"
    "case r1 of Some f \<Rightarrow> 0 \<le> f \<and> f + num \<le> seq_length sq \<and> empty_run sq st f num \<and>
         (\<forall>s. 0 \<le> s \<and> s + num \<le> seq_length sq \<and> empty_run sq st s num \<longrightarrow> f \<le> s)
     | None \<Rightarrow> \<forall>s. 0 \<le> s \<and> s + num \<le> seq_length sq \<longrightarrow> \<not> empty_run sq st s num" using spec [of 0] by blast
  show ?thesis
  proof (cases "\<exists>f. r0 = Some f \<or> r0 = None \<and> 0 < ?b \<and> r1 = Some f")
    case True
    then obtain f where f: "r0 = Some f \<or> r0 = None \<and> 0 < ?b \<and> r1 = Some f" by blast
    then have "f + num \<le> seq_length sq" "empty_run sq st f num" using r0(2) r1(2) by auto
    moreover from this have "find_contiguous num sq st = Inr (Some f, sq\<lparr>hs_next_search_index := f + num\<rparr>)"
      using f r0(1) r1(1) by (intro fin) auto
    ultimately show ?thesis using f r0(2) by auto
  next
    case False
    then have n: "r0 = None" "0 < ?b \<longrightarrow> r1 = None" by (cases r0; cases r1; auto)+
    have "find_contiguous num sq st = Inr (None, sq)"
      using n r0(1) r1(1) assms(2,3) by (cases "?b = 0") (simp_all add: find_contiguous_def Let_def)
    moreover have "\<forall>s. s + num \<le> seq_length sq \<longrightarrow> \<not> empty_run sq st s num"
      using n r0(2) r1(2) by (cases "?b = 0") auto
    ultimately show ?thesis by simp
  qed
qed

text \<open>Three committed empty regions, the previous search having ended at the last one.\<close>

definition sample_region_seq :: region_seq where
  "sample_region_seq =
     \<lparr>hs_regions = \<lparr>ba_base = Some [Some 0, Some 1, Some 2], ba_length = 3, ba_bias = 1, ba_shift_by = 10\<rparr>,
      hs_committed_length = 3, hs_next_search_index = 2, hs_allocated_length = 3\<rparr>"

lemma sample_region_seq_ok:
  "seq_ok sample_region_seq sample_store" "seq_length sample_region_seq = 3" "hs_next_search_index sample_region_seq = 2"
  "empty_run sample_region_seq sample_store 0 3"
proof -
  have n: "i < 3 \<longleftrightarrow> i = 0 \<or> i = 1 \<or> i = 2" for i :: nat by auto
  show "seq_length sample_region_seq = 3" "hs_next_search_index sample_region_seq = 2"
    by (simp_all add: sample_region_seq_def seq_length_def)
  show "seq_ok sample_region_seq sample_store"
    by (simp add: seq_ok_def sample_region_seq_def seq_length_def n) (auto simp: get_by_index_def ba_verify_index_def sample_store_def vguarantee_def)
  show "empty_run sample_region_seq sample_store 0 3"
    by (simp add: empty_run_def empty_at_def hr_is_empty_def used_def sample_store_def)
qed

theorem find_contiguous_complete_witness:
  "\<exists>f sq'. find_contiguous 2 sample_region_seq sample_store = Inr (Some f, sq') \<and> f \<le> 1 \<and> hs_next_search_index sq' = f + 2"
proof -
  from find_contiguous_complete [of sample_region_seq sample_store 2] obtain r sq' where
    r: "find_contiguous 2 sample_region_seq sample_store = Inr (r, sq')"
      "r = None \<longleftrightarrow> (\<forall>s. s + 2 \<le> 3 \<longrightarrow> \<not> empty_run sample_region_seq sample_store s 2)"
      "\<forall>f. r = Some f \<longrightarrow> f + 2 \<le> 3 \<and> sq' = sample_region_seq\<lparr>hs_next_search_index := f + 2\<rparr>"
    by (auto simp: sample_region_seq_ok)
  have "empty_run sample_region_seq sample_store 0 2" using sample_region_seq_ok(4) by (simp add: empty_run_def)
  then have "r \<noteq> None" using r(2) by auto
  then show ?thesis using r(1,3) by auto
qed

text \<open>A sequence over three regions of the sample store, its first region at address 128.\<close>

lemma sample_seq:
  "\<exists>sq. seq_initialize (st_grain sample_store) 128 512 [None, None, None] HeapRegionSeq = Inr sq \<and> seq_inv sq sample_store \<and>
     seq_length sq = 0 \<and> seq_heap_bottom sq = 128 \<and> seq_heap_end sq = 512 \<and> seq_max_length sq = 3"
proof -
  obtain sq where sq: "seq_initialize (st_grain sample_store) 128 512 [None, None, None] HeapRegionSeq = Inr sq" "seq_inv sq sample_store"
      "seq_length sq = 0" "seq_heap_bottom sq = 128" "seq_heap_end sq = 512"
    using seq_initialize_inv [of sample_store 10 128 512 "[None, None, None]"] by (auto simp: sample_store_def HeapWordSize_def)
  have "at_end 128 sq sample_store" using sq(3,4) by (simp add: at_end_def)
  from at_end_room(1) [OF sq(2) this] have "seq_max_length sq = 3" using sq(4,5) by (simp add: sample_store_def)
  then show ?thesis using sq by blast
qed

text \<open>C19. Expanding the heap by \<open>k\<close> regions: when the sequence is well formed and there is room, all
  assertions hold, the committed heap grows by exactly \<open>k\<close> regions, whether their region objects are
  reused from an earlier shrinking or created now; they are appended to the given list in address order, the
  earlier regions keep their contents, the verification of the sequence accepts the
  result, and every address of the committed heap is mapped to the region that contains it.\<close>

theorem expand_by_commits:
  assumes "growing reserved old_end sq l xs st" and "0 < k" "seq_length sq + k \<le> seq_max_length sq" and "\<forall>i < seq_length sq + k. room i"
  shows "\<exists>sq' l' st'. expand_by room reserved stamp old_end (old_end + k * GrainWords (st_grain st)) sq l st =
      Inr ((old_end, old_end + k * GrainWords (st_grain st)), sq', l', st') \<and>
    seq_length sq' = seq_length sq + k \<and> lists_as l' (xs @ [seq_length sq..<seq_length sq + k]) st' \<and>
    (\<forall>i < seq_length sq. untagged (st_hr st' i) = untagged (st_hr st i)) \<and> seq_verify_optional sq' st' = Inr () \<and>
    (\<forall>x. seq_heap_bottom sq \<le> x \<and> x < old_end + k * GrainWords (st_grain st) \<longrightarrow>
       addr_to_region x sq' = Inr (Some ((x - seq_heap_bottom sq) div GrainWords (st_grain st))))"
proof -
  let ?G = "GrainWords (st_grain st)"
  have g: "0 < ?G" "seq_heap_bottom sq \<le> old_end" "old_end = seq_heap_bottom sq + seq_length sq * ?G"
    using assms(1) at_end_room(3) unfolding growing_def by (blast, simp_all add: at_end_def)
  from expand_loop_ok [OF assms(1,3,4), of stamp] obtain sq' l' st' where
    e: "expand_loop room reserved stamp (old_end + k * ?G) old_end sq l st = Inr (old_end + k * ?G, sq', l', st')"
      "growing reserved (old_end + k * ?G) sq' l' (xs @ [seq_length sq..<seq_length sq + k]) st'" "seq_length sq' = seq_length sq + k"
      "seq_heap_bottom sq' = seq_heap_bottom sq" "st_grain st' = st_grain st" "\<forall>i < seq_length sq. untagged (st_hr st' i) = untagged (st_hr st i)"
    by blast
  have i: "seq_inv sq' st'" "lists_as l' (xs @ [seq_length sq..<seq_length sq + k]) st'" using e(2) by (simp_all add: growing_def)
  have "addr_to_region x sq' = Inr (Some ((x - seq_heap_bottom sq) div ?G))"
    if "seq_heap_bottom sq \<le> x" "x < old_end + k * ?G" for x
  proof (rule seq_inv_addr(1) [OF i(1)], unfold e(3-5))
    have "x - seq_heap_bottom sq < (seq_length sq + k) * ?G" using that g(3) by (simp add: algebra_simps)
    then show "(x - seq_heap_bottom sq) div ?G < seq_length sq + k" using g(1) by (simp add: div_less_iff_less_mult)
    show "seq_heap_bottom sq + (x - seq_heap_bottom sq) div ?G * ?G \<le> x"
      using that div_times_less_eq_dividend [of "x - seq_heap_bottom sq" ?G] by linarith
    show "x < seq_heap_bottom sq + ((x - seq_heap_bottom sq) div ?G + 1) * ?G"
      using that dividend_less_div_times [OF g(1), of "x - seq_heap_bottom sq"] by (simp add: algebra_simps)
  qed
  then show ?thesis using e g assms(2) i seq_inv_verify [OF i(1)] by (auto simp: expand_by_def)
qed

theorem expand_by_commits_witness:
  "\<exists>sq sq' l' st'. seq_initialize (st_grain sample_store) 128 512 [None, None, None] HeapRegionSeq = Inr sq \<and>
     expand_by (\<lambda>_. True) (128, 512) 7 128 384 sq (HeapRegionLinkedList 0 MasterFreeRegionList) sample_store = Inr ((128, 384), sq', l', st') \<and>
     lists_as l' [0, 1] st' \<and> addr_to_region 300 sq' = Inr (Some 1)"
proof -
  obtain sq where sq: "seq_initialize (st_grain sample_store) 128 512 [None, None, None] HeapRegionSeq = Inr sq" "seq_inv sq sample_store"
      "seq_length sq = 0" "seq_heap_bottom sq = 128" "seq_heap_end sq = 512" "seq_max_length sq = 3" using sample_seq by blast
  have "lists_as (HeapRegionLinkedList 0 MasterFreeRegionList) [] sample_store"
    by (simp add: lists_as_def HeapRegionLinkedList_def linked_kind_def)
  then have "growing (128, 512) 128 sq (HeapRegionLinkedList 0 MasterFreeRegionList) [] sample_store"
    using sq by (simp add: growing_def at_end_def) (simp add: sample_store_def HeapRegionLinkedList_def)
  moreover have "GrainWords (st_grain sample_store) = 128" by (simp add: sample_store_def)
  ultimately show ?thesis using expand_by_commits [of "(128, 512)" 128 sq "HeapRegionLinkedList 0 MasterFreeRegionList" "[]" sample_store 2 "\<lambda>_. True" 7] sq
    by (fastforce simp: upt_rec)
qed

text \<open>C20. Shrinking the heap: asked to remove \<open>k\<close> regions, the sequence gives up exactly as many as the
  run of empty regions at its end allows, at most \<open>k\<close>; the region objects are kept for a later
  expansion, and the sequence is as well formed as before, which its own verification confirms.\<close>

theorem shrink_by_removes:
  assumes "seq_inv sq st" and "k < seq_length sq"
    and "\<forall>i < seq_length sq. used (st_hr st i) = 0 \<longrightarrow>
      \<not> isHumongous (st_hr st i) \<and> \<not> is_young (st_hr st i) \<and> hr_containing_set (st_hr st i) = None \<and> st_next st i = None"
  shows "\<exists>n sq'. free_suffix sq st = Inr n \<and> shrink_by k sq st = Inr (min k n, sq') \<and> seq_length sq' = seq_length sq - min k n \<and>
    hs_allocated_length sq' = hs_allocated_length sq \<and> seq_inv sq' st \<and> seq_verify_optional sq' st = Inr ()"
proof -
  let ?sq = "sq\<lparr>hs_next_search_index := 0\<rparr>" and ?L = "seq_length sq"
  have s: "seq_length ?sq = ?L" "\<And>x y. empty_run ?sq st x y = empty_run sq st x y" "\<And>x. empty_at ?sq st x = empty_at sq st x"
      "\<And>i. seq_ptr ?sq i = seq_ptr sq i" "seq_ok ?sq st"
    using seq_inv_ok(1) [OF assms(1)] by (simp_all add: seq_length_def empty_run_def empty_at_def seq_ptr_def seq_ok_def)
  have e: "empty_at sq st i \<longleftrightarrow> used (st_hr st i) = 0" if "i < ?L" for i
    using seq_inv_ok(2) [OF assms(1) that] by (simp add: empty_at_def hr_is_empty_def)
  have "\<forall>i < seq_length ?sq. empty_at ?sq st i \<longrightarrow> \<not> isHumongous (st_hr st (seq_ptr ?sq i))"
    using assms(3) e seq_inv_ok(2) [OF assms(1)] unfolding s by simp
  then obtain j where j: "shrink_loop k 0 ?sq st = Inr (j, ?sq\<lparr>hs_committed_length := ?L - j\<rparr>)" "j \<le> k" "empty_run sq st (?L - j) j"
      "j < k \<longrightarrow> \<not> empty_at sq st (?L - j - 1)"
    using shrink_loop_spec [OF s(5), of k 0] assms(2) unfolding s by auto
  obtain n where n: "free_suffix sq st = Inr n" "n \<le> ?L" "empty_run sq st (?L - n) n" "n < ?L \<longrightarrow> \<not> empty_at sq st (?L - n - 1)"
    using free_suffix_spec [OF seq_inv_ok(1) [OF assms(1)]] by blast
  have "j \<le> n" using n(4) j(2,3) assms(2) by (intro leI notI) (auto simp: empty_run_def)
  moreover have "n \<le> j" if "j < k" using j(4) that n(2,3) assms(2) by (intro leI notI) (auto simp: empty_run_def)
  ultimately have m: "j = min k n" using j(2) by linarith
  let ?sq' = "?sq\<lparr>hs_committed_length := ?L - j\<rparr>"
  have l: "seq_length ?sq' = ?L - j" "seq_max_length ?sq' = seq_max_length sq" "seq_heap_bottom ?sq' = seq_heap_bottom sq"
      "seq_heap_end ?sq' = seq_heap_end sq"
    by (simp_all add: seq_length_def seq_max_length_def seq_heap_bottom_def seq_heap_end_def)
  have r: "shrink_by k sq st = Inr (j, ?sq')"
    using j(1) assms(1,2) s(1) by (simp add: shrink_by_def seq_inv_def Let_def)
  have u: "used (st_hr st i) = 0" if "?L - j \<le> i" "i < ?L" for i using j(2,3) that assms(2) e [of i] by (simp add: empty_run_def)
  have "st_next st i = None \<and> (i < hs_allocated_length sq \<longrightarrow> used (st_hr st i) = 0 \<and> \<not> isHumongous (st_hr st i) \<and> \<not> is_young (st_hr st i) \<and>
      hr_containing_set (st_hr st i) = None)" if "?L - j \<le> i" for i
    using u [OF that] assms(1,3) by (cases "i < ?L") (auto simp: seq_inv_def)
  moreover have "?L - j \<le> hs_allocated_length sq" using assms(1) by (auto simp: seq_inv_def)
  ultimately have i: "seq_inv ?sq' st" using assms(1) unfolding seq_inv_def l by (simp split del: if_split)
  show ?thesis using n(1) r l(1) i seq_inv_verify [OF i] by (intro exI [of _ n] exI [of _ ?sq']) (simp add: m [symmetric])
qed

text \<open>The three regions at the addresses 128 to 512, the first one in use.\<close>

definition sample_layout :: region_store where
  "sample_layout = sample_store\<lparr>st_hr := \<lambda>i. (st_hr sample_store (i + 1))\<lparr>hr_index := i, hr_top := 128 * i + (if i = 0 then 136 else 128)\<rparr>\<rparr>"

lemma sample_layout_inv: "seq_inv sample_region_seq sample_layout"
proof -
  have n: "i < 3 \<longleftrightarrow> i = 0 \<or> i = 1 \<or> i = 2" for i :: nat by auto
  have b: "seq_heap_bottom sample_region_seq = 128" "seq_heap_end sample_region_seq = 512" "seq_max_length sample_region_seq = 3"
      "seq_length sample_region_seq = 3" "hs_allocated_length sample_region_seq = 3" "hs_next_search_index sample_region_seq = 2"
    by (simp_all add: sample_region_seq_def seq_heap_bottom_def seq_heap_end_def bottom_address_mapped_def end_address_mapped_def
        seq_max_length_def seq_length_def HeapWordSize_def)
  have "\<forall>i < 3. get_by_index i (hs_regions sample_region_seq) = Inr (if i < 3 then Some i else None)"
    by (auto simp: n sample_region_seq_def get_by_index_def ba_verify_index_def vguarantee_def)
  moreover have "ba_maps (hs_regions sample_region_seq) 128 512 10"
    by (simp add: ba_maps_def ba_wf_def sample_region_seq_def HeapWordSize_def)
  ultimately show ?thesis unfolding seq_inv_def b
    by (simp add: sample_layout_def sample_store_def sample_region_def HeapWordSize_def startsHumongous_def)
qed

theorem shrink_by_removes_witness:
  "\<exists>n sq'. free_suffix sample_region_seq sample_layout = Inr n \<and> shrink_by 1 sample_region_seq sample_layout = Inr (min 1 n, sq') \<and>
     seq_length sq' = 3 - min 1 n \<and> hs_allocated_length sq' = 3"
proof -
  have "\<forall>i < seq_length sample_region_seq. used (st_hr sample_layout i) = 0 \<longrightarrow> \<not> isHumongous (st_hr sample_layout i) \<and>
      \<not> is_young (st_hr sample_layout i) \<and> hr_containing_set (st_hr sample_layout i) = None \<and> st_next sample_layout i = None"
    by (simp add: sample_layout_def sample_store_def sample_region_def isHumongous_def is_young_def)
  from shrink_by_removes [OF sample_layout_inv _ this, of 1] show ?thesis
    by (auto simp: sample_region_seq_ok) (auto simp: sample_region_seq_def)
qed

end
