(* ===== verification/Mark_Word.thy ===== *)
theory Mark_Word
  imports Rolp_Prelude
begin

text \<open>
  The object header, \<^verbatim>\<open>markOopDesc\<close> (oops/markOop.hpp and markOop.inline.hpp), of the 64-bit
  build with \<^verbatim>\<open>NG2C_PROF\<close>: lock bits 0 and 1, bias bit 2, age bits 3 to 6, the cms bit 7,
  the identity hash from bit 8 (31 bits) or the epoch (2 bits), and the 32-bit profile tag from
  bit 32.  A header is a 64-bit word.

  The locale \<open>mark_field\<close> states what a field with a getter and a setter promises; it is
  interpreted for the age, the epoch, the hash and the profile tag.
\<close>

type_synonym mark = uintptr_t

section \<open>Constants\<close>

definition lock_bits :: nat where "lock_bits = 2"
definition age_bits :: nat where "age_bits = 4"
definition hash_bits :: nat where "hash_bits = 31"
definition epoch_bits :: nat where "epoch_bits = 2"
definition ng2c_prof_bits :: nat where "ng2c_prof_bits = 32"
definition size_bits :: nat where "size_bits = 35"

definition age_shift :: nat where "age_shift = 3"
definition cms_shift :: nat where "cms_shift = 7"
definition hash_shift :: nat where "hash_shift = 8"
definition epoch_shift :: nat where "epoch_shift = 8"
definition ng2c_prof_shift :: nat where "ng2c_prof_shift = 32"
definition size_shift :: nat where "size_shift = 8"

lemmas mark_layout =
  lock_bits_def age_bits_def hash_bits_def epoch_bits_def ng2c_prof_bits_def size_bits_def
  age_shift_def cms_shift_def hash_shift_def epoch_shift_def ng2c_prof_shift_def size_shift_def

definition lock_mask_in_place :: mark where "lock_mask_in_place = mask lock_bits"
definition biased_lock_mask_in_place :: mark where "biased_lock_mask_in_place = mask (lock_bits + 1)"
definition age_mask_in_place :: mark where "age_mask_in_place = push_bit age_shift (mask age_bits)"
definition epoch_mask_in_place :: mark where "epoch_mask_in_place = push_bit epoch_shift (mask epoch_bits)"
definition hash_mask_in_place :: mark where "hash_mask_in_place = push_bit hash_shift (mask hash_bits)"
definition ng2c_prof_mask_in_place :: mark where
  "ng2c_prof_mask_in_place = push_bit ng2c_prof_shift (mask ng2c_prof_bits)"
definition cms_mask_in_place :: mark where "cms_mask_in_place = push_bit cms_shift 1"
definition size_mask_in_place :: mark where "size_mask_in_place = push_bit size_shift (mask size_bits)"

definition unlocked_value :: mark where "unlocked_value = 1"
definition monitor_value :: mark where "monitor_value = 2"
definition marked_value :: mark where "marked_value = 3"
definition biased_lock_pattern :: mark where "biased_lock_pattern = 5"
definition no_hash :: mark where "no_hash = 0"

lemmas mark_masks =
  lock_mask_in_place_def biased_lock_mask_in_place_def age_mask_in_place_def epoch_mask_in_place_def
  hash_mask_in_place_def ng2c_prof_mask_in_place_def cms_mask_in_place_def size_mask_in_place_def

lemmas mark_values = unlocked_value_def monitor_value_def marked_value_def biased_lock_pattern_def no_hash_def

section \<open>Biased locking\<close>

definition has_bias_pattern :: "mark \<Rightarrow> bool" where
  "has_bias_pattern m \<longleftrightarrow> m AND biased_lock_mask_in_place = biased_lock_pattern"

definition biased_locker :: "mark \<Rightarrow> uintptr_t res" where
  "biased_locker m =
     vassert (has_bias_pattern m) ''should not call this otherwise''
       (Inr (m AND NOT (biased_lock_mask_in_place OR age_mask_in_place OR epoch_mask_in_place)))"

definition is_biased_anonymously :: "mark \<Rightarrow> bool" where
  "is_biased_anonymously m \<longleftrightarrow> has_bias_pattern m \<and> biased_locker m = Inr 0"

definition bias_epoch :: "mark \<Rightarrow> mark res" where
  "bias_epoch m =
     vassert (has_bias_pattern m) ''should not call this otherwise''
       (Inr (drop_bit epoch_shift (m AND epoch_mask_in_place)))"

definition set_bias_epoch :: "mark \<Rightarrow> mark \<Rightarrow> mark res" where
  "set_bias_epoch epoch m =
     vassert (has_bias_pattern m) ''should not call this otherwise''
       (vassert (epoch AND NOT (mask epoch_bits) = 0) ''epoch overflow''
         (Inr ((m AND NOT epoch_mask_in_place) OR push_bit epoch_shift epoch)))"

definition incr_bias_epoch :: "mark \<Rightarrow> mark res" where
  "incr_bias_epoch m = rbind (bias_epoch m) (\<lambda>e. set_bias_epoch ((1 + e) AND mask epoch_bits) m)"

definition biased_locking_prototype :: mark where
  "biased_locking_prototype = biased_lock_pattern"

section \<open>Lock state\<close>

definition is_locked :: "mark \<Rightarrow> bool" where
  "is_locked m \<longleftrightarrow> m AND lock_mask_in_place \<noteq> unlocked_value"

definition is_unlocked :: "mark \<Rightarrow> bool" where
  "is_unlocked m \<longleftrightarrow> m AND biased_lock_mask_in_place = unlocked_value"

definition is_marked :: "mark \<Rightarrow> bool" where
  "is_marked m \<longleftrightarrow> m AND lock_mask_in_place = marked_value"

definition is_neutral :: "mark \<Rightarrow> bool" where
  "is_neutral m \<longleftrightarrow> m AND biased_lock_mask_in_place = unlocked_value"

definition set_unlocked :: "mark \<Rightarrow> mark" where
  "set_unlocked m = m OR unlocked_value"

definition has_locker :: "mark \<Rightarrow> bool" where
  "has_locker m \<longleftrightarrow> m AND lock_mask_in_place = 0"

definition has_monitor :: "mark \<Rightarrow> bool" where
  "has_monitor m \<longleftrightarrow> m AND monitor_value \<noteq> 0"

definition monitor :: "mark \<Rightarrow> uintptr_t res" where
  "monitor m = vassert (has_monitor m) ''check'' (Inr (m XOR monitor_value))"

definition has_displaced_mark_helper :: "mark \<Rightarrow> bool" where
  "has_displaced_mark_helper m \<longleftrightarrow> m AND unlocked_value = 0"

definition encode_monitor :: "uintptr_t \<Rightarrow> mark" where
  "encode_monitor p = p OR monitor_value"

definition encode_biased :: "uintptr_t \<Rightarrow> mark \<Rightarrow> mark \<Rightarrow> mark res" where
  "encode_biased thread age epoch =
     vassert (thread AND (epoch_mask_in_place OR age_mask_in_place OR biased_lock_mask_in_place) = 0)
         ''misaligned JavaThread pointer''
       (vassert (age \<le> mask age_bits) ''age too large''
         (vassert (epoch \<le> mask epoch_bits) ''bias epoch too large''
           (Inr (thread OR push_bit epoch_shift epoch OR push_bit age_shift age OR biased_lock_pattern))))"

definition clear_lock_bits :: "mark \<Rightarrow> mark" where
  "clear_lock_bits m = m AND NOT lock_mask_in_place"

definition set_marked :: "mark \<Rightarrow> mark" where
  "set_marked m = (m AND NOT lock_mask_in_place) OR marked_value"

definition set_unmarked :: "mark \<Rightarrow> mark" where
  "set_unmarked m = (m AND NOT lock_mask_in_place) OR unlocked_value"

section \<open>Age, hash, profile tag\<close>

definition age :: "mark \<Rightarrow> mark" where
  "age m = drop_bit age_shift m AND mask age_bits"

definition set_age :: "mark \<Rightarrow> mark \<Rightarrow> mark res" where
  "set_age v m =
     vassert (v AND NOT (mask age_bits) = 0) ''shouldn't overflow age field''
       (Inr ((m AND NOT age_mask_in_place) OR push_bit age_shift (v AND mask age_bits)))"

definition incr_age :: "mark \<Rightarrow> mark res" where
  "incr_age m = (if age m = mask age_bits then Inr m else set_age (age m + 1) m)"

definition hash :: "mark \<Rightarrow> mark" where
  "hash m = drop_bit hash_shift m AND mask hash_bits"

definition copy_set_hash :: "mark \<Rightarrow> mark \<Rightarrow> mark" where
  "copy_set_hash h m = (m AND NOT hash_mask_in_place) OR push_bit hash_shift (h AND mask hash_bits)"

definition has_no_hash :: "mark \<Rightarrow> bool" where
  "has_no_hash m \<longleftrightarrow> hash m = no_hash"

definition ng2c_prof :: "mark \<Rightarrow> mark" where
  "ng2c_prof m = drop_bit ng2c_prof_shift m AND mask ng2c_prof_bits"

definition set_ng2c_prof :: "mark \<Rightarrow> mark \<Rightarrow> mark res" where
  "set_ng2c_prof v m =
     (if v = 0 then Inr m
      else vassert (v AND NOT (mask ng2c_prof_bits) = 0) ''shouldn't overflow ng2c_prof field''
             (Inr ((m AND NOT ng2c_prof_mask_in_place)
                     OR push_bit ng2c_prof_shift (v AND mask ng2c_prof_bits))))"

definition mark_prototype :: mark where
  "mark_prototype = push_bit hash_shift no_hash OR unlocked_value"

definition encode_pointer_as_mark :: "uintptr_t \<Rightarrow> mark" where
  "encode_pointer_as_mark p = set_marked p"

definition decode_pointer :: "bool \<Rightarrow> mark \<Rightarrow> uintptr_t" where
  "decode_pointer UseBiasedLocking m =
     (if UseBiasedLocking \<and> has_bias_pattern m then 0 else clear_lock_bits m)"

section \<open>Preserving headers during a collection\<close>

text \<open>\<open>proto\<close> is the prototype header of the object's class.\<close>

definition must_be_preserved_with_bias :: "mark \<Rightarrow> mark \<Rightarrow> bool" where
  "must_be_preserved_with_bias proto m =
     (if has_bias_pattern m then False
      else if has_bias_pattern proto then True
      else \<not> is_unlocked m \<or> \<not> has_no_hash m)"

definition must_be_preserved :: "bool \<Rightarrow> mark \<Rightarrow> mark \<Rightarrow> bool" where
  "must_be_preserved UseBiasedLocking proto m =
     (if \<not> UseBiasedLocking then \<not> is_unlocked m \<or> \<not> has_no_hash m
      else must_be_preserved_with_bias proto m)"

definition must_be_preserved_with_bias_for_promotion_failure :: "mark \<Rightarrow> mark \<Rightarrow> bool" where
  "must_be_preserved_with_bias_for_promotion_failure proto m =
     (if has_bias_pattern m \<or> has_bias_pattern proto then True
      else \<not> is_unlocked m \<or> \<not> has_no_hash m)"

definition must_be_preserved_for_promotion_failure :: "bool \<Rightarrow> mark \<Rightarrow> mark \<Rightarrow> bool" where
  "must_be_preserved_for_promotion_failure UseBiasedLocking proto m =
     (if \<not> UseBiasedLocking then \<not> is_unlocked m \<or> \<not> has_no_hash m
      else must_be_preserved_with_bias_for_promotion_failure proto m)"

section \<open>CMS free blocks\<close>

definition cms_free_prototype :: mark where
  "cms_free_prototype = (mark_prototype AND NOT cms_mask_in_place) OR push_bit cms_shift 1"

definition cms_encoding :: "mark \<Rightarrow> mark" where
  "cms_encoding m = drop_bit cms_shift m AND 1"

definition is_cms_free_chunk :: "mark \<Rightarrow> bool" where
  "is_cms_free_chunk m \<longleftrightarrow> is_neutral m \<and> cms_encoding m AND 1 = 1"

definition get_size :: "mark \<Rightarrow> size_t" where
  "get_size m = drop_bit size_shift m"

definition set_size_and_free :: "size_t \<Rightarrow> mark res" where
  "set_size_and_free sz =
     vassert (sz AND NOT (mask size_bits) = 0) ''shouldn't overflow size field''
       (Inr ((cms_free_prototype AND NOT size_mask_in_place) OR push_bit size_shift (sz AND mask size_bits)))"

section \<open>A field of the header\<close>

locale mark_field =
  fixes shift width :: nat
    and get :: "mark \<Rightarrow> mark"
    and put :: "mark \<Rightarrow> mark \<Rightarrow> mark"
  assumes get_bit: "bit (get m) n \<longleftrightarrow> n < width \<and> bit m (n + shift)"
    and put_bit: "bit (put v m) n \<longleftrightarrow> n < 64 \<and> (if shift \<le> n \<and> n < shift + width then bit v (n - shift) else bit m n)"
    and fits: "shift + width \<le> 64"
begin

lemma get_put: "get (put v m) = take_bit width v"
  by (rule bit_word_eqI) (use fits in \<open>auto simp: get_bit put_bit bit_take_bit_iff\<close>)

lemma put_get: "put (get m) m = m"
  by (rule bit_word_eqI) (auto simp: get_bit put_bit)

lemma put_put: "put v (put w m) = put v m"
  by (rule bit_word_eqI) (auto simp: put_bit)

text \<open>A range of bits that does not meet the field is not changed.\<close>

lemma put_other:
  assumes "s + w \<le> shift \<or> shift + width \<le> s"
  shows "drop_bit s (put v m) AND mask w = drop_bit s m AND mask w"
  by (rule bit_word_eqI) (use assms in \<open>auto simp: bit_simps put_bit dest: bit_imp_le_length\<close>)

lemma put_low: "w \<le> shift \<Longrightarrow> put v m AND mask w = m AND mask w"
  using put_other [of 0 w v m] by simp

end

section \<open>The fields\<close>

definition field_put :: "nat \<Rightarrow> nat \<Rightarrow> mark \<Rightarrow> mark \<Rightarrow> mark" where
  "field_put shift width v m = (m AND NOT (push_bit shift (mask width))) OR push_bit shift (v AND mask width)"

lemma bit_field_put:
  "bit (field_put shift width v m) n \<longleftrightarrow>
     n < 64 \<and> (if shift \<le> n \<and> n < shift + width then bit v (n - shift) else bit m n)"
  by (auto simp: field_put_def bit_simps dest: bit_imp_le_length)

interpretation age_f: mark_field age_shift age_bits age "field_put age_shift age_bits"
  by unfold_locales (auto simp: bit_field_put age_def bit_simps mark_layout add.commute)

interpretation prof_f: mark_field ng2c_prof_shift ng2c_prof_bits ng2c_prof "field_put ng2c_prof_shift ng2c_prof_bits"
  by unfold_locales (auto simp: bit_field_put ng2c_prof_def bit_simps mark_layout add.commute)

interpretation hash_f: mark_field hash_shift hash_bits hash copy_set_hash
proof unfold_locales
  show "bit (copy_set_hash v m) n = (n < 64 \<and> (if hash_shift \<le> n \<and> n < hash_shift + hash_bits then bit v (n - hash_shift) else bit m n))"
    for v m n
    using bit_field_put [of hash_shift hash_bits v m n]
    by (simp add: copy_set_hash_def field_put_def hash_mask_in_place_def)
qed (auto simp: hash_def bit_simps mark_layout add.commute)

interpretation epoch_f: mark_field epoch_shift epoch_bits
    "\<lambda>m. drop_bit epoch_shift (m AND epoch_mask_in_place)" "field_put epoch_shift epoch_bits"
  by unfold_locales (auto simp: bit_field_put epoch_mask_in_place_def bit_simps mark_layout add.commute)

lemma and_not_mask_0: "v AND NOT (mask n) = 0 \<longleftrightarrow> take_bit n v = (v :: mark)"
proof
  assume "v AND NOT (mask n) = 0"
  then have "bit (v AND NOT (mask n)) i = False" for i by simp
  then show "take_bit n v = v"
    by (intro bit_word_eqI) (auto simp: bit_simps)
next
  assume "take_bit n v = v"
  then have "bit v i \<Longrightarrow> i < n" for i by (metis bit_take_bit_iff)
  then show "v AND NOT (mask n) = 0" by (intro bit_word_eqI) (auto simp: bit_simps)
qed

lemma set_age_eq: "take_bit age_bits v = v \<Longrightarrow> set_age v m = Inr (field_put age_shift age_bits v m)"
  by (simp add: set_age_def and_not_mask_0 field_put_def age_mask_in_place_def)

lemma set_ng2c_prof_eq:
  "v \<noteq> 0 \<Longrightarrow> take_bit ng2c_prof_bits v = v \<Longrightarrow>
   set_ng2c_prof v m = Inr (field_put ng2c_prof_shift ng2c_prof_bits v m)"
  by (simp add: set_ng2c_prof_def and_not_mask_0 field_put_def ng2c_prof_mask_in_place_def)

lemma age_take: "take_bit age_bits (age m) = age m"
  by (simp add: age_def take_bit_eq_mask [symmetric])

lemma age_small: "age m \<le> mask age_bits"
  unfolding age_def by (rule word_and_le1)

lemma incr_age_eq:
  "incr_age m = Inr (if age m = mask age_bits then m else field_put age_shift age_bits (age m + 1) m)"
proof (cases "age m = mask age_bits")
  case False
  then have "unat (age m) < 15"
    using age_small [of m] by (simp add: mark_layout mask_eq_exp_minus_1 word_le_nat_alt word_unat_eq_iff)
  then have "unat (age m + 1) < 16" by (simp add: unat_word_ariths)
  then have "take_bit age_bits (age m + 1) = age m + 1"
    by (simp add: word_unat_eq_iff unsigned_take_bit_eq take_bit_nat_eq_self mark_layout)
  with False show ?thesis by (simp add: incr_age_def set_age_eq)
qed (simp add: incr_age_def)

lemma marked_value_mask: "marked_value = mask 2"
  by (simp add: marked_value_def mask_eq_exp_minus_1)

lemma bit_biased_pattern: "bit biased_lock_pattern n \<longleftrightarrow> n = 0 \<or> n = 2"
  unfolding biased_lock_pattern_def
  by (cases n; cases "n - 1"; cases "n - 2") (auto simp: bit_numeral_rec bit_1_iff)

section \<open>Properties\<close>

text \<open>C29. The profile tag of an object survives everything a young collection does to the header:
  ageing, marking and unmarking; and tagging a header changes neither its age nor its lock and
  bias bits.\<close>

theorem prof_tag_kept:
  assumes "take_bit ng2c_prof_bits v = v" and "v \<noteq> 0"
  shows "\<exists>m'. set_ng2c_prof v m = Inr m' \<and> ng2c_prof m' = v \<and> age m' = age m
    \<and> m' AND biased_lock_mask_in_place = m AND biased_lock_mask_in_place
    \<and> (\<exists>a. incr_age m' = Inr a \<and> ng2c_prof a = v \<and> age a = min (mask age_bits) (age m + 1))
    \<and> ng2c_prof (set_marked m') = v \<and> ng2c_prof (set_unmarked m') = v"
proof -
  let ?m = "field_put ng2c_prof_shift ng2c_prof_bits v m"
  have prof: "ng2c_prof ?m = v" using prof_f.get_put assms(1) by simp
  have ag: "age ?m = age m"
    using prof_f.put_other [of age_shift age_bits v m] by (simp add: age_def mark_layout)
  have low: "?m AND biased_lock_mask_in_place = m AND biased_lock_mask_in_place"
    using prof_f.put_low [of "lock_bits + 1" v m] by (simp add: biased_lock_mask_in_place_def mark_layout)
  have keep: "ng2c_prof (field_put age_shift age_bits x ?m) = v" for x
    using age_f.put_other [of ng2c_prof_shift ng2c_prof_bits x ?m] prof by (simp add: ng2c_prof_def mark_layout)
  have lk: "ng2c_prof (set_marked x) = ng2c_prof x \<and> ng2c_prof (set_unmarked x) = ng2c_prof x" for x
    by (auto simp: ng2c_prof_def set_marked_def set_unmarked_def mark_values mark_masks mark_layout bit_simps
        intro!: bit_word_eqI)
  have nxt: "age (field_put age_shift age_bits (age m + 1) ?m) = age m + 1 \<and> min (mask age_bits) (age m + 1) = age m + 1"
    if "age m \<noteq> mask age_bits"
  proof -
    have u: "unat (age m) < 15"
      using that age_small [of m] by (simp add: mark_layout mask_eq_exp_minus_1 word_le_nat_alt word_unat_eq_iff)
    then have u1: "unat (age m + 1) = unat (age m) + 1" by (simp add: unat_word_ariths)
    have "take_bit age_bits (age m + 1) = age m + 1"
      using u u1 by (simp add: word_unat_eq_iff unsigned_take_bit_eq take_bit_nat_eq_self mark_layout)
    moreover have "age m + 1 \<le> mask age_bits"
      using u u1 by (simp add: mark_layout mask_eq_exp_minus_1 word_le_nat_alt)
    ultimately show ?thesis by (simp add: age_f.get_put min_def)
  qed
  have top: "min (mask age_bits) (mask age_bits + 1 :: mark) = mask age_bits"
    by (simp add: mark_layout mask_eq_exp_minus_1)
  show ?thesis
    using prof ag low keep lk nxt top by (auto simp: set_ng2c_prof_eq [OF assms(2,1)] incr_age_eq)
qed

theorem prof_tag_kept_witness:
  "\<exists>m'. set_ng2c_prof 0x10005 mark_prototype = Inr m' \<and> ng2c_prof m' = 0x10005"
  using prof_tag_kept [of "0x10005" mark_prototype]
  by (auto simp: mark_layout take_bit_eq_mask mask_eq_exp_minus_1)

text \<open>C30. The identity hash and the profile tag overlap: installing a hash overwrites the low
  seven bits of the tag (of its context half) with the top seven bits of the hash, and keeps
  the other bits of the tag.\<close>

theorem hash_overwrites_tag:
  "ng2c_prof (copy_set_hash h m) = (ng2c_prof m AND NOT (mask 7)) OR (drop_bit 24 h AND mask 7)"
  by (rule bit_word_eqI) (auto simp: prof_f.get_bit hash_f.put_bit bit_simps mark_layout dest: bit_imp_le_length)

text \<open>C31. A forwarding pointer survives the header: an address with clear low bits, encoded as a
  mark, reads as marked and decodes to itself, with biased locking on or off.\<close>

theorem forwarding_roundtrip:
  assumes "p AND lock_mask_in_place = 0"
  shows "is_marked (encode_pointer_as_mark p) \<and> decode_pointer b (encode_pointer_as_mark p) = p"
proof -
  have low: "\<not> bit p 0" "\<not> bit p 1"
  proof -
    have "bit (p AND lock_mask_in_place) n = False" for n using assms by simp
    from this [of 0] this [of 1] show "\<not> bit p 0" "\<not> bit p 1" by (simp_all add: mark_masks mark_layout bit_simps)
  qed
  have m: "bit (encode_pointer_as_mark p) n = (if n < 2 then True else bit p n)" for n
    by (cases "n < 2")
       (auto simp: encode_pointer_as_mark_def set_marked_def marked_value_mask mark_masks mark_layout bit_simps
         dest: bit_imp_le_length)
  have "bit (encode_pointer_as_mark p AND lock_mask_in_place) n = bit marked_value n" for n
    using m [of n] by (auto simp: mark_masks mark_layout marked_value_mask bit_simps)
  then have "encode_pointer_as_mark p AND lock_mask_in_place = marked_value" by (intro bit_word_eqI) blast
  moreover have "\<not> has_bias_pattern (encode_pointer_as_mark p)"
  proof
    assume "has_bias_pattern (encode_pointer_as_mark p)"
    then have "bit (encode_pointer_as_mark p AND biased_lock_mask_in_place) 1 = bit (5 :: mark) 1"
      by (simp add: has_bias_pattern_def mark_values)
    then show False using m [of 1] by (simp add: mark_masks mark_layout bit_simps bit_numeral_rec)
  qed
  moreover have "clear_lock_bits (encode_pointer_as_mark p) = p"
    by (rule bit_word_eqI)
       (use low in \<open>auto simp: clear_lock_bits_def m mark_masks mark_layout bit_simps less_2_cases_iff\<close>)
  ultimately show ?thesis by (simp add: is_marked_def decode_pointer_def)
qed

theorem forwarding_roundtrip_witness: "decode_pointer True (encode_pointer_as_mark 0x7f0010) = 0x7f0010"
  using forwarding_roundtrip [of "0x7f0010" True] by (simp add: mark_masks mark_layout mask_eq_exp_minus_1)

text \<open>A biased header carries its three parts: an aligned thread address, an age of at most
  15 and an epoch of at most 3 are encoded without a failing assertion and read back.\<close>

theorem biased_roundtrip:
  assumes "take_bit 10 thread = 0" and "a \<le> mask age_bits" and "e \<le> mask epoch_bits"
  shows "\<exists>m. encode_biased thread a e = Inr m \<and> has_bias_pattern m \<and> biased_locker m = Inr thread
    \<and> age m = a \<and> bias_epoch m = Inr e"
proof -
  have t: "\<not> bit thread n" if "n < 10" for n
    using that arg_cong [OF assms(1), of "\<lambda>w. bit w n"] by (simp add: bit_take_bit_iff)
  have "unat a < 16" "unat e < 4"
    using assms(2,3) by (simp_all add: word_le_nat_alt mark_layout mask_eq_exp_minus_1)
  then have "take_bit 4 a = a" "take_bit 2 e = e"
    by (simp_all add: word_unat_eq_iff unsigned_take_bit_eq take_bit_nat_eq_self)
  then have ab: "bit a n \<Longrightarrow> n < 4" "bit e n \<Longrightarrow> n < 2" for n
    by (metis bit_take_bit_iff)+
  define M where "M = (thread OR push_bit epoch_shift e OR push_bit age_shift a OR biased_lock_pattern)"
  have m: "bit M n = (if n < 3 then n \<noteq> 1 else if n < 7 then bit a (n - 3) else if n = 7 then False
      else if n < 10 then bit e (n - 8) else bit thread n)" for n
    using t [of n] ab(1) [of "n - 3"] ab(2) [of "n - 8"]
    by (auto simp: M_def mark_layout bit_biased_pattern bit_simps dest: bit_imp_le_length)
  have run: "encode_biased thread a e = Inr M"
  proof -
    have "thread AND (epoch_mask_in_place OR age_mask_in_place OR biased_lock_mask_in_place) = 0"
      using t by (intro bit_word_eqI) (auto simp: mark_masks mark_layout bit_simps)
    with assms(2,3) show ?thesis by (simp add: encode_biased_def M_def)
  qed
  have pat: "has_bias_pattern M"
    unfolding has_bias_pattern_def
    by (rule bit_word_eqI) (auto simp: m mark_masks mark_layout bit_biased_pattern bit_simps less_Suc_eq eval_nat_numeral)
  have "biased_locker M = Inr thread"
    using pat t by (auto simp: biased_locker_def m mark_masks mark_layout bit_simps split: if_splits intro!: bit_word_eqI)
  moreover have "age M = a"
    using ab(1) by (auto simp: age_def m mark_layout bit_simps intro!: bit_word_eqI)
  moreover have "bias_epoch M = Inr e"
    using pat by (auto simp: bias_epoch_def m mark_masks mark_layout bit_simps dest: ab(2) intro!: bit_word_eqI)
  ultimately show ?thesis using run pat by blast
qed

theorem biased_roundtrip_witness:
  "\<exists>m. encode_biased 0x7f001000 5 2 = Inr m \<and> biased_locker m = Inr 0x7f001000 \<and> age m = 5 \<and> bias_epoch m = Inr 2"
  using biased_roundtrip [of "0x7f001000" 5 2]
  by (auto simp: mark_layout mask_eq_exp_minus_1 take_bit_eq_mask)

text \<open>C32. Tagging a header that is biased to no thread makes it read as biased to a thread: the
  tag occupies bits of the thread address.\<close>

theorem tag_breaks_anonymous_bias:
  assumes "v \<noteq> 0" and "take_bit ng2c_prof_bits v = v" and "has_bias_pattern m"
  shows "\<exists>m'. set_ng2c_prof v m = Inr m' \<and> has_bias_pattern m' \<and> \<not> is_biased_anonymously m'"
proof -
  let ?m = "field_put ng2c_prof_shift ng2c_prof_bits v m"
  have pat: "has_bias_pattern ?m"
    using prof_f.put_low [of "lock_bits + 1" v m] assms(3)
    by (simp add: has_bias_pattern_def biased_lock_mask_in_place_def mark_layout)
  obtain n where n: "bit v n" using assms(1) by (metis bit_eq_iff bit_0_eq bot_apply bot_bool_def)
  then have "n < 32" using assms(2) by (metis bit_take_bit_iff ng2c_prof_bits_def)
  then have "bit (?m AND NOT (biased_lock_mask_in_place OR age_mask_in_place OR epoch_mask_in_place)) (n + 32)"
    using n by (simp add: bit_field_put mark_masks mark_layout bit_simps)
  then have "biased_locker ?m \<noteq> Inr 0" using pat by (auto simp: biased_locker_def)
  then show ?thesis using pat by (simp add: set_ng2c_prof_eq [OF assms(1,2)] is_biased_anonymously_def)
qed

theorem tag_breaks_anonymous_bias_witness:
  "is_biased_anonymously biased_locking_prototype \<and>
   (\<exists>m'. set_ng2c_prof 0x10000 biased_locking_prototype = Inr m' \<and> \<not> is_biased_anonymously m')"
  using tag_breaks_anonymous_bias [of "0x10000" biased_locking_prototype]
  by (auto simp: is_biased_anonymously_def biased_locker_def has_bias_pattern_def biased_locking_prototype_def
      mark_masks mark_layout mark_values mask_eq_exp_minus_1 take_bit_eq_mask)

end
