(* ===== verification/Object_Layout.thy ===== *)
theory Object_Layout
  imports Alloc_Kinds Mark_Word
begin

text \<open>
  The layout of objects as far as allocation and heap parsing see it (oops/arrayOop.hpp,
  oops/oop.inline.hpp), the setup of a new object and the filler objects
  (gc_interface/collectedHeap.hpp, collectedHeap.inline.hpp, collectedHeap.cpp).  The build is
  the 64-bit one with the default object alignment of one heap word.  The memory of the model
  holds, per address, the header that was last written there: mark word, class and array
  length.  A range is \<open>tiled\<close> when walking the object sizes leads from its start exactly to
  its end; the fillers tile what they fill.
\<close>

section \<open>Sizes\<close>

definition MinObjAlignment :: nat where "MinObjAlignment = 1"
definition HeapWordsPerLong :: nat where "HeapWordsPerLong = 1"
definition max_jint :: nat where "max_jint = 2 ^ 31 - 1"
definition header_size :: nat where "header_size = 2"

definition align_size_up :: "nat \<Rightarrow> nat \<Rightarrow> nat" where
  "align_size_up sz alignment = (sz + (alignment - 1)) div alignment * alignment"

definition align_size_down :: "nat \<Rightarrow> nat \<Rightarrow> nat" where
  "align_size_down sz alignment = sz div alignment * alignment"

definition align_object_size :: "nat \<Rightarrow> nat" where
  "align_object_size sz = align_size_up sz MinObjAlignment"

definition align_object_offset :: "nat \<Rightarrow> nat" where
  "align_object_offset offset = align_size_up offset HeapWordsPerLong"

section \<open>Classes, objects and flags\<close>

datatype klass_layout = Instance_Layout nat | Array_Layout nat nat

record klass =
  kl_id :: nat
  kl_prototype_header :: mark
  kl_layout_helper :: klass_layout

record klass_handle =
  kh_value :: "klass option"
  kh_alloc_gen :: int
  kh_as_hash :: uint

record obj =
  ob_mark :: mark
  ob_klass :: "klass option"
  ob_length :: nat

record vm_flags =
  UseTLAB :: bool
  ZeroTLAB :: bool
  ResizeTLAB :: bool
  UseBiasedLocking :: bool
  UseCompressedClassPointers :: bool
  TLABSize :: nat
  MinTLABSize :: nat
  TLABRefillWasteFraction :: nat
  TLABWasteIncrement :: nat
  TLABWasteTargetPercent :: nat
  TLABAllocationWeight :: uint
  reserve_for_allocation_prefetch :: nat
  is_fully_initialized :: bool
  intArrayKlassObj :: klass
  Object_klass :: klass

definition KlassHandle :: "klass option \<Rightarrow> klass_handle" where
  "KlassHandle k = \<lparr>kh_value = k, kh_alloc_gen = 0, kh_as_hash = 0\<rparr>"

definition length_offset_in_bytes :: "vm_flags \<Rightarrow> nat" where
  "length_offset_in_bytes fl = (if UseCompressedClassPointers fl then 12 else 16)"

definition array_header_size_in_bytes :: "vm_flags \<Rightarrow> nat" where
  "array_header_size_in_bytes fl = align_size_up (length_offset_in_bytes fl + 4) HeapWordSize"

definition int_array_header_size :: "vm_flags \<Rightarrow> nat" where
  "int_array_header_size fl = array_header_size_in_bytes fl div HeapWordSize"

definition max_int_array_length :: "vm_flags \<Rightarrow> nat" where
  "max_int_array_length fl = align_size_down (max_jint - int_array_header_size fl) MinObjAlignment"

text \<open>The size of the object with the given header, for the two layouts whose helper tells it:
  positive without the slow path bit, and negative.  The classes whose size takes the virtual
  call \<^verbatim>\<open>klass->oop_size(this)\<close> (the slow path bit, or a neutral helper) are not among the
  model's, and the cross-check of an array's size by that call is left out.\<close>

definition oop_size :: "obj \<Rightarrow> nat res" where
  "oop_size ob =
     rbind (deref (ob_klass ob) ''klass'') (\<lambda>k.
       let s = (case kl_layout_helper k of
                  Instance_Layout bytes \<Rightarrow> bytes div 2 ^ LogHeapWordSize
                | Array_Layout hdr_bytes log2_esize \<Rightarrow>
                    align_size_up (ob_length ob * 2 ^ log2_esize + hdr_bytes) (MinObjAlignment * HeapWordSize) div HeapWordSize)
       in vassert (s mod MinObjAlignment = 0) ''alignment check''
            (vassert (0 < s) ''Bad size calculated'' (Inr s)))"

section \<open>Memory\<close>

record alloc_state =
  as_heap :: g1_heap
  as_mem :: "nat \<Rightarrow> obj"
  as_reserved :: "nat \<times> nat"

definition is_in_reserved :: "nat \<Rightarrow> 'a alloc_state_scheme \<Rightarrow> bool" where
  "is_in_reserved p s = (fst (as_reserved s) \<le> p \<and> p < snd (as_reserved s))"

definition set_mark :: "mark \<Rightarrow> nat \<Rightarrow> 'a alloc_state_scheme \<Rightarrow> 'a alloc_state_scheme" where
  "set_mark m p s = s\<lparr>as_mem := (as_mem s)(p := (as_mem s p)\<lparr>ob_mark := m\<rparr>)\<rparr>"

definition set_klass :: "klass option \<Rightarrow> nat \<Rightarrow> 'a alloc_state_scheme \<Rightarrow> 'a alloc_state_scheme" where
  "set_klass k p s = s\<lparr>as_mem := (as_mem s)(p := (as_mem s p)\<lparr>ob_klass := k\<rparr>)\<rparr>"

definition set_length :: "nat \<Rightarrow> nat \<Rightarrow> 'a alloc_state_scheme \<Rightarrow> 'a alloc_state_scheme" where
  "set_length len p s = s\<lparr>as_mem := (as_mem s)(p := (as_mem s p)\<lparr>ob_length := len\<rparr>)\<rparr>"

section \<open>Setting up an object\<close>

definition post_allocation_setup_no_klass_install ::
    "vm_flags \<Rightarrow> klass_handle \<Rightarrow> nat \<Rightarrow> 'a alloc_state_scheme \<Rightarrow> 'a alloc_state_scheme res" where
  "post_allocation_setup_no_klass_install fl kh p s =
     vassert (p \<noteq> 0) ''NULL object pointer''
       (case (if UseBiasedLocking fl then kh_value kh else None) of
          Some k \<Rightarrow> rbind (set_ng2c_prof (ucast (kh_as_hash kh)) (kl_prototype_header k)) (\<lambda>m. Inr (set_mark m p s))
        | None \<Rightarrow> rbind (set_ng2c_prof (ucast (kh_as_hash kh)) mark_prototype) (\<lambda>m. Inr (set_mark m p s)))"

definition post_allocation_install_obj_klass ::
    "vm_flags \<Rightarrow> klass_handle \<Rightarrow> nat \<Rightarrow> 'a alloc_state_scheme \<Rightarrow> 'a alloc_state_scheme res" where
  "post_allocation_install_obj_klass fl kh p s =
     vassert (kh_value kh \<noteq> None \<or> \<not> is_fully_initialized fl) ''NULL klass''
    (vassert (p \<noteq> 0) ''NULL object pointer''
      (let s1 = set_klass (kh_value kh) p s
       in vassert (\<not> is_fully_initialized fl \<or> ob_klass (as_mem s1 p) \<noteq> None) ''missing klass'' (Inr s1)))"

definition post_allocation_setup_common ::
    "vm_flags \<Rightarrow> klass_handle \<Rightarrow> nat \<Rightarrow> 'a alloc_state_scheme \<Rightarrow> 'a alloc_state_scheme res" where
  "post_allocation_setup_common fl kh p s =
     rbind (post_allocation_setup_no_klass_install fl kh p s) (post_allocation_install_obj_klass fl kh p)"

definition is_array :: "obj \<Rightarrow> bool res" where
  "is_array ob =
     rbind (deref (ob_klass ob) ''klass'') (\<lambda>k. Inr (case kl_layout_helper k of Array_Layout _ _ \<Rightarrow> True | _ \<Rightarrow> False))"

definition post_allocation_setup_obj ::
    "vm_flags \<Rightarrow> klass_handle \<Rightarrow> nat \<Rightarrow> 'a alloc_state_scheme \<Rightarrow> 'a alloc_state_scheme res" where
  "post_allocation_setup_obj fl kh p s =
     rbind (post_allocation_setup_common fl kh p s) (\<lambda>s1.
       if \<not> is_fully_initialized fl then Inr s1
       else rbind (is_array (as_mem s1 p)) (\<lambda>b. vassert (\<not> b) ''must not be an array'' (Inr s1)))"

definition post_allocation_setup_array ::
    "vm_flags \<Rightarrow> klass_handle \<Rightarrow> nat \<Rightarrow> int \<Rightarrow> 'a alloc_state_scheme \<Rightarrow> 'a alloc_state_scheme res" where
  "post_allocation_setup_array fl kh p len s =
     vassert (0 \<le> len) ''length should be non-negative''
       (rbind (post_allocation_setup_common fl kh p (set_length (nat len) p s)) (\<lambda>s1.
          rbind (is_array (as_mem s1 p)) (\<lambda>b. vassert b ''must be an array'' (Inr s1))))"

section \<open>Fillers\<close>

definition filler_array_hdr_size :: "vm_flags \<Rightarrow> nat" where
  "filler_array_hdr_size fl = align_object_offset (int_array_header_size fl)"

definition filler_array_min_size :: "vm_flags \<Rightarrow> nat" where
  "filler_array_min_size fl = align_object_size (filler_array_hdr_size fl)"

definition filler_array_max_size :: "vm_flags \<Rightarrow> nat" where
  "filler_array_max_size fl = align_object_size (filler_array_hdr_size fl + max_int_array_length fl div (HeapWordSize div 4))"

definition fill_args_check :: "nat \<Rightarrow> nat \<Rightarrow> 'a alloc_state_scheme \<Rightarrow> 'b res \<Rightarrow> 'b res" where
  "fill_args_check start words s k =
     vassert (min_fill_size \<le> words) ''too small to fill''
    (vassert (words mod MinObjAlignment = 0) ''unaligned size''
    (vassert (is_in_reserved start s) ''not in heap''
    (vassert (is_in_reserved (start + words - 1) s) ''not in heap'' k)))"

definition fill_with_array :: "vm_flags \<Rightarrow> nat \<Rightarrow> nat \<Rightarrow> 'a alloc_state_scheme \<Rightarrow> 'a alloc_state_scheme res" where
  "fill_with_array fl start words s =
     vassert (filler_array_min_size fl \<le> words) ''too small for an array''
    (vassert (words \<le> filler_array_max_size fl) ''too big for a single object''
      (let payload_size = words - filler_array_hdr_size fl;
           len = payload_size * HeapWordSize div 4
       in vassert (len mod 2 ^ 32 < 2 ^ 31) ''size too large''
            (post_allocation_setup_common fl (KlassHandle (Some (intArrayKlassObj fl))) start (set_length (len mod 2 ^ 32) start s))))"

definition fill_with_object_impl :: "vm_flags \<Rightarrow> nat \<Rightarrow> nat \<Rightarrow> 'a alloc_state_scheme \<Rightarrow> 'a alloc_state_scheme res" where
  "fill_with_object_impl fl start words s =
     vassert (words \<le> filler_array_max_size fl) ''too big for a single object''
       (if filler_array_min_size fl \<le> words then fill_with_array fl start words s
        else if 0 < words
        then vassert (words = min_fill_size) ''unaligned size''
               (post_allocation_setup_common fl (KlassHandle (Some (Object_klass fl))) start s)
        else Inr s)"

definition fill_with_object :: "vm_flags \<Rightarrow> nat \<Rightarrow> nat \<Rightarrow> 'a alloc_state_scheme \<Rightarrow> 'a alloc_state_scheme res" where
  "fill_with_object fl start words s = fill_args_check start words s (fill_with_object_impl fl start words s)"

lemma filler_sizes:
  "filler_array_hdr_size fl = (if UseCompressedClassPointers fl then 2 else 3)"
  "filler_array_min_size fl = filler_array_hdr_size fl"
  "filler_array_max_size fl = (if UseCompressedClassPointers fl then 1073741824 else 1073741825)"
  by (simp_all add: filler_array_hdr_size_def filler_array_min_size_def filler_array_max_size_def align_object_offset_def
      align_object_size_def align_size_up_def align_size_down_def int_array_header_size_def array_header_size_in_bytes_def
      length_offset_in_bytes_def max_int_array_length_def max_jint_def HeapWordSize_def MinObjAlignment_def HeapWordsPerLong_def)

function fill_arrays :: "vm_flags \<Rightarrow> nat \<Rightarrow> nat \<Rightarrow> 'a alloc_state_scheme \<Rightarrow> (nat \<times> nat \<times> 'a alloc_state_scheme) res" where
  "fill_arrays fl start words s =
     (if filler_array_max_size fl < words
      then let cur = (if min_fill_size \<le> words - filler_array_max_size fl then filler_array_max_size fl
                      else filler_array_max_size fl - min_fill_size)
           in rbind (fill_with_array fl start cur s) (fill_arrays fl (start + cur) (words - cur))
      else Inr (start, words, s))"
  by pat_completeness auto
termination
  by (relation "measure (\<lambda>(fl, start, words, s). words)") (auto simp: filler_sizes min_fill_size_def split: if_splits)

declare fill_arrays.simps [simp del]

definition fill_with_objects :: "vm_flags \<Rightarrow> nat \<Rightarrow> nat \<Rightarrow> 'a alloc_state_scheme \<Rightarrow> 'a alloc_state_scheme res" where
  "fill_with_objects fl start words s =
     fill_args_check start words s
       (rbind (fill_arrays fl start words s) (\<lambda>(start', words', s'). fill_with_object_impl fl start' words' s'))"

section \<open>Parsable ranges\<close>

inductive tiled :: "(nat \<Rightarrow> obj) \<Rightarrow> nat \<Rightarrow> nat \<Rightarrow> bool" for m where
  empty: "tiled m a a"
| object: "oop_size (m a) = Inr sz \<Longrightarrow> 0 < sz \<Longrightarrow> tiled m (a + sz) b \<Longrightarrow> tiled m a b"

inductive_cases tiledE: "tiled m a b"

lemma tiled_le: "tiled m a b \<Longrightarrow> a \<le> b"
  by (induction rule: tiled.induct) auto

lemma tiled_frame:
  assumes "tiled m a b" and "\<And>p. a \<le> p \<Longrightarrow> p < b \<Longrightarrow> m' p = m p"
  shows "tiled m' a b"
  using assms
proof (induction rule: tiled.induct)
  case (object a sz b)
  have "a + sz \<le> b" using tiled_le [OF object.hyps(3)] .
  then show ?case using object by (intro tiled.object [of m' a sz]) auto
qed (rule tiled.empty)

lemma tiled_trans: "tiled m a b \<Longrightarrow> tiled m b c \<Longrightarrow> tiled m a c"
  by (induction rule: tiled.induct) (auto intro: tiled.object)

lemma tiled_single: "oop_size (m a) = Inr sz \<Longrightarrow> 0 < sz \<Longrightarrow> tiled m a (a + sz)"
  by (auto intro: tiled.intros)

lemma tiled_snoc: "tiled m a b \<Longrightarrow> oop_size (m b) = Inr sz \<Longrightarrow> 0 < sz \<Longrightarrow> tiled m a (b + sz)"
  by (rule tiled_trans [OF _ tiled_single])

text \<open>The classes of the fillers have the layout the fillers assume.\<close>

definition flags_ok :: "vm_flags \<Rightarrow> bool" where
  "flags_ok fl \<longleftrightarrow>
     kl_layout_helper (intArrayKlassObj fl) = Array_Layout (int_array_header_size fl * HeapWordSize) 2 \<and>
     kl_layout_helper (Object_klass fl) = Instance_Layout (header_size * HeapWordSize)"

text \<open>Writing one object header.\<close>

definition put_obj :: "nat \<Rightarrow> obj \<Rightarrow> 'a alloc_state_scheme \<Rightarrow> 'a alloc_state_scheme" where
  "put_obj p ob s = s\<lparr>as_mem := (as_mem s)(p := ob)\<rparr>"

lemma put_obj_simps [simp]:
  "as_mem (put_obj p ob s) = (as_mem s)(p := ob)" "as_heap (put_obj p ob s) = as_heap s"
  "as_reserved (put_obj p ob s) = as_reserved s" "put_obj p ob2 (put_obj p ob s) = put_obj p ob2 s"
  "is_in_reserved q (put_obj p ob s) = is_in_reserved q s" "alloc_state.more (put_obj p ob s) = alloc_state.more s"
  by (simp_all add: put_obj_def is_in_reserved_def)

lemma write_put [simp]:
  "set_mark m p s = put_obj p ((as_mem s p)\<lparr>ob_mark := m\<rparr>) s"
  "set_klass k p s = put_obj p ((as_mem s p)\<lparr>ob_klass := k\<rparr>) s"
  "set_length n p s = put_obj p ((as_mem s p)\<lparr>ob_length := n\<rparr>) s"
  by (simp_all add: set_mark_def set_klass_def set_length_def put_obj_def)

text \<open>The mark word a new object gets.\<close>

definition new_mark :: "vm_flags \<Rightarrow> klass_handle \<Rightarrow> mark \<Rightarrow> bool" where
  "new_mark fl kh m \<longleftrightarrow>
     set_ng2c_prof (ucast (kh_as_hash kh))
       (case (if UseBiasedLocking fl then kh_value kh else None) of Some k \<Rightarrow> kl_prototype_header k | None \<Rightarrow> mark_prototype) = Inr m"

lemma new_mark_ex: "\<exists>m. new_mark fl kh m"
proof -
  have "ucast (kh_as_hash kh) AND NOT (mask ng2c_prof_bits :: mark) = 0"
    by (rule bit_word_eqI) (auto simp: bit_simps ng2c_prof_bits_def dest: bit_imp_le_length)
  then show ?thesis by (auto simp: new_mark_def set_ng2c_prof_def)
qed

lemma new_mark_tag:
  assumes "new_mark fl kh m" and "kh_as_hash kh \<noteq> 0"
  shows "ng2c_prof m = ucast (kh_as_hash kh)"
proof -
  have t: "take_bit ng2c_prof_bits (ucast (kh_as_hash kh) :: mark) = ucast (kh_as_hash kh)"
    by (rule bit_word_eqI) (auto simp: bit_simps ng2c_prof_bits_def dest: bit_imp_le_length)
  have "(ucast (ucast (kh_as_hash kh) :: mark) :: uint) = kh_as_hash kh"
    by (rule bit_word_eqI) (simp add: bit_simps)
  then have "(ucast (kh_as_hash kh) :: mark) \<noteq> 0" using assms(2) by (metis unsigned_0)
  from set_ng2c_prof_eq [OF this t] show ?thesis using assms(1) prof_f.get_put t by (auto simp: new_mark_def)
qed

lemma setup_common:
  assumes "p \<noteq> 0" and "kh_value kh = Some k"
  shows "\<exists>m. new_mark fl kh m \<and> post_allocation_setup_common fl kh p s = Inr (put_obj p \<lparr>ob_mark = m, ob_klass = Some k, ob_length = ob_length (as_mem s p)\<rparr> s)"
proof -
  obtain m where m: "new_mark fl kh m" using new_mark_ex by blast
  then have "post_allocation_setup_no_klass_install fl kh p s = Inr (put_obj p ((as_mem s p)\<lparr>ob_mark := m\<rparr>) s)"
    using assms by (cases "UseBiasedLocking fl") (simp_all add: post_allocation_setup_no_klass_install_def new_mark_def)
  then have "post_allocation_setup_common fl kh p s = Inr (put_obj p ((as_mem s p)\<lparr>ob_mark := m, ob_klass := Some k\<rparr>) s)"
    using assms by (simp add: post_allocation_setup_common_def post_allocation_install_obj_klass_def Let_def)
  moreover have "(as_mem s p)\<lparr>ob_mark := m, ob_klass := Some k\<rparr> = \<lparr>ob_mark = m, ob_klass = Some k, ob_length = ob_length (as_mem s p)\<rparr>" by simp
  ultimately show ?thesis using m by metis
qed

section \<open>Fillers tile\<close>

text \<open>The states agree outside the memory from \<open>a\<close> to \<open>b\<close>.\<close>

definition same_outside :: "nat \<Rightarrow> nat \<Rightarrow> 'a alloc_state_scheme \<Rightarrow> 'a alloc_state_scheme \<Rightarrow> bool" where
  "same_outside a b s s' \<longleftrightarrow> (\<exists>m. s' = s\<lparr>as_mem := m\<rparr> \<and> (\<forall>p. p < a \<or> b \<le> p \<longrightarrow> m p = as_mem s p))"

lemma same_outside_facts:
  assumes "same_outside a b s s'"
  shows "as_heap s' = as_heap s" "as_reserved s' = as_reserved s" "alloc_state.more s' = alloc_state.more s"
    "p < a \<or> b \<le> p \<Longrightarrow> as_mem s' p = as_mem s p" "s' = s\<lparr>as_mem := as_mem s'\<rparr>"
  using assms by (auto simp: same_outside_def)

lemma same_outside_refl: "same_outside a b s s"
  unfolding same_outside_def by (intro exI [of _ "as_mem s"]) simp

lemma same_outside_put: "a \<le> p \<Longrightarrow> p < b \<Longrightarrow> same_outside a b s (put_obj p ob s)"
  unfolding same_outside_def put_obj_def by (intro exI [of _ "(as_mem s)(p := ob)"]) simp

lemma same_outside_trans:
  assumes "same_outside a b s s'" and "same_outside c d s' s''" and "a \<le> b" "b \<le> c" "c \<le> d"
  shows "same_outside a d s s''"
proof -
  obtain m where m: "s' = s\<lparr>as_mem := m\<rparr>" "\<forall>p. p < a \<or> b \<le> p \<longrightarrow> m p = as_mem s p" using assms(1) by (auto simp: same_outside_def)
  obtain m2 where m2: "s'' = s'\<lparr>as_mem := m2\<rparr>" "\<forall>p. p < c \<or> d \<le> p \<longrightarrow> m2 p = as_mem s' p" using assms(2) by (auto simp: same_outside_def)
  have "s'' = s\<lparr>as_mem := m2\<rparr>" using m(1) m2(1) by simp
  then show ?thesis unfolding same_outside_def using m m2 assms(3-5) by (intro exI [of _ m2]) auto
qed

lemma fill_with_array_tiles:
  assumes "flags_ok fl" and "start \<noteq> 0" and "filler_array_min_size fl \<le> words" "words \<le> filler_array_max_size fl"
  shows "\<exists>s'. fill_with_array fl start words s = Inr s' \<and> tiled (as_mem s') start (start + words) \<and> same_outside start (start + words) s s'"
proof -
  let ?hdr = "filler_array_hdr_size fl" and ?k = "intArrayKlassObj fl"
  define len where "len = (words - ?hdr) * HeapWordSize div 4"
  have len: "len = (words - ?hdr) * 2" by (simp add: len_def HeapWordSize_def)
  have round: "?hdr \<le> words \<Longrightarrow> (8 * (words - ?hdr) + ?hdr * 8 + 7) div 8 = words" by simp
  have b: "len < 2 ^ 31" "?hdr \<le> words" "0 < words" using assms(3,4) by (auto simp: len filler_sizes split: if_splits)
  obtain m where m: "post_allocation_setup_common fl (KlassHandle (Some ?k)) start (set_length len start s) =
      Inr (put_obj start \<lparr>ob_mark = m, ob_klass = Some ?k, ob_length = len\<rparr> s)"
    using setup_common [of start "KlassHandle (Some ?k)" ?k fl "set_length len start s"] assms(2) by (auto simp: KlassHandle_def)
  have "fill_with_array fl start words s = Inr (put_obj start \<lparr>ob_mark = m, ob_klass = Some ?k, ob_length = len\<rparr> s)"
    using assms(3,4) b m unfolding fill_with_array_def len_def [symmetric] Let_def by (simp del: write_put)
  moreover have "int_array_header_size fl = ?hdr" by (simp add: filler_array_hdr_size_def align_object_offset_def align_size_up_def HeapWordsPerLong_def)
  then have "oop_size \<lparr>ob_mark = m, ob_klass = Some ?k, ob_length = len\<rparr> = Inr words"
    using assms(1) b(3) round [OF b(2)] by (simp add: oop_size_def Let_def flags_ok_def len align_size_up_def MinObjAlignment_def HeapWordSize_def)
  ultimately show ?thesis using b(3) tiled_single [of "(as_mem s)(start := \<lparr>ob_mark = m, ob_klass = Some ?k, ob_length = len\<rparr>)" start words]
    by (auto intro: same_outside_put)
qed

lemma fill_impl_tiles:
  assumes "flags_ok fl" and "start \<noteq> 0" and "min_fill_size \<le> words" "words \<le> filler_array_max_size fl"
  shows "\<exists>s'. fill_with_object_impl fl start words s = Inr s' \<and> tiled (as_mem s') start (start + words) \<and> same_outside start (start + words) s s'"
proof (cases "filler_array_min_size fl \<le> words")
  case True
  then show ?thesis using fill_with_array_tiles [OF assms(1,2) True assms(4), of s] assms(4) by (simp add: fill_with_object_impl_def)
next
  case False
  let ?k = "Object_klass fl"
  have w: "words = 2" using False assms(3) by (simp add: filler_sizes min_fill_size_def split: if_splits)
  obtain m where m: "post_allocation_setup_common fl (KlassHandle (Some ?k)) start s =
      Inr (put_obj start \<lparr>ob_mark = m, ob_klass = Some ?k, ob_length = ob_length (as_mem s start)\<rparr> s)"
    using setup_common [of start "KlassHandle (Some ?k)" ?k fl s] assms(2) by (auto simp: KlassHandle_def)
  let ?o = "\<lparr>ob_mark = m, ob_klass = Some ?k, ob_length = ob_length (as_mem s start)\<rparr>"
  have "fill_with_object_impl fl start words s = Inr (put_obj start ?o s)"
    using m False assms(4) w by (simp add: fill_with_object_impl_def min_fill_size_def)
  moreover have "oop_size ?o = Inr words"
    using assms(1) w by (simp add: oop_size_def Let_def flags_ok_def header_size_def HeapWordSize_def LogHeapWordSize_def MinObjAlignment_def)
  ultimately show ?thesis using w tiled_single [of "(as_mem s)(start := ?o)" start words] by (auto intro: same_outside_put)
qed

lemma fill_arrays_tiles:
  assumes "flags_ok fl" and "start \<noteq> 0" and "min_fill_size \<le> words"
  shows "\<exists>start' words' s'. fill_arrays fl start words s = Inr (start', words', s') \<and> start' + words' = start + words \<and>
    start \<le> start' \<and> min_fill_size \<le> words' \<and> words' \<le> filler_array_max_size fl \<and> tiled (as_mem s') start start' \<and>
    same_outside start start' s s'"
  using assms(2,3)
proof (induction words arbitrary: start s rule: less_induct)
  case (less words)
  show ?case
  proof (cases "filler_array_max_size fl < words")
    case True
    define cur where "cur = (if min_fill_size \<le> words - filler_array_max_size fl then filler_array_max_size fl
        else filler_array_max_size fl - min_fill_size)"
    have c: "filler_array_min_size fl \<le> cur" "cur \<le> filler_array_max_size fl" "cur < words" "min_fill_size \<le> words - cur" "0 < cur"
      using True by (auto simp: cur_def filler_sizes min_fill_size_def split: if_splits)
    obtain s1 where s1: "fill_with_array fl start cur s = Inr s1" "tiled (as_mem s1) start (start + cur)" "same_outside start (start + cur) s s1"
      using fill_with_array_tiles [OF assms(1) less.prems(1) c(1,2)] by blast
    have "words - cur < words" "start + cur \<noteq> 0" using c by auto
    from less.IH [OF this c(4), of s1] obtain start' words' s' where r: "fill_arrays fl (start + cur) (words - cur) s1 = Inr (start', words', s')"
        "start' + words' = start + cur + (words - cur)" "start + cur \<le> start'" "min_fill_size \<le> words'" "words' \<le> filler_array_max_size fl"
        "tiled (as_mem s') (start + cur) start'" "same_outside (start + cur) start' s1 s'" by blast
    have "fill_arrays fl start words s = Inr (start', words', s')"
      using True s1(1) r(1) by (subst fill_arrays.simps) (simp add: cur_def [symmetric])
    moreover have "tiled (as_mem s') start start'"
      using tiled_trans [OF tiled_frame [OF s1(2)] r(6)] same_outside_facts(4) [OF r(7)] by auto
    moreover have "same_outside start start' s s'" using same_outside_trans [OF s1(3) r(7)] r(3) by simp
    ultimately show ?thesis using r c(3) by (intro exI [of _ start'] exI [of _ words'] exI [of _ s']) auto
  next
    case False
    then have "fill_arrays fl start words s = Inr (start, words, s)" by (subst fill_arrays.simps) simp
    then show ?thesis using False less.prems by (auto intro: tiled.empty same_outside_refl)
  qed
qed

section \<open>An example\<close>

definition sample_flags :: vm_flags where
  "sample_flags =
     \<lparr>UseTLAB = True, ZeroTLAB = False, ResizeTLAB = True, UseBiasedLocking = True, UseCompressedClassPointers = True,
      TLABSize = 0, MinTLABSize = 128, TLABRefillWasteFraction = 64, TLABWasteIncrement = 4, TLABWasteTargetPercent = 1,
      TLABAllocationWeight = 35, reserve_for_allocation_prefetch = 0, is_fully_initialized = True,
      intArrayKlassObj = \<lparr>kl_id = 0, kl_prototype_header = mark_prototype, kl_layout_helper = Array_Layout 16 2\<rparr>,
      Object_klass = \<lparr>kl_id = 1, kl_prototype_header = biased_locking_prototype, kl_layout_helper = Instance_Layout 16\<rparr>\<rparr>"

definition sample_alloc_state :: alloc_state where
  "sample_alloc_state = \<lparr>as_heap = sample_heap, as_mem = (\<lambda>p. \<lparr>ob_mark = 0, ob_klass = None, ob_length = 0\<rparr>), as_reserved = (64, 1000)\<rparr>"

lemma sample_flags_ok: "flags_ok sample_flags"
  by (simp add: flags_ok_def sample_flags_def int_array_header_size_def array_header_size_in_bytes_def length_offset_in_bytes_def
      align_size_up_def HeapWordSize_def header_size_def)

section \<open>Properties\<close>

text \<open>C21. A filler makes the space it is given parsable, whatever its size: the loop over arrays ends, no
  assertion fails, walking the object sizes leads from the start exactly to the end, and nothing
  outside is written.  One object is enough up to the size of the largest array.\<close>

theorem fillers_tile:
  assumes "flags_ok fl" and "start \<noteq> 0" and "min_fill_size \<le> words" and "is_in_reserved start s" "is_in_reserved (start + words - 1) s"
  shows "(\<exists>s'. fill_with_objects fl start words s = Inr s' \<and> tiled (as_mem s') start (start + words) \<and>
      same_outside start (start + words) s s') \<and>
    (words \<le> filler_array_max_size fl \<longrightarrow>
      (\<exists>s'. fill_with_object fl start words s = Inr s' \<and> tiled (as_mem s') start (start + words) \<and>
        same_outside start (start + words) s s'))"
proof -
  obtain start' words' s1 where r: "fill_arrays fl start words s = Inr (start', words', s1)" "start' + words' = start + words"
      "start \<le> start'" "min_fill_size \<le> words'" "words' \<le> filler_array_max_size fl" "tiled (as_mem s1) start start'" "same_outside start start' s s1"
    using fill_arrays_tiles [OF assms(1-3)] by blast
  have "start' \<noteq> 0" using r(3) assms(2) by simp
  from fill_impl_tiles [OF assms(1) this r(4,5)] obtain s2 where s2: "fill_with_object_impl fl start' words' s1 = Inr s2"
      "tiled (as_mem s2) start' (start' + words')" "same_outside start' (start' + words') s1 s2" by blast
  have "tiled (as_mem s2) start (start + words)"
    using tiled_trans [OF tiled_frame [OF r(6)] s2(2)] same_outside_facts(4) [OF s2(3)] r(2) by auto
  moreover have "same_outside start (start + words) s s2" using same_outside_trans [OF r(7) s2(3) r(3)] r(2) by simp
  ultimately show ?thesis using r(1) s2(1) fill_impl_tiles [OF assms(1-3), of s] assms(3-5)
    by (simp add: fill_with_objects_def fill_with_object_def fill_args_check_def MinObjAlignment_def)
qed

theorem fillers_tile_witness:
  "\<exists>s'. fill_with_objects sample_flags 64 7 sample_alloc_state = Inr s' \<and> tiled (as_mem s') 64 71"
proof -
  have "is_in_reserved 64 sample_alloc_state" "is_in_reserved (64 + 7 - 1) sample_alloc_state" "min_fill_size \<le> 7"
    by (simp_all add: is_in_reserved_def sample_alloc_state_def min_fill_size_def)
  from fillers_tile [OF sample_flags_ok _ this(3,1,2)] show ?thesis by auto
qed

end
