(* ===== verification/Humongous.thy ===== *)
theory Humongous
  imports Region_Seq Object_Layout
begin

text \<open>
  Objects larger than half a region (\<^verbatim>\<open>G1CollectedHeap::humongous_obj_allocate\<close> and what it calls): the
  search for a run of free regions, its removal from the free list, the setup of the series of
  regions, the expansion of the heap when no run is found, and the release of the
  series.  The reserved space of the heap (\<^verbatim>\<open>_g1_storage\<close>) is its committed end and its upper bound;
  whether the operating system commits memory and whether region objects can be
  allocated is part of the environment.
\<close>

section \<open>State\<close>

record g1_state = alloc_state +
  g1_hrs :: region_seq
  g1_expansion_regions :: nat
  g1_high :: nat
  g1_high_boundary :: nat

record grow_env =
  ge_page_size :: nat
  ge_commit :: "nat \<Rightarrow> bool"
  ge_room :: "nat \<Rightarrow> bool"
  ge_G1ExitOnExpansionFailure :: bool

definition region_at :: "nat \<Rightarrow> 'a g1_state_scheme \<Rightarrow> nat res" where
  "region_at i s = seq_at i (g1_hrs s) (gh_st (as_heap s))"

definition on_region :: "nat \<Rightarrow> (heap_region \<Rightarrow> heap_region res) \<Rightarrow> 'a g1_state_scheme \<Rightarrow> 'a g1_state_scheme res" where
  "on_region i f s =
     rbind (region_at i s) (\<lambda>p. rbind (gh_on p f (as_heap s)) (\<lambda>h. Inr (s\<lparr>as_heap := h\<rparr>)))"

section \<open>Finding the regions\<close>

definition append_secondary_free_list_if_not_empty_with_lock :: "g1_heap \<Rightarrow> g1_heap res" where
  "append_secondary_free_list_if_not_empty_with_lock h =
     (if \<not> set_is_empty (gh_secondary_free_list h)
      then rbind (append_secondary_free_list (set_secondary_lock True h)) (\<lambda>h1. Inr (set_secondary_lock False h1))
      else Inr h)"

text \<open>A concurrent cleanup that is under way finishes before the search goes on.\<close>

definition wait_while_free_regions_coming :: "g1_env \<Rightarrow> g1_heap \<Rightarrow> g1_heap" where
  "wait_while_free_regions_coming env h = fold (\<lambda>step h. step h) (env_cleanup env) h"

definition humongous_obj_allocate_find_first ::
    "g1_env \<Rightarrow> nat \<Rightarrow> nat \<Rightarrow> 'a g1_state_scheme \<Rightarrow> (nat option \<times> 'a g1_state_scheme) res" where
  "humongous_obj_allocate_find_first env num_regions word_size s =
     vassert (g1_isHumongous (gh_grain (as_heap s)) word_size) ''word_size should be humongous''
    (vassert (word_size \<le> num_regions * GrainWords (gh_grain (as_heap s))) ''pre-condition''
      (if num_regions = 1
       then rbind (new_region env word_size False (as_heap s)) (\<lambda>(new, h).
              Inr (map_option (\<lambda>p. hr_index (gh_hr h p)) new, s\<lparr>as_heap := h\<rparr>))
       else rbind (append_secondary_free_list_if_not_empty_with_lock (wait_while_free_regions_coming env (as_heap s))) (\<lambda>h.
              let s1 = s\<lparr>as_heap := h\<rparr>
              in if num_regions \<le> rs_length (gh_free_list h)
                 then rbind (find_contiguous num_regions (g1_hrs s1) (gh_st h)) (\<lambda>(first, sq).
                        let s2 = s1\<lparr>g1_hrs := sq\<rparr>
                        in case first of
                             None \<Rightarrow> Inr (None, s2)
                           | Some f \<Rightarrow>
                               rbind (rfold (\<lambda>i s. on_region i (\<lambda>r.
                                        vassert (hr_is_empty r) ''sanity''
                                       (vassert (hr_containing_set r = Some (rs_id (gh_free_list (as_heap s)))) ''sanity''
                                         (set_pending_removal True r))) s) [f..<f + num_regions] s2) (\<lambda>s3.
                               rbind (remove_all_pending num_regions (gh_free_list (as_heap s3)) (gh_st (as_heap s3))) (\<lambda>(l, st).
                                 Inr (Some f, s3\<lparr>as_heap := (as_heap s3)\<lparr>gh_free_list := l, gh_st := st\<rparr>\<rparr>))))
                 else Inr (None, s1))))"

section \<open>Setting up the series\<close>

definition zero_header :: "nat \<Rightarrow> 'a g1_state_scheme \<Rightarrow> 'a g1_state_scheme" where
  "zero_header p s = s\<lparr>as_mem := (as_mem s)(p := \<lparr>ob_mark = 0, ob_klass = None, ob_length = 0\<rparr>)\<rparr>"

definition set_series_top :: "nat \<Rightarrow> nat \<Rightarrow> nat \<Rightarrow> heap_region \<Rightarrow> heap_region res" where
  "set_series_top last_index new_top i r =
     (if i + 1 = last_index
      then vassert (hr_bottom r < new_top \<and> new_top \<le> hr_end r) ''new_top should fall on this region'' (Inr (r\<lparr>hr_top := new_top\<rparr>))
      else vassert (hr_end r < new_top) ''new_top should be above this region'' (Inr (r\<lparr>hr_top := hr_end r\<rparr>)))"

definition humongous_obj_allocate_initialize_regions ::
    "nat \<Rightarrow> nat \<Rightarrow> nat \<Rightarrow> 'a g1_state_scheme \<Rightarrow> (nat \<times> 'a g1_state_scheme) res" where
  "humongous_obj_allocate_initialize_regions first num_regions word_size s =
     vassert (g1_isHumongous (gh_grain (as_heap s)) word_size) ''word_size should be humongous''
    (vassert (word_size \<le> num_regions * GrainWords (gh_grain (as_heap s))) ''pre-condition''
      (let last = first + num_regions;
           word_size_sum = num_regions * GrainWords (gh_grain (as_heap s))
       in rbind (region_at first s) (\<lambda>p.
          let new_obj = hr_bottom (gh_hr (as_heap s) p);
              new_end = new_obj + word_size_sum;
              new_top = new_obj + word_size
          in rbind (on_region first (set_startsHumongous new_top new_end) (zero_header new_obj s)) (\<lambda>s1.
             rbind (rfold (\<lambda>i s. on_region i (set_continuesHumongous (gh_hr (as_heap s) p)) s) [first + 1..<last] s1) (\<lambda>s2.
             rbind (if first + 1 < last
                    then rbind (region_at (last - 1) s2) (\<lambda>q. vassert (hr_end (gh_hr (as_heap s2) q) = new_end) ''sanity'' (Inr ()))
                    else Inr ()) (\<lambda>_.
             rbind (on_region first (\<lambda>r. vassert (hr_bottom r < new_top \<and> new_top \<le> hr_end r) ''new_top should be in this region''
                      (Inr (r\<lparr>hr_top := new_top\<rparr>))) s2) (\<lambda>s3.
             rbind (rfold (\<lambda>i. on_region i (set_series_top last new_top i)) [first + 1..<last] s3) (\<lambda>s4.
             rbind (if first + 1 < last
                    then rbind (region_at (last - 1) s4) (\<lambda>q.
                           vassert (hr_end (gh_hr (as_heap s4) q) = new_end \<and> hr_top (gh_hr (as_heap s4) q) = new_top) ''sanity'' (Inr ()))
                    else Inr ()) (\<lambda>_.
               let h = as_heap s4
               in vassert (used (gh_hr h p) = word_size * HeapWordSize) ''invariant''
                    (let h1 = h\<lparr>gh_summary_bytes_used := gh_summary_bytes_used h + used (gh_hr h p)\<rparr>
                     in rbind (set_add p (gh_humongous_set h1) (gh_st h1)) (\<lambda>(hs, st).
                          Inr (new_obj, s4\<lparr>as_heap := h1\<lparr>gh_humongous_set := hs, gh_st := st\<rparr>\<rparr>))))))))))))"

section \<open>Expanding the heap\<close>

definition uncommitted_size :: "'a g1_state_scheme \<Rightarrow> nat" where
  "uncommitted_size s = (g1_high_boundary s - g1_high s) * HeapWordSize"

text \<open>
  The sizes of the card table, of the block offset table and of the hot card cache follow the
  committed space; the model has only the committed space.
\<close>

definition update_committed_space :: "nat \<Rightarrow> nat \<Rightarrow> 'a g1_state_scheme \<Rightarrow> 'a g1_state_scheme res" where
  "update_committed_space old_end new_end s =
     vassert (old_end \<noteq> new_end) ''don't call this otherwise''
    (vassert (g1_high s = new_end) ''invariant'' (Inr s))"

text \<open>\<open>list_id\<close> identifies the local list of the new regions.\<close>

definition g1_expand :: "grow_env \<Rightarrow> nat \<Rightarrow> nat \<Rightarrow> 'a g1_state_scheme \<Rightarrow> (bool \<times> 'a g1_state_scheme) res" where
  "g1_expand ge list_id expand_bytes s =
     (let h = as_heap s;
          aligned_expand_bytes = align_size_up (align_size_up expand_bytes (ge_page_size ge)) (GrainBytes (gh_grain h))
      in if uncommitted_size s = 0 then Inr (False, s)
         else if aligned_expand_bytes \<le> uncommitted_size s \<and> ge_commit ge aligned_expand_bytes
         then (let old_end = g1_high s;
                   new_end = g1_high s + aligned_expand_bytes div HeapWordSize
               in rbind (update_committed_space old_end new_end (s\<lparr>g1_high := new_end\<rparr>)) (\<lambda>s1.
                  rbind (expand_by (ge_room ge) (as_reserved s) (gh_gc_time_stamp h) old_end new_end (g1_hrs s1)
                           (HeapRegionLinkedList list_id FreeRegionList) (gh_st h)) (\<lambda>((mr_start, mr_end), sq, l, st).
                  vassert (mr_start = old_end) ''post-condition''
                 (vassert (mr_end \<le> new_end) ''post-condition''
                   (let actual_expand_bytes = (mr_end - mr_start) * HeapWordSize
                    in vassert (actual_expand_bytes \<le> aligned_expand_bytes) ''post-condition''
                      (vassert (actual_expand_bytes = total_capacity_bytes (st_grain st) l) ''post-condition''
                        (rbind (if actual_expand_bytes < aligned_expand_bytes
                                then vassert (mr_end < new_end) ''invariant''
                                       (update_committed_space new_end mr_end
                                          (s1\<lparr>g1_high := new_end - (aligned_expand_bytes - actual_expand_bytes) div HeapWordSize\<rparr>))
                                else Inr s1) (\<lambda>s2.
                         rbind (add_list_as_tail l (gh_free_list h) st) (\<lambda>(l', fl, st').
                           Inr (True, s2\<lparr>g1_hrs := sq, as_heap := h\<lparr>gh_free_list := fl, gh_st := st'\<rparr>\<rparr>))))))))))
         else if ge_G1ExitOnExpansionFailure ge \<and> aligned_expand_bytes \<le> uncommitted_size s
         then Inl (Out_Of_Memory ''G1 heap expansion'')
         else Inr (False, s))"

section \<open>Allocation\<close>

definition humongous_obj_allocate ::
    "g1_env \<Rightarrow> grow_env \<Rightarrow> nat \<Rightarrow> nat \<Rightarrow> 'a g1_state_scheme \<Rightarrow> (nat option \<times> 'a g1_state_scheme) res" where
  "humongous_obj_allocate env ge list_id word_size s =
     vassert (Heap_lock (gh_mt (as_heap s)) \<or> is_at_safepoint (gh_mt (as_heap s)) \<and> is_VM_thread (gh_mt (as_heap s))) ''should be VM thread''
      (let word_size_rounded = align_size_up word_size (GrainWords (gh_grain (as_heap s)));
           num_regions = word_size_rounded div GrainWords (gh_grain (as_heap s));
           x_num = g1_expansion_regions s
       in rbind (free_suffix (g1_hrs s) (gh_st (as_heap s))) (\<lambda>fs.
          rbind (humongous_obj_allocate_find_first env num_regions word_size s) (\<lambda>(first, s1).
          rbind (if first = None \<and> num_regions \<le> fs + x_num
                 then vassert (fs < num_regions) ''earlier allocation should have succeeded''
                        (rbind (g1_expand ge list_id ((num_regions - fs) * GrainBytes (gh_grain (as_heap s1))) s1) (\<lambda>(ok, s2).
                           if ok then humongous_obj_allocate_find_first env num_regions word_size s2 else Inr (first, s2)))
                 else Inr (first, s1)) (\<lambda>(first', s3).
            case first' of
              None \<Rightarrow> Inr (None, s3)
            | Some f \<Rightarrow> rbind (humongous_obj_allocate_initialize_regions f num_regions word_size s3) (\<lambda>(obj, s4). Inr (Some obj, s4))))))"

section \<open>Releasing regions\<close>

text \<open>The result has the bytes that were in use.\<close>

definition free_region :: "nat \<Rightarrow> bool \<Rightarrow> nat \<Rightarrow> region_list \<Rightarrow> g1_heap \<Rightarrow> (nat \<times> region_list \<times> g1_heap) res" where
  "free_region p par pre_used l h =
     vassert (\<not> isHumongous (gh_hr h p)) ''this is only for non-humongous regions''
    (vassert (\<not> hr_is_empty (gh_hr h p)) ''the region should not be empty''
      (rbind (gh_on p (hr_clear (gh_gc_time_stamp h) par True) h) (\<lambda>h1.
       rbind (add_as_head p l (gh_st h1)) (\<lambda>(l1, st).
         Inr (pre_used + used (gh_hr h p), l1, h1\<lparr>gh_st := st\<rparr>)))))"

text \<open>\<open>proxy\<close> collects the humongous regions that are taken from the set.\<close>

definition free_humongous_region ::
    "nat \<Rightarrow> bool \<Rightarrow> nat \<Rightarrow> region_list \<Rightarrow> region_set \<Rightarrow> 'a g1_state_scheme
     \<Rightarrow> (nat \<times> region_list \<times> region_set \<times> 'a g1_state_scheme) res" where
  "free_humongous_region p par pre_used l proxy s =
     (let h = as_heap s; g = gh_grain h
      in vassert (startsHumongous (gh_hr h p)) ''this is only for starts humongous regions''
          (let hr_used = used (gh_hr h p)
           in rbind (remove_with_proxy p proxy (gh_humongous_set h) (gh_st h)) (\<lambda>(proxy1, st).
              let h1 = h\<lparr>gh_st := st\<rparr>
              in rbind (last_hc_index g (gh_hr h1 p)) (\<lambda>last_index.
                 rbind (gh_on p (set_notHumongous g) h1) (\<lambda>h2.
                 rbind (free_region p par 0 l h2) (\<lambda>(n, l1, h3).
                 rbind (rfold (\<lambda>i (n, l, s).
                          rbind (region_at i s) (\<lambda>q.
                            vassert (hr_humongous_type (gh_hr (as_heap s) q) = ContinuesHumongous) ''invariant''
                             (rbind (gh_on q (set_notHumongous g) (as_heap s)) (\<lambda>h4.
                              rbind (free_region q par n l h4) (\<lambda>(n1, l1, h5). Inr (n1, l1, s\<lparr>as_heap := h5\<rparr>))))))
                         [hr_index (gh_hr h3 p) + 1..<last_index] (n, l1, s\<lparr>as_heap := h3\<rparr>)) (\<lambda>(hr_pre_used, l2, s2).
                   vassert (hr_pre_used = hr_used) ''hr_pre_used and hr_used should be the same''
                     (Inr (pre_used + hr_pre_used, l2, proxy1, s2)))))))))"

end
