(* ===== verification/Float32.thy ===== *)
theory Float32
  imports Complex_Main Rolp_Prelude
begin

text \<open>
  The single precision arithmetic the promotion analysis uses (\<^verbatim>\<open>float\<close> and \<^verbatim>\<open>double\<close>
  of the language, on a target that evaluates each operation in its own type).  A finite
  value is the rational it denotes; an operation rounds its exact result to 24 significant
  bits, ties to even.  The exponent range is not bounded: the analysis divides and subtracts
  counts below \<open>2 ^ 64\<close>, and neither the quotients nor their differences leave the normal
  range of single precision.  The sign of a zero is not kept, as no comparison observes it.
\<close>

datatype fl = NaN | PInf | NInf | Fin rat

fun bit_length :: "nat \<Rightarrow> nat" where
  "bit_length n = (if n = 0 then 0 else Suc (bit_length (n div 2)))"

declare bit_length.simps [simp del]

definition pow2 :: "int \<Rightarrow> rat" where
  "pow2 k = (if 0 \<le> k then 2 ^ nat k else 1 / 2 ^ nat (- k))"

text \<open>The exponent of the leading bit of a positive rational.\<close>

definition lead_exp :: "rat \<Rightarrow> int" where
  "lead_exp q =
     (case quotient_of q of (n, d) \<Rightarrow>
        let k = int (bit_length (nat n)) - int (bit_length (nat d))
        in if pow2 k \<le> q then k else k - 1)"

definition round_half_even :: "rat \<Rightarrow> int" where
  "round_half_even q =
     (let f = \<lfloor>q\<rfloor>; r = q - of_int f
      in if r < 1 / 2 then f else if 1 / 2 < r then f + 1 else if even f then f else f + 1)"

definition round_bits :: "nat \<Rightarrow> rat \<Rightarrow> rat" where
  "round_bits p q =
     (if q = 0 then 0
      else let scale = pow2 (lead_exp \<bar>q\<bar> - int p + 1);
               m = of_int (round_half_even (\<bar>q\<bar> / scale)) * scale
           in if q < 0 then - m else m)"

definition flt :: "rat \<Rightarrow> fl" where
  "flt q = Fin (round_bits 24 q)"

definition fl_of_ulong :: "ngen_t \<Rightarrow> fl" where
  "fl_of_ulong w = flt (of_nat (unat w))"

fun fl_div :: "fl \<Rightarrow> fl \<Rightarrow> fl" where
  "fl_div (Fin a) (Fin b) =
     (if b = 0 then (if a = 0 then NaN else if 0 < a then PInf else NInf) else flt (a / b))"
| "fl_div (Fin a) PInf = Fin 0"
| "fl_div (Fin a) NInf = Fin 0"
| "fl_div PInf (Fin b) = (if 0 \<le> b then PInf else NInf)"
| "fl_div NInf (Fin b) = (if 0 \<le> b then NInf else PInf)"
| "fl_div _ _ = NaN"

fun fl_sub :: "fl \<Rightarrow> fl \<Rightarrow> fl" where
  "fl_sub (Fin a) (Fin b) = flt (a - b)"
| "fl_sub (Fin a) PInf = NInf"
| "fl_sub (Fin a) NInf = PInf"
| "fl_sub PInf (Fin b) = PInf"
| "fl_sub NInf (Fin b) = NInf"
| "fl_sub PInf NInf = PInf"
| "fl_sub NInf PInf = NInf"
| "fl_sub _ _ = NaN"

text \<open>Comparisons: every ordered comparison with a NaN is false, and \<^verbatim>\<open>!=\<close> is true.\<close>

fun fl_less :: "fl \<Rightarrow> fl \<Rightarrow> bool" where
  "fl_less (Fin a) (Fin b) = (a < b)"
| "fl_less (Fin a) PInf = True"
| "fl_less NInf (Fin b) = True"
| "fl_less NInf PInf = True"
| "fl_less _ _ = False"

fun fl_nonzero :: "fl \<Rightarrow> bool" where
  "fl_nonzero (Fin a) = (a \<noteq> 0)"
| "fl_nonzero _ = True"

fun fl_is_fin :: "fl \<Rightarrow> bool" where
  "fl_is_fin (Fin a) = True"
| "fl_is_fin _ = False"

text \<open>The double constant \<^verbatim>\<open>-0.1\<close>, the double nearest to minus one tenth.\<close>

definition minus_tenth :: fl where
  "minus_tenth = Fin (- (3602879701896397 / 36028797018963968))"

section \<open>Lemmas\<close>

lemma pow2_pos [simp]: "0 < pow2 k" and pow2_nonzero [simp]: "pow2 k \<noteq> 0"
  by (simp_all add: pow2_def)

lemma round_bits_0 [simp]: "round_bits p 0 = 0"
  by (simp add: round_bits_def)

lemma round_half_even_nonneg: "0 \<le> q \<Longrightarrow> 0 \<le> round_half_even q"
  by (auto simp: round_half_even_def Let_def)

lemma round_bits_sign:
  "0 \<le> q \<Longrightarrow> 0 \<le> round_bits p q" "q \<le> 0 \<Longrightarrow> round_bits p q \<le> 0"
  by (auto simp: round_bits_def Let_def less_imp_le [OF pow2_pos] divide_le_0_iff
      intro!: mult_nonneg_nonneg round_half_even_nonneg)

lemma round_half_even_error: "\<bar>of_int (round_half_even q) - q\<bar> \<le> 1 / 2"
  unfolding round_half_even_def Let_def
  using of_int_floor_le [of q] floor_correct [of q] by (auto simp: abs_le_iff)

lemma fl_ops_fin [simp]:
  "fl_is_fin (flt q)" "fl_is_fin (fl_of_ulong w)"
  "fl_is_fin a \<Longrightarrow> fl_is_fin b \<Longrightarrow> fl_is_fin (fl_sub a b)"
  by (auto simp: flt_def fl_of_ulong_def elim!: fl_is_fin.elims)

lemma bit_length_bounds: "0 < n \<Longrightarrow> 2 ^ (bit_length n - 1) \<le> n \<and> n < 2 ^ bit_length n \<and> 0 < bit_length n"
proof (induction n rule: bit_length.induct)
  case (1 n)
  show ?case
  proof (cases "n div 2 = 0")
    case True
    then have "n = 1" using "1.prems" by auto
    then show ?thesis by (simp add: bit_length.simps)
  next
    case False
    have IH: "2 ^ (bit_length (n div 2) - 1) \<le> n div 2" "n div 2 < 2 ^ bit_length (n div 2)" "0 < bit_length (n div 2)"
      using "1.IH" "1.prems" False by auto
    have "bit_length n = Suc (bit_length (n div 2))" using "1.prems" by (subst bit_length.simps) simp
    moreover have p: "(2 :: nat) ^ bit_length (n div 2) = 2 * 2 ^ (bit_length (n div 2) - 1)"
      using IH(3) by (metis Suc_diff_1 power_Suc)
    moreover have "2 * 2 ^ (bit_length (n div 2) - 1) \<le> n" using IH(1) by linarith
    moreover have "n < 2 * (2 * 2 ^ (bit_length (n div 2) - 1))" using IH(2) unfolding p by linarith
    ultimately show ?thesis by simp
  qed
qed

lemma pow2_diff: "pow2 (int a - int b) = 2 ^ a / 2 ^ b"
proof (cases "b \<le> a")
  case True
  then have "nat (int a - int b) = a - b" by simp
  then show ?thesis using True by (simp add: pow2_def power_diff)
next
  case False
  then have "nat (- (int a - int b)) = b - a" by simp
  then show ?thesis using False by (simp add: pow2_def power_diff)
qed

lemma lead_exp_le:
  assumes "0 < q"
  shows "pow2 (lead_exp q) \<le> q"
proof -
  obtain n d where nd: "quotient_of q = (n, d)" by fastforce
  have d: "0 < d" using quotient_of_denom_pos [OF nd] .
  have q: "q = of_int n / of_int d" using quotient_of_div [OF nd] .
  have n: "0 < n" using assms d by (simp add: q zero_less_divide_iff)
  let ?a = "bit_length (nat n)" and ?b = "bit_length (nat d)"
  have A: "2 ^ (?a - 1) \<le> nat n" "0 < ?a" and B: "nat d < 2 ^ ?b"
    using bit_length_bounds [of "nat n"] bit_length_bounds [of "nat d"] n d by auto
  have "(2 :: rat) ^ (?a - 1) \<le> of_nat (nat n)" using A(1) by (metis of_nat_le_iff of_nat_numeral of_nat_power)
  moreover have "(of_nat (nat d) :: rat) \<le> 2 ^ ?b" using B by (metis less_imp_le of_nat_le_iff of_nat_numeral of_nat_power)
  ultimately have "(2 :: rat) ^ (?a - 1) / 2 ^ ?b \<le> of_int n / of_int d"
    using n d by (intro frac_le) auto
  moreover have "pow2 (int ?a - int ?b - 1) = 2 ^ (?a - 1) / 2 ^ ?b"
    using A(2) pow2_diff [of "?a - 1" "?b"] by (simp add: of_nat_diff algebra_simps)
  ultimately show ?thesis using q nd by (auto simp: lead_exp_def Let_def)
qed

lemma pow2_mono: "a \<le> b \<Longrightarrow> pow2 a \<le> pow2 b"
proof -
  assume ab: "a \<le> b"
  obtain x y :: nat where xy: "a = int x - int y" by (rule int_diff_cases)
  then have "b = int (x + nat (b - a)) - int y" using ab by simp
  then show ?thesis unfolding xy pow2_diff
    by (metis divide_right_mono le_add1 one_le_numeral pow2_diff power_increasing zero_le_numeral zero_le_power)
qed

lemma round_bits_pos:
  assumes "0 < q" "1 \<le> p"
  shows "0 < round_bits p q"
proof -
  let ?s = "pow2 (lead_exp q - int p + 1)"
  have "?s \<le> pow2 (lead_exp q)" using assms(2) by (intro pow2_mono) simp
  then have "1 \<le> q / ?s" using lead_exp_le [OF assms(1)] by (simp add: pos_le_divide_eq)
  then have "1 \<le> \<lfloor>q / ?s\<rfloor>" by (simp only: le_floor_iff of_int_1)
  moreover have "\<lfloor>q / ?s\<rfloor> \<le> round_half_even (q / ?s)" by (simp add: round_half_even_def Let_def)
  ultimately have "0 < round_half_even (q / ?s)" by linarith
  then show ?thesis using assms(1) by (simp add: round_bits_def Let_def)
qed

lemma fl_of_ulong_pos: "w \<noteq> 0 \<Longrightarrow> \<exists>q > 0. fl_of_ulong w = Fin q"
proof -
  assume "w \<noteq> 0"
  then have "0 < (of_nat (unat w) :: rat)" by (simp only: of_nat_0_less_iff unat_gt_0 not_False_eq_True)
  then show ?thesis unfolding fl_of_ulong_def flt_def by (blast intro: round_bits_pos [of _ 24, simplified])
qed

lemma fl_div_fin: "w \<noteq> 0 \<Longrightarrow> fl_is_fin (fl_div (fl_of_ulong v) (fl_of_ulong w))"
proof -
  assume "w \<noteq> 0"
  then obtain q where "0 < q" "fl_of_ulong w = Fin q" using fl_of_ulong_pos by blast
  moreover obtain r where "fl_of_ulong v = Fin r" by (simp add: fl_of_ulong_def flt_def)
  ultimately show ?thesis by (simp add: flt_def)
qed

section \<open>Accuracy\<close>

lemma pow2_shift: "pow2 (k - int p + 1) = pow2 k * 2 / 2 ^ p"
proof -
  obtain x y :: nat where xy: "k = int x - int y" by (rule int_diff_cases)
  then have "k - int p + 1 = int (x + 1) - int (y + p)" by simp
  then show ?thesis unfolding xy by (simp only: pow2_diff) (simp add: power_add)
qed

lemma round_bits_uminus: "round_bits p (- q) = - round_bits p q"
  by (auto simp: round_bits_def Let_def)

text \<open>Rounding to \<open>p\<close> bits keeps a value within one part in \<open>2 ^ p\<close>.\<close>

lemma round_bits_error: "\<bar>round_bits p q - q\<bar> \<le> \<bar>q\<bar> / 2 ^ p"
proof -
  have pos: "\<bar>round_bits p x - x\<bar> \<le> x / 2 ^ p" if x: "0 < x" for x :: rat
  proof -
    let ?s = "pow2 (lead_exp x - int p + 1)"
    have "\<bar>of_int (round_half_even (x / ?s)) - x / ?s\<bar> * ?s \<le> 1 / 2 * ?s"
      by (intro mult_right_mono round_half_even_error) (simp add: less_imp_le)
    moreover have "\<bar>of_int (round_half_even (x / ?s)) - x / ?s\<bar> * ?s
        = \<bar>round_bits p x - x\<bar>"
    proof -
      have "(of_int (round_half_even (x / ?s)) - x / ?s) * ?s = round_bits p x - x"
        using x by (simp add: round_bits_def Let_def left_diff_distrib)
      then show ?thesis by (metis abs_mult abs_of_pos pow2_pos)
    qed
    moreover have "1 / 2 * ?s \<le> x / 2 ^ p"
      using lead_exp_le [OF x] by (simp add: pow2_shift divide_right_mono)
    ultimately show ?thesis by linarith
  qed
  show ?thesis
  proof (cases q "0 :: rat" rule: linorder_cases)
    case less
    then show ?thesis using pos [of "- q"] by (simp add: round_bits_uminus abs_if split: if_splits)
  qed (use pos [of q] in auto)
qed

lemma round_bits_between:
  assumes "0 \<le> q"
  shows "q * (1 - 1 / 2 ^ p) \<le> round_bits p q" "round_bits p q \<le> q * (1 + 1 / 2 ^ p)"
  using round_bits_error [of p q] assms by (simp_all add: algebra_simps abs_le_iff)

text \<open>The quotient of two rounded numbers, rounded: three roundings.\<close>

lemma rounded_quotient_error:
  assumes "0 \<le> x" "0 < y"
  shows "\<bar>round_bits 24 (round_bits 24 x / round_bits 24 y) - x / y\<bar> \<le> x / y / 2 ^ 22"
proof -
  let ?u = "1 / 2 ^ 24 :: rat" and ?a = "round_bits 24 x" and ?b = "round_bits 24 y"
  have a: "x * (1 - ?u) \<le> ?a" "?a \<le> x * (1 + ?u)" and b: "y * (1 - ?u) \<le> ?b" "?b \<le> y * (1 + ?u)"
    using round_bits_between [of x 24] round_bits_between [of y 24] assms by auto
  have b0: "0 < ?b" using assms(2) by (simp add: round_bits_pos)
  have a0: "0 \<le> ?a" using assms(1) by (rule round_bits_sign)
  have xy: "0 \<le> x / y" using assms by simp
  have "?a / ?b \<le> x * (1 + ?u) / (y * (1 - ?u))"
    using a b a0 b0 assms by (intro frac_le) auto
  moreover have "x * (1 - ?u) / (y * (1 + ?u)) \<le> ?a / ?b"
    using a b a0 b0 assms by (intro frac_le) auto
  moreover have "x * (1 + ?u) / (y * (1 - ?u)) = x / y * ((1 + ?u) / (1 - ?u))"
    "x * (1 - ?u) / (y * (1 + ?u)) = x / y * ((1 - ?u) / (1 + ?u))"
    by (simp_all only: times_divide_times_eq)
  ultimately have q: "x / y * ((1 - ?u) / (1 + ?u)) \<le> ?a / ?b" "?a / ?b \<le> x / y * ((1 + ?u) / (1 - ?u))"
    by simp_all
  have r: "?a / ?b * (1 - ?u) \<le> round_bits 24 (?a / ?b)" "round_bits 24 (?a / ?b) \<le> ?a / ?b * (1 + ?u)"
    using round_bits_between [of "?a / ?b" 24] a0 b0 by auto
  have "x / y * ((1 - ?u) / (1 + ?u)) * (1 - ?u) \<le> round_bits 24 (?a / ?b)"
    by (rule order_trans [OF mult_right_mono [OF q(1)] r(1)]) simp
  moreover have "x / y * (1 - 1 / 2 ^ 22) \<le> x / y * ((1 - ?u) / (1 + ?u) * (1 - ?u))"
    by (rule mult_left_mono [OF _ xy]) simp
  moreover have "round_bits 24 (?a / ?b) \<le> x / y * ((1 + ?u) / (1 - ?u)) * (1 + ?u)"
    by (rule order_trans [OF r(2) mult_right_mono [OF q(2)]]) simp
  moreover have "x / y * ((1 + ?u) / (1 - ?u) * (1 + ?u)) \<le> x / y * (1 + 1 / 2 ^ 22)"
    by (rule mult_left_mono [OF _ xy]) simp
  ultimately have "x / y * (1 - 1 / 2 ^ 22) \<le> round_bits 24 (?a / ?b)"
    "round_bits 24 (?a / ?b) \<le> x / y * (1 + 1 / 2 ^ 22)"
    by (simp_all only: mult.assoc)
  then show ?thesis by (simp add: abs_le_iff algebra_simps)
qed

text \<open>The rounded difference of two values known to a part in \<open>2 ^ 22\<close>.\<close>

lemma rounded_difference_error:
  assumes "\<bar>s - r\<bar> \<le> r / 2 ^ 22" "\<bar>s' - r'\<bar> \<le> r' / 2 ^ 22"
  shows "\<bar>round_bits 24 (s - s') - (r - r')\<bar> \<le> (r + r') / 2 ^ 21"
proof -
  have "\<bar>round_bits 24 (s - s') - (s - s')\<bar> \<le> \<bar>s - s'\<bar> / 2 ^ 24" by (rule round_bits_error)
  then show ?thesis using assms by (simp add: abs_if field_simps split: if_splits)
qed

text \<open>The constant of the source is the double nearest to a tenth.\<close>

lemma tenth_double: "round_bits 53 (1 / 10) = 3602879701896397 / 36028797018963968"
  by code_simp

end
