(* ===== verification/Weighted_Average.thy ===== *)
theory Weighted_Average
  imports Float32
begin

text \<open>
  The running averages of the collectors (gc_implementation/shared/gcUtil.hpp, gcUtil.cpp): the
  adaptive weighted average and the two padded averages built on it, in single precision.
  The lemmas show that the division by the sample count is never by zero, not even after the
  counter has wrapped, that the weight passed on is a percentage, and that averages of
  nonnegative samples stay finite and nonnegative.
\<close>

section \<open>Single precision, continued\<close>

fun fl_add :: "fl \<Rightarrow> fl \<Rightarrow> fl" where
  "fl_add (Fin a) (Fin b) = flt (a + b)"
| "fl_add NaN b = NaN"
| "fl_add a NaN = NaN"
| "fl_add PInf NInf = NaN"
| "fl_add NInf PInf = NaN"
| "fl_add PInf b = PInf"
| "fl_add NInf b = NInf"
| "fl_add (Fin a) b = b"

definition fl_of_rat_sign :: "rat \<Rightarrow> fl" where
  "fl_of_rat_sign s = (if 0 < s then PInf else if s < 0 then NInf else NaN)"

fun fl_sign :: "fl \<Rightarrow> rat" where
  "fl_sign (Fin a) = (if 0 < a then 1 else if a < 0 then -1 else 0)"
| "fl_sign PInf = 1"
| "fl_sign NInf = -1"
| "fl_sign NaN = 0"

fun fl_mul :: "fl \<Rightarrow> fl \<Rightarrow> fl" where
  "fl_mul (Fin a) (Fin b) = flt (a * b)"
| "fl_mul a b = fl_of_rat_sign (fl_sign a * fl_sign b)"

fun fl_abs :: "fl \<Rightarrow> fl" where
  "fl_abs (Fin a) = Fin \<bar>a\<bar>"
| "fl_abs NInf = PInf"
| "fl_abs a = a"

definition fl_of_uint :: "uint \<Rightarrow> fl" where
  "fl_of_uint w = flt (of_nat (unat w))"

text \<open>The conversion of a value to an unsigned integer truncates; out of range it is undefined.\<close>

fun fl_trunc :: "fl \<Rightarrow> nat option" where
  "fl_trunc (Fin a) = (if 0 \<le> a then Some (nat \<lfloor>a\<rfloor>) else None)"
| "fl_trunc _ = None"

section \<open>Averages\<close>

definition OLD_THRESHOLD :: uint where
  "OLD_THRESHOLD = 100"

record weighted_average =
  aw_average :: fl
  aw_sample_count :: uint
  aw_weight :: uint
  aw_is_old :: bool
  aw_last_sample :: fl

record padded_average = weighted_average +
  ap_padded_avg :: fl
  ap_deviation :: fl
  ap_padding :: uint

definition AdaptiveWeightedAverage :: "uint \<Rightarrow> fl \<Rightarrow> weighted_average" where
  "AdaptiveWeightedAverage weight avg =
     \<lparr>aw_average = avg, aw_sample_count = 0, aw_weight = weight, aw_is_old = False, aw_last_sample = Fin 0\<rparr>"

definition AdaptivePaddedAverage :: "uint \<Rightarrow> uint \<Rightarrow> padded_average" where
  "AdaptivePaddedAverage weight padding =
     \<lparr>aw_average = Fin 0, aw_sample_count = 0, aw_weight = weight, aw_is_old = False, aw_last_sample = Fin 0,
      ap_padded_avg = Fin 0, ap_deviation = Fin 0, ap_padding = padding\<rparr>"

definition increment_count :: "'a weighted_average_scheme \<Rightarrow> 'a weighted_average_scheme" where
  "increment_count a =
     (let a1 = a\<lparr>aw_sample_count := aw_sample_count a + 1\<rparr>
      in if \<not> aw_is_old a1 \<and> OLD_THRESHOLD < aw_sample_count a1 then a1\<lparr>aw_is_old := True\<rparr> else a1)"

definition exp_avg :: "fl \<Rightarrow> fl \<Rightarrow> uint \<Rightarrow> fl res" where
  "exp_avg avg sample weight =
     vassert (weight \<le> 100) ''weight must be a percent''
       (Inr (fl_add (fl_div (fl_mul (fl_sub (Fin 100) (fl_of_uint weight)) avg) (Fin 100))
                    (fl_div (fl_mul (fl_of_uint weight) sample) (Fin 100))))"

definition compute_adaptive_average :: "fl \<Rightarrow> fl \<Rightarrow> 'a weighted_average_scheme \<Rightarrow> fl res" where
  "compute_adaptive_average new_sample average a =
     rbind (if \<not> aw_is_old a
            then if aw_sample_count a = 0 then Inl (Div_By_Zero ''compute_adaptive_average'')
                 else Inr (OLD_THRESHOLD div aw_sample_count a)
            else Inr 0) (\<lambda>count_weight.
       exp_avg average new_sample (max (aw_weight a) count_weight))"

definition avg_sample :: "fl \<Rightarrow> 'a weighted_average_scheme \<Rightarrow> 'a weighted_average_scheme res" where
  "avg_sample new_sample a =
     (let a1 = increment_count a
      in rbind (compute_adaptive_average new_sample (aw_average a1) a1) (\<lambda>new_avg.
           Inr (a1\<lparr>aw_average := new_avg, aw_last_sample := new_sample\<rparr>)))"

definition padded_sample :: "fl \<Rightarrow> padded_average \<Rightarrow> padded_average res" where
  "padded_sample new_sample a =
     rbind (avg_sample new_sample a) (\<lambda>a1.
       let new_avg = aw_average a1
       in rbind (compute_adaptive_average (fl_abs (fl_sub new_sample new_avg)) (ap_deviation a1) a1) (\<lambda>new_dev.
            Inr (a1\<lparr>ap_deviation := new_dev,
                    ap_padded_avg := fl_add new_avg (fl_mul (fl_of_uint (ap_padding a1)) new_dev),
                    aw_last_sample := new_sample\<rparr>)))"

definition padded_no_zero_sample :: "fl \<Rightarrow> padded_average \<Rightarrow> padded_average res" where
  "padded_no_zero_sample new_sample a =
     rbind (avg_sample new_sample a) (\<lambda>a1.
       let new_avg = aw_average a1
       in rbind (if fl_nonzero new_sample
                 then rbind (compute_adaptive_average (fl_abs (fl_sub new_sample new_avg)) (ap_deviation a1) a1) (\<lambda>new_dev.
                        Inr (a1\<lparr>ap_deviation := new_dev\<rparr>))
                 else Inr a1) (\<lambda>a2.
            Inr (a2\<lparr>ap_padded_avg := fl_add new_avg (fl_mul (fl_of_uint (ap_padding a2)) (ap_deviation a2)),
                    aw_last_sample := new_sample\<rparr>)))"

definition avg_clear :: "'a weighted_average_scheme \<Rightarrow> 'a weighted_average_scheme" where
  "avg_clear a = a\<lparr>aw_average := Fin 0, aw_sample_count := 0, aw_last_sample := Fin 0, aw_is_old := False\<rparr>"

definition padded_clear :: "padded_average \<Rightarrow> padded_average" where
  "padded_clear a = (avg_clear a)\<lparr>ap_padded_avg := Fin 0, ap_deviation := Fin 0\<rparr>"

definition avg_modify :: "size_t \<Rightarrow> uint \<Rightarrow> bool \<Rightarrow> 'a weighted_average_scheme \<Rightarrow> 'a weighted_average_scheme res" where
  "avg_modify avg wt force a =
     vassert force ''Are you sure you want to call this?'' (Inr (a\<lparr>aw_average := fl_of_ulong avg, aw_weight := wt\<rparr>))"

section \<open>Lemmas\<close>

text \<open>A finite value that is not negative.\<close>

fun fl_nonneg :: "fl \<Rightarrow> bool" where
  "fl_nonneg (Fin a) = (0 \<le> a)"
| "fl_nonneg _ = False"

lemma fl_nonneg_iff: "fl_nonneg x \<longleftrightarrow> (\<exists>a. x = Fin a \<and> 0 \<le> a)"
  by (cases x) auto

lemma flt_nonneg: "0 \<le> q \<Longrightarrow> fl_nonneg (flt q)"
  by (simp add: flt_def round_bits_sign)

lemma fl_of_uint_nonneg: "fl_nonneg (fl_of_uint w)"
  unfolding fl_of_uint_def by (rule flt_nonneg) (rule of_nat_0_le_iff)

lemma fl_ops_nonneg:
  assumes "fl_nonneg a" and "fl_nonneg b"
  shows "fl_nonneg (fl_add a b)" "fl_nonneg (fl_mul a b)" "fl_nonneg (fl_div a (Fin 100))" "fl_nonneg (fl_abs (fl_sub a b))"
proof -
  obtain x y where xy: "a = Fin x" "0 \<le> x" "b = Fin y" "0 \<le> y" using assms by (auto simp: fl_nonneg_iff)
  show "fl_nonneg (fl_add a b)" "fl_nonneg (fl_mul a b)" "fl_nonneg (fl_div a (Fin 100))" using xy by (simp_all add: flt_nonneg)
  show "fl_nonneg (fl_abs (fl_sub a b))" using xy by (simp add: flt_def)
qed

text \<open>Integers of at most \<open>p\<close> bits are exact.\<close>

lemma round_half_even_int [simp]: "round_half_even (of_int z) = z"
  by (simp add: round_half_even_def)

lemma round_bits_exact:
  assumes "n < 2 ^ p" shows "round_bits p (of_nat n) = of_nat n"
proof (cases "n = 0")
  case False
  have "pow2 (lead_exp (of_nat n)) \<le> of_nat n" using lead_exp_le [of "of_nat n"] False by simp
  moreover have "(of_nat n :: rat) < 2 ^ p" using assms by (metis of_nat_less_iff of_nat_numeral of_nat_power)
  moreover have "pow2 (int p) = 2 ^ p" by (simp add: pow2_def)
  ultimately have "pow2 (lead_exp (of_nat n)) < pow2 (int p)" by linarith
  then have "lead_exp (of_nat n) < int p" using pow2_mono [of "int p" "lead_exp (of_nat n)"] by linarith
  then obtain k :: nat where k: "lead_exp (of_nat n) - int p + 1 = - int k"
    using that [of "nat (int p - 1 - lead_exp (of_nat n))"] by simp
  have p: "pow2 (- int k) = 1 / 2 ^ k" using pow2_diff [of 0 k] by simp
  have "(of_nat n :: rat) / pow2 (- int k) = of_int (int n * 2 ^ k)" "of_int (int n * 2 ^ k) * pow2 (- int k) = (of_nat n :: rat)"
    by (simp_all add: p)
  then show ?thesis using False by (simp only: round_bits_def Let_def k abs_of_nat round_half_even_int) simp
qed simp

lemma hundred_minus_nonneg:
  assumes "w \<le> 100" shows "fl_nonneg (fl_sub (Fin 100) (fl_of_uint w))"
proof -
  have w: "unat w \<le> 100" using assms by (simp add: word_le_nat_alt)
  then have "round_bits 24 (of_nat (unat w)) = of_nat (unat w)" by (intro round_bits_exact) simp
  moreover have "(of_nat (unat w) :: rat) \<le> of_nat 100" unfolding of_nat_le_iff by (rule w)
  ultimately show ?thesis unfolding fl_of_uint_def flt_def by (simp only: fl_sub.simps) (simp add: flt_nonneg)
qed

text \<open>
  The invariant of an average of nonnegative samples: the weight is a percentage, and the count is at most
  the threshold as long as the average is young.
\<close>

definition avg_inv :: "'a weighted_average_scheme \<Rightarrow> bool" where
  "avg_inv a \<longleftrightarrow> aw_weight a \<le> 100 \<and> fl_nonneg (aw_average a) \<and> (\<not> aw_is_old a \<longrightarrow> aw_sample_count a \<le> OLD_THRESHOLD)"

lemma exp_avg_ok:
  assumes "fl_nonneg avg" "fl_nonneg x" "w \<le> 100"
  shows "\<exists>y. exp_avg avg x w = Inr y \<and> fl_nonneg y"
  using assms fl_ops_nonneg hundred_minus_nonneg [OF assms(3)] fl_of_uint_nonneg [of w] by (simp add: exp_avg_def)

lemma increment_count_inv:
  assumes "avg_inv a"
  shows "avg_inv (increment_count a)" "\<not> aw_is_old (increment_count a) \<longrightarrow> aw_sample_count (increment_count a) \<noteq> 0"
    "aw_average (increment_count a) = aw_average a"
proof -
  have "aw_sample_count a + 1 \<noteq> 0" if "aw_sample_count a \<le> 100"
  proof
    assume "aw_sample_count a + 1 = 0"
    then have "aw_sample_count a = -1" by (simp only: eq_neg_iff_add_eq_0)
    also have "(-1 :: uint) = 4294967295" by simp
    finally have "aw_sample_count a = 4294967295" .
    then show False using that by simp
  qed
  then show "\<not> aw_is_old (increment_count a) \<longrightarrow> aw_sample_count (increment_count a) \<noteq> 0"
    using assms by (auto simp: increment_count_def Let_def avg_inv_def OLD_THRESHOLD_def)
  show "avg_inv (increment_count a)" "aw_average (increment_count a) = aw_average a"
    using assms by (auto simp: increment_count_def Let_def avg_inv_def)
qed

lemma compute_adaptive_ok:
  assumes "avg_inv a" and "\<not> aw_is_old a \<longrightarrow> aw_sample_count a \<noteq> 0" and "fl_nonneg x" "fl_nonneg y"
  shows "\<exists>z. compute_adaptive_average x y a = Inr z \<and> fl_nonneg z"
proof -
  have "OLD_THRESHOLD div c \<le> 100" for c unfolding OLD_THRESHOLD_def by (simp add: word_le_nat_alt unat_div)
  then have "max (aw_weight a) (OLD_THRESHOLD div c) \<le> 100" "max (aw_weight a) 0 \<le> 100" for c
    using assms(1) by (simp_all add: avg_inv_def)
  then show ?thesis using exp_avg_ok [OF assms(4,3)] assms(2) by (auto simp: compute_adaptive_average_def)
qed

lemma avg_sample_ok:
  assumes "avg_inv a" and "fl_nonneg x"
  shows "\<exists>a'. avg_sample x a = Inr a' \<and> avg_inv a' \<and> aw_last_sample a' = x \<and> aw_sample_count a' = aw_sample_count a + 1 \<and>
    (\<not> aw_is_old a' \<longrightarrow> aw_sample_count a' \<noteq> 0)"
proof -
  note i = increment_count_inv [OF assms(1)]
  obtain z where z: "compute_adaptive_average x (aw_average (increment_count a)) (increment_count a) = Inr z" "fl_nonneg z"
    using compute_adaptive_ok [OF i(1,2) assms(2), of "aw_average (increment_count a)"] i by (auto simp: avg_inv_def)
  have "aw_sample_count (increment_count a) = aw_sample_count a + 1" by (simp add: increment_count_def Let_def)
  then show ?thesis using z i by (simp add: avg_sample_def avg_inv_def)
qed

section \<open>Properties\<close>

text \<open>Sampling an average of nonnegative values never divides by zero, even when the counter wraps, and
  never leaves the range of percentages: with a weight of at most 100, the weighted and both padded
  averages accept every nonnegative sample and stay finite and nonnegative.\<close>

theorem averages_stay_defined:
  assumes "avg_inv a" and "fl_nonneg (ap_deviation a)" and "fl_nonneg x"
  shows "(\<exists>a'. avg_sample x a = Inr a' \<and> avg_inv a' \<and> aw_sample_count a' = aw_sample_count a + 1) \<and>
    (\<exists>a'. padded_sample x a = Inr a' \<and> avg_inv a' \<and> fl_nonneg (ap_deviation a') \<and> fl_nonneg (ap_padded_avg a')) \<and>
    (\<exists>a'. padded_no_zero_sample x a = Inr a' \<and> avg_inv a' \<and> fl_nonneg (ap_deviation a') \<and> fl_nonneg (ap_padded_avg a') \<and>
      (x = Fin 0 \<longrightarrow> ap_deviation a' = ap_deviation a))"
proof -
  obtain a' where a': "avg_sample x a = Inr a'" "avg_inv a'" "aw_sample_count a' = aw_sample_count a + 1"
      "\<not> aw_is_old a' \<longrightarrow> aw_sample_count a' \<noteq> 0" using avg_sample_ok [OF assms(1,3)] by blast
  have "ap_deviation (increment_count a) = ap_deviation a" by (simp add: increment_count_def Let_def)
  then have n: "fl_nonneg (aw_average a')" "ap_deviation a' = ap_deviation a"
    using a'(1,2) by (auto simp: avg_inv_def avg_sample_def Let_def res_simps)
  obtain z where z: "compute_adaptive_average (fl_abs (fl_sub x (aw_average a'))) (ap_deviation a') a' = Inr z" "fl_nonneg z"
    using compute_adaptive_ok [OF a'(2,4) fl_ops_nonneg(4) [OF assms(3) n(1)], of "ap_deviation a'"] assms(2) n(2) by auto
  have p: "fl_nonneg (fl_add (aw_average a') (fl_mul (fl_of_uint (ap_padding a')) d))" if "fl_nonneg d" for d
    using fl_ops_nonneg(1) [OF n(1) fl_ops_nonneg(2) [OF fl_of_uint_nonneg that]] .
  have run: "padded_sample x a = Inr (a'\<lparr>ap_deviation := z, ap_padded_avg := fl_add (aw_average a') (fl_mul (fl_of_uint (ap_padding a')) z),
      aw_last_sample := x\<rparr>)"
    "padded_no_zero_sample x a = Inr ((if fl_nonzero x then a'\<lparr>ap_deviation := z\<rparr> else a')
      \<lparr>ap_padded_avg := fl_add (aw_average a') (fl_mul (fl_of_uint (ap_padding a')) (if fl_nonzero x then z else ap_deviation a)),
       aw_last_sample := x\<rparr>)"
    using a'(1) z(1) n(2) by (simp_all add: padded_sample_def padded_no_zero_sample_def Let_def)
  show ?thesis
  proof (intro conjI)
    show "\<exists>a'. avg_sample x a = Inr a' \<and> avg_inv a' \<and> aw_sample_count a' = aw_sample_count a + 1" using a' by blast
  qed (use run a'(2) z(2) n assms(2) p [OF z(2)] p [OF assms(2)] in \<open>simp_all add: avg_inv_def\<close>)
qed

theorem averages_stay_defined_witness:
  "\<exists>a'. padded_sample (Fin (1 / 2)) (AdaptivePaddedAverage 35 3) = Inr a' \<and> fl_nonneg (ap_padded_avg a')"
proof -
  have "avg_inv (AdaptivePaddedAverage 35 3)" "fl_nonneg (ap_deviation (AdaptivePaddedAverage 35 3))" "fl_nonneg (Fin (1 / 2))"
    by (simp_all add: avg_inv_def AdaptivePaddedAverage_def OLD_THRESHOLD_def)
  from averages_stay_defined [OF this] show ?thesis by blast
qed

end
