(* ===== verification/Alt_Hashing.thy ===== *)
theory Alt_Hashing
  imports Rolp_Prelude
begin

unbundle bit_operations_syntax

text \<open>
  \<^verbatim>\<open>AltHashing\<close> (classfile/altHashing.cpp, altHashing.hpp): the three overloads of
  \<^verbatim>\<open>murmur3_32\<close>, over bytes, over UTF-16 code units and over 32-bit integers.  The profiler
  keys every allocation and call site by the byte overload.  The lemmas relate the three
  overloads (the property \<^verbatim>\<open>testEquivalentHashes\<close> samples) and show that the final mix is
  injective, so that two sites collide only when their mixed bodies already do.
\<close>

section \<open>The mixing steps\<close>

text \<open>\<^verbatim>\<open>Integer_rotateLeft\<close>: shift left, or-ed with the logical shift right of the rest.\<close>

definition Integer_rotateLeft :: "jint \<Rightarrow> nat \<Rightarrow> jint" where
  "Integer_rotateLeft i distance = push_bit distance i OR drop_bit (32 - distance) i"

definition mix_k1 :: "jint \<Rightarrow> jint" where
  "mix_k1 k1 = Integer_rotateLeft (k1 * 0xcc9e2d51) 15 * 0x1b873593"

definition mix_h1 :: "jint \<Rightarrow> jint \<Rightarrow> jint" where
  "mix_h1 h1 k1 = Integer_rotateLeft (h1 XOR mix_k1 k1) 13 * 5 + 0xe6546b64"

definition fmix :: "jint \<Rightarrow> jint" where
  "fmix h0 =
     (let h1 = (h0 XOR drop_bit 16 h0) * 0x85ebca6b;
          h2 = (h1 XOR drop_bit 13 h1) * 0xc2b2ae35
      in h2 XOR drop_bit 16 h2)"

section \<open>Bytes\<close>

text \<open>
  A \<^verbatim>\<open>jbyte\<close> is signed; \<^verbatim>\<open>data[i] & 0xff\<close> is its zero extension and
  \<^verbatim>\<open>data[offset + 3] << 24\<close> keeps the low eight bits of the sign extension only, so both
  read the same eight bits.
\<close>

definition block_of_bytes :: "8 word \<Rightarrow> 8 word \<Rightarrow> 8 word \<Rightarrow> 8 word \<Rightarrow> jint" where
  "block_of_bytes b0 b1 b2 b3 =
     (ucast b0 AND 0xff)
       OR push_bit 8 (ucast b1 AND 0xff)
       OR push_bit 16 (ucast b2 AND 0xff)
       OR push_bit 24 (scast b3)"

fun murmur_body_bytes :: "jint \<Rightarrow> 8 word list \<Rightarrow> jint \<times> 8 word list" where
  "murmur_body_bytes h1 (b0 # b1 # b2 # b3 # rest) =
     murmur_body_bytes (mix_h1 h1 (block_of_bytes b0 b1 b2 b3)) rest"
| "murmur_body_bytes h1 tail = (h1, tail)"

definition murmur_tail_k1 :: "8 word list \<Rightarrow> jint" where
  "murmur_tail_k1 tail =
     (let k3 = (if 2 < length tail then push_bit 16 (ucast (tail ! 2) AND 0xff) else 0);
          k2 = (if 1 < length tail then k3 XOR push_bit 8 (ucast (tail ! 1) AND 0xff) else k3)
      in k2 XOR (ucast (tail ! 0) AND 0xff))"

definition murmur3_32_bytes :: "jint \<Rightarrow> 8 word list \<Rightarrow> jint" where
  "murmur3_32_bytes seed data =
     (case murmur_body_bytes seed data of (h1, tail) \<Rightarrow>
        let h2 = (if tail \<noteq> [] then h1 XOR mix_k1 (murmur_tail_k1 tail) else h1)
        in fmix (h2 XOR word_of_nat (length data)))"

section \<open>UTF-16 code units\<close>

definition block_of_chars :: "16 word \<Rightarrow> 16 word \<Rightarrow> jint" where
  "block_of_chars d1 d2 = ucast (d1 AND 0xFFFF) OR push_bit 16 (ucast d2)"

fun murmur_body_chars :: "jint \<Rightarrow> 16 word list \<Rightarrow> jint \<times> 16 word list" where
  "murmur_body_chars h1 (d1 # d2 # rest) = murmur_body_chars (mix_h1 h1 (block_of_chars d1 d2)) rest"
| "murmur_body_chars h1 tail = (h1, tail)"

definition murmur3_32_chars :: "jint \<Rightarrow> 16 word list \<Rightarrow> jint" where
  "murmur3_32_chars seed data =
     (case murmur_body_chars seed data of (h1, tail) \<Rightarrow>
        let h2 = (case tail of [] \<Rightarrow> h1 | d # _ \<Rightarrow> h1 XOR mix_k1 (ucast d))
        in fmix (h2 XOR word_of_nat (length data) * 2))"

section \<open>Integers, the hash used for the seed\<close>

fun murmur_body_ints :: "jint \<Rightarrow> jint list \<Rightarrow> jint" where
  "murmur_body_ints h1 [] = h1"
| "murmur_body_ints h1 (k1 # rest) = murmur_body_ints (mix_h1 h1 k1) rest"

definition murmur3_32_ints :: "jint \<Rightarrow> jint list \<Rightarrow> jint" where
  "murmur3_32_ints seed data =
     fmix (murmur_body_ints seed data XOR word_of_nat (length data) * 4)"


section \<open>Every mixing step is injective\<close>

lemma inj_xor_drop_bit:
  assumes "0 < n"
  shows "inj (\<lambda>x :: 'a::len word. x XOR drop_bit n x)"
proof (rule injI)
  fix x y :: "'a word"
  assume eq: "x XOR drop_bit n x = y XOR drop_bit n y"
  have step: "(bit x i \<noteq> bit x (n + i)) = (bit y i \<noteq> bit y (n + i))" if "i < LENGTH('a)" for i
    using arg_cong [OF eq, of "\<lambda>w. bit w i"] that by (simp add: bit_simps)
  have "bit x i = bit y i" for i
  proof (induction "LENGTH('a) - i" arbitrary: i rule: less_induct)
    case less
    show ?case
    proof (cases "i < LENGTH('a)")
      case True
      with assms have "bit x (n + i) = bit y (n + i)"
        by (intro less) auto
      with step [OF True] show ?thesis by blast
    next
      case False
      then show ?thesis by (simp add: impossible_bit)
    qed
  qed
  then show "x = y" by (simp add: bit_eq_iff)
qed

lemma inj_word_mult:
  assumes "(c :: 'a::len word) * c' = 1"
  shows "inj (\<lambda>x. x * c)"
  by (rule inj_on_inverseI [where g = "\<lambda>y. y * c'"]) (simp add: mult.assoc assms)

lemma bit_Integer_rotateLeft:
  assumes "d < 32" "i < 32"
  shows "bit (Integer_rotateLeft x d) i = bit x (if d \<le> i then i - d else 32 + i - d)"
proof (cases "d \<le> i")
  case True
  have "\<not> bit x (32 - d + i)"
    by (rule impossible_bit) (use True in simp)
  with assms True show ?thesis
    by (simp add: Integer_rotateLeft_def bit_simps)
next
  case False
  with assms have "32 - d + i = 32 + i - d" by simp
  with assms False show ?thesis
    by (simp add: Integer_rotateLeft_def bit_simps)
qed

lemma inj_Integer_rotateLeft:
  assumes "d < 32"
  shows "inj (\<lambda>x. Integer_rotateLeft x d)"
proof (rule injI)
  fix x y assume eq: "Integer_rotateLeft x d = Integer_rotateLeft y d"
  show "x = y"
  proof (rule bit_word_eqI)
    fix k :: nat assume "k < LENGTH(32)"
    then have k: "k < 32" by simp
    let ?i = "if k + d < 32 then k + d else k + d - 32"
    have "bit (Integer_rotateLeft x d) ?i = bit (Integer_rotateLeft y d) ?i"
      by (simp add: eq)
    then show "bit x k = bit y k"
      using k assms by (simp add: bit_Integer_rotateLeft split: if_splits)
  qed
qed

lemma inj_mix_k1: "inj mix_k1"
proof (rule injI)
  fix x y assume eq: "mix_k1 x = mix_k1 y"
  have m1: "inj (\<lambda>x :: jint. x * 0xcc9e2d51)"
    by (rule inj_word_mult [where c' = 3739302833]) simp
  have m2: "inj (\<lambda>x :: jint. x * 0x1b873593)"
    by (rule inj_word_mult [where c' = 1458385051]) simp
  have "Integer_rotateLeft (x * 0xcc9e2d51) 15 = Integer_rotateLeft (y * 0xcc9e2d51) 15"
    by (rule injD [OF m2]) (use eq in \<open>simp only: mix_k1_def\<close>)
  then have "x * 0xcc9e2d51 = y * 0xcc9e2d51"
    by (rule injD [OF inj_Integer_rotateLeft, rotated]) simp
  then show "x = y" by (rule injD [OF m1])
qed

lemma inj_fmix: "inj fmix"
proof -
  have m1: "inj (\<lambda>x :: jint. x * 0x85ebca6b)"
    by (rule inj_word_mult [where c' = 2781581891]) simp
  have m2: "inj (\<lambda>x :: jint. x * 0xc2b2ae35)"
    by (rule inj_word_mult [where c' = 2127672349]) simp
  have eq: "fmix = (\<lambda>x. x XOR drop_bit 16 x) \<circ> (\<lambda>x. x * 0xc2b2ae35) \<circ> (\<lambda>x. x XOR drop_bit 13 x)
          \<circ> (\<lambda>x. x * 0x85ebca6b) \<circ> (\<lambda>x. x XOR drop_bit 16 x)"
    by (rule ext) (simp only: fmix_def Let_def comp_apply)
  show ?thesis
    unfolding eq by (intro inj_compose m1 m2 inj_xor_drop_bit) simp_all
qed

lemma xor_cancel_right: "(a XOR c = b XOR c) = (a = (b :: 'a::len word))"
  by (metis xor.assoc xor_self_eq xor.right_neutral)

lemma xor_cancel_left: "(c XOR a = c XOR b) = (a = (b :: 'a::len word))"
  by (simp add: xor.commute [of c] xor_cancel_right)

lemma inj_mix_h1: "inj (\<lambda>h1. mix_h1 h1 k1)" and inj_mix_h1_block: "inj (mix_h1 h1)"
proof -
  have m: "inj (\<lambda>x :: jint. x * 5)"
    by (rule inj_word_mult [where c' = 3435973837]) simp
  have rot: "Integer_rotateLeft x 13 = Integer_rotateLeft y 13 \<longleftrightarrow> x = y" for x y
    using inj_Integer_rotateLeft [of 13] by (auto dest: injD)
  have xor_eq: "h XOR mix_k1 x = h' XOR mix_k1 y" if "mix_h1 h x = mix_h1 h' y" for h h' x y
    using that by (simp add: mix_h1_def rot inj_eq [OF m])
  show "inj (\<lambda>h1. mix_h1 h1 k1)"
    by (rule injI) (drule xor_eq, simp add: xor_cancel_right)
  show "inj (mix_h1 h1)"
    by (rule injI) (drule xor_eq, simp add: xor_cancel_left inj_eq [OF inj_mix_k1])
qed

lemma murmur_body_ints_inj: "murmur_body_ints h xs = murmur_body_ints h' xs \<Longrightarrow> h = h'"
  by (induction xs arbitrary: h h') (auto dest: injD [OF inj_mix_h1])

lemma murmur_body_ints_append:
  "murmur_body_ints h (xs @ ys) = murmur_body_ints (murmur_body_ints h xs) ys"
  by (induction xs arbitrary: h) auto

section \<open>The overloads agree\<close>

definition bytes_of_char :: "16 word \<Rightarrow> 8 word list" where
  "bytes_of_char c = [ucast c, ucast (drop_bit 8 c)]"

definition bytes_of_int :: "jint \<Rightarrow> 8 word list" where
  "bytes_of_int k = [ucast k, ucast (drop_bit 8 k), ucast (drop_bit 16 k), ucast (drop_bit 24 k)]"

lemma and_ff: "(w :: jint) AND 0xff = take_bit 8 w"
  by (simp add: take_bit_eq_mask mask_eq_exp_minus_1)

lemma and_ffff: "(w :: 16 word) AND 0xffff = w"
proof -
  have "w AND 0xffff = take_bit 16 w"
    by (simp add: take_bit_eq_mask mask_eq_exp_minus_1)
  then show ?thesis by (simp add: take_bit_word_eq_self)
qed

lemma byte_cases:
  assumes "n < (32 :: nat)"
  obtains "n < 8" | "8 \<le> n" "n < 16" | "16 \<le> n" "n < 24" | "24 \<le> n" "n < 32"
  using assms by linarith

lemma bit_block_of_bytes:
  assumes "n < 32"
  shows "bit (block_of_bytes b0 b1 b2 b3) n =
    (if n < 8 then bit b0 n else if n < 16 then bit b1 (n - 8)
     else if n < 24 then bit b2 (n - 16) else bit b3 (n - 24))"
  using assms
  by (cases rule: byte_cases)
    (auto simp: block_of_bytes_def and_ff bit_simps not_le dest: bit_imp_le_length)

lemma block_of_bytes_char:
  "block_of_bytes (ucast c) (ucast (drop_bit 8 c)) (ucast d) (ucast (drop_bit 8 d)) = block_of_chars c d"
proof (rule bit_word_eqI)
  fix n assume "n < LENGTH(32)"
  then have n: "n < 32" by simp
  show "bit (block_of_bytes (ucast c) (ucast (drop_bit 8 c)) (ucast d) (ucast (drop_bit 8 d))) n
      = bit (block_of_chars c d) n"
    using n unfolding bit_block_of_bytes [OF n] block_of_chars_def and_ffff
    by (cases rule: byte_cases) (auto simp: bit_simps dest: bit_imp_le_length)
qed

lemma block_of_bytes_int:
  "block_of_bytes (ucast k) (ucast (drop_bit 8 k)) (ucast (drop_bit 16 k)) (ucast (drop_bit 24 k)) = k"
proof (rule bit_word_eqI)
  fix n assume "n < LENGTH(32)"
  then have n: "n < 32" by simp
  show "bit (block_of_bytes (ucast k) (ucast (drop_bit 8 k)) (ucast (drop_bit 16 k))
      (ucast (drop_bit 24 k))) n = bit k n"
    using n unfolding bit_block_of_bytes [OF n]
    by (cases rule: byte_cases) (auto simp: bit_simps)
qed

lemma tail_of_char: "murmur_tail_k1 (bytes_of_char c) = ucast c"
proof (rule bit_word_eqI)
  fix n assume "n < LENGTH(32)"
  then have "n < 32" by simp
  then show "bit (murmur_tail_k1 (bytes_of_char c)) n = bit (ucast c :: jint) n"
    by (cases rule: byte_cases)
      (auto simp: murmur_tail_k1_def bytes_of_char_def and_ff bit_simps dest: bit_imp_le_length)
qed

lemma bytes_of_char_ne: "bytes_of_char c \<noteq> []"
  by (simp add: bytes_of_char_def)

lemma murmur_body_bytes_chars:
  "murmur_body_bytes h (concat (map bytes_of_char cs)) =
     map_prod id (concat \<circ> map bytes_of_char) (murmur_body_chars h cs)"
  by (induction h cs rule: murmur_body_chars.induct)
    (auto simp: bytes_of_char_def block_of_bytes_char)

lemma murmur_body_chars_tail: "length (snd (murmur_body_chars h cs)) \<le> 1"
  by (induction h cs rule: murmur_body_chars.induct) auto

lemma length_concat_const: "(\<And>x. length (f x) = n) \<Longrightarrow> length (concat (map f xs)) = n * length xs"
  by (induction xs) auto

lemma murmur3_bytes_chars:
  "murmur3_32_bytes seed (concat (map bytes_of_char cs)) = murmur3_32_chars seed cs"
proof -
  obtain h tl where b: "murmur_body_chars seed cs = (h, tl)" by fastforce
  have "length tl \<le> 1" using murmur_body_chars_tail [of seed cs] b by simp
  then consider "tl = []" | c where "tl = [c]"
    by (cases tl) auto
  moreover have "length (concat (map bytes_of_char cs)) = 2 * length cs"
    by (rule length_concat_const) (simp add: bytes_of_char_def)
  ultimately show ?thesis
    by cases (auto simp: murmur3_32_bytes_def murmur3_32_chars_def murmur_body_bytes_chars b
        tail_of_char bytes_of_char_ne mult.commute)
qed

lemma murmur_body_bytes_ints:
  "murmur_body_bytes h (concat (map bytes_of_int ks)) = (murmur_body_ints h ks, [])"
  by (induction h ks rule: murmur_body_ints.induct)
    (auto simp: bytes_of_int_def block_of_bytes_int)

lemma murmur3_bytes_ints:
  "murmur3_32_bytes seed (concat (map bytes_of_int ks)) = murmur3_32_ints seed ks"
proof -
  have "length (concat (map bytes_of_int ks)) = 4 * length ks"
    by (rule length_concat_const) (simp add: bytes_of_int_def)
  then show ?thesis
    by (simp add: murmur3_32_bytes_def murmur3_32_ints_def murmur_body_bytes_ints mult.commute)
qed

section \<open>Properties\<close>

text \<open>The three overloads of \<^verbatim>\<open>murmur3_32\<close> compute the same hash of the same memory: of
  characters and of ints, each laid out as its little-endian bytes.\<close>

theorem murmur_overloads_agree:
  "murmur3_32_bytes seed (concat (map bytes_of_char cs)) = murmur3_32_chars seed cs
   \<and> murmur3_32_bytes seed (concat (map bytes_of_int ks)) = murmur3_32_ints seed ks"
  by (simp add: murmur3_bytes_chars murmur3_bytes_ints)

text \<open>Inputs of ints that differ in exactly one position never collide.\<close>

theorem murmur_one_word:
  assumes "a \<noteq> b"
  shows "murmur3_32_ints seed (xs @ a # ys) \<noteq> murmur3_32_ints seed (xs @ b # ys)"
proof
  assume "murmur3_32_ints seed (xs @ a # ys) = murmur3_32_ints seed (xs @ b # ys)"
  then have "murmur_body_ints seed (xs @ a # ys) = murmur_body_ints seed (xs @ b # ys)"
    by (simp add: murmur3_32_ints_def inj_eq [OF inj_fmix] xor_cancel_right)
  then have "mix_h1 (murmur_body_ints seed xs) a = mix_h1 (murmur_body_ints seed xs) b"
    unfolding murmur_body_ints_append murmur_body_ints.simps by (rule murmur_body_ints_inj)
  with assms show False by (simp add: inj_eq [OF inj_mix_h1_block])
qed

theorem murmur_one_word_witness: "murmur3_32_ints 0 [7, 1, 9] \<noteq> murmur3_32_ints 0 [7, 2, 9]"
  using murmur_one_word [of 1 2 0 "[7]" "[9]"] by simp

end
