(* ===== verification/C_Strings.thy ===== *)
theory C_Strings
  imports Rolp_Prelude "HOL-Library.Sublist"
begin

text \<open>
  The C library functions on strings that the static-analysis reader uses, and the printing
  of method names (oops/symbol.cpp, oops/method.cpp).  A C string is the list of its
  characters before the terminator; positions past the end of the list read as the
  terminator.
\<close>

section \<open>C library\<close>

definition NUL :: char where
  "NUL = CHR 0x00"

definition newline :: char where
  "newline = CHR 0x0A"

definition colon :: char where
  "colon = CHR 0x3A"

text \<open>\<^verbatim>\<open>strncmp(a, b, n) == 0\<close>.\<close>

fun strncmp_eq :: "string \<Rightarrow> string \<Rightarrow> nat \<Rightarrow> bool" where
  "strncmp_eq [] [] n = True"
| "strncmp_eq [] (y # ys) n = (n = 0 \<or> y = NUL)"
| "strncmp_eq (x # xs) [] n = (n = 0 \<or> x = NUL)"
| "strncmp_eq (x # xs) (y # ys) n = (n = 0 \<or> x = y \<and> (x = NUL \<or> strncmp_eq xs ys (n - 1)))"

text \<open>\<^verbatim>\<open>strncpy(buf, m, strlen(m))\<close>: the characters of \<^verbatim>\<open>m\<close> without a terminator, what
  lies behind them stays.\<close>

definition strncpy_exact :: "string \<Rightarrow> string \<Rightarrow> string" where
  "strncpy_exact buf m = m @ drop (length m) buf"

text \<open>\<^verbatim>\<open>strtok\<close> with the single delimiter \<open>colon\<close>: the token and the rest to go on with.\<close>

definition strtok :: "string \<Rightarrow> string option \<times> string" where
  "strtok s =
     (let s' = dropWhile (\<lambda>c. c = colon) s
      in if s' = [] then (None, [])
         else (Some (takeWhile (\<lambda>c. c \<noteq> colon) s'), drop 1 (dropWhile (\<lambda>c. c \<noteq> colon) s')))"

definition isspace :: "char \<Rightarrow> bool" where
  "isspace c \<longleftrightarrow> (let n = (of_char c :: nat) in n = 32 \<or> 9 \<le> n \<and> n \<le> 13)"

definition digit_val :: "char \<Rightarrow> nat option" where
  "digit_val c =
     (let n = (of_char c :: nat) in
      if 48 \<le> n \<and> n \<le> 57 then Some (n - 48)
      else if 65 \<le> n \<and> n \<le> 90 then Some (n - 55)
      else if 97 \<le> n \<and> n \<le> 122 then Some (n - 87)
      else None)"

fun strtol_digits :: "nat \<Rightarrow> nat \<Rightarrow> string \<Rightarrow> nat" where
  "strtol_digits base acc [] = acc"
| "strtol_digits base acc (c # cs) =
     (case digit_val c of
        None \<Rightarrow> acc
      | Some d \<Rightarrow> if d < base then strtol_digits base (acc * base + d) cs else acc)"

definition strtol :: "nat \<Rightarrow> string \<Rightarrow> int" where
  "strtol base s =
     (let s1 = dropWhile isspace s;
          (neg, s2) = (case s1 of
              [] \<Rightarrow> (False, [])
            | c # cs \<Rightarrow> if c = CHR ''-'' then (True, cs) else if c = CHR ''+'' then (False, cs)
                        else (False, s1));
          s3 = (if base = 16 \<and> (take 2 s2 = ''0x'' \<or> take 2 s2 = ''0X'') then drop 2 s2 else s2);
          v = int (strtol_digits base 0 s3)
      in max (- (2 ^ 63)) (min (2 ^ 63 - 1) (if neg then - v else v)))"

text \<open>\<^verbatim>\<open>fgets(line, n, stream)\<close>: at most \<open>n - 1\<close> characters, up to and with a newline.\<close>

fun fgets_take :: "nat \<Rightarrow> string \<Rightarrow> string \<times> string" where
  "fgets_take n [] = ([], [])"
| "fgets_take n (c # cs) =
     (if n = 0 then ([], c # cs)
      else if c = newline then ([c], cs)
      else (let (a, b) = fgets_take (n - 1) cs in (c # a, b)))"

definition fgets :: "nat \<Rightarrow> string \<Rightarrow> (string \<times> string) option" where
  "fgets n s = (if s = [] then None else Some (fgets_take (n - 1) s))"

text \<open>\<^verbatim>\<open>line[strcspn(line, "\n")] = 0\<close>, read as a C string.\<close>

definition chop_line :: "string \<Rightarrow> string" where
  "chop_line s = takeWhile (\<lambda>c. c \<noteq> newline \<and> c \<noteq> NUL) s"

section \<open>Method names\<close>

definition symbol_as_C_string :: "string \<Rightarrow> nat \<Rightarrow> string" where
  "symbol_as_C_string s sz = take (min (sz - 1) (length s)) s"

definition as_klass_external_name :: "string \<Rightarrow> nat \<Rightarrow> string" where
  "as_klass_external_name s sz =
     map (\<lambda>c. if c = CHR ''/'' then CHR ''.'' else c) (symbol_as_C_string s sz)"

definition name_and_sig_as_C_string :: "string \<Rightarrow> string \<Rightarrow> string \<Rightarrow> nat \<Rightarrow> string" where
  "name_and_sig_as_C_string klass_name method_name signature sz =
     (let buf = as_klass_external_name klass_name sz
      in if length buf < sz - 1
         then (let buf1 = buf @ ''.'';
                   buf2 = buf1 @ symbol_as_C_string method_name (sz - length buf1)
               in buf2 @ symbol_as_C_string signature (sz - length buf2))
         else buf)"

section \<open>Printing numbers\<close>

text \<open>The digits the static-analysis file has for an index or a bytecode position: what
  \<open>strtol\<close> reads back.\<close>

definition digit_char :: "nat \<Rightarrow> char" where
  "digit_char d = (if d < 10 then char_of (48 + d) else char_of (87 + d))"

fun show_base :: "nat \<Rightarrow> nat \<Rightarrow> string" where
  "show_base base n =
     (if n < base \<or> base < 2 then [digit_char n]
      else show_base base (n div base) @ [digit_char (n mod base)])"

declare show_base.simps [simp del]

section \<open>Lemmas\<close>

lemma strncmp_eq_nul_free:
  "NUL \<notin> set m \<Longrightarrow> strncmp_eq m b (length m) \<longleftrightarrow> take (length m) b = m"
proof (induction m arbitrary: b)
  case Nil
  then show ?case by (cases b) auto
next
  case (Cons x xs)
  then show ?case by (cases b) auto
qed

lemma strncmp_eq_literal:
  assumes "NUL \<notin> set s" and "NUL \<notin> set l"
  shows "strncmp_eq s l (Suc (length l)) \<longleftrightarrow> s = l"
  using assms
proof (induction l arbitrary: s)
  case Nil
  then show ?case by (cases s) auto
next
  case (Cons y ys)
  then show ?case by (cases s) auto
qed

lemma fgets_take_length: "fgets_take n s = (a, b) \<Longrightarrow> length a + length b = length s \<and> length a \<le> n"
  by (induction n s arbitrary: a b rule: fgets_take.induct)
    (auto split: if_splits prod.splits simp: Let_def)

lemma fgets_consumes: "1 < n \<Longrightarrow> fgets n s = Some (a, b) \<Longrightarrow> length b < length s"
  by (cases s) (auto simp: fgets_def Let_def split: if_splits prod.splits dest: fgets_take_length)

lemma fgets_take_line:
  "newline \<notin> set l \<Longrightarrow> length l < n \<Longrightarrow> fgets_take n (l @ newline # rest) = (l @ [newline], rest)"
  by (induction l arbitrary: n) auto

lemma chop_line_line: "newline \<notin> set l \<Longrightarrow> NUL \<notin> set l \<Longrightarrow> chop_line (l @ [newline]) = l"
  unfolding chop_line_def by (subst takeWhile_append2) auto

lemma strtok_token:
  assumes "t \<noteq> []" and "colon \<notin> set t"
  shows "strtok (t @ colon # rest) = (Some t, rest)" and "strtok t = (Some t, [])"
proof -
  have d: "dropWhile (\<lambda>c. c = colon) (t @ r) = t @ r" for r
    using assms by (cases t) auto
  have tw: "takeWhile (\<lambda>c. c \<noteq> colon) (t @ colon # rest) = t"
    and dw: "dropWhile (\<lambda>c. c \<noteq> colon) (t @ colon # rest) = colon # rest"
    using assms(2) by (induction t) auto
  have tw': "takeWhile (\<lambda>c. c \<noteq> colon) t = t" and dw': "dropWhile (\<lambda>c. c \<noteq> colon) t = []"
    using assms(2) by (induction t) auto
  show "strtok (t @ colon # rest) = (Some t, rest)"
    using assms(1) by (simp add: strtok_def d tw dw)
  show "strtok t = (Some t, [])"
    using assms(1) d [of "[]"] by (simp add: strtok_def tw' dw')
qed

lemma digit_val_char: "d < 36 \<Longrightarrow> digit_val (digit_char d) = Some d"
  by (auto simp: digit_val_def digit_char_def Let_def)

lemma strtol_digits_append:
  "list_all (\<lambda>c. \<exists>d < base. digit_val c = Some d) s \<Longrightarrow>
   strtol_digits base acc (s @ t) = strtol_digits base (strtol_digits base acc s) t"
  by (induction base acc s rule: strtol_digits.induct) (auto split: option.splits)

lemma show_base_digits:
  assumes "2 \<le> base" "base \<le> 36"
  shows "list_all (\<lambda>c. \<exists>d < base. c = digit_char d \<and> digit_val c = Some d) (show_base base n)"
  using assms
proof (induction base n rule: show_base.induct)
  case (1 base n)
  have "digit_val (digit_char (n mod base)) = Some (n mod base)"
    using "1.prems" by (intro digit_val_char) (rule less_le_trans [OF mod_less_divisor], auto)
  with 1 show ?case
    by (subst show_base.simps) (auto simp: digit_val_char intro!: exI [of _ "n mod base"])
qed

lemma strtol_digits_show_base:
  assumes "2 \<le> base" "base \<le> 36"
  shows "strtol_digits base 0 (show_base base n) = n"
  using assms
proof (induction base n rule: show_base.induct)
  case (1 base n)
  have "list_all (\<lambda>c. \<exists>d < base. digit_val c = Some d) (show_base base (n div base))"
    using show_base_digits [OF "1.prems", of "n div base"] by (auto simp: list_all_iff)
  moreover have "digit_val (digit_char (n mod base)) = Some (n mod base)"
    using "1.prems" by (intro digit_val_char) (rule less_le_trans [OF mod_less_divisor], auto)
  ultimately show ?case
    using 1 by (subst show_base.simps) (auto simp: strtol_digits_append digit_val_char)
qed

end
