(* ===== verification/Gen_Arrays.thy ===== *)
theory Gen_Arrays
  imports Rolp_Prelude
begin

unbundle bit_operations_syntax

text \<open>
  ng2c/ng2c_globals.hpp and ng2c_globals.cpp: \<^verbatim>\<open>ContextIndex\<close>, the per allocation site
  \<^verbatim>\<open>NGenerationArray\<close> (target generation and allocation count of each context), and
  \<^verbatim>\<open>PromotionCounter\<close> (survivors by age).  The lemmas give the well-formedness each
  operation keeps, and that no assertion of an operation fires on a well-formed object with
  a 16-bit context.
\<close>

section \<open>Constants\<close>

definition NG2C_GEN_ARRAY_SIZE :: nat where
  "NG2C_GEN_ARRAY_SIZE = 16"

definition NG2C_MAX_ALLOC_SITE :: nat where
  "NG2C_MAX_ALLOC_SITE = 65536"

section \<open>ContextIndex\<close>

text \<open>A \<^verbatim>\<open>Method*\<close> is an address, \<open>None\<close> for \<^verbatim>\<open>NULL\<close>.\<close>

record context_index =
  ci_index :: uint
  ci_method :: "nat option"
  ci_bci :: uint
  ci_track_context :: uint

definition new_ContextIndex :: "uint \<Rightarrow> context_index" where
  "new_ContextIndex index =
     \<lparr>ci_index = index, ci_method = None, ci_bci = 0, ci_track_context = 0\<rparr>"

definition ci_set_method_bci :: "nat \<Rightarrow> uint \<Rightarrow> context_index \<Rightarrow> context_index" where
  "ci_set_method_bci m bci ci = ci\<lparr>ci_method := Some m, ci_bci := bci\<rparr>"

text \<open>Declared with the class; its only call, in the static analysis, is commented out.\<close>

definition set_track_context :: "uint \<Rightarrow> context_index \<Rightarrow> context_index" where
  "set_track_context track ci = ci\<lparr>ci_track_context := track\<rparr>"

section \<open>NGenerationArray\<close>

record ngen_array =
  nga_hash :: uint
  nga_factor :: uint
  nga_factor_bytes :: uint
  nga_target_gen :: "ngen_t list"
  nga_allocs_gen :: "ngen_t list"

definition new_NGenerationArray :: "uint \<Rightarrow> ngen_array" where
  "new_NGenerationArray hash =
     \<lparr>nga_hash = hash, nga_factor = 0, nga_factor_bytes = 0,
      nga_target_gen = replicate NG2C_MAX_ALLOC_SITE 0,
      nga_allocs_gen = replicate NG2C_MAX_ALLOC_SITE 0\<rparr>"

definition expanded_contexts :: "ngen_array \<Rightarrow> bool" where
  "expanded_contexts a \<longleftrightarrow> 0 <s nga_factor a"

text \<open>The subscript \<^verbatim>\<open>context * _factor\<close>, a 32-bit product.\<close>

definition nga_index :: "ngen_array \<Rightarrow> uint \<Rightarrow> nat" where
  "nga_index a context = unat (context * nga_factor a)"

definition prepare_contexts :: "ngen_array \<Rightarrow> ngen_array" where
  "prepare_contexts a =
     a\<lparr>nga_factor := 1, nga_factor_bytes := 8,
       nga_allocs_gen := (nga_allocs_gen a)[0 := 0],
       nga_target_gen := replicate NG2C_MAX_ALLOC_SITE (nga_target_gen a ! 0)\<rparr>"

definition gen_in_range :: "ngen_t \<Rightarrow> bool" where
  "gen_in_range g \<longleftrightarrow> g < of_nat NG2C_GEN_ARRAY_SIZE"

definition inc_target_gen :: "uint \<Rightarrow> ngen_array \<Rightarrow> ngen_array res" where
  "inc_target_gen context a =
     (let i = nga_index a context; g = nga_target_gen a ! i + 1 in
      vassert (i < NG2C_MAX_ALLOC_SITE) ''index falls outside''
        (vassert (gen_in_range g) ''target gen'' (Inr (a\<lparr>nga_target_gen := (nga_target_gen a)[i := g]\<rparr>))))"

definition set_target_gen :: "uint \<Rightarrow> uint \<Rightarrow> ngen_array \<Rightarrow> ngen_array res" where
  "set_target_gen context new_gen a =
     (let i = nga_index a context; g = ucast new_gen in
      vassert (i < NG2C_MAX_ALLOC_SITE) ''index falls outside''
        (vassert (gen_in_range g) ''target gen'' (Inr (a\<lparr>nga_target_gen := (nga_target_gen a)[i := g]\<rparr>))))"

definition number_allocs :: "uint \<Rightarrow> ngen_array \<Rightarrow> ngen_t res" where
  "number_allocs context a =
     vassert (nga_index a context < NG2C_MAX_ALLOC_SITE) ''index falls outside''
       (Inr (nga_allocs_gen a ! nga_index a context))"

definition inc_number_allocs :: "uint \<Rightarrow> ngen_array \<Rightarrow> ngen_array res" where
  "inc_number_allocs context a =
     (let i = nga_index a context in
      vassert (i < NG2C_MAX_ALLOC_SITE) ''index falls outside''
        (Inr (a\<lparr>nga_allocs_gen := (nga_allocs_gen a)[i := nga_allocs_gen a ! i + 1]\<rparr>)))"

definition reset_allocs :: "uint \<Rightarrow> ngen_array \<Rightarrow> ngen_array res" where
  "reset_allocs context a =
     (let i = nga_index a context in
      vassert (i < NG2C_MAX_ALLOC_SITE) ''index falls outside''
        (Inr (a\<lparr>nga_allocs_gen := (nga_allocs_gen a)[i := 0]\<rparr>)))"

definition target_gen :: "uint \<Rightarrow> ngen_array \<Rightarrow> ngen_t res" where
  "target_gen context a =
     (let i = nga_index a context in
      vassert (i < NG2C_MAX_ALLOC_SITE) ''index falls outside''
        (vassert (gen_in_range (nga_target_gen a ! i)) ''target gen''
          (Inr (nga_target_gen a ! i))))"

section \<open>PromotionCounter\<close>

record promotion_counter =
  pc_hash :: uint
  pc_array :: "ngen_t list"

definition new_PromotionCounter :: "uint \<Rightarrow> promotion_counter" where
  "new_PromotionCounter hash = \<lparr>pc_hash = hash, pc_array = replicate NG2C_GEN_ARRAY_SIZE 0\<rparr>"

definition age_slot :: "uint \<Rightarrow> nat" where
  "age_slot age = (if NG2C_GEN_ARRAY_SIZE \<le> unat age then NG2C_GEN_ARRAY_SIZE - 1 else unat age)"

definition pc_update :: "uint \<Rightarrow> promotion_counter \<Rightarrow> promotion_counter res" where
  "pc_update age pc =
     vassert (0 < age) ''update age should be > 0''
       (let i = age_slot age
        in Inr (pc\<lparr>pc_array := (pc_array pc)[i := pc_array pc ! i + 1]\<rparr>))"

text \<open>The memset of a counter's array, of \<^verbatim>\<open>zero\<close> and of the merge.\<close>

definition pc_zero :: "promotion_counter \<Rightarrow> promotion_counter" where
  "pc_zero pc = pc\<lparr>pc_array := replicate NG2C_GEN_ARRAY_SIZE 0\<rparr>"

text \<open>The two halves of a profile tag: allocation site above, context below.\<close>

definition tag_site :: "uint \<Rightarrow> uint" where
  "tag_site h = drop_bit 16 h"

definition tag_context :: "uint \<Rightarrow> uint" where
  "tag_context h = h AND 0xFFFF"

definition make_tag :: "uint \<Rightarrow> uint \<Rightarrow> uint" where
  "make_tag site context = push_bit 16 site OR context"

section \<open>Well-formedness\<close>

definition nga_wf :: "ngen_array \<Rightarrow> bool" where
  "nga_wf a \<longleftrightarrow> (nga_factor a = 0 \<or> nga_factor a = 1)
     \<and> length (nga_target_gen a) = NG2C_MAX_ALLOC_SITE
     \<and> length (nga_allocs_gen a) = NG2C_MAX_ALLOC_SITE
     \<and> list_all gen_in_range (nga_target_gen a)"

definition pc_wf :: "promotion_counter \<Rightarrow> bool" where
  "pc_wf pc \<longleftrightarrow> length (pc_array pc) = NG2C_GEN_ARRAY_SIZE"

section \<open>Lemmas\<close>

lemma max_alloc_site_simps [simp]:
  "0 < NG2C_MAX_ALLOC_SITE" "n < NG2C_MAX_ALLOC_SITE \<longleftrightarrow> n < 65536"
  by (simp_all add: NG2C_MAX_ALLOC_SITE_def)

lemma gen_array_size_simps [simp]:
  "0 < NG2C_GEN_ARRAY_SIZE" "n < NG2C_GEN_ARRAY_SIZE \<longleftrightarrow> n < 16" "of_nat NG2C_GEN_ARRAY_SIZE = (16 :: ngen_t)"
  by (simp_all add: NG2C_GEN_ARRAY_SIZE_def)

lemma gen_in_range_0 [simp]: "gen_in_range 0"
  by (simp add: gen_in_range_def)

lemma tag_context_eq: "tag_context h = take_bit 16 h"
  by (simp add: tag_context_def take_bit_eq_mask mask_eq_exp_minus_1)

lemma tag_context_less: "unat (tag_context h) < 65536"
  using unat_and_mask_less [of h 16] by (simp add: tag_context_def mask_eq_exp_minus_1)

lemma bit_less_16: "unat (w :: uint) < 65536 \<Longrightarrow> bit w n \<Longrightarrow> n < 16"
proof -
  assume "unat w < 65536" "bit w n"
  then have "take_bit 16 w = w"
    by (simp add: word_unat_eq_iff unsigned_take_bit_eq take_bit_nat_eq_self)
  with \<open>bit w n\<close> show "n < 16" by (metis bit_take_bit_iff)
qed

lemma tag_make_tag:
  assumes "unat site < 65536" and "unat context < 65536"
  shows "tag_site (make_tag site context) = site" and "tag_context (make_tag site context) = context"
proof -
  show "tag_site (make_tag site context) = site"
    by (rule bit_word_eqI)
      (auto simp: tag_site_def make_tag_def bit_simps dest: bit_less_16 [OF assms(1)] bit_less_16 [OF assms(2)])
  show "tag_context (make_tag site context) = context"
    by (rule bit_word_eqI)
      (auto simp: tag_context_eq make_tag_def bit_simps dest: bit_less_16 [OF assms(2)])
qed

lemma tag_split: "make_tag (tag_site h) (tag_context h) = h"
  by (rule bit_word_eqI) (auto simp: make_tag_def tag_site_def tag_context_eq bit_simps not_less)

lemma tag_site_less: "unat (tag_site h) < 65536"
proof -
  have "unat (tag_site h) = unat h div 65536"
    unfolding tag_site_def unat_drop_bit_eq by (simp add: drop_bit_eq_div)
  also have "\<dots> < 65536" using unsigned_less [of h] by (simp add: div_less_iff_less_mult)
  finally show ?thesis .
qed

lemma nga_index_less:
  assumes "nga_wf a" and "unat context < 65536"
  shows "nga_index a context < 65536"
  using assms by (auto simp: nga_wf_def nga_index_def)

lemma nga_wf_new: "nga_wf (new_NGenerationArray h)"
  by (simp add: nga_wf_def new_NGenerationArray_def list_all_length)

lemma nga_wf_prepare_contexts: "nga_wf a \<Longrightarrow> nga_wf (prepare_contexts a)"
  by (auto simp: nga_wf_def prepare_contexts_def list_all_length)

lemma list_all_update: "list_all P xs \<Longrightarrow> P x \<Longrightarrow> list_all P (xs[i := x])"
  by (auto simp: list_all_iff dest: set_update_subset_insert [THEN subsetD])

lemma nga_wf_set_target_gen: "nga_wf a \<Longrightarrow> set_target_gen c g a = Inr a' \<Longrightarrow> nga_wf a'"
  by (auto simp: set_target_gen_def nga_wf_def Let_def res_simps intro: list_all_update)

lemma nga_wf_inc_target_gen: "nga_wf a \<Longrightarrow> inc_target_gen c a = Inr a' \<Longrightarrow> nga_wf a'"
  by (auto simp: inc_target_gen_def nga_wf_def Let_def res_simps intro: list_all_update)

lemma nga_wf_inc_number_allocs: "nga_wf a \<Longrightarrow> inc_number_allocs c a = Inr a' \<Longrightarrow> nga_wf a'"
  by (auto simp: inc_number_allocs_def nga_wf_def Let_def res_simps)

lemma nga_wf_reset_allocs: "nga_wf a \<Longrightarrow> reset_allocs c a = Inr a' \<Longrightarrow> nga_wf a'"
  by (auto simp: reset_allocs_def nga_wf_def Let_def res_simps)

lemmas nga_wf_intros =
  nga_wf_new nga_wf_prepare_contexts nga_wf_set_target_gen nga_wf_inc_target_gen
  nga_wf_inc_number_allocs nga_wf_reset_allocs

lemma target_gen_ok:
  assumes "nga_wf a" and "unat c < 65536"
  shows "\<exists>g. target_gen c a = Inr g \<and> g < 16"
  using assms nga_index_less [OF assms]
  by (auto simp: target_gen_def Let_def nga_wf_def list_all_length gen_in_range_def)

lemma number_allocs_ok:
  assumes "nga_wf a" and "unat c < 65536"
  shows "\<exists>n. number_allocs c a = Inr n"
  using nga_index_less [OF assms] by (simp add: number_allocs_def)

lemma set_target_gen_ok:
  assumes "nga_wf a" and "unat c < 65536" and "unat g < 16"
  shows "\<exists>a'. set_target_gen c g a = Inr a' \<and> nga_wf a' \<and> target_gen c a' = Inr (ucast g)
    \<and> nga_factor a' = nga_factor a"
proof -
  have i: "nga_index a c < 65536" by (rule nga_index_less [OF assms(1,2)])
  have g: "gen_in_range (ucast g)"
    using assms(3)
    by (simp add: gen_in_range_def word_less_nat_alt unsigned_ucast_eq take_bit_nat_eq_self)
  obtain a' where a': "set_target_gen c g a = Inr a'"
    and eq: "a' = a\<lparr>nga_target_gen := (nga_target_gen a)[nga_index a c := ucast g]\<rparr>"
    using i g by (simp add: set_target_gen_def Let_def)
  have "nga_index a' c = nga_index a c" by (simp add: eq nga_index_def)
  then have "target_gen c a' = Inr (ucast g)"
    using i g assms(1) by (simp add: target_gen_def eq nga_wf_def)
  with a' eq nga_wf_set_target_gen [OF assms(1) a'] show ?thesis by simp
qed

lemma inc_number_allocs_ok:
  assumes "nga_wf a" and "unat c < 65536"
  shows "\<exists>a'. inc_number_allocs c a = Inr a' \<and> nga_wf a' \<and> nga_target_gen a' = nga_target_gen a
    \<and> nga_factor a' = nga_factor a
    \<and> number_allocs c a' = map_sum id (\<lambda>n. n + 1) (number_allocs c a)"
proof -
  have i: "nga_index a c < 65536" by (rule nga_index_less [OF assms])
  have len: "length (nga_allocs_gen a) = NG2C_MAX_ALLOC_SITE" using assms(1) by (simp add: nga_wf_def)
  obtain a' where a': "inc_number_allocs c a = Inr a'"
    and eq: "a' = a\<lparr>nga_allocs_gen := (nga_allocs_gen a)[nga_index a c := nga_allocs_gen a ! nga_index a c + 1]\<rparr>"
    using i by (simp add: inc_number_allocs_def Let_def)
  have "nga_index a' c = nga_index a c" by (simp add: eq nga_index_def)
  then show ?thesis
    using a' eq i len nga_wf_inc_number_allocs [OF assms(1) a'] by (simp add: number_allocs_def)
qed

text \<open>Before the contexts of a site are expanded every context shares slot \<open>0\<close>; after it,
  each context has its own.\<close>

lemma nga_index_shared: "nga_factor a = 0 \<Longrightarrow> nga_index a c = 0"
  by (simp add: nga_index_def)

lemma nga_index_own: "nga_factor a = 1 \<Longrightarrow> nga_index a c = unat c"
  by (simp add: nga_index_def)

lemma expanded_contexts_iff: "nga_wf a \<Longrightarrow> expanded_contexts a \<longleftrightarrow> nga_factor a = 1"
  by (auto simp: nga_wf_def expanded_contexts_def word_sless_alt)

lemma prepare_contexts_target:
  assumes "nga_wf a" and "unat c < 65536" and "nga_factor a = 0"
  shows "target_gen c (prepare_contexts a) = target_gen c a"
proof -
  have "gen_in_range (nga_target_gen a ! 0)"
    using assms(1) by (auto simp: nga_wf_def list_all_length)
  moreover have "nga_index (prepare_contexts a) c = unat c"
    by (simp add: nga_index_def prepare_contexts_def)
  ultimately show ?thesis
    using assms(2,3) by (simp add: target_gen_def nga_index_shared) (simp add: prepare_contexts_def)
qed

lemma age_slot_less: "0 < age \<Longrightarrow> 0 < age_slot age \<and> age_slot age < NG2C_GEN_ARRAY_SIZE"
  by (auto simp: age_slot_def NG2C_GEN_ARRAY_SIZE_def unat_gt_0)

lemma pc_wf_new: "pc_wf (new_PromotionCounter h)"
  by (simp add: pc_wf_def new_PromotionCounter_def)

lemma pc_wf_zero: "pc_wf (pc_zero pc)"
  by (simp add: pc_wf_def pc_zero_def)

lemma pc_update_ok:
  assumes "0 < age"
  shows "pc_update age pc =
    Inr (pc\<lparr>pc_array := (pc_array pc)[age_slot age := pc_array pc ! age_slot age + 1]\<rparr>)"
  using assms by (simp add: pc_update_def Let_def)

lemma pc_wf_update: "pc_wf pc \<Longrightarrow> pc_update age pc = Inr pc' \<Longrightarrow> pc_wf pc'"
  by (auto simp: pc_wf_def pc_update_def Let_def res_simps)

section \<open>Properties\<close>

text \<open>The profile tag packs the allocation site and the context: the halves of a packed pair of
  16-bit numbers are the pair, and packing the halves of a tag gives the tag.\<close>

theorem tag_roundtrip:
  assumes "unat site < NG2C_MAX_ALLOC_SITE" and "unat context < NG2C_MAX_ALLOC_SITE"
  shows "tag_site (make_tag site context) = site \<and> tag_context (make_tag site context) = context
    \<and> make_tag (tag_site h) (tag_context h) = h"
  using tag_make_tag [of site "context"] tag_split [of h] assms by simp

theorem tag_roundtrip_witness:
  "tag_site (make_tag 7 65535) = 7 \<and> tag_context (make_tag 7 65535) = 65535"
  using tag_roundtrip [of 7 65535 0] by simp

text \<open>On a well-formed array and a 16-bit context no operation's assertion fires: reading
  gives a generation below 16, setting a generation below 16 is read back, and counting an
  allocation adds one to the count of that context.\<close>

theorem array_operations:
  assumes "nga_wf a" and "unat c < NG2C_MAX_ALLOC_SITE" and "unat g < NG2C_GEN_ARRAY_SIZE"
  shows "\<exists>t s i n. target_gen c a = Inr t \<and> t < 16
    \<and> set_target_gen c g a = Inr s \<and> nga_wf s \<and> target_gen c s = Inr (ucast g)
    \<and> number_allocs c a = Inr n \<and> inc_number_allocs c a = Inr i \<and> nga_wf i \<and> number_allocs c i = Inr (n + 1)"
  using target_gen_ok [of a c] set_target_gen_ok [of a c g] number_allocs_ok [of a c] inc_number_allocs_ok [of a c] assms
  by auto

theorem array_operations_witness:
  "\<exists>t s i n. target_gen 9 (new_NGenerationArray 1) = Inr t \<and> t < 16
    \<and> set_target_gen 9 5 (new_NGenerationArray 1) = Inr s \<and> nga_wf s \<and> target_gen 9 s = Inr (ucast (5 :: uint))
    \<and> number_allocs 9 (new_NGenerationArray 1) = Inr n \<and> inc_number_allocs 9 (new_NGenerationArray 1) = Inr i
    \<and> nga_wf i \<and> number_allocs 9 i = Inr (n + 1)"
  by (rule array_operations [OF nga_wf_new]) simp_all

text \<open>Before its contexts are expanded a site has one target generation for all contexts;
  \<^verbatim>\<open>prepare_contexts\<close> gives every context its own slot and copies that generation to it.\<close>

theorem prepare_contexts_splits:
  assumes "nga_wf a" and "\<not> expanded_contexts a" and "unat c < NG2C_MAX_ALLOC_SITE"
  shows "expanded_contexts (prepare_contexts a) \<and> nga_wf (prepare_contexts a)
    \<and> target_gen c (prepare_contexts a) = target_gen c a \<and> target_gen c a = target_gen 0 a
    \<and> nga_index (prepare_contexts a) c = unat c"
proof -
  have f: "nga_factor a = 0" using assms(1,2) expanded_contexts_iff [OF assms(1)] by (auto simp: nga_wf_def)
  have "target_gen c a = target_gen 0 a" by (simp add: target_gen_def nga_index_shared [OF f])
  then show ?thesis
    using prepare_contexts_target [OF assms(1) _ f, of c] assms(3) nga_wf_prepare_contexts [OF assms(1)]
    by (simp add: expanded_contexts_def prepare_contexts_def word_sless_alt nga_index_own)
qed

theorem prepare_contexts_splits_witness:
  "expanded_contexts (prepare_contexts (new_NGenerationArray 1))
   \<and> nga_index (prepare_contexts (new_NGenerationArray 1)) 9 = 9"
  using prepare_contexts_splits [OF nga_wf_new, of 1 9]
  by (auto simp: expanded_contexts_def new_NGenerationArray_def)

end
