(* ===== verification/Profiler_Tables.thy ===== *)
theory Profiler_Tables
  imports Hash_Table Gen_Arrays
begin

text \<open>
  The two profiler tables: \<^verbatim>\<open>MethodBciHashtable\<close> (ng2c/method_bci_hashtable.cpp), from
  allocation site to its \<^verbatim>\<open>NGenerationArray\<close>, and \<^verbatim>\<open>PromotionCounters\<close>
  (ng2c/promotion_counter.cpp), from profile tag to its \<^verbatim>\<open>PromotionCounter\<close>.

  Both hold pointers, and the objects are changed through them, so the literals are
  addresses: positions of a store, the list of all objects created so far.  \<^verbatim>\<open>new\<close>
  appends to the store.  The objects are never deleted by the profiler.
\<close>

section \<open>MethodBciHashtable\<close>

type_synonym ngen_store = "ngen_array list"
type_synonym pc_store = "promotion_counter list"

definition mbt_get_entry :: "nat hashtable \<Rightarrow> uint \<Rightarrow> nat option" where
  "mbt_get_entry t hash =
     (if hash = 0 then None
      else (case bucket t (hash_to_index t hash) of
              [] \<Rightarrow> None
            | e # es \<Rightarrow>
                (let entry = chain_walk hash e es
                 in if ent_hash entry = hash then Some (ent_literal entry) else None)))"

text \<open>The body runs under the mutex of the file, so it is one step.\<close>

definition mbt_add_entry ::
    "nat \<Rightarrow> uint \<Rightarrow> ngen_store \<Rightarrow> nat hashtable \<Rightarrow> (nat \<times> ngen_store \<times> nat hashtable) res" where
  "mbt_add_entry blk hash ngens t =
     (case mbt_get_entry t hash of
        Some array \<Rightarrow> Inr (array, ngens, t)
      | None \<Rightarrow>
          (let array = length ngens; ngens' = ngens @ [new_NGenerationArray hash]
           in rbind (new_entry blk t hash array)
                (\<lambda>(entry, t'). Inr (array, ngens', add_entry (hash_to_index t' hash) entry t'))))"

definition mbt_get_entry_not_null ::
    "nat \<Rightarrow> uint \<Rightarrow> ngen_store \<Rightarrow> nat hashtable \<Rightarrow> (nat \<times> ngen_store \<times> nat hashtable) res" where
  "mbt_get_entry_not_null blk hash ngens t =
     (let idx = hash_to_index t hash;
          add_and_head = rbind (mbt_add_entry blk hash ngens t)
            (\<lambda>(_, ngens', t'). Inr (ent_literal (hd (bucket t' idx)), ngens', t'))
      in (case bucket t idx of
            [] \<Rightarrow> add_and_head
          | e # es \<Rightarrow>
              (let entry = chain_walk hash e es
               in if ent_hash entry \<noteq> hash then add_and_head
                  else Inr (ent_literal entry, ngens, t))))"

text \<open>\<^verbatim>\<open>zero\<close> clears the allocation counts in use: all of them once the contexts of the
  site are expanded, the first one before.\<close>

definition zero_allocs :: "ngen_array \<Rightarrow> ngen_array" where
  "zero_allocs a =
     (let size = (if expanded_contexts a then NG2C_MAX_ALLOC_SITE else 1)
      in a\<lparr>nga_allocs_gen := replicate size 0 @ drop size (nga_allocs_gen a)\<rparr>)"

definition mbt_zero :: "nat hashtable \<Rightarrow> ngen_store \<Rightarrow> ngen_store" where
  "mbt_zero t ngens =
     fold (\<lambda>p st. st[ent_literal p := zero_allocs (st ! ent_literal p)])
       (concat (map (bucket t) [0..<table_size t])) ngens"

section \<open>PromotionCounters\<close>

definition pct_add_counter ::
    "nat \<Rightarrow> uint \<Rightarrow> pc_store \<Rightarrow> nat hashtable \<Rightarrow> (nat \<times> pc_store \<times> nat hashtable) res" where
  "pct_add_counter blk hash pcs t =
     (let pc = length pcs; pcs' = pcs @ [new_PromotionCounter hash]
      in rbind (new_entry blk t hash pc)
           (\<lambda>(entry, t'). Inr (pc, pcs', add_entry (hash_to_index t' hash) entry t')))"

definition pct_get_counter :: "nat hashtable \<Rightarrow> uint \<Rightarrow> nat option" where
  "pct_get_counter t hash =
     (case bucket t (hash_to_index t hash) of
        [] \<Rightarrow> None
      | e # es \<Rightarrow>
          (let entry = chain_walk hash e es
           in if ent_hash entry = hash then Some (ent_literal entry) else None))"

definition pct_get_counter_not_null ::
    "nat \<Rightarrow> uint \<Rightarrow> pc_store \<Rightarrow> nat hashtable \<Rightarrow> (nat \<times> pc_store \<times> nat hashtable) res" where
  "pct_get_counter_not_null blk hash pcs t =
     (case bucket t (hash_to_index t hash) of
        [] \<Rightarrow> pct_add_counter blk hash pcs t
      | e # es \<Rightarrow>
          (let entry = chain_walk hash e es
           in if ent_hash entry = hash then Inr (ent_literal entry, pcs, t)
              else pct_add_counter blk hash pcs t))"

definition pct_zero :: "nat hashtable \<Rightarrow> pc_store \<Rightarrow> pc_store" where
  "pct_zero t pcs =
     fold (\<lambda>entry st. st[ent_literal entry := pc_zero (st ! ent_literal entry)])
       (concat (map (bucket t) [0..<table_size t])) pcs"

text \<open>\<^verbatim>\<open>PromotionCounter::target_gen\<close>: the site's array decides, under the tag's context.\<close>

definition pc_target_gen :: "nat hashtable \<Rightarrow> ngen_store \<Rightarrow> promotion_counter \<Rightarrow> ngen_t res" where
  "pc_target_gen t ngens pc =
     (case mbt_get_entry t (tag_site (pc_hash pc)) of
        None \<Rightarrow> Inl (Assert_Failed ''allocs should not be null'')
      | Some a \<Rightarrow> target_gen (tag_context (pc_hash pc)) (ngens ! a))"

text \<open>The lines of \<^verbatim>\<open>PromotionCounters::print_on\<close>: tag, target generation and counts of every
  counter.\<close>

definition pct_print_on ::
    "nat hashtable \<Rightarrow> ngen_store \<Rightarrow> pc_store \<Rightarrow> nat hashtable \<Rightarrow> (uint \<times> ngen_t \<times> ngen_t list) list res" where
  "pct_print_on mbt ngens pcs t =
     rfold (\<lambda>entry out.
         let pc = pcs ! ent_literal entry
         in rbind (pc_target_gen mbt ngens pc) (\<lambda>g. Inr (out @ [(pc_hash pc, g, pc_array pc)])))
       (concat (map (bucket t) [0..<table_size t])) []"

section \<open>Invariants\<close>

definition table_points :: "('o \<Rightarrow> uint) \<Rightarrow> 'o list \<Rightarrow> nat hashtable \<Rightarrow> bool" where
  "table_points key objs t \<longleftrightarrow>
     list_all (\<lambda>e. ent_literal e < length objs \<and> key (objs ! ent_literal e) = ent_hash e) (ht_entries t)
     \<and> distinct (map ent_literal (ht_entries t)) \<and> distinct (map ent_hash (ht_entries t))"

definition mbt_inv :: "ngen_store \<Rightarrow> nat hashtable \<Rightarrow> bool" where
  "mbt_inv ngens t \<longleftrightarrow> ht_inv t \<and> table_points nga_hash ngens t \<and> list_all nga_wf ngens"

definition pct_inv :: "pc_store \<Rightarrow> nat hashtable \<Rightarrow> bool" where
  "pct_inv pcs t \<longleftrightarrow> ht_inv t \<and> table_points pc_hash pcs t \<and> list_all pc_wf pcs"

section \<open>Lemmas\<close>

lemma bucket_find_eq:
  "(case b of [] \<Rightarrow> None
    | e # es \<Rightarrow> (let r = chain_walk h e es in if ent_hash r = h then Some (ent_literal r) else None))
     = chain_find h b"
  by (simp add: chain_find_def)

lemma mbt_get_entry_eq: "mbt_get_entry t h = (if h = 0 then None else ht_lookup t h)"
  unfolding mbt_get_entry_def bucket_find_eq by (simp add: ht_lookup_def)

lemma pct_get_counter_eq: "pct_get_counter t h = ht_lookup t h"
  unfolding pct_get_counter_def bucket_find_eq by (simp add: ht_lookup_def)

lemma ht_lookup_entries:
  assumes "ht_inv t"
  shows "ht_lookup t h = map_option ent_literal (find (\<lambda>e. ent_hash e = h) (bucket t (hash_to_index t h)))"
    and "e \<in> set (ht_entries t) \<and> ent_hash e = h \<longleftrightarrow> e \<in> set (bucket t (hash_to_index t h)) \<and> ent_hash e = h"
proof -
  show "ht_lookup t h = map_option ent_literal (find (\<lambda>e. ent_hash e = h) (bucket t (hash_to_index t h)))"
    by (simp add: ht_lookup_def chain_find_eq)
  have i: "hash_to_index t h < length (buckets t)"
    using assms hash_to_index_less [of t h] by (auto simp: ht_inv_def)
  show "e \<in> set (ht_entries t) \<and> ent_hash e = h \<longleftrightarrow> e \<in> set (bucket t (hash_to_index t h)) \<and> ent_hash e = h"
  proof
    assume e: "e \<in> set (ht_entries t) \<and> ent_hash e = h"
    then obtain j where "j < length (buckets t)" "e \<in> set (buckets t ! j)"
      by (auto simp: ht_entries_def in_set_conv_nth [of _ "buckets t"])
    moreover from this e assms have "hash_to_index t h = j"
      by (auto simp: ht_inv_def ht_hashed_def list_all_iff)
    ultimately show "e \<in> set (bucket t (hash_to_index t h)) \<and> ent_hash e = h"
      using e by (simp add: bucket_def)
  next
    assume "e \<in> set (bucket t (hash_to_index t h)) \<and> ent_hash e = h"
    with i show "e \<in> set (ht_entries t) \<and> ent_hash e = h"
      by (auto simp: ht_entries_def bucket_def)
  qed
qed

lemma ht_lookup_Some:
  assumes "ht_inv t" and "ht_lookup t h = Some a"
  shows "\<exists>e \<in> set (ht_entries t). ent_hash e = h \<and> ent_literal e = a"
  using assms ht_lookup_entries [OF assms(1)]
  by (auto simp: find_Some_iff) (metis nth_mem)

lemma ht_lookup_None:
  assumes "ht_inv t" and "ht_lookup t h = None"
  shows "h \<notin> ent_hash ` set (ht_entries t)"
  using assms ht_lookup_entries [OF assms(1)] by (auto simp: find_None_iff)

lemma table_points_lookup:
  assumes "ht_inv t" and "table_points key objs t" and "ht_lookup t h = Some a"
  shows "a < length objs \<and> key (objs ! a) = h"
  using ht_lookup_Some [OF assms(1,3)] assms(2) by (auto simp: table_points_def list_all_iff)

text \<open>Creating an object and inserting a pointer to it: shared by both tables.\<close>

lemma table_points_insert:
  assumes inv: "ht_inv t" and pts: "table_points key objs t" and new: "ht_lookup t h = None"
    and ins: "new_entry blk t h (length objs) = Inr (e, t1)" and key: "key x = h"
  defines "t' \<equiv> add_entry (hash_to_index t1 h) e t1"
  shows "ht_inv t'" and "table_points key (objs @ [x]) t'" and "ht_lookup t' = (ht_lookup t)(h \<mapsto> length objs)"
    and "bucket t' (hash_to_index t h) \<noteq> [] \<and> ent_literal (hd (bucket t' (hash_to_index t h))) = length objs"
    and "hash_to_index t' = hash_to_index t"
proof -
  have I: "ht_insert blk h (length objs) t = Inr t'"
    by (simp add: ht_insert_def ins t'_def)
  show inv': "ht_inv t'" by (rule ht.insert_inv [OF inv I])
  show "ht_lookup t' = (ht_lookup t)(h \<mapsto> length objs)" by (rule ht.insert_lookup [OF inv I])
  from new_entry_total [OF inv, of blk h "length objs"] ins
  have e: "ent_hash e = h" "ent_literal e = length objs" and b: "buckets t1 = buckets t" "table_size t1 = table_size t"
    by auto
  have idx: "hash_to_index t1 = hash_to_index t" by (simp add: fun_eq_iff hash_to_index_def b)
  show idx': "hash_to_index t' = hash_to_index t"
    by (simp add: fun_eq_iff hash_to_index_def t'_def add_entry_def b)
  have i: "hash_to_index t h < length (buckets t)"
    using inv hash_to_index_less [of t h] by (auto simp: ht_inv_def)
  have bt: "buckets t' = (buckets t)[hash_to_index t h := set_next_unshared e # buckets t ! hash_to_index t h]"
    by (simp add: t'_def add_entry_def bucket_def idx b)
  show "bucket t' (hash_to_index t h) \<noteq> [] \<and> ent_literal (hd (bucket t' (hash_to_index t h))) = length objs"
    using i by (simp add: bucket_def bt e)
  have ms: "mset (ht_entries t') = add_mset (set_next_unshared e) (mset (ht_entries t))"
    unfolding ht_entries_def bt using i by (rule mset_concat_update_Cons)
  have set: "set (ht_entries t') = insert (set_next_unshared e) (set (ht_entries t))"
    using arg_cong [OF ms, of set_mset] by simp
  have dist: "distinct (map f (ht_entries t'))
      \<longleftrightarrow> f (set_next_unshared e) \<notin> f ` set (ht_entries t) \<and> distinct (map f (ht_entries t))"
    for f :: "nat ht_entry \<Rightarrow> 'z"
  proof -
    have "mset (map f (ht_entries t')) = mset (map f (set_next_unshared e # ht_entries t))"
      using arg_cong [OF ms, of "image_mset f"] by simp
    then show ?thesis by (drule_tac mset_eq_imp_distinct_iff) simp
  qed
  have "length objs \<notin> ent_literal ` set (ht_entries t)"
    using pts by (auto simp: table_points_def list_all_iff)
  with pts ht_lookup_None [OF inv new] key e show "table_points key (objs @ [x]) t'"
    unfolding table_points_def dist list_all_iff set by (auto simp: nth_append)
qed

lemma mbt_add_entry_known:
  "mbt_get_entry t h = Some a \<Longrightarrow> mbt_add_entry blk h ngens t = Inr (a, ngens, t)"
  by (simp add: mbt_add_entry_def)

lemma mbt_add_entry_new:
  assumes inv: "mbt_inv ngens t" and "h \<noteq> 0" and new: "mbt_get_entry t h = None"
  shows "\<exists>t'. mbt_add_entry blk h ngens t = Inr (length ngens, ngens @ [new_NGenerationArray h], t')
    \<and> mbt_inv (ngens @ [new_NGenerationArray h]) t'
    \<and> mbt_get_entry t' = (mbt_get_entry t)(h \<mapsto> length ngens)
    \<and> ent_literal (hd (bucket t' (hash_to_index t h))) = length ngens"
proof -
  have ht: "ht_inv t" and pts: "table_points nga_hash ngens t" using inv by (auto simp: mbt_inv_def)
  obtain e t1 where ins: "new_entry blk t h (length ngens) = Inr (e, t1)"
    using new_entry_total [OF ht] by blast
  have lk: "ht_lookup t h = None" using new \<open>h \<noteq> 0\<close> by (simp add: mbt_get_entry_eq)
  note F = table_points_insert [OF ht pts lk ins, of "new_NGenerationArray h"]
  have k: "nga_hash (new_NGenerationArray h) = h" by (simp add: new_NGenerationArray_def)
  show ?thesis
    using new ins F(1-4) [OF k] inv \<open>h \<noteq> 0\<close>
    by (auto simp: mbt_add_entry_def Let_def mbt_inv_def mbt_get_entry_eq fun_eq_iff nga_wf_new)
qed

lemma mbt_add_entry_ok:
  assumes "mbt_inv ngens t" and "h \<noteq> 0"
  shows "\<exists>a ngens' t'. mbt_add_entry blk h ngens t = Inr (a, ngens', t') \<and> mbt_inv ngens' t'
    \<and> mbt_get_entry t' = (mbt_get_entry t)(h \<mapsto> a) \<and> a < length ngens' \<and> nga_hash (ngens' ! a) = h
    \<and> take (length ngens) ngens' = ngens"
proof (cases "mbt_get_entry t h")
  case None
  from mbt_add_entry_new [OF assms None, of blk] show ?thesis
    by (auto simp: new_NGenerationArray_def)
next
  case (Some a)
  then have "a < length ngens \<and> nga_hash (ngens ! a) = h"
    using assms table_points_lookup [of t nga_hash ngens h a] by (auto simp: mbt_inv_def mbt_get_entry_eq)
  with Some assms(1) mbt_add_entry_known [OF Some, of blk ngens] show ?thesis
    by (auto simp: fun_upd_idem)
qed

lemma mbt_get_entry_not_null_eq:
  assumes "mbt_inv ngens t" and "h \<noteq> 0"
  shows "mbt_get_entry_not_null blk h ngens t = mbt_add_entry blk h ngens t"
proof (cases "mbt_get_entry t h")
  case None
  then have "chain_find h (bucket t (hash_to_index t h)) = None"
    using assms(2) by (simp add: mbt_get_entry_eq ht_lookup_def)
  moreover obtain t' where "mbt_add_entry blk h ngens t = Inr (length ngens, ngens @ [new_NGenerationArray h], t')"
    and "ent_literal (hd (bucket t' (hash_to_index t h))) = length ngens"
    using mbt_add_entry_new [OF assms None, of blk] by blast
  ultimately show ?thesis
    by (auto simp: mbt_get_entry_not_null_def chain_find_def Let_def split: list.splits if_splits)
next
  case (Some a)
  then have "chain_find h (bucket t (hash_to_index t h)) = Some a"
    using assms(2) by (simp add: mbt_get_entry_eq ht_lookup_def)
  with mbt_add_entry_known [OF Some, of blk ngens] show ?thesis
    by (auto simp: mbt_get_entry_not_null_def chain_find_def Let_def split: list.splits if_splits)
qed

lemma pct_add_counter_ok:
  assumes inv: "pct_inv pcs t" and new: "pct_get_counter t h = None"
  shows "\<exists>t'. pct_add_counter blk h pcs t = Inr (length pcs, pcs @ [new_PromotionCounter h], t')
    \<and> pct_inv (pcs @ [new_PromotionCounter h]) t'
    \<and> pct_get_counter t' = (pct_get_counter t)(h \<mapsto> length pcs)"
proof -
  have ht: "ht_inv t" and pts: "table_points pc_hash pcs t" using inv by (auto simp: pct_inv_def)
  obtain e t1 where ins: "new_entry blk t h (length pcs) = Inr (e, t1)"
    using new_entry_total [OF ht] by blast
  have lk: "ht_lookup t h = None" using new by (simp add: pct_get_counter_eq)
  note F = table_points_insert [OF ht pts lk ins, of "new_PromotionCounter h"]
  have k: "pc_hash (new_PromotionCounter h) = h" by (simp add: new_PromotionCounter_def)
  show ?thesis
    using ins F(1-3) [OF k] inv
    by (auto simp: pct_add_counter_def Let_def pct_inv_def pct_get_counter_eq fun_eq_iff pc_wf_new)
qed

lemma pct_get_counter_not_null_eq:
  "pct_get_counter_not_null blk h pcs t =
     (case pct_get_counter t h of None \<Rightarrow> pct_add_counter blk h pcs t | Some a \<Rightarrow> Inr (a, pcs, t))"
  by (auto simp: pct_get_counter_not_null_def pct_get_counter_def Let_def split: list.splits)

lemma pct_get_counter_Some:
  "pct_inv pcs t \<Longrightarrow> pct_get_counter t h = Some a \<Longrightarrow> a < length pcs \<and> pc_hash (pcs ! a) = h"
  using table_points_lookup [of t pc_hash pcs h a] by (simp add: pct_inv_def pct_get_counter_eq)

lemma pct_get_counter_not_null_ok:
  assumes "pct_inv pcs t"
  shows "\<exists>a pcs' t'. pct_get_counter_not_null blk h pcs t = Inr (a, pcs', t') \<and> pct_inv pcs' t'
    \<and> pct_get_counter t' = (pct_get_counter t)(h \<mapsto> a) \<and> a < length pcs' \<and> pc_hash (pcs' ! a) = h
    \<and> take (length pcs) pcs' = pcs"
proof (cases "pct_get_counter t h")
  case None
  from pct_add_counter_ok [OF assms None, of blk] None show ?thesis
    by (auto simp: pct_get_counter_not_null_eq new_PromotionCounter_def)
next
  case (Some a)
  with pct_get_counter_Some [OF assms Some] assms show ?thesis
    by (auto simp: pct_get_counter_not_null_eq fun_upd_idem)
qed

text \<open>Clearing a table touches each object it points to once.\<close>

lemma buckets_entries: "ht_inv t \<Longrightarrow> concat (map (bucket t) [0..<table_size t]) = ht_entries t"
proof -
  assume "ht_inv t"
  then have "map (bucket t) [0..<table_size t] = buckets t"
    by (intro nth_equalityI) (auto simp: ht_inv_def bucket_def)
  then show ?thesis by (simp add: ht_entries_def)
qed

lemma fold_update_each:
  assumes "distinct (map g es)" and "\<forall>e \<in> set es. g e < length st"
  shows "length (fold (\<lambda>e s. s[g e := f (s ! g e)]) es st) = length st
    \<and> (\<forall>a < length st. fold (\<lambda>e s. s[g e := f (s ! g e)]) es st ! a
         = (if a \<in> g ` set es then f (st ! a) else st ! a))"
  using assms
proof (induction es arbitrary: st)
  case (Cons e es)
  have "distinct (map g es)" "\<forall>x \<in> set es. g x < length (st[g e := f (st ! g e)])"
    using Cons.prems by auto
  note Cons.IH [OF this]
  with Cons.prems show ?case by (auto simp: nth_list_update)
qed simp

lemma mbt_zero_nth:
  assumes "mbt_inv ngens t"
  shows "length (mbt_zero t ngens) = length ngens"
    and "a < length ngens \<Longrightarrow> mbt_zero t ngens ! a
      = (if a \<in> ent_literal ` set (ht_entries t) then zero_allocs (ngens ! a) else ngens ! a)"
  using fold_update_each [of ent_literal "ht_entries t" ngens zero_allocs] assms
  by (auto simp: mbt_zero_def mbt_inv_def buckets_entries table_points_def list_all_iff)

lemma pct_zero_nth:
  assumes "pct_inv pcs t"
  shows "length (pct_zero t pcs) = length pcs"
    and "a < length pcs \<Longrightarrow> pct_zero t pcs ! a
      = (if a \<in> ent_literal ` set (ht_entries t) then pc_zero (pcs ! a) else pcs ! a)"
  using fold_update_each [of ent_literal "ht_entries t" pcs pc_zero] assms
  by (auto simp: pct_zero_def pct_inv_def buckets_entries table_points_def list_all_iff)

section \<open>Requests of several threads\<close>

text \<open>Compiler and interpreter threads ask for the array of a site concurrently; the mutex of
  \<^verbatim>\<open>add_entry\<close> makes each request one step, so a run is a sequence of requests.\<close>

fun mbt_requests ::
    "(nat \<Rightarrow> nat) \<Rightarrow> uint list \<Rightarrow> ngen_store \<Rightarrow> nat hashtable \<Rightarrow> (nat list \<times> ngen_store \<times> nat hashtable) res" where
  "mbt_requests blk [] ngens t = Inr ([], ngens, t)"
| "mbt_requests blk (h # hs) ngens t =
     rbind (mbt_add_entry (blk (length ngens)) h ngens t) (\<lambda>(a, ngens', t').
     rbind (mbt_requests blk hs ngens' t') (\<lambda>(as, ngens'', t''). Inr (a # as, ngens'', t'')))"

lemma mbt_requests_ok:
  assumes "mbt_inv ngens t" and "0 \<notin> set hs"
  shows "\<exists>as ngens' t'. mbt_requests blk hs ngens t = Inr (as, ngens', t') \<and> mbt_inv ngens' t' \<and> length as = length hs
    \<and> (\<forall>i < length hs. mbt_get_entry t' (hs ! i) = Some (as ! i))
    \<and> (\<forall>h a. mbt_get_entry t h = Some a \<longrightarrow> mbt_get_entry t' h = Some a)"
  using assms
proof (induction hs arbitrary: ngens t)
  case (Cons h hs)
  obtain a ngens1 t1 where s: "mbt_add_entry (blk (length ngens)) h ngens t = Inr (a, ngens1, t1)" "mbt_inv ngens1 t1"
      "mbt_get_entry t1 = (mbt_get_entry t)(h \<mapsto> a)"
    using mbt_add_entry_ok [OF Cons.prems(1), of h "blk (length ngens)"] Cons.prems(2) by auto
  have keep: "mbt_get_entry t h = Some b \<Longrightarrow> a = b" for b
    using s(1) by (simp add: mbt_add_entry_known)
  obtain as ngens' t' where r: "mbt_requests blk hs ngens1 t1 = Inr (as, ngens', t')" "mbt_inv ngens' t'" "length as = length hs"
      "\<forall>i < length hs. mbt_get_entry t' (hs ! i) = Some (as ! i)"
      "\<forall>h a. mbt_get_entry t1 h = Some a \<longrightarrow> mbt_get_entry t' h = Some a"
    using Cons.IH [OF s(2)] Cons.prems(2) by auto
  have "mbt_get_entry t' h = Some a" using r(5) s(3) by simp
  moreover have "mbt_get_entry t' h' = Some b" if "mbt_get_entry t h' = Some b" for h' b
    using that r(5) s(3) keep by (cases "h' = h") auto
  ultimately show ?case using s(1) r by (auto simp: nth_Cons' less_Suc_eq_0_disj)
qed simp

section \<open>Properties\<close>

text \<open>C10. In every order of requests, two requests get the same array exactly when they are for the
  same site, the array carries the site's id, and the table keeps at most one entry per site.\<close>

theorem requests_agree:
  assumes "mbt_inv ngens t" and "0 \<notin> set hs" and "i < length hs" and "j < length hs"
  shows "\<exists>as ngens' t'. mbt_requests blk hs ngens t = Inr (as, ngens', t')
    \<and> (as ! i = as ! j \<longleftrightarrow> hs ! i = hs ! j) \<and> nga_hash (ngens' ! (as ! i)) = hs ! i
    \<and> distinct (map ent_hash (ht_entries t'))"
proof -
  obtain as ngens' t' where r: "mbt_requests blk hs ngens t = Inr (as, ngens', t')" "mbt_inv ngens' t'"
      "\<forall>i < length hs. mbt_get_entry t' (hs ! i) = Some (as ! i)"
    using mbt_requests_ok [OF assms(1,2)] by blast
  have key: "nga_hash (ngens' ! (as ! k)) = hs ! k" if "k < length hs" for k
    using r(2,3) that table_points_lookup [of t' nga_hash ngens' "hs ! k" "as ! k"]
    by (auto simp: mbt_inv_def mbt_get_entry_eq split: if_splits)
  have "as ! i = as ! j \<longleftrightarrow> hs ! i = hs ! j"
    using key assms(3,4) r(3) by (metis option.inject)
  with r key assms(3) show ?thesis by (auto simp: mbt_inv_def table_points_def)
qed

lemma mbt_inv_empty: "mbt_inv [] (ht_new 4 24)"
  using ht_inv_new [of 4 24] by (simp add: mbt_inv_def HeapWordSize_def table_points_def ht_entries_def ht_new_def)

theorem requests_agree_witness:
  "\<exists>as ngens' t'. mbt_requests id [7, 3, 7] [] (ht_new 4 24) = Inr (as, ngens', t') \<and> as ! 0 = as ! 2"
  using requests_agree [OF mbt_inv_empty, of "[7, 3, 7]" 0 2 id] by auto

text \<open>\<^verbatim>\<open>get_entry_not_null\<close> and \<^verbatim>\<open>add_entry\<close> are the same operation on a site id other than 0:
  both return the entry of the site, new if it had none, and later lookups find it.\<close>

theorem get_entry_not_null_adds:
  assumes "mbt_inv ngens t" and "h \<noteq> 0"
  shows "\<exists>a ngens' t'. mbt_get_entry_not_null blk h ngens t = Inr (a, ngens', t')
    \<and> mbt_add_entry blk h ngens t = Inr (a, ngens', t') \<and> mbt_inv ngens' t'
    \<and> mbt_get_entry t' = (mbt_get_entry t)(h \<mapsto> a)"
  using mbt_add_entry_ok [OF assms, of blk] mbt_get_entry_not_null_eq [OF assms, of blk] by auto

theorem get_entry_not_null_adds_witness:
  "\<exists>a ngens' t'. mbt_get_entry_not_null 4096 7 [] (ht_new 4 24) = Inr (a, ngens', t') \<and> mbt_get_entry t' 7 = Some a"
  using get_entry_not_null_adds [OF mbt_inv_empty, of 7 4096] by auto

end
