(* ===== verification/Static_Analysis.thy ===== *)
theory Static_Analysis
  imports Alt_Hashing C_Strings Profiler_Tables
begin

text \<open>
  \<^verbatim>\<open>StaticAnalysis\<close> (ng2c/ng2c_static_analysis.cpp): the two tables from a call or
  allocation site (method and bytecode position) to its 16-bit context index, filled from
  the static-analysis file or on demand.

  The tables hold pointers to \<^verbatim>\<open>ContextIndex\<close> objects: positions of the store
  \<open>sa_cis\<close>.  The buffer and key that \<^verbatim>\<open>hash(char*, int)\<close> keeps in static variables
  are fields of the state.  A \<^verbatim>\<open>Method*\<close> is a position of the list of methods, which
  carries the cached hash of \<^verbatim>\<open>ConstMethod::_context\<close>.
\<close>

section \<open>State\<close>

record method_desc =
  m_klass_name :: string
  m_name :: string
  m_signature :: string
  m_context :: uint

record sa_config =
  UseROLP :: bool
  NG2CStaticAnalysis :: "string option"

record static_analysis =
  sa_cis :: "context_index list"
  sa_invoke2Context :: "nat hashtable"
  sa_alloc2Context :: "nat hashtable"
  sa_hash_buf :: string
  sa_hash_key :: uint

datatype ctx_kind = Invoke_Ctx | Alloc_Ctx

fun sa_table :: "ctx_kind \<Rightarrow> static_analysis \<Rightarrow> nat hashtable" where
  "sa_table Invoke_Ctx sa = sa_invoke2Context sa"
| "sa_table Alloc_Ctx sa = sa_alloc2Context sa"

fun sa_set_table :: "ctx_kind \<Rightarrow> nat hashtable \<Rightarrow> static_analysis \<Rightarrow> static_analysis" where
  "sa_set_table Invoke_Ctx t sa = sa\<lparr>sa_invoke2Context := t\<rparr>"
| "sa_set_table Alloc_Ctx t sa = sa\<lparr>sa_alloc2Context := t\<rparr>"

definition BUF_LEN :: nat where
  "BUF_LEN = 8 * 1024 + 1"

definition bytes_of_string :: "string \<Rightarrow> 8 word list" where
  "bytes_of_string s = map of_char s"

section \<open>Hashing\<close>

definition method_full_name :: "method_desc \<Rightarrow> string" where
  "method_full_name m = name_and_sig_as_C_string (m_klass_name m) (m_name m) (m_signature m) BUF_LEN"

definition hash_Method :: "nat \<Rightarrow> jint \<Rightarrow> method_desc list \<Rightarrow> uint \<times> method_desc list" where
  "hash_Method m bci ms =
     (let key = m_context (ms ! m)
      in if key = 0
         then (let key' = murmur3_32_bytes 37 (bytes_of_string (method_full_name (ms ! m)))
               in (key' + bci, ms[m := (ms ! m)\<lparr>m_context := key'\<rparr>]))
         else (key + bci, ms))"

definition hash_string :: "string \<Rightarrow> jint \<Rightarrow> static_analysis \<Rightarrow> (uint \<times> static_analysis) res" where
  "hash_string m bci sa =
     (if \<not> strncmp_eq m (sa_hash_buf sa) (length m)
      then (if length m \<le> BUF_LEN
            then (let key = murmur3_32_bytes 37 (bytes_of_string m)
                  in Inr (key + bci, sa\<lparr>sa_hash_buf := strncpy_exact (sa_hash_buf sa) m,
                                         sa_hash_key := key\<rparr>))
            else Inl (Buffer_Overflow ''StaticAnalysis::hash''))
      else Inr (sa_hash_key sa + bci, sa))"

section \<open>Adding and finding indices\<close>

definition get_value :: "nat hashtable \<Rightarrow> uint \<Rightarrow> nat option" where
  "get_value hashtable key =
     (case bucket hashtable (hash_to_index hashtable key) of
        [] \<Rightarrow> None
      | e # es \<Rightarrow>
          (let entry = chain_walk key e es
           in if ent_hash entry = key then Some (ent_literal entry) else None))"

text \<open>The entry is allocated from the block at address \<open>blk\<close> when a block is needed.\<close>

definition add_index_key ::
    "(nat \<Rightarrow> nat) \<Rightarrow> ctx_kind \<Rightarrow> uint \<Rightarrow> uint \<Rightarrow> static_analysis \<Rightarrow> (uint \<times> static_analysis) res" where
  "add_index_key blk k key index sa =
     (let ci = length (sa_cis sa); sa1 = sa\<lparr>sa_cis := sa_cis sa @ [new_ContextIndex index]\<rparr>
      in rbind (new_entry (blk ci) (sa_table k sa1) key ci)
           (\<lambda>(entry, t). Inr (key, sa_set_table k (add_entry (hash_to_index t key) entry t) sa1)))"

definition add_index_string ::
    "(nat \<Rightarrow> nat) \<Rightarrow> ctx_kind \<Rightarrow> string \<Rightarrow> jint \<Rightarrow> uint \<Rightarrow> static_analysis \<Rightarrow>
     (uint \<times> static_analysis) res" where
  "add_index_string blk k method bci index sa =
     rbind (hash_string method bci sa) (\<lambda>(key, sa1). add_index_key blk k key index sa1)"

section \<open>The static-analysis file\<close>

definition check_index :: "ctx_kind \<Rightarrow> uint \<Rightarrow> uint \<Rightarrow> static_analysis \<Rightarrow> 'b res \<Rightarrow> 'b res" where
  "check_index k key index sa cont =
     rbind (deref (get_value (sa_table k sa) key) ''get_value'')
       (\<lambda>ci. vassert (ci_index (sa_cis sa ! ci) = index)
               ''could not retrieve value from hashtable'' cont)"

definition parse_line ::
    "(nat \<Rightarrow> nat) \<Rightarrow> string \<Rightarrow> static_analysis \<Rightarrow> (bool \<times> static_analysis) res" where
  "parse_line blk line sa =
     (let (type, r1) = strtok line; (method, r2) = strtok r1;
          (sbci, r3) = strtok r2; (sindex, r4) = strtok r3
      in vassert (type \<noteq> None) ''unknown type in static analysis''
          (vassert (sindex \<noteq> None) ''could not parse index in static analysis''
            (vassert (method \<noteq> None) ''could not parse method in static analysis''
              (vassert (sbci \<noteq> None) ''could not parse bci''
                (let bci = word_of_int (strtol 10 (the sbci));
                     index = ucast (word_of_int (strtol 16 (the sindex)) :: 16 word);
                     add = (\<lambda>k. rbind (add_index_string blk k (the method) bci index sa)
                              (\<lambda>(key, sa'). check_index k key index sa' (Inr (True, sa'))))
                 in if strncmp_eq (the type) ''MID'' 4 then add Invoke_Ctx
                    else if strncmp_eq (the type) ''NID'' 4 then add Alloc_Ctx
                    else Inr (False, sa))))))"

function parse_lines ::
    "(nat \<Rightarrow> nat) \<Rightarrow> string \<Rightarrow> static_analysis \<Rightarrow> (bool \<times> static_analysis) res" where
  "parse_lines blk stream sa =
     (case fgets BUF_LEN stream of
        None \<Rightarrow> Inr (True, sa)
      | Some (line, rest) \<Rightarrow>
          rbind (parse_line blk (chop_line line) sa)
            (\<lambda>(ok, sa'). if ok then parse_lines blk rest sa' else Inr (False, sa')))"
  by pat_completeness auto
termination
  by (relation "measure (\<lambda>(blk, stream, sa). length stream)")
     (auto dest: fgets_consumes [rotated] simp: BUF_LEN_def)

declare parse_lines.simps [simp del]

text \<open>\<open>fopen\<close> is what \<^verbatim>\<open>fopen\<close> finds under a name: the contents of the file, or nothing.\<close>

definition parse_from_file ::
    "(nat \<Rightarrow> nat) \<Rightarrow> (string \<Rightarrow> string option) \<Rightarrow> string option \<Rightarrow> static_analysis \<Rightarrow>
     (bool \<times> static_analysis) res" where
  "parse_from_file blk fopen input_file sa =
     vassert (input_file \<noteq> None) ''Static analysis file not provided.''
       (case fopen (the input_file) of
          None \<Rightarrow> Inr (False, sa)
        | Some stream \<Rightarrow> parse_lines blk stream sa)"

definition sa_empty :: static_analysis where
  "sa_empty = \<lparr>sa_cis = [], sa_invoke2Context = ht_new NG2C_MAX_ALLOC_SITE 24,
     sa_alloc2Context = ht_new NG2C_MAX_ALLOC_SITE 24, sa_hash_buf = [], sa_hash_key = 0\<rparr>"

definition new_StaticAnalysis ::
    "(nat \<Rightarrow> nat) \<Rightarrow> (string \<Rightarrow> string option) \<Rightarrow> string option \<Rightarrow> static_analysis res" where
  "new_StaticAnalysis blk fopen input_file =
     (if input_file \<noteq> None
      then rbind (parse_from_file blk fopen input_file sa_empty) (\<lambda>(_, sa). Inr sa)
      else Inr sa_empty)"

section \<open>The queries of the compilers\<close>

definition set_method_bci :: "nat \<Rightarrow> nat \<Rightarrow> jint \<Rightarrow> static_analysis \<Rightarrow> static_analysis" where
  "set_method_bci ci m bci sa =
     sa\<lparr>sa_cis := (sa_cis sa)[ci := ci_set_method_bci m bci (sa_cis sa ! ci)]\<rparr>"

text \<open>\<^verbatim>\<open>get_invoke_context\<close> and \<^verbatim>\<open>get_alloc_context\<close> differ in the table only.\<close>

definition get_context ::
    "sa_config \<Rightarrow> (nat \<Rightarrow> nat) \<Rightarrow> ctx_kind \<Rightarrow> nat \<Rightarrow> jint \<Rightarrow> method_desc list \<times> static_analysis \<Rightarrow>
     (nat option \<times> method_desc list \<times> static_analysis) res" where
  "get_context cfg blk k m bci st =
     (case st of (ms, sa) \<Rightarrow>
      if \<not> UseROLP cfg \<and> NG2CStaticAnalysis cfg = None then Inr (None, ms, sa)
      else if NG2CStaticAnalysis cfg = None \<and> strncmp_eq (method_full_name (ms ! m)) ''java'' 4
      then Inr (None, ms, sa)
      else
        (let (key, ms') = hash_Method m bci ms
         in if NG2CStaticAnalysis cfg = None
            then (case get_value (sa_table k sa) key of
                    Some ci \<Rightarrow> Inr (Some ci, ms', set_method_bci ci m bci sa)
                  | None \<Rightarrow>
                      rbind (add_index_key blk k key (key AND 0xFFFF) sa)
                        (\<lambda>(_, sa1).
                           (case get_value (sa_table k sa1) key of
                              None \<Rightarrow> Inl (Assert_Failed ''context index should exist!'')
                            | Some ci \<Rightarrow> Inr (Some ci, ms', set_method_bci ci m bci sa1))))
            else (case get_value (sa_table k sa) key of
                    Some ci \<Rightarrow> Inr (Some ci, ms', set_method_bci ci m bci sa)
                  | None \<Rightarrow> Inr (None, ms', sa))))"

definition get_invoke_context ::
    "sa_config \<Rightarrow> (nat \<Rightarrow> nat) \<Rightarrow> nat \<Rightarrow> jint \<Rightarrow> method_desc list \<times> static_analysis \<Rightarrow>
     (nat option \<times> method_desc list \<times> static_analysis) res" where
  "get_invoke_context cfg blk = get_context cfg blk Invoke_Ctx"

definition get_alloc_context ::
    "sa_config \<Rightarrow> (nat \<Rightarrow> nat) \<Rightarrow> nat \<Rightarrow> jint \<Rightarrow> method_desc list \<times> static_analysis \<Rightarrow>
     (nat option \<times> method_desc list \<times> static_analysis) res" where
  "get_alloc_context cfg blk = get_context cfg blk Alloc_Ctx"

definition get_index ::
    "sa_config \<Rightarrow> (nat \<Rightarrow> nat) \<Rightarrow> ctx_kind \<Rightarrow> nat \<Rightarrow> jint \<Rightarrow> method_desc list \<times> static_analysis \<Rightarrow>
     (uint \<times> method_desc list \<times> static_analysis) res" where
  "get_index cfg blk k m bci st =
     rbind (get_context cfg blk k m bci st)
       (\<lambda>(ci, ms, sa). Inr (case ci of None \<Rightarrow> 0 | Some a \<Rightarrow> ci_index (sa_cis sa ! a), ms, sa))"

definition get_invoke_index where
  "get_invoke_index cfg blk = get_index cfg blk Invoke_Ctx"

definition get_alloc_index where
  "get_alloc_index cfg blk = get_index cfg blk Alloc_Ctx"

section \<open>Invariant\<close>

definition sa_inv :: "static_analysis \<Rightarrow> bool" where
  "sa_inv sa \<longleftrightarrow> ht_inv (sa_invoke2Context sa) \<and> ht_inv (sa_alloc2Context sa)
     \<and> list_all (\<lambda>e. ent_literal e < length (sa_cis sa)) (ht_entries (sa_invoke2Context sa))
     \<and> list_all (\<lambda>e. ent_literal e < length (sa_cis sa)) (ht_entries (sa_alloc2Context sa))"

text \<open>The index the tables give to a key.\<close>

definition sa_index :: "ctx_kind \<Rightarrow> static_analysis \<Rightarrow> uint \<Rightarrow> uint option" where
  "sa_index k sa key = map_option (\<lambda>a. ci_index (sa_cis sa ! a)) (get_value (sa_table k sa) key)"

definition name_hash :: "string \<Rightarrow> uint" where
  "name_hash m = murmur3_32_bytes 37 (bytes_of_string m)"

definition prefix_free :: "string set \<Rightarrow> bool" where
  "prefix_free N \<longleftrightarrow> (\<forall>a \<in> N. \<forall>b \<in> N. prefix a b \<longrightarrow> a = b)"

definition hash_cache_ok :: "string set \<Rightarrow> static_analysis \<Rightarrow> bool" where
  "hash_cache_ok N sa \<longleftrightarrow> sa_hash_buf sa = []
     \<or> (\<exists>m \<in> N. prefix m (sa_hash_buf sa) \<and> sa_hash_key sa = name_hash m)"

definition method_ok :: "method_desc \<Rightarrow> bool" where
  "method_ok m \<longleftrightarrow> m_context m = 0 \<or> m_context m = name_hash (method_full_name m)"

section \<open>Lemmas\<close>

lemma get_value_eq: "get_value t key = ht_lookup t key"
  unfolding get_value_def bucket_find_eq by (simp add: ht_lookup_def)

lemma sa_table_set [simp]:
  "sa_table k (sa_set_table k' t sa) = (if k = k' then t else sa_table k sa)"
  by (cases k; cases k') auto

lemma sa_set_table_fields [simp]:
  "sa_cis (sa_set_table k t sa) = sa_cis sa" "sa_hash_buf (sa_set_table k t sa) = sa_hash_buf sa"
  "sa_hash_key (sa_set_table k t sa) = sa_hash_key sa"
  by (cases k; simp)+

lemma sa_table_upd [simp]:
  "sa_table k (sa\<lparr>sa_cis := c\<rparr>) = sa_table k sa" "sa_table k (sa\<lparr>sa_hash_buf := b\<rparr>) = sa_table k sa"
  "sa_table k (sa\<lparr>sa_hash_key := h\<rparr>) = sa_table k sa"
  by (cases k; simp)+

lemma all_ctx_kind: "(\<forall>k. P k) \<longleftrightarrow> P Invoke_Ctx \<and> P Alloc_Ctx"
  by (metis ctx_kind.exhaust)

lemma sa_inv_alt:
  "sa_inv sa \<longleftrightarrow> (\<forall>k. ht_inv (sa_table k sa)
     \<and> (\<forall>e \<in> set (ht_entries (sa_table k sa)). ent_literal e < length (sa_cis sa)))"
  by (auto simp: sa_inv_def list_all_iff all_ctx_kind)

lemma sa_inv_get_value: "sa_inv sa \<Longrightarrow> get_value (sa_table k sa) key = Some a \<Longrightarrow> a < length (sa_cis sa)"
  using ht_lookup_Some [of "sa_table k sa" key a] by (auto simp: sa_inv_alt get_value_eq)

lemma sa_inv_empty: "sa_inv sa_empty" and sa_index_empty: "sa_index k sa_empty key = None"
proof -
  have t: "sa_table k sa_empty = ht_new NG2C_MAX_ALLOC_SITE 24" for k
    by (cases k) (simp_all add: sa_empty_def)
  have inv: "ht_inv (ht_new NG2C_MAX_ALLOC_SITE 24 :: nat hashtable)"
    by (rule ht_inv_new) (simp_all add: NG2C_MAX_ALLOC_SITE_def HeapWordSize_def)
  show "sa_inv sa_empty"
    unfolding sa_inv_alt t using inv by (auto simp: ht_entries_def ht_new_def)
  show "sa_index k sa_empty key = None"
    unfolding sa_index_def t get_value_eq by (subst ht_lookup_new) (auto simp: NG2C_MAX_ALLOC_SITE_def)
qed

lemma add_index_key_ok:
  assumes inv: "sa_inv sa"
  shows "\<exists>sa'. add_index_key blk k key index sa = Inr (key, sa') \<and> sa_inv sa'
    \<and> get_value (sa_table k sa') = (get_value (sa_table k sa))(key \<mapsto> length (sa_cis sa))
    \<and> (\<forall>k'. k' \<noteq> k \<longrightarrow> sa_table k' sa' = sa_table k' sa)
    \<and> sa_cis sa' = sa_cis sa @ [new_ContextIndex index]
    \<and> sa_hash_buf sa' = sa_hash_buf sa \<and> sa_hash_key sa' = sa_hash_key sa"
proof -
  let ?t = "sa_table k sa" and ?n = "length (sa_cis sa)"
  have ht: "ht_inv ?t" using inv by (simp add: sa_inv_alt)
  obtain t' where ins: "ht_insert (blk ?n) key ?n ?t = Inr t'" and inv': "ht_inv t'"
      and lk: "ht_lookup t' = (ht_lookup ?t)(key \<mapsto> ?n)"
    using ht.insert_ok [OF ht] by blast
  obtain e where e: "ent_literal e = ?n" "mset (ht_entries t') = add_mset e (mset (ht_entries ?t))"
    using ht_insert_entries [OF ht ins] by blast
  have set: "set (ht_entries t') = insert e (set (ht_entries ?t))"
    using arg_cong [OF e(2), of set_mset] by simp
  let ?sa = "sa_set_table k t' (sa\<lparr>sa_cis := sa_cis sa @ [new_ContextIndex index]\<rparr>)"
  have "add_index_key blk k key index sa = Inr (key, ?sa)"
    using ins by (auto simp: add_index_key_def ht_insert_def res_simps Let_def split: prod.splits)
  moreover have "sa_inv ?sa"
    using inv inv' set e(1) by (auto simp: sa_inv_alt less_Suc_eq)
  ultimately show ?thesis
    using lk by (intro exI [of _ ?sa]) (auto simp: get_value_eq fun_eq_iff)
qed

lemma add_index_key_index:
  assumes inv: "sa_inv sa" and add: "add_index_key blk k key index sa = Inr (r, sa')"
  shows "sa_index k' sa' = (if k' = k then (sa_index k sa)(key \<mapsto> index) else sa_index k' sa)"
proof -
  note A = add_index_key_ok [OF inv, of blk k key index]
  have old: "a < length (sa_cis sa)" if "get_value (sa_table k'' sa) x = Some a" for k'' x a
    using sa_inv_get_value [OF inv that] .
  show ?thesis
    using A add old
    by (auto simp: sa_index_def fun_eq_iff nth_append new_ContextIndex_def map_option_case split: option.splits)
qed

text \<open>The static buffer of \<^verbatim>\<open>hash(char*, int)\<close> is a transparent cache as long as no name is
  a proper prefix of another.\<close>

lemma hash_string_ok:
  assumes cache: "hash_cache_ok N sa" and pf: "prefix_free N" and m: "m \<in> N" "m \<noteq> []" "NUL \<notin> set m"
    and len: "length m \<le> BUF_LEN"
  shows "\<exists>b. hash_string m bci sa
      = Inr (name_hash m + bci, sa\<lparr>sa_hash_buf := b, sa_hash_key := name_hash m\<rparr>) \<and> prefix m b"
proof (cases "take (length m) (sa_hash_buf sa) = m")
  case True
  then have pre: "prefix m (sa_hash_buf sa)" by (metis take_is_prefix)
  then have "sa_hash_buf sa \<noteq> []" using m(2) by auto
  then obtain m' where m': "m' \<in> N" "prefix m' (sa_hash_buf sa)" "sa_hash_key sa = name_hash m'"
    using cache by (auto simp: hash_cache_ok_def)
  then have "prefix m m' \<or> prefix m' m" using pre prefix_same_cases by blast
  then have "m' = m" using pf m(1) m'(1) by (auto simp: prefix_free_def)
  then show ?thesis
    using True pre m'(3) m(3)
    by (intro exI [of _ "sa_hash_buf sa"]) (simp add: hash_string_def strncmp_eq_nul_free)
next
  case False
  then show ?thesis
    using m(3) len
    by (intro exI [of _ "strncpy_exact (sa_hash_buf sa) m"])
       (simp add: hash_string_def strncmp_eq_nul_free strncpy_exact_def name_hash_def Let_def)
qed

lemma method_full_name_upd [simp]: "method_full_name (x\<lparr>m_context := c\<rparr>) = method_full_name x"
  by (simp add: method_full_name_def)

lemma hash_Method_key:
  assumes "method_ok (ms ! m)" and "m < length ms"
  shows "fst (hash_Method m bci ms) = name_hash (method_full_name (ms ! m)) + bci"
    and "list_all method_ok ms \<Longrightarrow> list_all method_ok (snd (hash_Method m bci ms))"
    and "map method_full_name (snd (hash_Method m bci ms)) = map method_full_name ms"
  using assms
  by (auto simp: hash_Method_def method_ok_def name_hash_def Let_def map_update list_update_same_conv
      intro!: list_all_update)

section \<open>Reading the file back\<close>

text \<open>A record of the file: kind, method, bytecode position and index, printed as the header
  of the class describes it.\<close>

type_synonym sa_record = "ctx_kind \<times> string \<times> nat \<times> nat"

definition kind_tag :: "ctx_kind \<Rightarrow> string" where
  "kind_tag k = (case k of Invoke_Ctx \<Rightarrow> ''MID'' | Alloc_Ctx \<Rightarrow> ''NID'')"

definition render :: "sa_record \<Rightarrow> string" where
  "render r = (case r of (k, m, bci, index) \<Rightarrow>
     kind_tag k @ colon # m @ colon # show_base 10 bci @ colon # show_base 16 index)"

definition record_ok :: "sa_record \<Rightarrow> bool" where
  "record_ok r \<longleftrightarrow> (case r of (k, m, bci, index) \<Rightarrow>
     m \<noteq> [] \<and> colon \<notin> set m \<and> newline \<notin> set m \<and> NUL \<notin> set m \<and> bci < 65536 \<and> index < 65536)
     \<and> length (render r) < BUF_LEN - 1"

definition record_name :: "sa_record \<Rightarrow> string" where
  "record_name r = fst (snd r)"

fun record_binding :: "sa_record \<Rightarrow> uint \<times> uint" where
  "record_binding (k, m, bci, index) = (name_hash m + of_nat bci, of_nat index)"

definition bindings :: "ctx_kind \<Rightarrow> sa_record list \<Rightarrow> (uint \<times> uint) list" where
  "bindings k rs = map record_binding (filter (\<lambda>r. fst r = k) rs)"

lemma show_base_set:
  assumes "2 \<le> base" "base \<le> 36" and "c \<in> set (show_base base n)"
  shows "\<exists>d < base. c = digit_char d \<and> digit_val c = Some d"
  using show_base_digits [OF assms(1,2), of n] assms(3) by (auto simp: list_all_iff)

lemma show_base_nonempty: "show_base base n \<noteq> []"
  by (subst show_base.simps) simp

lemma digit_not_special:
  "digit_val c = Some d \<Longrightarrow> c \<noteq> colon \<and> c \<noteq> newline \<and> c \<noteq> NUL \<and> \<not> isspace c \<and> c \<noteq> CHR ''-'' \<and> c \<noteq> CHR ''+''"
  by (auto simp: digit_val_def colon_def newline_def NUL_def isspace_def Let_def split: if_splits)

lemma strtol_show:
  assumes "base = 10 \<or> base = 16" and "n < 2 ^ 63"
  shows "strtol base (show_base base n) = int n"
proof -
  let ?s = "show_base base n"
  have b: "2 \<le> base" "base \<le> 36" using assms(1) by auto
  note S = show_base_set [OF b, of _ n]
  obtain c cs where s: "?s = c # cs" using show_base_nonempty by (metis list.exhaust)
  have c: "\<not> isspace c" "c \<noteq> CHR ''-''" "c \<noteq> CHR ''+''"
    using S [of c] digit_not_special [of c] s by auto
  have x: "CHR ''x'' \<notin> set ?s \<and> CHR ''X'' \<notin> set ?s" if "base = 16"
    using S [of "CHR ''x''"] S [of "CHR ''X''"] that by (auto simp: digit_val_def)
  have "take 2 ?s \<noteq> ''0x''" "take 2 ?s \<noteq> ''0X''" if "base = 16"
    using x [OF that] set_take_subset [of 2 ?s] by auto
  moreover have "strtol_digits base 0 (c # cs) = n"
    using strtol_digits_show_base [OF b, of n] unfolding s .
  ultimately show ?thesis
    using c assms(2) unfolding strtol_def s by (auto simp: Let_def simp del: strtol_digits.simps take_Cons_numeral)
qed

lemma render_chars:
  assumes "record_ok r"
  shows "newline \<notin> set (render r)" and "NUL \<notin> set (render r)"
proof -
  obtain k m b i where r: "r = (k, m, b, i)" by (cases r) auto
  have d: "c \<noteq> newline \<and> c \<noteq> NUL \<and> c \<noteq> colon" if "c \<in> set (show_base 10 b) \<union> set (show_base 16 i)" for c
    using that show_base_set [of 10 c b] show_base_set [of 16 c i] digit_not_special [of c] by auto
  have t: "newline \<notin> set (kind_tag k) \<and> NUL \<notin> set (kind_tag k)"
    by (cases k) (auto simp: kind_tag_def newline_def NUL_def)
  have "newline \<noteq> colon" "NUL \<noteq> colon" by (auto simp: newline_def NUL_def colon_def)
  then show "newline \<notin> set (render r)" "NUL \<notin> set (render r)"
    using assms d t by (auto simp: r render_def record_ok_def)
qed

lemma strtok_render:
  assumes "record_ok (k, m, b, i)"
  shows "strtok (render (k, m, b, i)) = (Some (kind_tag k), m @ colon # show_base 10 b @ colon # show_base 16 i)"
    and "strtok (m @ colon # show_base 10 b @ colon # show_base 16 i)
      = (Some m, show_base 10 b @ colon # show_base 16 i)"
    and "strtok (show_base 10 b @ colon # show_base 16 i) = (Some (show_base 10 b), show_base 16 i)"
    and "strtok (show_base 16 i) = (Some (show_base 16 i), [])"
proof -
  have d: "colon \<notin> set (show_base 10 b)" "colon \<notin> set (show_base 16 i)"
    using show_base_set [of 10 colon b] show_base_set [of 16 colon i] digit_not_special [of colon] by auto
  have t: "kind_tag k \<noteq> []" "colon \<notin> set (kind_tag k)"
    by (cases k; simp add: kind_tag_def colon_def)+
  show "strtok (render (k, m, b, i)) = (Some (kind_tag k), m @ colon # show_base 10 b @ colon # show_base 16 i)"
    unfolding render_def prod.case by (rule strtok_token(1) [OF t])
  show "strtok (m @ colon # show_base 10 b @ colon # show_base 16 i)
      = (Some m, show_base 10 b @ colon # show_base 16 i)"
    using assms by (intro strtok_token(1)) (auto simp: record_ok_def)
  show "strtok (show_base 10 b @ colon # show_base 16 i) = (Some (show_base 10 b), show_base 16 i)"
    by (rule strtok_token(1) [OF show_base_nonempty d(1)])
  show "strtok (show_base 16 i) = (Some (show_base 16 i), [])"
    by (rule strtok_token(2) [OF show_base_nonempty d(2)])
qed

lemma kind_tag_strncmp:
  "strncmp_eq (kind_tag k) ''MID'' 4 \<longleftrightarrow> k = Invoke_Ctx" "strncmp_eq (kind_tag k) ''NID'' 4 \<longleftrightarrow> k = Alloc_Ctx"
  by (cases k; simp add: kind_tag_def NUL_def)+

lemma index_of_hex:
  assumes "i < 65536"
  shows "ucast (word_of_int (strtol 16 (show_base 16 i)) :: 16 word) = (of_nat i :: uint)"
proof -
  have "strtol 16 (show_base 16 i) = int i" using assms by (intro strtol_show) auto
  then show ?thesis
    using assms by (simp add: word_unat_eq_iff unsigned_ucast_eq unsigned_of_nat take_bit_nat_eq_self)
qed

lemma sa_upd_cache [simp]:
  "sa_inv (sa\<lparr>sa_hash_buf := b, sa_hash_key := h\<rparr>) = sa_inv sa"
  "sa_index k (sa\<lparr>sa_hash_buf := b, sa_hash_key := h\<rparr>) = sa_index k sa"
  by (simp_all add: sa_inv_def sa_index_def fun_eq_iff)

lemma add_index_string_ok:
  assumes inv: "sa_inv sa" and cache: "hash_cache_ok N sa" and pf: "prefix_free N"
    and m: "m \<in> N" "m \<noteq> []" "NUL \<notin> set m" "length m \<le> BUF_LEN"
  shows "\<exists>sa'. add_index_string blk k m bci index sa = Inr (name_hash m + bci, sa')
    \<and> sa_inv sa' \<and> hash_cache_ok N sa'
    \<and> (\<forall>k'. sa_index k' sa' = (if k' = k then (sa_index k sa)(name_hash m + bci \<mapsto> index) else sa_index k' sa))"
proof -
  obtain b where h: "hash_string m bci sa
      = Inr (name_hash m + bci, sa\<lparr>sa_hash_buf := b, sa_hash_key := name_hash m\<rparr>)" "prefix m b"
    using hash_string_ok [OF cache pf m] by blast
  let ?sa = "sa\<lparr>sa_hash_buf := b, sa_hash_key := name_hash m\<rparr>"
  have inv': "sa_inv ?sa" using inv by simp
  obtain sa' where a: "add_index_key blk k (name_hash m + bci) index ?sa = Inr (name_hash m + bci, sa')"
      "sa_inv sa'" "sa_hash_buf sa' = b" "sa_hash_key sa' = name_hash m"
    using add_index_key_ok [OF inv', of blk k "name_hash m + bci" index] by auto
  have "hash_cache_ok N sa'" using a h(2) m(1) by (auto simp: hash_cache_ok_def)
  with a h add_index_key_index [OF inv' a(1)] show ?thesis
    by (auto simp: add_index_string_def)
qed

lemma parse_line_ok:
  assumes inv: "sa_inv sa" and cache: "hash_cache_ok N sa" and pf: "prefix_free N"
    and r: "record_ok r" "record_name r \<in> N"
  shows "\<exists>sa'. parse_line blk (render r) sa = Inr (True, sa') \<and> sa_inv sa' \<and> hash_cache_ok N sa'
    \<and> (\<forall>k. sa_index k sa' = sa_index k sa ++ map_of (bindings k [r]))"
proof -
  obtain k m b i where rec: "r = (k, m, b, i)" by (cases r) auto
  note ok = r(1) [unfolded rec]
  have m: "m \<in> N" "m \<noteq> []" "NUL \<notin> set m" "length m \<le> BUF_LEN" and bi: "b < 65536" "i < 65536"
    using r rec by (auto simp: record_ok_def record_name_def render_def)
  have bci: "strtol 10 (show_base 10 b) = int b" using bi by (intro strtol_show) auto
  obtain sa' where a: "add_index_string blk k m (of_nat b) (of_nat i) sa = Inr (name_hash m + of_nat b, sa')"
      "sa_inv sa'" "hash_cache_ok N sa'"
      "\<forall>k'. sa_index k' sa' = (if k' = k then (sa_index k sa)(name_hash m + of_nat b \<mapsto> of_nat i) else sa_index k' sa)"
    using add_index_string_ok [OF inv cache pf m] by blast
  have "sa_index k sa' (name_hash m + of_nat b) = Some (of_nat i)" using a(4) by simp
  then have chk: "check_index k (name_hash m + of_nat b) (of_nat i) sa' c = c" for c :: "(bool \<times> static_analysis) res"
    by (auto simp: check_index_def sa_index_def)
  have "parse_line blk (render r) sa = Inr (True, sa')"
    unfolding parse_line_def rec strtok_render [OF ok] prod.case Let_def
    using a(1) chk by (cases k) (simp_all add: bci index_of_hex [OF bi(2)] kind_tag_strncmp)
  moreover have "sa_index k' sa' = sa_index k' sa ++ map_of (bindings k' [r])" for k'
    using a(4) by (auto simp: bindings_def rec)
  ultimately show ?thesis using a by blast
qed

definition render_file :: "sa_record list \<Rightarrow> string" where
  "render_file rs = concat (map (\<lambda>r. render r @ [newline]) rs)"

lemma parse_lines_render:
  assumes "sa_inv sa" and "hash_cache_ok N sa" and "prefix_free N"
    and "list_all record_ok rs" and "record_name ` set rs \<subseteq> N"
  shows "\<exists>sa'. parse_lines blk (render_file rs) sa = Inr (True, sa') \<and> sa_inv sa'
    \<and> (\<forall>k. sa_index k sa' = sa_index k sa ++ map_of (rev (bindings k rs)))"
  using assms
proof (induction rs arbitrary: sa)
  case Nil
  then show ?case
    by (subst parse_lines.simps) (auto simp: render_file_def fgets_def bindings_def)
next
  case (Cons r rs)
  have r: "record_ok r" "record_name r \<in> N" and rs: "list_all record_ok rs" "record_name ` set rs \<subseteq> N"
    using Cons.prems by auto
  obtain sa1 where p: "parse_line blk (render r) sa = Inr (True, sa1)" "sa_inv sa1" "hash_cache_ok N sa1"
      "\<forall>k. sa_index k sa1 = sa_index k sa ++ map_of (bindings k [r])"
    using parse_line_ok [OF Cons.prems(1-3) r] by blast
  obtain sa2 where q: "parse_lines blk (render_file rs) sa1 = Inr (True, sa2)" "sa_inv sa2"
      "\<forall>k. sa_index k sa2 = sa_index k sa1 ++ map_of (rev (bindings k rs))"
    using Cons.IH [OF p(2,3) Cons.prems(3) rs] by blast
  have f: "fgets BUF_LEN (render_file (r # rs)) = Some (render r @ [newline], render_file rs)"
    using r(1) render_chars [OF r(1)] fgets_take_line [of "render r" "BUF_LEN - 1" "render_file rs"]
    by (auto simp: fgets_def render_file_def record_ok_def)
  have "parse_lines blk (render_file (r # rs)) sa = Inr (True, sa2)"
    by (subst parse_lines.simps) (simp add: f chop_line_line render_chars [OF r(1)] p(1) q(1))
  moreover have "sa_index k sa2 = sa_index k sa ++ map_of (rev (bindings k (r # rs)))" for k
    using p(4) q(3) by (auto simp: bindings_def)
  ultimately show ?case using q(2) by blast
qed

section \<open>Queries\<close>

text \<open>What the thread contexts see of an entry: its index and whether it is tracked.\<close>

definition sa_view :: "ctx_kind \<Rightarrow> static_analysis \<Rightarrow> uint \<Rightarrow> (uint \<times> uint) option" where
  "sa_view k sa key =
     map_option (\<lambda>a. (ci_index (sa_cis sa ! a), ci_track_context (sa_cis sa ! a))) (get_value (sa_table k sa) key)"

definition site_key :: "method_desc list \<Rightarrow> nat \<Rightarrow> jint \<Rightarrow> uint" where
  "site_key ms m bci = name_hash (method_full_name (ms ! m)) + bci"

definition profiled :: "sa_config \<Rightarrow> method_desc \<Rightarrow> bool" where
  "profiled cfg m \<longleftrightarrow> NG2CStaticAnalysis cfg \<noteq> None
     \<or> UseROLP cfg \<and> \<not> strncmp_eq (method_full_name m) ''java'' 4"

lemma sa_index_view: "sa_index k sa key = map_option fst (sa_view k sa key)"
  by (simp add: sa_index_def sa_view_def option.map_comp comp_def)

lemma set_method_bci_keeps:
  assumes "a < length (sa_cis sa)"
  shows "sa_table k (set_method_bci a m bci sa) = sa_table k sa"
    and "sa_view k (set_method_bci a m bci sa) = sa_view k sa"
    and "sa_inv (set_method_bci a m bci sa) = sa_inv sa"
    and "sa_cis (set_method_bci a m bci sa) ! a = ci_set_method_bci m bci (sa_cis sa ! a)"
    and "length (sa_cis (set_method_bci a m bci sa)) = length (sa_cis sa)"
  using assms
  by (auto simp: set_method_bci_def sa_view_def sa_inv_alt fun_eq_iff nth_list_update ci_set_method_bci_def
      map_option_case split: option.splits)

lemma add_index_key_view:
  assumes inv: "sa_inv sa" and add: "add_index_key blk k key index sa = Inr (r, sa')"
  shows "sa_view k' sa' = (if k' = k then (sa_view k sa)(key \<mapsto> (index, 0)) else sa_view k' sa)"
  using add_index_key_ok [OF inv, of blk k key index] add sa_inv_get_value [OF inv]
  by (auto simp: sa_view_def fun_eq_iff nth_append new_ContextIndex_def map_option_case split: option.splits)

lemma get_context_not_profiled:
  "\<not> profiled cfg (ms ! m) \<Longrightarrow> get_context cfg blk k m bci (ms, sa) = Inr (None, ms, sa)"
  by (auto simp: get_context_def profiled_def)

text \<open>The entry of the site after a query: the one it had; else, without a file, a new one.\<close>

definition entry_after :: "sa_config \<Rightarrow> ctx_kind \<Rightarrow> static_analysis \<Rightarrow> uint \<Rightarrow> (uint \<times> uint) option" where
  "entry_after cfg k sa key =
     (case sa_view k sa key of
        Some v \<Rightarrow> Some v
      | None \<Rightarrow> if NG2CStaticAnalysis cfg = None then Some (key AND 0xFFFF, 0) else None)"

lemma get_context_ok:
  assumes inv: "sa_inv sa" and m: "m < length ms" "method_ok (ms ! m)" and prof: "profiled cfg (ms ! m)"
  shows "\<exists>ci ms' sa'. get_context cfg blk k m bci (ms, sa) = Inr (ci, ms', sa')
    \<and> ms' = snd (hash_Method m bci ms) \<and> sa_inv sa'
    \<and> map_option (\<lambda>a. (ci_index (sa_cis sa' ! a), ci_track_context (sa_cis sa' ! a))) ci
        = entry_after cfg k sa (site_key ms m bci)
    \<and> (\<forall>k'. sa_view k' sa' =
         (if k' = k then (sa_view k sa)(site_key ms m bci := entry_after cfg k sa (site_key ms m bci))
          else sa_view k' sa))"
proof -
  let ?key = "site_key ms m bci"
  obtain ms' where h: "hash_Method m bci ms = (?key, ms')"
    using hash_Method_key(1) [OF m(2,1), of bci] by (metis prod.collapse site_key_def)
  have guard: "(\<not> UseROLP cfg \<and> NG2CStaticAnalysis cfg = None) = False"
    "(NG2CStaticAnalysis cfg = None \<and> strncmp_eq (method_full_name (ms ! m)) ''java'' 4) = False"
    using prof by (auto simp: profiled_def)
  note G = get_context_def [of cfg blk k m bci "(ms, sa)"] prod.case guard if_False h Let_def
  consider (found) a where "get_value (sa_table k sa) ?key = Some a"
    | (filed) "get_value (sa_table k sa) ?key = None" "NG2CStaticAnalysis cfg \<noteq> None"
    | (fresh) "get_value (sa_table k sa) ?key = None" "NG2CStaticAnalysis cfg = None"
    by (cases "get_value (sa_table k sa) ?key") auto
  then show ?thesis
  proof cases
    case found
    have a: "a < length (sa_cis sa)" using sa_inv_get_value [OF inv found] .
    have v: "sa_view k sa ?key = Some (ci_index (sa_cis sa ! a), ci_track_context (sa_cis sa ! a))"
      using found by (simp add: sa_view_def)
    have "get_context cfg blk k m bci (ms, sa) = Inr (Some a, ms', set_method_bci a m bci sa)"
      unfolding G by (simp add: found)
    then show ?thesis
      using set_method_bci_keeps [OF a] inv h v
      by (auto simp: entry_after_def ci_set_method_bci_def fun_upd_idem)
  next
    case filed
    then have "get_context cfg blk k m bci (ms, sa) = Inr (None, ms', sa)"
      unfolding G by (auto simp: h)
    moreover have "sa_view k sa ?key = None" using filed by (simp add: sa_view_def)
    ultimately show ?thesis
      using filed inv h by (auto simp: entry_after_def fun_upd_idem)
  next
    case fresh
    let ?n = "length (sa_cis sa)"
    obtain sa1 where a: "add_index_key blk k ?key (?key AND 0xFFFF) sa = Inr (?key, sa1)" "sa_inv sa1"
        "get_value (sa_table k sa1) ?key = Some ?n" "sa_cis sa1 = sa_cis sa @ [new_ContextIndex (?key AND 0xFFFF)]"
      using add_index_key_ok [OF inv, of blk k ?key "?key AND 0xFFFF"] by auto
    have n: "?n < length (sa_cis sa1)" using a(4) by simp
    have "get_context cfg blk k m bci (ms, sa) = Inr (Some ?n, ms', set_method_bci ?n m bci sa1)"
      unfolding G using fresh a by simp
    moreover have "entry_after cfg k sa ?key = Some (?key AND 0xFFFF, 0)"
      using fresh by (simp add: entry_after_def sa_view_def)
    ultimately show ?thesis
      using set_method_bci_keeps [OF n] add_index_key_view [OF inv a(1)] a h
      by (auto simp: ci_set_method_bci_def new_ContextIndex_def)
  qed
qed

lemma get_index_ok:
  assumes "sa_inv sa" and "m < length ms" "method_ok (ms ! m)" and "profiled cfg (ms ! m)"
  shows "\<exists>ms' sa'. get_index cfg blk k m bci (ms, sa) =
      Inr (case entry_after cfg k sa (site_key ms m bci) of None \<Rightarrow> 0 | Some v \<Rightarrow> fst v, ms', sa')
    \<and> ms' = snd (hash_Method m bci ms) \<and> sa_inv sa'
    \<and> (\<forall>k'. sa_view k' sa' =
         (if k' = k then (sa_view k sa)(site_key ms m bci := entry_after cfg k sa (site_key ms m bci))
          else sa_view k' sa))"
proof -
  obtain ci ms' sa' where g: "get_context cfg blk k m bci (ms, sa) = Inr (ci, ms', sa')"
      "ms' = snd (hash_Method m bci ms)" "sa_inv sa'"
      "map_option (\<lambda>a. (ci_index (sa_cis sa' ! a), ci_track_context (sa_cis sa' ! a))) ci
        = entry_after cfg k sa (site_key ms m bci)"
      "\<forall>k'. sa_view k' sa' =
         (if k' = k then (sa_view k sa)(site_key ms m bci := entry_after cfg k sa (site_key ms m bci))
          else sa_view k' sa)"
    using get_context_ok [OF assms, of blk k bci] by blast
  then show ?thesis
    unfolding g(4) [symmetric] by (auto simp: get_index_def split: option.splits)
qed

section \<open>Properties\<close>

text \<open>C5. A file written as the class describes it, whose method names are not prefixes of one
  another, is read without a failing assertion, and afterwards the index of a call or
  allocation site is the one of the last record of its kind whose method and bytecode position
  have the same key, and 0 when there is none.\<close>

theorem static_analysis_file_index:
  assumes rs: "list_all record_ok rs" "prefix_free (record_name ` set rs)"
    and fl: "fopen f = Some (render_file rs)" "NG2CStaticAnalysis cfg = Some f"
    and m: "m < length ms" "method_ok (ms ! m)"
  shows "\<exists>sa ms' sa'. new_StaticAnalysis blk fopen (Some f) = Inr sa
    \<and> get_index cfg blk k m bci (ms, sa) =
        Inr (case map_of (rev (bindings k rs)) (site_key ms m bci) of None \<Rightarrow> 0 | Some i \<Rightarrow> i, ms', sa')"
proof -
  have "hash_cache_ok (record_name ` set rs) sa_empty" by (simp add: hash_cache_ok_def sa_empty_def)
  then obtain sa where p: "parse_lines blk (render_file rs) sa_empty = Inr (True, sa)" "sa_inv sa"
      "\<forall>k. sa_index k sa = sa_index k sa_empty ++ map_of (rev (bindings k rs))"
    using parse_lines_render [OF sa_inv_empty _ rs(2,1)] by blast
  have n: "new_StaticAnalysis blk fopen (Some f) = Inr sa"
    using fl p(1) by (simp add: new_StaticAnalysis_def parse_from_file_def)
  have pr: "profiled cfg (ms ! m)" using fl by (simp add: profiled_def)
  have "(case entry_after cfg k sa key of None \<Rightarrow> 0 | Some v \<Rightarrow> fst v)
      = (case sa_index k sa key of None \<Rightarrow> 0 | Some i \<Rightarrow> i)" for key
    using fl(2) by (auto simp: entry_after_def sa_index_view split: option.splits)
  moreover have "sa_index k sa key = map_of (rev (bindings k rs)) key" for key
    using p(3) by (simp add: sa_index_empty map_add_def split: option.splits)
  ultimately show ?thesis
    using get_index_ok [OF p(2) m pr, of blk k bci] n by auto
qed

text \<open>Without a file, a site's first query gives it the low 16 bits of its key unless it has
  an index already; every later query of the same site returns the same index.\<close>

theorem get_index_stable:
  assumes inv: "sa_inv sa" and m: "m < length ms" "method_ok (ms ! m)"
    and cfg: "UseROLP cfg" "NG2CStaticAnalysis cfg = None"
    and app: "\<not> strncmp_eq (method_full_name (ms ! m)) ''java'' 4"
  shows "\<exists>i st1 st2. get_index cfg blk k m bci (ms, sa) = Inr (i, st1) \<and> get_index cfg blk k m bci st1 = Inr (i, st2)
    \<and> i = (case sa_index k sa (site_key ms m bci) of Some j \<Rightarrow> j | None \<Rightarrow> site_key ms m bci AND 0xFFFF)"
proof -
  let ?key = "site_key ms m bci"
  have pr: "profiled cfg (ms ! m)" using cfg app by (simp add: profiled_def)
  obtain ms1 sa1 where q: "get_index cfg blk k m bci (ms, sa) =
        Inr (case entry_after cfg k sa ?key of None \<Rightarrow> 0 | Some v \<Rightarrow> fst v, ms1, sa1)"
      "ms1 = snd (hash_Method m bci ms)" "sa_inv sa1"
      "sa_view k sa1 = (sa_view k sa)(?key := entry_after cfg k sa ?key)"
    using get_index_ok [OF inv m pr, of blk k bci] by auto
  have n: "map method_full_name ms1 = map method_full_name ms" using hash_Method_key(3) [OF m(2,1)] q(2) by simp
  then have l: "length ms1 = length ms" by (metis length_map)
  have nm: "method_full_name (ms1 ! m) = method_full_name (ms ! m)"
    using n m(1) l by (metis nth_map)
  have ok1: "method_ok (ms1 ! m)" using m q(2) by (auto simp: hash_Method_def method_ok_def name_hash_def Let_def)
  have key: "site_key ms1 m bci = ?key" by (simp add: site_key_def nm)
  have pr1: "profiled cfg (ms1 ! m)" using pr nm by (simp add: profiled_def)
  have "entry_after cfg k sa1 ?key = entry_after cfg k sa ?key"
    using q(4) cfg by (auto simp: entry_after_def split: option.splits)
  then have "\<exists>st2. get_index cfg blk k m bci (ms1, sa1) =
      Inr (case entry_after cfg k sa ?key of None \<Rightarrow> 0 | Some v \<Rightarrow> fst v, st2)"
    using get_index_ok [OF q(3) _ ok1 pr1, of blk k bci] m l key by auto
  moreover have "(case entry_after cfg k sa ?key of None \<Rightarrow> 0 | Some v \<Rightarrow> fst v)
      = (case sa_index k sa ?key of Some j \<Rightarrow> j | None \<Rightarrow> ?key AND 0xFFFF)"
    using cfg by (auto simp: entry_after_def sa_index_view split: option.splits)
  ultimately show ?thesis using q(1) by auto
qed

text \<open>An example method, before and after its name was hashed.\<close>

definition ex_method :: method_desc where
  "ex_method = \<lparr>m_klass_name = ''a'', m_name = ''f'', m_signature = ''()V'', m_context = 0\<rparr>"

definition ex_hashed :: method_desc where
  "ex_hashed = ex_method\<lparr>m_context := name_hash (method_full_name ex_method)\<rparr>"

lemma ex_full_name: "method_full_name ex_method = ''a.f()V''"
  by (simp add: method_full_name_def ex_method_def name_and_sig_as_C_string_def BUF_LEN_def
      as_klass_external_name_def symbol_as_C_string_def)

lemma ex_name_hash: "name_hash ''a.f()V'' \<noteq> 0"
  by (simp add: name_hash_def bytes_of_string_def murmur3_32_bytes_def block_of_bytes_def mix_h1_def mix_k1_def
      Integer_rotateLeft_def murmur_tail_k1_def fmix_def Let_def)

lemma ex_method_ok: "method_ok ex_method"
  by (simp add: method_ok_def ex_method_def)

lemma ex_hashed_ok: "method_ok ex_hashed"
  by (simp add: method_ok_def ex_hashed_def)

lemma ex_hashed_context: "m_context ex_hashed \<noteq> 0"
  by (simp add: ex_hashed_def ex_full_name ex_name_hash)

theorem static_analysis_file_index_witness:
  "\<exists>sa ms' sa'. new_StaticAnalysis id [''f'' \<mapsto> render_file [(Alloc_Ctx, ''a.f()V'', 3, 48879)]] (Some ''f'') = Inr sa
    \<and> get_index \<lparr>UseROLP = False, NG2CStaticAnalysis = Some ''f''\<rparr> id Alloc_Ctx 0 3 ([ex_method], sa)
      = Inr (48879, ms', sa')"
proof -
  have "record_ok (Alloc_Ctx, ''a.f()V'', 3, 48879)"
    by (simp add: record_ok_def render_def kind_tag_def BUF_LEN_def colon_def newline_def NUL_def show_base.simps)
  moreover have "map_of (rev (bindings Alloc_Ctx [(Alloc_Ctx, ''a.f()V'', 3, 48879)])) (site_key [ex_method] 0 3) = Some 48879"
    by (simp add: bindings_def site_key_def ex_full_name)
  ultimately show ?thesis
    using static_analysis_file_index [of "[(Alloc_Ctx, ''a.f()V'', 3, 48879)]" "[''f'' \<mapsto> render_file [(Alloc_Ctx, ''a.f()V'', 3, 48879)]]"
        "''f''" "\<lparr>UseROLP = False, NG2CStaticAnalysis = Some ''f''\<rparr>" 0 "[ex_method]" id Alloc_Ctx 3]
    by (simp add: prefix_free_def ex_method_ok)
qed

theorem get_index_stable_witness:
  "\<exists>i st1 st2. get_index \<lparr>UseROLP = True, NG2CStaticAnalysis = None\<rparr> id Invoke_Ctx 0 3 ([ex_method], sa_empty) = Inr (i, st1)
    \<and> get_index \<lparr>UseROLP = True, NG2CStaticAnalysis = None\<rparr> id Invoke_Ctx 0 3 st1 = Inr (i, st2)
    \<and> i = site_key [ex_method] 0 3 AND 0xFFFF"
  using get_index_stable [OF sa_inv_empty, of 0 "[ex_method]" "\<lparr>UseROLP = True, NG2CStaticAnalysis = None\<rparr>" id Invoke_Ctx 3]
  by (simp add: ex_method_ok ex_full_name sa_index_empty NUL_def)

end
