(* ===== verification/Thread_Context.thy ===== *)
theory Thread_Context
  imports Static_Analysis
begin

text \<open>
  The context of a Java thread (runtime/thread.cpp): \<^verbatim>\<open>calculate_context\<close>, which
  recomputes it from the stack at a safepoint, and \<^verbatim>\<open>do_uncontext\<close>, which takes the
  index of a call back when an exception leaves the callee.

  The walk of the frames (\<^verbatim>\<open>last_java_vframe\<close> and \<^verbatim>\<open>sender\<close>) is the list of the
  virtual frames, innermost first, which starts at the last Java frame and is empty when the
  thread has none.
\<close>

section \<open>State\<close>

record vframe =
  vf_is_java :: bool
  vf_method :: nat
  vf_bci :: jint
  vf_is_compiled :: bool

record java_thread =
  jt_context :: uint
  jt_frames :: "vframe list"

type_synonym sa_state = "method_desc list \<times> static_analysis"

definition initial_context :: uint where
  "initial_context = 0xFFFF"

section \<open>Operations\<close>

text \<open>\<^verbatim>\<open>ci != NULL && ci->track_context()\<close> and then the index: what a call site adds.\<close>

definition tracked_index :: "nat option \<Rightarrow> static_analysis \<Rightarrow> uint option" where
  "tracked_index ci sa =
     (case ci of
        None \<Rightarrow> None
      | Some a \<Rightarrow> if ci_track_context (sa_cis sa ! a) \<noteq> 0 then Some (ci_index (sa_cis sa ! a)) else None)"

text \<open>The loop of \<^verbatim>\<open>calculate_context\<close>; \<open>None\<close> is its early \<^verbatim>\<open>return\<close>.\<close>

fun calc_frames ::
    "sa_config \<Rightarrow> (nat \<Rightarrow> nat) \<Rightarrow> nat \<Rightarrow> vframe list \<Rightarrow> nat \<Rightarrow> uint \<Rightarrow> sa_state \<Rightarrow>
     (uint option \<times> sa_state) res" where
  "calc_frames cfg blk MaxJavaStackTraceDepth [] cnt calc st = Inr (Some calc, st)"
| "calc_frames cfg blk MaxJavaStackTraceDepth (f # fs) cnt calc st =
     (if \<not> vf_is_java f then calc_frames cfg blk MaxJavaStackTraceDepth fs cnt calc st
      else if cnt = 0 then calc_frames cfg blk MaxJavaStackTraceDepth fs (cnt + 1) calc st
      else if MaxJavaStackTraceDepth = cnt + 1 then Inr (None, st)
      else if m_context (fst st ! vf_method f) = 0 then Inr (None, st)
      else if \<not> vf_is_compiled f then calc_frames cfg blk MaxJavaStackTraceDepth fs (cnt + 1) calc st
      else rbind (get_invoke_context cfg blk (vf_method f) (vf_bci f) st)
             (\<lambda>(ci, st').
                calc_frames cfg blk MaxJavaStackTraceDepth fs (cnt + 1)
                  (case tracked_index ci (snd st') of None \<Rightarrow> calc | Some i \<Rightarrow> calc + i) st'))"

definition calculate_context ::
    "sa_config \<Rightarrow> (nat \<Rightarrow> nat) \<Rightarrow> nat \<Rightarrow> java_thread \<Rightarrow> sa_state \<Rightarrow> (java_thread \<times> sa_state) res" where
  "calculate_context cfg blk MaxJavaStackTraceDepth t st =
     (if jt_frames t = [] then Inr (t, st)
      else rbind (calc_frames cfg blk MaxJavaStackTraceDepth (jt_frames t) 0 initial_context st)
             (\<lambda>(calc, st').
                (case calc of
                   None \<Rightarrow> Inr (t, st')
                 | Some c \<Rightarrow> Inr (if c \<noteq> jt_context t then t\<lparr>jt_context := c\<rparr> else t, st'))))"

definition do_uncontext ::
    "sa_config \<Rightarrow> (nat \<Rightarrow> nat) \<Rightarrow> java_thread \<Rightarrow> sa_state \<Rightarrow> (java_thread \<times> sa_state) res" where
  "do_uncontext cfg blk t st =
     (case jt_frames t of
        [] \<Rightarrow> Inr (t, st)
      | jvf # _ \<Rightarrow>
          if m_context (fst st ! vf_method jvf) = 0 then Inr (t, st)
          else rbind (get_invoke_context cfg blk (vf_method jvf) (vf_bci jvf) st)
                 (\<lambda>(ci, st').
                    Inr (if vf_is_compiled jvf
                         then (case tracked_index ci (snd st') of
                                 None \<Rightarrow> t
                               | Some i \<Rightarrow> t\<lparr>jt_context := jt_context t - i\<rparr>)
                         else t, st')))"

section \<open>Specification\<close>

text \<open>The context a stack should have: the initial one plus the tracked index of every
  compiled caller.\<close>

definition view_weight :: "(uint \<times> uint) option \<Rightarrow> uint" where
  "view_weight v = (case v of None \<Rightarrow> 0 | Some (i, track) \<Rightarrow> if track \<noteq> 0 then i else 0)"

definition frame_weight :: "sa_config \<Rightarrow> sa_state \<Rightarrow> vframe \<Rightarrow> uint" where
  "frame_weight cfg st f =
     (if vf_is_compiled f \<and> profiled cfg (fst st ! vf_method f)
      then view_weight (sa_view Invoke_Ctx (snd st) (site_key (fst st) (vf_method f) (vf_bci f)))
      else 0)"

definition stack_context :: "sa_config \<Rightarrow> sa_state \<Rightarrow> vframe list \<Rightarrow> uint" where
  "stack_context cfg st fs =
     initial_context + sum_list (map (frame_weight cfg st) (drop 1 (filter vf_is_java fs)))"

text \<open>A frame whose method was hashed when it was compiled.\<close>

definition frame_ok :: "method_desc list \<Rightarrow> vframe \<Rightarrow> bool" where
  "frame_ok ms f \<longleftrightarrow> vf_method f < length ms \<and> m_context (ms ! vf_method f) \<noteq> 0
     \<and> method_ok (ms ! vf_method f)"

text \<open>The callers whose frames the walk visits, and the two conditions under which it gets to
  the end of the stack: no caller of a method that was never hashed, compiled or not, and not
  as many Java frames as the trace depth.  A depth of 0 or 1 is never met, since the innermost
  frame is skipped before the test.\<close>

definition callers :: "vframe list \<Rightarrow> vframe list" where
  "callers fs = drop 1 (filter vf_is_java fs)"

definition all_hashed :: "method_desc list \<Rightarrow> vframe list \<Rightarrow> bool" where
  "all_hashed ms fs \<longleftrightarrow> list_all (\<lambda>f. m_context (ms ! vf_method f) \<noteq> 0) (callers fs)"

definition depth_ok :: "nat \<Rightarrow> vframe list \<Rightarrow> bool" where
  "depth_ok depth fs \<longleftrightarrow> depth < 2 \<or> length (filter vf_is_java fs) < depth"

section \<open>Lemmas\<close>

lemma get_invoke_context_weight:
  assumes inv: "sa_inv sa" and f: "frame_ok ms f"
  shows "\<exists>ci sa'. get_invoke_context cfg blk (vf_method f) (vf_bci f) (ms, sa) = Inr (ci, ms, sa')
    \<and> sa_inv sa' \<and> (\<forall>g. frame_weight cfg (ms, sa') g = frame_weight cfg (ms, sa) g)
    \<and> (vf_is_compiled f \<longrightarrow>
         (case tracked_index ci sa' of None \<Rightarrow> 0 | Some i \<Rightarrow> i) = frame_weight cfg (ms, sa) f)"
proof (cases "profiled cfg (ms ! vf_method f)")
  case False
  then show ?thesis
    using get_context_not_profiled [OF False] inv
    by (auto simp: get_invoke_context_def tracked_index_def frame_weight_def)
next
  case True
  have m: "vf_method f < length ms" "method_ok (ms ! vf_method f)" using f by (auto simp: frame_ok_def)
  have same: "snd (hash_Method (vf_method f) (vf_bci f) ms) = ms"
    using f by (simp add: hash_Method_def frame_ok_def Let_def)
  let ?key = "site_key ms (vf_method f) (vf_bci f)"
  obtain ci sa' where g: "get_context cfg blk Invoke_Ctx (vf_method f) (vf_bci f) (ms, sa) = Inr (ci, ms, sa')"
      "sa_inv sa'"
      "map_option (\<lambda>a. (ci_index (sa_cis sa' ! a), ci_track_context (sa_cis sa' ! a))) ci
         = entry_after cfg Invoke_Ctx sa ?key"
      "sa_view Invoke_Ctx sa' = (sa_view Invoke_Ctx sa)(?key := entry_after cfg Invoke_Ctx sa ?key)"
    using get_context_ok [OF inv m True, of blk Invoke_Ctx "vf_bci f"] same by auto
  have w: "view_weight (entry_after cfg Invoke_Ctx sa ?key) = view_weight (sa_view Invoke_Ctx sa ?key)"
    by (auto simp: entry_after_def view_weight_def split: option.splits)
  have "(case tracked_index ci sa' of None \<Rightarrow> 0 | Some i \<Rightarrow> i) = view_weight (entry_after cfg Invoke_Ctx sa ?key)"
    unfolding g(3) [symmetric] by (auto simp: tracked_index_def view_weight_def split: option.splits)
  moreover have "\<forall>h. frame_weight cfg (ms, sa') h = frame_weight cfg (ms, sa) h"
    using g(4) w by (auto simp: frame_weight_def)
  ultimately show ?thesis
    using g(1,2) w True by (auto simp: get_invoke_context_def frame_weight_def)
qed

lemma calc_frames_run:
  assumes "sa_inv sa" and "\<forall>f \<in> set fs. vf_method f < length ms" and "list_all method_ok ms" and "0 < cnt"
  shows "\<exists>sa'. calc_frames cfg blk depth fs cnt calc (ms, sa)
      = Inr (if list_all (\<lambda>f. m_context (ms ! vf_method f) \<noteq> 0) (filter vf_is_java fs)
                \<and> (depth \<le> cnt \<or> cnt + length (filter vf_is_java fs) < depth)
             then Some (calc + sum_list (map (frame_weight cfg (ms, sa)) (filter vf_is_java fs))) else None, ms, sa')
    \<and> sa_inv sa' \<and> (\<forall>g. frame_weight cfg (ms, sa') g = frame_weight cfg (ms, sa) g)"
  using assms
proof (induction fs arbitrary: sa cnt calc)
  case (Cons f fs)
  note IH = Cons.IH [OF _ _ Cons.prems(3)]
  consider (skip) "\<not> vf_is_java f" | (bail) "vf_is_java f" "depth = cnt + 1 \<or> m_context (ms ! vf_method f) = 0"
    | (interp) "vf_is_java f" "depth \<noteq> cnt + 1" "m_context (ms ! vf_method f) \<noteq> 0" "\<not> vf_is_compiled f"
    | (comp) "vf_is_java f" "depth \<noteq> cnt + 1" "m_context (ms ! vf_method f) \<noteq> 0" "vf_is_compiled f"
    by blast
  then show ?case
  proof cases
    case skip
    then show ?thesis using IH [OF Cons.prems(1), of cnt calc] Cons.prems by (simp cong: if_cong split del: if_split)
  next
    case bail
    then show ?thesis using Cons.prems by auto
  next
    case interp
    then have "frame_weight cfg (ms, sa) f = 0" by (simp add: frame_weight_def)
    then show ?thesis using interp IH [OF Cons.prems(1), of "cnt + 1" calc] Cons.prems
      by (auto simp: le_Suc_eq)
  next
    case comp
    have "frame_ok ms f" using comp Cons.prems by (auto simp: frame_ok_def list_all_length)
    then obtain ci sa1 where g: "get_invoke_context cfg blk (vf_method f) (vf_bci f) (ms, sa) = Inr (ci, ms, sa1)"
        "sa_inv sa1" "\<forall>g. frame_weight cfg (ms, sa1) g = frame_weight cfg (ms, sa) g"
        "(case tracked_index ci sa1 of None \<Rightarrow> 0 | Some i \<Rightarrow> i) = frame_weight cfg (ms, sa) f"
      using get_invoke_context_weight [OF Cons.prems(1), of ms f cfg blk] comp by auto
    let ?calc = "calc + frame_weight cfg (ms, sa) f"
    have step: "(case tracked_index ci sa1 of None \<Rightarrow> calc | Some i \<Rightarrow> calc + i) = ?calc"
      using g(4) by (auto split: option.splits)
    have w: "frame_weight cfg (ms, sa1) = frame_weight cfg (ms, sa)" using g(3) by auto
    have "calc_frames cfg blk depth (f # fs) cnt calc (ms, sa) = calc_frames cfg blk depth fs (cnt + 1) ?calc (ms, sa1)"
      using comp g(1) step Cons.prems(4) by simp
    then show ?thesis using IH [OF g(2), of "cnt + 1" ?calc] Cons.prems comp unfolding w
      by (auto simp: le_Suc_eq add.assoc)
  qed
qed (auto simp: not_le)

lemma calc_frames_top:
  assumes "sa_inv sa" and "\<forall>f \<in> set fs. vf_method f < length ms" and "list_all method_ok ms"
  shows "\<exists>sa'. calc_frames cfg blk depth fs 0 initial_context (ms, sa)
      = Inr (if all_hashed ms fs \<and> depth_ok depth fs then Some (stack_context cfg (ms, sa) fs) else None, ms, sa')
    \<and> sa_inv sa' \<and> (\<forall>g. frame_weight cfg (ms, sa') g = frame_weight cfg (ms, sa) g)"
  using assms
proof (induction fs)
  case (Cons f fs)
  show ?case
  proof (cases "vf_is_java f")
    case True
    have "depth \<le> Suc 0 \<longleftrightarrow> depth < 2" by auto
    then show ?thesis
      using calc_frames_run [of sa fs ms 1 cfg blk depth initial_context] Cons.prems True
      by (simp cong: if_cong split del: if_split add: stack_context_def depth_ok_def all_hashed_def callers_def)
  next
    case False
    then show ?thesis using Cons by (simp cong: if_cong split del: if_split add: stack_context_def depth_ok_def all_hashed_def callers_def)
  qed
qed (auto simp: stack_context_def depth_ok_def all_hashed_def callers_def)

lemma calculate_context_total:
  assumes "sa_inv sa" and "\<forall>f \<in> set (jt_frames t). vf_method f < length ms" and "list_all method_ok ms"
  shows "\<exists>t' sa'. calculate_context cfg blk depth t (ms, sa) = Inr (t', ms, sa') \<and> sa_inv sa' \<and> jt_frames t' = jt_frames t"
  using calc_frames_top [OF assms, of cfg blk depth] assms(1)
  by (fastforce simp: calculate_context_def split: option.splits)

section \<open>Properties\<close>

text \<open>C7. What \<^verbatim>\<open>calculate_context\<close> leaves in a thread, for every stack.  When every caller's
  method was hashed and the stack has fewer Java frames than the trace depth, it is the context
  of the stack: the initial context plus the tracked index of the call site of every compiled
  caller, modulo \<open>2 ^ 32\<close>, whatever the context was before and although the walk itself adds
  entries to the table.  When a caller's method was never hashed, when the stack is too deep,
  and when the thread has no Java frame, the context is the one the thread had.  In every case
  the walk returns, and it changes the weight of no call site.\<close>

theorem calculate_context_correct:
  assumes "sa_inv sa" and "\<forall>f \<in> set (jt_frames t). vf_method f < length ms" and "list_all method_ok ms"
  shows "\<exists>sa'. calculate_context cfg blk depth t (ms, sa)
      = Inr (if jt_frames t \<noteq> [] \<and> all_hashed ms (jt_frames t) \<and> depth_ok depth (jt_frames t)
             then t\<lparr>jt_context := stack_context cfg (ms, sa) (jt_frames t)\<rparr> else t, ms, sa')
    \<and> sa_inv sa' \<and> (\<forall>g. frame_weight cfg (ms, sa') g = frame_weight cfg (ms, sa) g)"
proof -
  obtain sa' where "calc_frames cfg blk depth (jt_frames t) 0 initial_context (ms, sa)
      = Inr (if all_hashed ms (jt_frames t) \<and> depth_ok depth (jt_frames t)
             then Some (stack_context cfg (ms, sa) (jt_frames t)) else None, ms, sa')"
    "sa_inv sa'" "\<forall>g. frame_weight cfg (ms, sa') g = frame_weight cfg (ms, sa) g"
    using calc_frames_top [OF assms, of cfg blk depth] by blast
  then show ?thesis using assms(1) by (cases t) (auto simp: calculate_context_def)
qed

text \<open>C8. When an exception leaves a callee, \<^verbatim>\<open>do_uncontext\<close> in the caller's frame turns the
  context of the stack with the callee into the context of the stack without it.\<close>

theorem do_uncontext_unwinds:
  assumes inv: "sa_inv sa" and f: "frame_ok ms f" "vf_is_java f" and g: "vf_is_java g"
    and t: "jt_frames t = f # fs" "jt_context t = stack_context cfg (ms, sa) (g # f # fs)"
  shows "\<exists>sa'. do_uncontext cfg blk t (ms, sa)
      = Inr (t\<lparr>jt_context := stack_context cfg (ms, sa) (f # fs)\<rparr>, ms, sa')"
proof -
  obtain ci sa' where c: "get_invoke_context cfg blk (vf_method f) (vf_bci f) (ms, sa) = Inr (ci, ms, sa')"
      "vf_is_compiled f \<longrightarrow> (case tracked_index ci sa' of None \<Rightarrow> 0 | Some i \<Rightarrow> i) = frame_weight cfg (ms, sa) f"
    using get_invoke_context_weight [OF inv f(1), of cfg blk] by blast
  have "jt_context t - frame_weight cfg (ms, sa) f = stack_context cfg (ms, sa) (f # fs)"
    using t(2) f(2) g by (simp add: stack_context_def)
  moreover have "\<not> vf_is_compiled f \<Longrightarrow> frame_weight cfg (ms, sa) f = 0"
    by (simp add: frame_weight_def)
  ultimately show ?thesis
    using c f(1) t(1) by (cases t) (auto simp: do_uncontext_def frame_ok_def split: option.splits)
qed

text \<open>A stack of two compiled frames of one method, and a table in which their call site is
  tracked with the index 48879.\<close>

definition ex_frame :: vframe where
  "ex_frame = \<lparr>vf_is_java = True, vf_method = 0, vf_bci = 3, vf_is_compiled = True\<rparr>"

definition ex_thread :: java_thread where
  "ex_thread = \<lparr>jt_context = 7, jt_frames = [ex_frame, ex_frame]\<rparr>"

definition ex_rolp :: sa_config where
  "ex_rolp = \<lparr>UseROLP = True, NG2CStaticAnalysis = None\<rparr>"

definition ex_tracked :: static_analysis where
  "ex_tracked =
     (case add_index_key id Invoke_Ctx (site_key [ex_hashed] 0 3) 48879 sa_empty of
        Inl _ \<Rightarrow> sa_empty
      | Inr (_, sa) \<Rightarrow> sa\<lparr>sa_cis := [set_track_context 1 (sa_cis sa ! 0)]\<rparr>)"

lemma ex_frame_ok: "frame_ok [ex_hashed] ex_frame"
  by (simp add: frame_ok_def ex_frame_def ex_hashed_ok ex_hashed_context)

lemma ex_tracked_ok:
  "sa_inv ex_tracked" "sa_view Invoke_Ctx ex_tracked (site_key [ex_hashed] 0 3) = Some (48879, 1)"
proof -
  obtain sa where sa: "add_index_key id Invoke_Ctx (site_key [ex_hashed] 0 3) 48879 sa_empty
        = Inr (site_key [ex_hashed] 0 3, sa)" "sa_inv sa"
      "get_value (sa_table Invoke_Ctx sa) (site_key [ex_hashed] 0 3) = Some 0" "sa_cis sa = [new_ContextIndex 48879]"
    using add_index_key_ok [OF sa_inv_empty, of id Invoke_Ctx "site_key [ex_hashed] 0 3" 48879]
    by (auto simp: sa_empty_def)
  then have t: "ex_tracked = sa\<lparr>sa_cis := [set_track_context 1 (new_ContextIndex 48879)]\<rparr>"
    by (simp add: ex_tracked_def)
  show "sa_inv ex_tracked" using sa(2,4) by (simp add: t sa_inv_alt)
  show "sa_view Invoke_Ctx ex_tracked (site_key [ex_hashed] 0 3) = Some (48879, 1)"
    using sa(3) by (simp add: t sa_view_def set_track_context_def new_ContextIndex_def)
qed

lemma ex_weight: "frame_weight ex_rolp ([ex_hashed], ex_tracked) ex_frame = 48879"
proof -
  have "method_full_name ex_hashed = ''a.f()V''" by (simp add: ex_hashed_def ex_full_name)
  then show ?thesis
    by (simp add: frame_weight_def ex_frame_def ex_rolp_def profiled_def ex_tracked_ok view_weight_def NUL_def)
qed

lemma ex_context: "stack_context ex_rolp ([ex_hashed], ex_tracked) [ex_frame, ex_frame] = 114414"
    "stack_context ex_rolp ([ex_hashed], ex_tracked) [ex_frame] = 65535"
  using ex_weight by (simp_all add: stack_context_def initial_context_def ex_frame_def)

lemma ex_stack: "vf_is_java ex_frame" "vf_method ex_frame = 0" "m_context ex_hashed \<noteq> 0"
  using ex_hashed_context by (simp_all add: ex_frame_def)

text \<open>The same stack within the depth, too deep, and with a caller that was never hashed.\<close>

theorem calculate_context_correct_witness:
  "(\<exists>sa'. calculate_context ex_rolp id 1024 ex_thread ([ex_hashed], ex_tracked)
      = Inr (ex_thread\<lparr>jt_context := 114414\<rparr>, [ex_hashed], sa'))
   \<and> (\<exists>sa'. calculate_context ex_rolp id 2 ex_thread ([ex_hashed], ex_tracked) = Inr (ex_thread, [ex_hashed], sa'))
   \<and> (\<exists>sa'. calculate_context ex_rolp id 1024 ex_thread ([ex_method], ex_tracked) = Inr (ex_thread, [ex_method], sa'))"
  using calculate_context_correct [OF ex_tracked_ok(1), of ex_thread "[ex_hashed]" ex_rolp id 1024]
    calculate_context_correct [OF ex_tracked_ok(1), of ex_thread "[ex_hashed]" ex_rolp id 2]
    calculate_context_correct [OF ex_tracked_ok(1), of ex_thread "[ex_method]" ex_rolp id 1024]
  by (auto simp: ex_thread_def ex_stack ex_context ex_hashed_ok ex_method_ok all_hashed_def callers_def depth_ok_def)
     (simp_all add: ex_method_def)

theorem do_uncontext_unwinds_witness:
  "\<exists>sa'. do_uncontext ex_rolp id \<lparr>jt_context = 114414, jt_frames = [ex_frame]\<rparr> ([ex_hashed], ex_tracked)
     = Inr (\<lparr>jt_context = 65535, jt_frames = [ex_frame]\<rparr>, [ex_hashed], sa')"
  using do_uncontext_unwinds [OF ex_tracked_ok(1) ex_frame_ok, of ex_frame
      "\<lparr>jt_context = 114414, jt_frames = [ex_frame]\<rparr>" "[]" ex_rolp id]
  by (simp add: ex_stack ex_context)

end
