(* ===== verification/Tlab.thy ===== *)
theory Tlab
  imports Object_Layout Weighted_Average Thread_Context
begin

text \<open>
  Thread-local allocation buffers (memory/threadLocalAllocBuffer.hpp, .inline.hpp, .cpp) and the
  array of buffers NG2C gives each thread, one per generation (runtime/thread.hpp, thread.cpp).
  A buffer knows the region it lies in, and the region counts its buffers.  Addresses are word
  indices and \<^verbatim>\<open>NULL\<close> is 0.  Entry 0 of a thread's array is its eden buffer \<^verbatim>\<open>_tlab\<close>, as in the
  source, where \<^verbatim>\<open>_tlabGenArray[0]\<close> points to it; \<^verbatim>\<open>_genTlab\<close> and \<^verbatim>\<open>_curTlab\<close> are indices into the
  array.  What the heap answers to \<^verbatim>\<open>tlab_capacity\<close> and \<^verbatim>\<open>unsafe_max_tlab_alloc\<close> is an argument.
\<close>

section \<open>Buffers\<close>

record tlab =
  tl_start :: nat
  tl_top :: nat
  tl_pf_top :: nat
  tl_end :: nat
  tl_desired_size :: nat
  tl_refill_waste_limit :: nat
  tl_number_of_refills :: uint
  tl_fast_refill_waste :: uint
  tl_slow_refill_waste :: uint
  tl_gc_waste :: uint
  tl_slow_allocations :: uint
  tl_allocation_fraction :: weighted_average
  tl_my_thread :: nat
  tl_my_heap_region :: "nat option"

definition end_reserve :: "vm_flags \<Rightarrow> nat" where
  "end_reserve fl = max (int_array_header_size fl) (reserve_for_allocation_prefetch fl)"

definition alignment_reserve :: "vm_flags \<Rightarrow> nat" where
  "alignment_reserve fl = align_object_size (end_reserve fl)"

definition tlab_min_size :: "vm_flags \<Rightarrow> nat" where
  "tlab_min_size fl = align_object_size (MinTLABSize fl div HeapWordSize)"

definition tlab_max_size :: "vm_flags \<Rightarrow> nat" where
  "tlab_max_size fl = align_size_down (int_array_header_size fl + 4 * (max_jint div HeapWordSize)) MinObjAlignment"

definition hard_end :: "vm_flags \<Rightarrow> tlab \<Rightarrow> nat" where
  "hard_end fl t = tl_end t + alignment_reserve fl"

definition tlab_remaining :: "vm_flags \<Rightarrow> tlab \<Rightarrow> nat" where
  "tlab_remaining fl t = (if tl_end t = 0 then 0 else hard_end fl t - tl_top t)"

definition tlab_used :: "tlab \<Rightarrow> nat" where
  "tlab_used t = tl_top t - tl_start t"

definition tlab_used_bytes :: "tlab \<Rightarrow> nat" where
  "tlab_used_bytes t = (tl_top t - tl_start t) * HeapWordSize"

definition tlab_free :: "tlab \<Rightarrow> nat" where
  "tlab_free t = tl_end t - tl_top t"

definition tlab_invariants :: "tlab \<Rightarrow> bool" where
  "tlab_invariants t = (tl_start t \<le> tl_top t \<and> tl_top t \<le> tl_end t)"

definition initial_refill_waste_limit :: "vm_flags \<Rightarrow> tlab \<Rightarrow> nat res" where
  "initial_refill_waste_limit fl t =
     (if TLABRefillWasteFraction fl = 0 then Inl (Div_By_Zero ''initial_refill_waste_limit'')
      else Inr (tl_desired_size t div TLABRefillWasteFraction fl))"

section \<open>Allocation in a buffer\<close>

definition tlab_allocate :: "nat \<Rightarrow> tlab \<Rightarrow> (nat option \<times> tlab) res" where
  "tlab_allocate sz t =
     vassert (tlab_invariants t) ''invalid tlab''
       (let p = tl_top t
        in if sz \<le> tl_end t - p
           then (let t1 = t\<lparr>tl_top := p + sz\<rparr> in vassert (tlab_invariants t1) ''invalid tlab'' (Inr (Some p, t1)))
           else Inr (None, t))"

definition compute_size :: "vm_flags \<Rightarrow> nat \<Rightarrow> nat \<Rightarrow> tlab \<Rightarrow> nat" where
  "compute_size fl unsafe_max_tlab_alloc obj_size t =
     (let aligned_obj_size = align_object_size obj_size;
          available_size = unsafe_max_tlab_alloc div HeapWordSize;
          new_tlab_size = min available_size (tl_desired_size t + aligned_obj_size)
      in if new_tlab_size < aligned_obj_size + alignment_reserve fl then 0 else new_tlab_size)"

definition record_slow_allocation :: "vm_flags \<Rightarrow> tlab \<Rightarrow> tlab" where
  "record_slow_allocation fl t =
     t\<lparr>tl_refill_waste_limit := tl_refill_waste_limit t + TLABWasteIncrement fl,
       tl_slow_allocations := tl_slow_allocations t + 1\<rparr>"

definition tlab_initialize_range :: "nat \<Rightarrow> nat \<Rightarrow> nat \<Rightarrow> tlab \<Rightarrow> tlab res" where
  "tlab_initialize_range start tp en t =
     (let t1 = t\<lparr>tl_start := start, tl_top := tp, tl_pf_top := tp, tl_end := en\<rparr>
      in vassert (tlab_invariants t1) ''invalid tlab'' (Inr t1))"

definition tlab_fill :: "vm_flags \<Rightarrow> nat \<Rightarrow> nat \<Rightarrow> nat \<Rightarrow> tlab \<Rightarrow> tlab res" where
  "tlab_fill fl start tp new_size t =
     (let t1 = t\<lparr>tl_number_of_refills := tl_number_of_refills t + 1\<rparr>
      in vassert (tp \<le> start + new_size - alignment_reserve fl) ''size too small''
           (rbind (tlab_initialize_range start tp (start + new_size - alignment_reserve fl) t1) (\<lambda>t2.
            rbind (initial_refill_waste_limit fl t2) (\<lambda>w. Inr (t2\<lparr>tl_refill_waste_limit := w\<rparr>)))))"

section \<open>Retiring a buffer\<close>

definition del_active_tlab :: "g1_env \<Rightarrow> nat \<Rightarrow> g1_heap \<Rightarrow> g1_heap res" where
  "del_active_tlab env p h =
     (let r = (gh_hr h p)\<lparr>hr_active_tlabs := hr_active_tlabs (gh_hr h p) - 1\<rparr>;
          h1 = gh_put p r h
      in if 0 < hr_gen r \<and> hr_active_tlabs r = 0 \<and> \<not> hr_is_gen_alloc_region r
         then enqueue_gen_cards env p h1 else Inr h1)"

text \<open>The result is the buffer, the bytes to add to what the thread has allocated, and the heap.\<close>

definition make_parsable ::
    "vm_flags \<Rightarrow> g1_env \<Rightarrow> bool \<Rightarrow> tlab \<Rightarrow> 'a alloc_state_scheme \<Rightarrow> (tlab \<times> nat \<times> 'a alloc_state_scheme) res" where
  "make_parsable fl env ret t s =
     rbind
       (if tl_end t \<noteq> 0
        then vassert (tlab_invariants t) ''invalid tlab''
          (rbind (fill_with_object fl (tl_top t) (hard_end fl t - tl_top t) s) (\<lambda>s1.
           rbind (if ret
                  then (case tl_my_heap_region t of
                          Some p \<Rightarrow> rbind (del_active_tlab env p (as_heap s1)) (\<lambda>h.
                                      Inr (t\<lparr>tl_my_heap_region := None\<rparr>, tlab_used_bytes t, s1\<lparr>as_heap := h\<rparr>))
                        | None \<Rightarrow> Inr (t, tlab_used_bytes t, s1))
                  else Inr (t, 0, s1)) (\<lambda>(t2, bytes, s2).
             Inr (if ret \<or> ZeroTLAB fl
                  then t2\<lparr>tl_start := 0, tl_top := 0, tl_pf_top := 0, tl_end := 0\<rparr> else t2, bytes, s2))))
        else Inr (t, 0, s))
       (\<lambda>(t3, bytes, s3).
          vassert (\<not> (ret \<or> ZeroTLAB fl) \<or> tl_start t3 = 0 \<and> tl_end t3 = 0 \<and> tl_top t3 = 0) ''TLAB must be reset''
            (Inr (t3, bytes, s3)))"

definition clear_before_allocation ::
    "vm_flags \<Rightarrow> g1_env \<Rightarrow> tlab \<Rightarrow> 'a alloc_state_scheme \<Rightarrow> (tlab \<times> nat \<times> 'a alloc_state_scheme) res" where
  "clear_before_allocation fl env t s =
     make_parsable fl env True
       (t\<lparr>tl_slow_refill_waste := tl_slow_refill_waste t + of_nat (tlab_remaining fl t)\<rparr>) s"

section \<open>Statistics and sizing\<close>

record global_tlab_stats =
  gs_allocating_threads :: uint
  gs_total_refills :: uint
  gs_max_refills :: uint
  gs_total_allocation :: size_t
  gs_total_gc_waste :: size_t
  gs_max_gc_waste :: size_t
  gs_total_slow_refill_waste :: size_t
  gs_max_slow_refill_waste :: size_t
  gs_total_fast_refill_waste :: size_t
  gs_max_fast_refill_waste :: size_t
  gs_total_slow_allocations :: uint
  gs_max_slow_allocations :: uint
  gs_allocating_threads_avg :: weighted_average

record tlab_statics =
  ts_target_refills :: uint
  ts_global_stats :: "global_tlab_stats option"

definition global_stats_initialize :: "global_tlab_stats \<Rightarrow> global_tlab_stats" where
  "global_stats_initialize g =
     g\<lparr>gs_allocating_threads := 0, gs_total_refills := 0, gs_max_refills := 0, gs_total_allocation := 0,
       gs_total_gc_waste := 0, gs_max_gc_waste := 0, gs_total_slow_refill_waste := 0, gs_max_slow_refill_waste := 0,
       gs_total_fast_refill_waste := 0, gs_max_fast_refill_waste := 0, gs_total_slow_allocations := 0, gs_max_slow_allocations := 0\<rparr>"

definition GlobalTLABStats :: "vm_flags \<Rightarrow> global_tlab_stats res" where
  "GlobalTLABStats fl =
     rbind (avg_sample (Fin 1) (AdaptiveWeightedAverage (TLABAllocationWeight fl) (Fin 0))) (\<lambda>a.
       Inr \<lparr>gs_allocating_threads = 0, gs_total_refills = 0, gs_max_refills = 0, gs_total_allocation = 0,
            gs_total_gc_waste = 0, gs_max_gc_waste = 0, gs_total_slow_refill_waste = 0, gs_max_slow_refill_waste = 0,
            gs_total_fast_refill_waste = 0, gs_max_fast_refill_waste = 0, gs_total_slow_allocations = 0,
            gs_max_slow_allocations = 0, gs_allocating_threads_avg = a\<rparr>)"

definition global_stats_publish :: "global_tlab_stats \<Rightarrow> global_tlab_stats res" where
  "global_stats_publish g =
     rbind (avg_sample (fl_of_uint (gs_allocating_threads g)) (gs_allocating_threads_avg g)) (\<lambda>a.
       Inr (g\<lparr>gs_allocating_threads_avg := a\<rparr>))"

definition allocating_threads_avg :: "global_tlab_stats \<Rightarrow> uint res" where
  "allocating_threads_avg g =
     (case aw_average (gs_allocating_threads_avg g) of
        Fin a \<Rightarrow> Inr (max (of_int \<lfloor>round_bits 53 (a + 1 / 2)\<rfloor>) 1)
      | _ \<Rightarrow> Inl (Assert_Failed ''allocating_threads_avg''))"

definition update_allocating_threads :: "global_tlab_stats \<Rightarrow> global_tlab_stats" where
  "update_allocating_threads g = g\<lparr>gs_allocating_threads := gs_allocating_threads g + 1\<rparr>"

definition update_number_of_refills :: "uint \<Rightarrow> global_tlab_stats \<Rightarrow> global_tlab_stats" where
  "update_number_of_refills v g =
     g\<lparr>gs_total_refills := gs_total_refills g + v, gs_max_refills := max (gs_max_refills g) v\<rparr>"

definition update_allocation :: "size_t \<Rightarrow> global_tlab_stats \<Rightarrow> global_tlab_stats" where
  "update_allocation v g = g\<lparr>gs_total_allocation := gs_total_allocation g + v\<rparr>"

definition update_gc_waste :: "size_t \<Rightarrow> global_tlab_stats \<Rightarrow> global_tlab_stats" where
  "update_gc_waste v g =
     g\<lparr>gs_total_gc_waste := gs_total_gc_waste g + v, gs_max_gc_waste := max (gs_max_gc_waste g) v\<rparr>"

definition update_slow_refill_waste :: "size_t \<Rightarrow> global_tlab_stats \<Rightarrow> global_tlab_stats" where
  "update_slow_refill_waste v g =
     g\<lparr>gs_total_slow_refill_waste := gs_total_slow_refill_waste g + v,
       gs_max_slow_refill_waste := max (gs_max_slow_refill_waste g) v\<rparr>"

definition update_fast_refill_waste :: "size_t \<Rightarrow> global_tlab_stats \<Rightarrow> global_tlab_stats" where
  "update_fast_refill_waste v g =
     g\<lparr>gs_total_fast_refill_waste := gs_total_fast_refill_waste g + v,
       gs_max_fast_refill_waste := max (gs_max_fast_refill_waste g) v\<rparr>"

definition update_slow_allocations :: "uint \<Rightarrow> global_tlab_stats \<Rightarrow> global_tlab_stats" where
  "update_slow_allocations v g =
     g\<lparr>gs_total_slow_allocations := gs_total_slow_allocations g + v,
       gs_max_slow_allocations := max (gs_max_slow_allocations g) v\<rparr>"

text \<open>Quotients of sizes are taken in double precision and stored in single precision.\<close>

definition size_ratio :: "nat \<Rightarrow> nat \<Rightarrow> fl" where
  "size_ratio a b =
     (if b = 0 then if a = 0 then NaN else PInf
      else flt (round_bits 53 (round_bits 53 (of_nat a) / round_bits 53 (of_nat b))))"

definition accumulate_statistics ::
    "vm_flags \<Rightarrow> nat \<Rightarrow> nat \<Rightarrow> tlab \<Rightarrow> global_tlab_stats \<Rightarrow> (tlab \<times> global_tlab_stats) res" where
  "accumulate_statistics fl tlab_capacity unsafe_max_tlab_alloc t g =
     (let capacity = tlab_capacity div HeapWordSize;
          unused = unsafe_max_tlab_alloc div HeapWordSize;
          used = nat ((int capacity - int unused) mod 2 ^ 64);
          update_allocation_history = capacity < 2 * used;
          t1 = t\<lparr>tl_gc_waste := tl_gc_waste t + of_nat (tlab_remaining fl t)\<rparr>;
          allocation = ucast (tl_number_of_refills t1) * of_nat (tl_desired_size t1)
      in rbind
           (if 0 < tl_number_of_refills t1
            then rbind (if update_allocation_history
                        then rbind (avg_sample (size_ratio (unat (allocation :: size_t)) used) (tl_allocation_fraction t1)) (\<lambda>a.
                               Inr (t1\<lparr>tl_allocation_fraction := a\<rparr>))
                        else Inr t1) (\<lambda>t2.
                   Inr (t2, update_fast_refill_waste (ucast (tl_fast_refill_waste t2))
                             (update_slow_refill_waste (ucast (tl_slow_refill_waste t2))
                               (update_gc_waste (ucast (tl_gc_waste t2))
                                 (update_allocation allocation
                                   (update_number_of_refills (tl_number_of_refills t2) (update_allocating_threads g)))))))
            else vassert (tl_number_of_refills t1 = 0 \<and> tl_fast_refill_waste t1 = 0 \<and> tl_slow_refill_waste t1 = 0 \<and> tl_gc_waste t1 = 0)
                   ''tlab stats == 0'' (Inr (t1, g)))
           (\<lambda>(t3, g3). Inr (t3, update_slow_allocations (tl_slow_allocations t3) g3)))"

definition initialize_statistics :: "tlab \<Rightarrow> tlab" where
  "initialize_statistics t =
     t\<lparr>tl_number_of_refills := 0, tl_fast_refill_waste := 0, tl_slow_refill_waste := 0, tl_gc_waste := 0, tl_slow_allocations := 0\<rparr>"

definition clamp_size :: "vm_flags \<Rightarrow> nat \<Rightarrow> nat" where
  "clamp_size fl n = min (max n (tlab_min_size fl)) (tlab_max_size fl)"

definition tlab_resize :: "vm_flags \<Rightarrow> uint \<Rightarrow> nat \<Rightarrow> tlab \<Rightarrow> tlab res" where
  "tlab_resize fl target_refills tlab_capacity t =
     (if ResizeTLAB fl
      then (case fl_trunc (fl_mul (aw_average (tl_allocation_fraction t)) (flt (of_nat (tlab_capacity div HeapWordSize)))) of
              None \<Rightarrow> Inl (Assert_Failed ''allocation fraction'')
            | Some alloc \<Rightarrow>
                if target_refills = 0 then Inl (Div_By_Zero ''resize'')
                else let t1 = t\<lparr>tl_desired_size := align_object_size (clamp_size fl (alloc div unat target_refills))\<rparr>
                     in rbind (initial_refill_waste_limit fl t1) (\<lambda>w. Inr (t1\<lparr>tl_refill_waste_limit := w\<rparr>)))
      else Inr t)"

definition initial_desired_size :: "vm_flags \<Rightarrow> tlab_statics \<Rightarrow> nat \<Rightarrow> nat res" where
  "initial_desired_size fl st tlab_capacity =
     (if 0 < TLABSize fl then Inr (min (TLABSize fl div HeapWordSize) (tlab_max_size fl))
      else case ts_global_stats st of
             None \<Rightarrow> Inr (tlab_min_size fl)
           | Some g \<Rightarrow>
               rbind (allocating_threads_avg g) (\<lambda>nof_threads.
                 if nof_threads * ts_target_refills st = 0 then Inl (Div_By_Zero ''initial_desired_size'')
                 else Inr (clamp_size fl (align_object_size
                             (tlab_capacity div HeapWordSize div unat (nof_threads * ts_target_refills st))))))"

text \<open>\<open>heap\<close> is the capacity of the heap for buffers, if there is a heap already.\<close>

definition tlab_initialize :: "vm_flags \<Rightarrow> tlab_statics \<Rightarrow> nat option \<Rightarrow> tlab \<Rightarrow> tlab res" where
  "tlab_initialize fl st heap t =
     rbind (tlab_initialize_range 0 0 0 t) (\<lambda>t1.
     rbind (initial_desired_size fl st (case heap of None \<Rightarrow> 0 | Some c \<Rightarrow> c)) (\<lambda>n.
       let t2 = t1\<lparr>tl_my_heap_region := None, tl_desired_size := n\<rparr>
       in rbind (case heap of
                   Some c \<Rightarrow>
                     rbind (avg_sample (size_ratio (tl_desired_size t2 * unat (ts_target_refills st)) (c div HeapWordSize))
                              (tl_allocation_fraction t2)) (\<lambda>a. Inr (t2\<lparr>tl_allocation_fraction := a\<rparr>))
                 | None \<Rightarrow> Inr t2) (\<lambda>t3.
          rbind (initial_refill_waste_limit fl t3) (\<lambda>w.
            Inr (initialize_statistics (t3\<lparr>tl_refill_waste_limit := w\<rparr>))))))"

section \<open>The buffers of a thread\<close>

record alloc_thread =
  th_id :: nat
  th_tlabGenArray :: "tlab list"
  th_genTlab :: nat
  th_curTlab :: nat
  th_alloc_gen :: int
  th_allocated_bytes :: size_t

text \<open>A buffer as its constructor leaves it; what the source leaves uninitialized is zero.\<close>

definition ThreadLocalAllocBuffer :: "vm_flags \<Rightarrow> nat \<Rightarrow> tlab" where
  "ThreadLocalAllocBuffer fl thread =
     \<lparr>tl_start = 0, tl_top = 0, tl_pf_top = 0, tl_end = 0, tl_desired_size = 0, tl_refill_waste_limit = 0,
      tl_number_of_refills = 0, tl_fast_refill_waste = 0, tl_slow_refill_waste = 0, tl_gc_waste = 0, tl_slow_allocations = 0,
      tl_allocation_fraction = AdaptiveWeightedAverage (TLABAllocationWeight fl) (Fin 0), tl_my_thread = thread,
      tl_my_heap_region = None\<rparr>"

definition set_alloc_gen :: "int \<Rightarrow> alloc_thread \<Rightarrow> alloc_thread res" where
  "set_alloc_gen gen th =
     vassert (0 \<le> gen) ''invalid gen number''
       (if nat gen < length (th_tlabGenArray th)
        then vassert (tl_my_thread (th_tlabGenArray th ! nat gen) = th_id th) ''invariant''
               (Inr (th\<lparr>th_alloc_gen := gen, th_genTlab := nat gen\<rparr>))
        else Inl (Buffer_Overflow ''_tlabGenArray''))"

definition set_cur_tlab :: "bool \<Rightarrow> alloc_thread \<Rightarrow> alloc_thread" where
  "set_cur_tlab gen_alloc th = th\<lparr>th_curTlab := (if gen_alloc then th_genTlab th else 0)\<rparr>"

text \<open>The second component is the context of the new thread.\<close>

definition new_Thread :: "vm_flags \<Rightarrow> nat \<Rightarrow> (alloc_thread \<times> uint) res" where
  "new_Thread fl tid =
     rbind (set_alloc_gen 1
       \<lparr>th_id = tid, th_tlabGenArray = replicate NG2C_GEN_ARRAY_SIZE (ThreadLocalAllocBuffer fl tid),
        th_genTlab = 0, th_curTlab = 0, th_alloc_gen = 0, th_allocated_bytes = 0\<rparr>) (\<lambda>th.
       Inr (set_cur_tlab False th, initial_context))"

definition th_tlab :: "alloc_thread \<Rightarrow> tlab" where
  "th_tlab th = th_tlabGenArray th ! 0"

definition th_tlab_gen :: "alloc_thread \<Rightarrow> tlab" where
  "th_tlab_gen th = th_tlabGenArray th ! th_genTlab th"

definition put_tlab :: "nat \<Rightarrow> tlab \<Rightarrow> alloc_thread \<Rightarrow> alloc_thread" where
  "put_tlab i t th = th\<lparr>th_tlabGenArray := (th_tlabGenArray th)[i := t]\<rparr>"

definition initialize_tlab :: "vm_flags \<Rightarrow> tlab_statics \<Rightarrow> nat option \<Rightarrow> alloc_thread \<Rightarrow> alloc_thread res" where
  "initialize_tlab fl st heap th =
     (if UseTLAB fl then rbind (tlab_initialize fl st heap (th_tlab th)) (\<lambda>t. Inr (put_tlab 0 t th)) else Inr th)"

definition initialize_gen_tlabs :: "vm_flags \<Rightarrow> tlab_statics \<Rightarrow> nat option \<Rightarrow> alloc_thread \<Rightarrow> alloc_thread res" where
  "initialize_gen_tlabs fl st heap th =
     (if UseTLAB fl
      then rfold (\<lambda>i th. rbind (tlab_initialize fl st heap (th_tlabGenArray th ! i)) (\<lambda>t. Inr (put_tlab i t th)))
             [1..<NG2C_GEN_ARRAY_SIZE] th
      else Inr th)"

text \<open>Making buffer \<open>i\<close> of a thread parsable; the allocated bytes are those of the thread.\<close>

definition make_tlab_parsable ::
    "vm_flags \<Rightarrow> g1_env \<Rightarrow> bool \<Rightarrow> nat \<Rightarrow> alloc_thread \<Rightarrow> 'a alloc_state_scheme \<Rightarrow> (alloc_thread \<times> 'a alloc_state_scheme) res" where
  "make_tlab_parsable fl env ret i th s =
     rbind (make_parsable fl env ret (th_tlabGenArray th ! i) s) (\<lambda>(t, bytes, s1).
       Inr ((put_tlab i t th)\<lparr>th_allocated_bytes := th_allocated_bytes th + of_nat bytes\<rparr>, s1))"

definition make_gen_tlabs_parsable ::
    "vm_flags \<Rightarrow> g1_env \<Rightarrow> bool \<Rightarrow> alloc_thread \<Rightarrow> 'a alloc_state_scheme \<Rightarrow> (alloc_thread \<times> 'a alloc_state_scheme) res" where
  "make_gen_tlabs_parsable fl env retire_tlabs th s =
     rfold (\<lambda>i (th, s). make_tlab_parsable fl env retire_tlabs i th s) [1..<NG2C_GEN_ARRAY_SIZE] (th, s)"

definition thread_ensure_parsability ::
    "vm_flags \<Rightarrow> g1_env \<Rightarrow> bool \<Rightarrow> alloc_thread \<Rightarrow> 'a alloc_state_scheme \<Rightarrow> (alloc_thread \<times> 'a alloc_state_scheme) res" where
  "thread_ensure_parsability fl env retire_tlabs th s =
     (if UseTLAB fl
      then rbind (make_tlab_parsable fl env retire_tlabs 0 th s) (\<lambda>(th1, s1). make_gen_tlabs_parsable fl env retire_tlabs th1 s1)
      else Inr (th, s))"

definition startup_initialization :: "vm_flags \<Rightarrow> nat option \<Rightarrow> alloc_thread \<Rightarrow> (tlab_statics \<times> alloc_thread) res" where
  "startup_initialization fl heap th =
     (if TLABWasteTargetPercent fl = 0 then Inl (Div_By_Zero ''startup_initialization'')
      else rbind (GlobalTLABStats fl) (\<lambda>g.
             let st = \<lparr>ts_target_refills = max (of_nat (100 div (2 * TLABWasteTargetPercent fl))) 1, ts_global_stats = Some g\<rparr>
             in rbind (tlab_initialize fl st heap (th_tlab th)) (\<lambda>t.
                rbind (initialize_gen_tlabs fl st heap (put_tlab 0 t th)) (\<lambda>th1. Inr (st, th1)))))"

definition accumulate_statistics_before_gc ::
    "vm_flags \<Rightarrow> nat \<Rightarrow> nat \<Rightarrow> alloc_thread list \<Rightarrow> global_tlab_stats \<Rightarrow> (alloc_thread list \<times> global_tlab_stats) res" where
  "accumulate_statistics_before_gc fl tlab_capacity unsafe_max_tlab_alloc ths g =
     rbind (rfold (\<lambda>th (done_ths, g1).
              rbind (accumulate_statistics fl tlab_capacity unsafe_max_tlab_alloc (th_tlab th) g1) (\<lambda>(t, g2).
                Inr (done_ths @ [put_tlab 0 (initialize_statistics t) th], g2))) ths ([], global_stats_initialize g)) (\<lambda>(ths1, g1).
       if gs_total_allocation g1 \<noteq> 0 then rbind (global_stats_publish g1) (\<lambda>g2. Inr (ths1, g2)) else Inr (ths1, g1))"

definition resize_all_tlabs :: "vm_flags \<Rightarrow> uint \<Rightarrow> nat \<Rightarrow> alloc_thread list \<Rightarrow> alloc_thread list res" where
  "resize_all_tlabs fl target_refills tlab_capacity ths =
     rfold (\<lambda>th done_ths. rbind (tlab_resize fl target_refills tlab_capacity (th_tlab th)) (\<lambda>t.
              Inr (done_ths @ [put_tlab 0 t th]))) ths []"

section \<open>Lemmas\<close>

lemma tlab_allocate_spec:
  assumes "tlab_invariants t"
  shows "tlab_allocate sz t =
    (if sz \<le> tlab_free t then Inr (Some (tl_top t), t\<lparr>tl_top := tl_top t + sz\<rparr>) else Inr (None, t))"
proof -
  have "tl_top t + sz \<le> tl_end t" if "sz \<le> tlab_free t" using that assms by (auto simp: tlab_free_def tlab_invariants_def)
  then show ?thesis using assms by (auto simp: tlab_allocate_def tlab_free_def Let_def tlab_invariants_def)
qed

lemma align_object_size_id [simp]: "align_object_size n = n"
  by (simp add: align_object_size_def align_size_up_def MinObjAlignment_def)

lemma alignment_reserve_min: "min_fill_size \<le> alignment_reserve fl"
  by (simp add: alignment_reserve_def end_reserve_def int_array_header_size_def array_header_size_in_bytes_def
      length_offset_in_bytes_def align_size_up_def HeapWordSize_def min_fill_size_def le_max_iff_disj)

lemma compute_size_bounds:
  "compute_size fl n sz t \<noteq> 0 \<Longrightarrow> sz + alignment_reserve fl \<le> compute_size fl n sz t"
  "compute_size fl n sz t \<le> n div HeapWordSize" "compute_size fl n sz t \<le> tl_desired_size t + sz"
  by (auto simp: compute_size_def Let_def)

lemma clamp_size_bounds:
  assumes "tlab_min_size fl \<le> tlab_max_size fl"
  shows "tlab_min_size fl \<le> clamp_size fl n" "clamp_size fl n \<le> tlab_max_size fl"
  using assms by (auto simp: clamp_size_def)

lemma tlab_fill_spec:
  assumes "0 < TLABRefillWasteFraction fl" and "sz + alignment_reserve fl \<le> n"
  shows "tlab_fill fl start (start + sz) n t =
    Inr (t\<lparr>tl_number_of_refills := tl_number_of_refills t + 1, tl_start := start, tl_top := start + sz, tl_pf_top := start + sz,
           tl_end := start + n - alignment_reserve fl, tl_refill_waste_limit := tl_desired_size t div TLABRefillWasteFraction fl\<rparr>)"
proof -
  have "start + sz \<le> start + n - alignment_reserve fl" using assms(2) by simp
  then show ?thesis using assms(1)
    by (simp add: tlab_fill_def tlab_initialize_range_def tlab_invariants_def initial_refill_waste_limit_def Let_def)
qed

subsection \<open>Retiring\<close>

text \<open>The heap after a buffer of region \<open>p\<close> has been given up.\<close>

definition one_less :: "nat \<Rightarrow> g1_heap \<Rightarrow> g1_heap \<Rightarrow> bool" where
  "one_less p h h' \<longleftrightarrow>
     (\<exists>bs. h' = (gh_put p ((gh_hr h p)\<lparr>hr_active_tlabs := hr_active_tlabs (gh_hr h p) - 1, hr_bot_blocks := bs\<rparr>) h)
        \<lparr>gh_enqueued := (if 0 < hr_gen (gh_hr h p) \<and> hr_active_tlabs (gh_hr h p) = 1 \<and> \<not> hr_is_gen_alloc_region (gh_hr h p)
                        then p # gh_enqueued h else gh_enqueued h)\<rparr>)"

lemma del_active_tlab_spec:
  assumes "\<forall>q. 0 < env_obj_size env q"
  shows "\<exists>h'. del_active_tlab env p h = Inr h' \<and> one_less p h h'"
proof -
  let ?r = "gh_hr h p"
  define h1 where "h1 = gh_put p (?r\<lparr>hr_active_tlabs := hr_active_tlabs ?r - 1\<rparr>) h"
  have h1: "gh_hr h1 p = ?r\<lparr>hr_active_tlabs := hr_active_tlabs ?r - 1\<rparr>" "gh_enqueued h1 = gh_enqueued h"
    by (simp_all add: h1_def gh_put_def)
  have put: "gh_put p r h1 = gh_put p r h" for r by (simp add: h1_def gh_put_def put_hr_def)
  show ?thesis
  proof (cases "0 < hr_gen ?r \<and> hr_active_tlabs ?r = 1 \<and> \<not> hr_is_gen_alloc_region ?r")
    case True
    obtain bs where bs: "enqueue_gen_cards env p h1 =
        Inr ((gh_put p ((gh_hr h1 p)\<lparr>hr_bot_blocks := bs\<rparr>) h1)\<lparr>gh_enqueued := p # gh_enqueued h1\<rparr>)"
      using enqueue_total [OF assms, of p h1] by blast
    have "del_active_tlab env p h = enqueue_gen_cards env p h1"
      using True by (simp add: del_active_tlab_def Let_def h1_def)
    then show ?thesis using True unfolding one_less_def bs h1 put by auto
  next
    case False
    then have "del_active_tlab env p h = Inr h1" by (auto simp: del_active_tlab_def Let_def h1_def)
    moreover have "h1 = (gh_put p (?r\<lparr>hr_active_tlabs := hr_active_tlabs ?r - 1, hr_bot_blocks := hr_bot_blocks ?r\<rparr>) h)\<lparr>gh_enqueued := gh_enqueued h\<rparr>"
      by (simp add: h1_def gh_put_def)
    ultimately show ?thesis unfolding one_less_def if_not_P [OF False] by blast
  qed
qed

text \<open>A buffer that is in use lies in the reserved heap, and its free part is not larger than a filler.\<close>

definition tlab_ok :: "vm_flags \<Rightarrow> tlab \<Rightarrow> 'a alloc_state_scheme \<Rightarrow> bool" where
  "tlab_ok fl t s \<longleftrightarrow>
     tlab_invariants t \<and>
     (tl_end t \<noteq> 0 \<longrightarrow> 0 < tl_start t \<and> is_in_reserved (tl_start t) s \<and> is_in_reserved (hard_end fl t - 1) s \<and>
        hard_end fl t - tl_top t \<le> filler_array_max_size fl) \<and>
     (tl_end t = 0 \<longrightarrow> tl_start t = 0 \<and> tl_my_heap_region t = None)"

lemma tlab_filler:
  assumes "flags_ok fl" and "tlab_ok fl t s" and "tl_end t \<noteq> 0"
  shows "\<exists>s'. fill_with_object fl (tl_top t) (hard_end fl t - tl_top t) s = Inr s' \<and>
    tiled (as_mem s') (tl_top t) (hard_end fl t) \<and> same_outside (tl_top t) (hard_end fl t) s s'"
proof -
  have o: "tlab_invariants t" "0 < tl_start t" "is_in_reserved (tl_start t) s" "is_in_reserved (hard_end fl t - 1) s"
      "hard_end fl t - tl_top t \<le> filler_array_max_size fl" using assms(2,3) by (auto simp: tlab_ok_def)
  have w: "min_fill_size \<le> hard_end fl t - tl_top t" "tl_top t \<le> hard_end fl t" "0 < tl_top t"
    using o(1,2) alignment_reserve_min [of fl] by (auto simp: hard_end_def tlab_invariants_def)
  have "is_in_reserved (tl_top t) s" "is_in_reserved (tl_top t + (hard_end fl t - tl_top t) - 1) s"
    using o w(2) alignment_reserve_min [of fl]
    by (auto simp: is_in_reserved_def tlab_invariants_def hard_end_def min_fill_size_def)
  then show ?thesis using fill_impl_tiles [OF assms(1) _ w(1) o(5), where start = "tl_top t" and s = s] w
    by (simp add: fill_with_object_def fill_args_check_def MinObjAlignment_def)
qed

definition reset_tlab :: "tlab \<Rightarrow> tlab" where
  "reset_tlab t = t\<lparr>tl_start := 0, tl_top := 0, tl_pf_top := 0, tl_end := 0, tl_my_heap_region := None\<rparr>"

lemma retire_spec:
  assumes "flags_ok fl" and "tlab_ok fl t s" and "tl_end t \<noteq> 0" and "\<forall>q. 0 < env_obj_size env q"
  shows "\<exists>s1 h. make_parsable fl env True t s = Inr (reset_tlab t, tlab_used_bytes t, s1\<lparr>as_heap := h\<rparr>) \<and>
    tiled (as_mem s1) (tl_top t) (hard_end fl t) \<and> same_outside (tl_top t) (hard_end fl t) s s1 \<and>
    (case tl_my_heap_region t of Some p \<Rightarrow> one_less p (as_heap s) h | None \<Rightarrow> h = as_heap s)"
proof -
  obtain s1 where s1: "fill_with_object fl (tl_top t) (hard_end fl t - tl_top t) s = Inr s1"
      "tiled (as_mem s1) (tl_top t) (hard_end fl t)" "same_outside (tl_top t) (hard_end fl t) s s1"
    using tlab_filler [OF assms(1-3)] by blast
  have i: "tlab_invariants t" using assms(2) by (simp add: tlab_ok_def)
  have hp: "as_heap s1 = as_heap s" using same_outside_facts(1) [OF s1(3)] .
  show ?thesis
  proof (cases "tl_my_heap_region t")
    case None
    have "make_parsable fl env True t s = Inr (reset_tlab t, tlab_used_bytes t, s1\<lparr>as_heap := as_heap s\<rparr>)"
      using assms(3) i s1(1) None hp by (simp add: make_parsable_def reset_tlab_def)
    then show ?thesis using s1(2,3) None by auto
  next
    case (Some p)
    obtain h where h: "del_active_tlab env p (as_heap s1) = Inr h" "one_less p (as_heap s) h"
      using del_active_tlab_spec [OF assms(4), of p "as_heap s1"] hp by auto
    have "make_parsable fl env True t s = Inr (reset_tlab t, tlab_used_bytes t, s1\<lparr>as_heap := h\<rparr>)"
      using assms(3) i s1(1) Some h(1) by (simp add: make_parsable_def reset_tlab_def)
    then show ?thesis using s1(2,3) Some h(2) by auto
  qed
qed

lemma retire_unused:
  assumes "tlab_ok fl t s" and "tl_end t = 0"
  shows "make_parsable fl env True t s = Inr (t, 0, s)"
  using assms by (simp add: make_parsable_def tlab_ok_def tlab_invariants_def)

end
