(* ===== verification/Merge_Counters.thy ===== *)
theory Merge_Counters
  imports Float32 Thread_Context
begin

text \<open>
  The profiler at run time: the survivor counting of a GC worker
  (the \<^verbatim>\<open>NG2C_PROF\<close> part of \<^verbatim>\<open>copy_to_survivor_space\<close>, g1CollectedHeap.cpp) and the
  VM operation \<^verbatim>\<open>NG2C_MergeAllocCounters\<close> (ng2c/vm_operations_ng2c.hpp and .cpp), which
  merges the workers' counters, decides the target generation of every allocation site, and
  starts a new window.

  All \<^verbatim>\<open>PromotionCounter\<close> objects, the global ones and the workers', live in one store;
  a table is the map from tags to positions.  The build flags \<^verbatim>\<open>NG2C_PROF_ALLOC\<close>,
  \<^verbatim>\<open>NG2C_PROF_CONTEXT\<close> and the two debug flags of the operation, whose log lines read target
  generations under assertions, are fields of the configuration; the makefile of the repository
  leaves \<^verbatim>\<open>NG2C_PROF_ALLOC\<close> undefined and defines the others.
\<close>

section \<open>State\<close>

datatype vm_thread =
    Named_Thread "nat hashtable"
  | Java_Thread java_thread
  | Other_Thread

record vm_config =
  vc_sa :: sa_config
  NG2CUpdateThreshold :: "64 word"
  NG2C_PROF_ALLOC :: bool
  NG2C_PROF_CONTEXT :: bool
  DEBUG_NG2C_PROF_VMOP :: bool
  DEBUG_NG2C_PROF_VMOP_UPDATE :: bool
  MaxJavaStackTraceDepth :: nat
  vc_blk :: "nat \<Rightarrow> nat"

record ng2c_vm =
  v_ngens :: ngen_store
  v_method_bci :: "nat hashtable"
  v_pcs :: pc_store
  v_promotion :: "nat hashtable"
  v_threads :: "vm_thread list"
  v_sa :: sa_state
  v_total_update_target_gen :: uint
  v_MaxTenuringThreshold :: "64 word"

section \<open>Counting survivors\<close>

definition max_age :: uint where
  "max_age = 15"

text \<open>A surviving object of age \<open>age\<close> with the profile tag \<open>rhash\<close> is counted in the table
  of the worker that copies it; the current thread is asserted to be a worker.\<close>

definition record_survivor ::
    "vm_config \<Rightarrow> bool \<Rightarrow> uint \<Rightarrow> uint \<Rightarrow> ngen_store \<Rightarrow> nat hashtable \<Rightarrow> pc_store \<Rightarrow> vm_thread \<Rightarrow>
     (pc_store \<times> vm_thread) res" where
  "record_survivor cfg should_profile rhash age ngens mbt pcs thread =
     (if should_profile \<and> rhash \<noteq> 0
      then (case thread of
              Named_Thread t \<Rightarrow>
                (let alloc_site_id = tag_site rhash
                 in (case mbt_get_entry mbt alloc_site_id of
                       None \<Rightarrow> Inr (pcs, thread)
                     | Some arr \<Rightarrow>
                         rbind (pct_get_counter_not_null (vc_blk cfg (length pcs))
                                  (if expanded_contexts (ngens ! arr) then rhash else push_bit 16 alloc_site_id) pcs t)
                           (\<lambda>(pc, pcs', t').
                              rbind (pc_update (if age = max_age then age else age + 1) (pcs' ! pc))
                                (\<lambda>c. Inr (pcs'[pc := c], Named_Thread t')))))
            | _ \<Rightarrow> Inl (Assert_Failed ''should be named thread''))
      else Inr (pcs, thread))"

section \<open>Merging\<close>

definition merge_arrays :: "ngen_t list \<Rightarrow> ngen_t list \<Rightarrow> ngen_t list" where
  "merge_arrays garr sarr =
     map (\<lambda>i. if 0 < i then garr ! i + sarr ! i else garr ! i) [0..<NG2C_GEN_ARRAY_SIZE]"

definition update_promotions_pc :: "nat \<Rightarrow> nat \<Rightarrow> pc_store \<Rightarrow> pc_store" where
  "update_promotions_pc global survivors pcs =
     (let pcs1 = pcs[global := (pcs ! global)\<lparr>pc_array :=
                      merge_arrays (pc_array (pcs ! global)) (pc_array (pcs ! survivors))\<rparr>]
      in pcs1[survivors := pc_zero (pcs1 ! survivors)])"

definition merge_counter ::
    "vm_config \<Rightarrow> ngen_store \<Rightarrow> nat hashtable \<Rightarrow> nat ht_entry \<Rightarrow> pc_store \<times> nat hashtable \<Rightarrow>
     (pc_store \<times> nat hashtable) res" where
  "merge_counter cfg ngens mbt surv st =
     (case st of (pcs, global) \<Rightarrow>
      let surv_arr = ent_literal surv;
          hash = pc_hash (pcs ! surv_arr);
          alloc_site_id = tag_site hash
      in (case mbt_get_entry mbt alloc_site_id of
            None \<Rightarrow> Inl (Assert_Failed ''there should be an ngen array for this'')
          | Some ngen \<Rightarrow>
              rbind (pct_get_counter_not_null (vc_blk cfg (length pcs))
                       (if expanded_contexts (ngens ! ngen) then hash else push_bit 16 alloc_site_id) pcs global)
                (\<lambda>(glbl_arr, pcs', global'). Inr (update_promotions_pc glbl_arr surv_arr pcs', global'))))"

definition update_promotions ::
    "vm_config \<Rightarrow> ngen_store \<Rightarrow> nat hashtable \<Rightarrow> nat hashtable \<Rightarrow> pc_store \<times> nat hashtable \<Rightarrow>
     (pc_store \<times> nat hashtable) res" where
  "update_promotions cfg ngens mbt hashtable st =
     rfold (merge_counter cfg ngens mbt) (concat (map (bucket hashtable) [0..<table_size hashtable])) st"

definition merge_do_thread ::
    "vm_config \<Rightarrow> ngen_store \<Rightarrow> nat hashtable \<Rightarrow> vm_thread \<Rightarrow> pc_store \<times> nat hashtable \<Rightarrow>
     (pc_store \<times> nat hashtable) res" where
  "merge_do_thread cfg ngens mbt thread st =
     (case thread of Named_Thread t \<Rightarrow> update_promotions cfg ngens mbt t st | _ \<Rightarrow> Inr st)"

section \<open>Deciding the target generation\<close>

definition nda_normalized :: "ngen_t list \<Rightarrow> fl list" where
  "nda_normalized curve =
     map (\<lambda>i. if i < NG2C_GEN_ARRAY_SIZE - 1 \<and> curve ! i \<noteq> 0
              then fl_div (fl_of_ulong (curve ! i)) (fl_of_ulong (curve ! 0)) else Fin 0)
       [0..<NG2C_GEN_ARRAY_SIZE]"

definition nda_derivative :: "fl list \<Rightarrow> fl list" where
  "nda_derivative normalized =
     map (\<lambda>i. if i < NG2C_GEN_ARRAY_SIZE - 1
              then (let d = fl_sub (normalized ! (i + 1)) (normalized ! i)
                    in if fl_less minus_tenth d then Fin 0 else d)
              else Fin 0)
       [0..<NG2C_GEN_ARRAY_SIZE]"

text \<open>The third loop: \<open>segm\<close> is the last position with a drop, \<open>min\<close> the steepest.\<close>

fun nda_analyze :: "fl list \<Rightarrow> nat list \<Rightarrow> nat \<Rightarrow> nat \<Rightarrow> int" where
  "nda_analyze derivative [] segm mn = int mn"
| "nda_analyze derivative (i # is) segm mn =
     (if fl_nonzero (derivative ! i)
      then (if i \<noteq> segm + 1 \<and> segm \<noteq> NG2C_GEN_ARRAY_SIZE then - 1
            else nda_analyze derivative is i (if fl_less (derivative ! i) (derivative ! mn) then i else mn))
      else nda_analyze derivative is segm mn)"

definition normalize_derive_analyze :: "promotion_counter \<Rightarrow> int" where
  "normalize_derive_analyze pc =
     nda_analyze (nda_derivative (nda_normalized (pc_array pc))) [0..<NG2C_GEN_ARRAY_SIZE]
       NG2C_GEN_ARRAY_SIZE 0"

text \<open>The log lines of the decision, which read the target generation.\<close>

definition vmop_log :: "vm_config \<Rightarrow> uint \<Rightarrow> ngen_array \<Rightarrow> unit res" where
  "vmop_log cfg context a =
     (if DEBUG_NG2C_PROF_VMOP cfg \<or> DEBUG_NG2C_PROF_VMOP_UPDATE cfg
      then rbind (target_gen context a) (\<lambda>_. Inr ()) else Inr ())"

definition update_counter ::
    "vm_config \<Rightarrow> nat hashtable \<Rightarrow> nat ht_entry \<Rightarrow> bool \<times> ngen_store \<times> pc_store \<Rightarrow>
     (bool \<times> ngen_store \<times> pc_store) res" where
  "update_counter cfg mbt p st =
     (case st of (need_more_context, ngens, pcs) \<Rightarrow>
      let ngen_arr = ent_literal p;
          context = tag_context (pc_hash (pcs ! ngen_arr));
          alloc_site_id = tag_site (pc_hash (pcs ! ngen_arr))
      in (case mbt_get_entry mbt alloc_site_id of
            None \<Rightarrow> Inl (Assert_Failed ''there should be an ngen array for this'')
          | Some allocs \<Rightarrow>
              rbind (number_allocs context (ngens ! allocs)) (\<lambda>n.
              let arr = pc_array (pcs ! ngen_arr);
                  pc = (pcs ! ngen_arr)\<lparr>pc_array := arr[0 := arr ! 0 + n]\<rparr>;
                  pcs' = pcs[ngen_arr := pc];
                  decision = normalize_derive_analyze pc
              in if 0 < decision
                 then rbind (if NG2C_PROF_ALLOC cfg
                             then set_target_gen context (word_of_int decision) (ngens ! allocs)
                             else Inr (ngens ! allocs))
                        (\<lambda>a. rbind (vmop_log cfg context a)
                               (\<lambda>_. Inr (need_more_context, ngens[allocs := a], pcs')))
                 else if decision < 0
                 then (if \<not> expanded_contexts (ngens ! allocs)
                       then (let a = (if NG2C_PROF_CONTEXT cfg then prepare_contexts (ngens ! allocs)
                                      else ngens ! allocs)
                             in rbind (vmop_log cfg context a) (\<lambda>_. Inr (True, ngens[allocs := a], pcs')))
                       else Inr (True, ngens, pcs'))
                 else Inr (need_more_context, ngens, pcs'))))"

definition update_target_gen ::
    "vm_config \<Rightarrow> nat hashtable \<Rightarrow> nat hashtable \<Rightarrow> bool \<times> ngen_store \<times> pc_store \<Rightarrow>
     (bool \<times> ngen_store \<times> pc_store) res" where
  "update_target_gen cfg mbt hashtable st =
     rfold (update_counter cfg mbt) (concat (map (bucket hashtable) [0..<table_size hashtable])) st"

section \<open>The VM operation\<close>

definition set_context_do_thread ::
    "vm_config \<Rightarrow> vm_thread \<Rightarrow> sa_state \<Rightarrow> (vm_thread \<times> sa_state) res" where
  "set_context_do_thread cfg thread st =
     (case thread of
        Java_Thread jt \<Rightarrow>
          rbind (calculate_context (vc_sa cfg) (vc_blk cfg) (MaxJavaStackTraceDepth cfg) jt st)
            (\<lambda>(jt', st'). Inr (Java_Thread jt', st'))
      | _ \<Rightarrow> Inr (thread, st))"

fun set_threads_context :: "vm_config \<Rightarrow> vm_thread list \<Rightarrow> sa_state \<Rightarrow> (vm_thread list \<times> sa_state) res" where
  "set_threads_context cfg [] st = Inr ([], st)"
| "set_threads_context cfg (th # ths) st =
     rbind (set_context_do_thread cfg th st) (\<lambda>(th', st').
     rbind (set_threads_context cfg ths st') (\<lambda>(ths', st''). Inr (th' # ths', st'')))"

definition should_profile :: "vm_config \<Rightarrow> uint \<Rightarrow> bool" where
  "should_profile cfg tot \<longleftrightarrow> ucast tot div NG2CUpdateThreshold cfg \<le> 3"

definition merge_and_decide :: "vm_config \<Rightarrow> ng2c_vm \<Rightarrow> ng2c_vm res" where
  "merge_and_decide cfg vm =
     rbind (rfold (merge_do_thread cfg (v_ngens vm) (v_method_bci vm)) (v_threads vm)
              (v_pcs vm, v_promotion vm)) (\<lambda>(pcs1, promotion1).
     rbind (if 1 < ucast (v_total_update_target_gen vm) div NG2CUpdateThreshold cfg
            then update_target_gen cfg (v_method_bci vm) promotion1 (False, v_ngens vm, pcs1)
            else Inr (False, v_ngens vm, pcs1)) (\<lambda>(_, ngens2, pcs2).
     rbind (if 1 < ucast (v_total_update_target_gen vm) div NG2CUpdateThreshold cfg \<and> DEBUG_NG2C_PROF_VMOP cfg
            then pct_print_on (v_method_bci vm) ngens2 pcs2 promotion1
            else Inr []) (\<lambda>_.
     let ngens3 = mbt_zero (v_method_bci vm) ngens2;
         pcs3 = pct_zero promotion1 pcs2
     in rbind (set_threads_context cfg (v_threads vm) (v_sa vm)) (\<lambda>(threads4, sa4).
        Inr (vm\<lparr>v_ngens := ngens3, v_pcs := pcs3, v_promotion := promotion1,
                v_threads := threads4, v_sa := sa4\<rparr>)))))"

definition doit :: "vm_config \<Rightarrow> bool \<Rightarrow> ng2c_vm \<Rightarrow> ng2c_vm res" where
  "doit cfg called_by_VMThread vm =
     vassert (\<not> called_by_VMThread) ''should not be called by VMThread.''
       (if NG2CStaticAnalysis (vc_sa cfg) = None \<and> \<not> UseROLP (vc_sa cfg) then Inr vm
        else
          (let tot = v_total_update_target_gen vm + 1;
               vm1 = vm\<lparr>v_total_update_target_gen := tot\<rparr>
           in if NG2CUpdateThreshold cfg = 0 then Inl (Div_By_Zero ''NG2CUpdateThreshold'')
              else rbind (if ucast tot mod NG2CUpdateThreshold cfg = 0 \<and> should_profile cfg tot
                          then merge_and_decide cfg vm1 else Inr vm1)
                     (\<lambda>vm2. Inr (if \<not> should_profile cfg tot then vm2\<lparr>v_MaxTenuringThreshold := 1\<rparr>
                                 else vm2))))"

section \<open>The decision\<close>

text \<open>The specification, on the counts and the exact rationals.  The curve is read in the slots
  0 to 14 only: the normalising loop stops before the last slot, which stays zero, so that age
  14 falls by all that survives to it.  \<open>ratio\<close> is the exact share of the allocated objects
  that survive to an age, \<open>survival\<close> the single precision number nearest to the quotient of
  the counts as single precision numbers, \<open>fall\<close> the rounded loss from one age to the next;
  an age is a drop when the loss is at least the double nearest to a tenth.\<close>

definition ratio :: "promotion_counter \<Rightarrow> nat \<Rightarrow> rat" where
  "ratio pc i = (if i < 15 then of_nat (unat (pc_array pc ! i)) / of_nat (unat (pc_array pc ! 0)) else 0)"

definition survival :: "promotion_counter \<Rightarrow> nat \<Rightarrow> rat" where
  "survival pc i =
     (if i < 15
      then round_bits 24 (round_bits 24 (of_nat (unat (pc_array pc ! i))) / round_bits 24 (of_nat (unat (pc_array pc ! 0))))
      else 0)"

definition fall :: "promotion_counter \<Rightarrow> nat \<Rightarrow> rat" where
  "fall pc i = round_bits 24 (survival pc i - survival pc (i + 1))"

definition drops :: "promotion_counter \<Rightarrow> nat list" where
  "drops pc = filter (\<lambda>i. round_bits 53 (1 / 10) \<le> fall pc i) [0..<15]"

definition consecutive :: "nat list \<Rightarrow> bool" where
  "consecutive xs = successively (\<lambda>a b. b = a + 1) xs"

text \<open>What the third loop reads: the array the second loop leaves, and its nonzero positions.\<close>

definition slopes :: "promotion_counter \<Rightarrow> fl list" where
  "slopes pc = nda_derivative (nda_normalized (pc_array pc))"

definition slope_steps :: "promotion_counter \<Rightarrow> nat list" where
  "slope_steps pc = filter (\<lambda>i. fl_nonzero (slopes pc ! i)) [0..<NG2C_GEN_ARRAY_SIZE]"

definition steeper :: "fl list \<Rightarrow> nat \<Rightarrow> nat \<Rightarrow> nat" where
  "steeper d i mn = (if fl_less (d ! i) (d ! mn) then i else mn)"

lemma nda_analyze_filter:
  "nda_analyze d is segm mn = nda_analyze d (filter (\<lambda>i. fl_nonzero (d ! i)) is) segm mn"
  by (induction d "is" segm mn rule: nda_analyze.induct) auto

lemma nda_analyze_running:
  assumes "\<forall>i \<in> set is. fl_nonzero (d ! i)" and "segm \<noteq> NG2C_GEN_ARRAY_SIZE"
    and "\<forall>i \<in> set is. i \<noteq> NG2C_GEN_ARRAY_SIZE"
  shows "nda_analyze d is segm mn = (if consecutive (segm # is) then int (fold (steeper d) is mn) else - 1)"
  using assms
  by (induction d "is" segm mn rule: nda_analyze.induct) (auto simp: consecutive_def steeper_def)

lemma nda_decision:
  "normalize_derive_analyze pc =
     (if consecutive (slope_steps pc) then int (fold (steeper (slopes pc)) (slope_steps pc) 0) else - 1)"
proof (cases "slope_steps pc")
  case Nil
  then show ?thesis
    using nda_analyze_filter [of "slopes pc" "[0..<NG2C_GEN_ARRAY_SIZE]"]
    by (simp add: normalize_derive_analyze_def slopes_def [symmetric] slope_steps_def [symmetric] consecutive_def)
next
  case (Cons i xs)
  have nz: "\<forall>j \<in> set (i # xs). fl_nonzero (slopes pc ! j) \<and> j \<noteq> NG2C_GEN_ARRAY_SIZE"
    unfolding Cons [symmetric] by (auto simp: slope_steps_def NG2C_GEN_ARRAY_SIZE_def)
  have "normalize_derive_analyze pc = nda_analyze (slopes pc) (i # xs) NG2C_GEN_ARRAY_SIZE 0"
    unfolding normalize_derive_analyze_def slopes_def [symmetric] Cons [symmetric] slope_steps_def
    by (rule nda_analyze_filter)
  also have "\<dots> = nda_analyze (slopes pc) xs i (steeper (slopes pc) i 0)"
    using nz by (simp add: steeper_def)
  also have "\<dots> = (if consecutive (i # xs) then int (fold (steeper (slopes pc)) xs (steeper (slopes pc) i 0)) else - 1)"
    using nz by (intro nda_analyze_running) auto
  finally show ?thesis by (simp add: Cons)
qed

lemma slopes_last: "slopes pc ! 15 = Fin 0" "length (slopes pc) = 16"
  by (simp_all add: slopes_def nda_derivative_def NG2C_GEN_ARRAY_SIZE_def)

lemma steps_less: "i \<in> set (slope_steps pc) \<Longrightarrow> i < 15"
  using slopes_last(1) [of pc]
  by (auto simp: slope_steps_def less_Suc_eq eval_nat_numeral)

lemma fold_steeper_in: "fold (steeper d) is mn \<in> insert mn (set is)"
  by (induction "is" arbitrary: mn) (auto simp: steeper_def)

lemma decision_range: "- 1 \<le> normalize_derive_analyze pc \<and> normalize_derive_analyze pc < 15"
  using fold_steeper_in [of "slopes pc" "slope_steps pc" 0] steps_less [of _ pc]
  by (auto simp: nda_decision)

lemma slopes_fin:
  assumes "pc_array pc ! 0 \<noteq> 0" and "i < 16"
  shows "\<exists>q \<le> 0. slopes pc ! i = Fin q"
proof -
  have n: "fl_is_fin (nda_normalized (pc_array pc) ! j)" if "j < 16" for j
    using that fl_div_fin [OF assms(1)] by (auto simp: nda_normalized_def NG2C_GEN_ARRAY_SIZE_def)
  have "fl_is_fin (fl_sub (nda_normalized (pc_array pc) ! (i + 1)) (nda_normalized (pc_array pc) ! i))" if "i < 15"
    using that n [of i] n [of "i + 1"] by simp
  then show ?thesis
    using assms(2)
    by (auto simp: slopes_def nda_derivative_def NG2C_GEN_ARRAY_SIZE_def minus_tenth_def Let_def
        elim!: fl_is_fin.elims)
qed

lemma fold_steeper_min:
  assumes "\<forall>i \<in> insert mn (set is). \<exists>q. d ! i = Fin q" and "sorted_wrt (<) is" and "\<forall>i \<in> set is. mn \<le> i"
  shows "\<forall>j \<in> insert mn (set is). \<not> fl_less (d ! j) (d ! fold (steeper d) is mn)
    \<and> (j < fold (steeper d) is mn \<longrightarrow> fl_less (d ! fold (steeper d) is mn) (d ! j))"
  using assms
proof (induction "is" arbitrary: mn)
  case (Cons i xs)
  let ?mn = "steeper d i mn"
  have IH: "\<forall>j \<in> insert ?mn (set xs). \<not> fl_less (d ! j) (d ! fold (steeper d) xs ?mn)
    \<and> (j < fold (steeper d) xs ?mn \<longrightarrow> fl_less (d ! fold (steeper d) xs ?mn) (d ! j))"
    using Cons.prems by (intro Cons.IH) (auto simp: steeper_def)
  have r: "fold (steeper d) xs ?mn \<in> insert ?mn (set xs)" by (rule fold_steeper_in)
  obtain a b c where v: "d ! i = Fin a" "d ! mn = Fin b" "d ! fold (steeper d) xs ?mn = Fin c"
    using Cons.prems(1) r by (auto simp: steeper_def split: if_splits)
  have "mn \<le> i" "\<forall>x \<in> set xs. i < x" using Cons.prems by auto
  note order = this
  show ?case
  proof (cases "a < b")
    case True
    then have "steeper d i mn = i" by (simp add: steeper_def v)
    with True IH r v order show ?thesis by auto
  next
    case False
    then have "steeper d i mn = mn" by (simp add: steeper_def v)
    with False IH r v order show ?thesis by auto
  qed
qed auto

lemma steps_sorted: "sorted_wrt (<) (slope_steps pc)"
  by (simp add: slope_steps_def sorted_wrt_filter)

lemma steps_iff: "i \<in> set (slope_steps pc) \<longleftrightarrow> i < 16 \<and> fl_nonzero (slopes pc ! i)"
  by (auto simp: slope_steps_def)

lemma steeper_first_step:
  assumes "pc_array pc ! 0 \<noteq> 0" and "slope_steps pc = i # xs"
  shows "steeper (slopes pc) i 0 = i"
proof (cases "i = 0")
  case False
  have i: "i \<in> set (slope_steps pc)" using assms(2) by simp
  have "0 \<notin> set (slope_steps pc)" using assms(2) steps_sorted [of pc] False by auto
  moreover obtain q where "slopes pc ! 0 = Fin q" using slopes_fin [OF assms(1), of 0] by auto
  ultimately have "slopes pc ! 0 = Fin 0" by (simp add: steps_iff)
  moreover obtain r where "r \<le> 0" "slopes pc ! i = Fin r"
    using slopes_fin [OF assms(1), of i] steps_less [OF i] by auto
  ultimately show ?thesis using i by (auto simp: steeper_def steps_iff)
qed (simp add: steeper_def)

text \<open>The first two loops compute the specified falls.\<close>

lemma normalized_survival:
  assumes "pc_array pc ! 0 \<noteq> 0" and "i < 16"
  shows "nda_normalized (pc_array pc) ! i = Fin (survival pc i)"
proof -
  have "0 < (of_nat (unat (pc_array pc ! 0)) :: rat)"
    using assms(1) by (simp only: of_nat_0_less_iff unat_gt_0 not_False_eq_True)
  then have "round_bits 24 (of_nat (unat (pc_array pc ! 0)) :: rat) \<noteq> 0"
    using round_bits_pos [of "of_nat (unat (pc_array pc ! 0))" 24] by simp
  then show ?thesis
    using assms(2) by (auto simp: nda_normalized_def NG2C_GEN_ARRAY_SIZE_def survival_def fl_of_ulong_def flt_def)
qed

lemma slopes_fall:
  assumes "pc_array pc ! 0 \<noteq> 0" and "i < 15"
  shows "slopes pc ! i = Fin (if round_bits 53 (1 / 10) \<le> fall pc i then - fall pc i else 0)"
proof -
  have "survival pc (i + 1) - survival pc i = - (survival pc i - survival pc (i + 1))" by simp
  then have "round_bits 24 (survival pc (i + 1) - survival pc i) = - fall pc i"
    unfolding fall_def round_bits_uminus [symmetric] by (rule arg_cong)
  then have "fl_sub (nda_normalized (pc_array pc) ! (i + 1)) (nda_normalized (pc_array pc) ! i) = Fin (- fall pc i)"
    using normalized_survival [OF assms(1), of i] normalized_survival [OF assms(1), of "i + 1"] assms(2)
    by (simp add: flt_def)
  then show ?thesis
    using assms(2) unfolding slopes_def tenth_double
    by (simp add: nda_derivative_def NG2C_GEN_ARRAY_SIZE_def minus_tenth_def Let_def not_le [symmetric])
qed

lemma slope_steps_drops:
  assumes "pc_array pc ! 0 \<noteq> 0"
  shows "slope_steps pc = drops pc"
proof -
  have "0 < round_bits 53 (1 / 10)" unfolding tenth_double by simp
  then have "fl_nonzero (slopes pc ! i) \<longleftrightarrow> round_bits 53 (1 / 10) \<le> fall pc i" if "i < 15" for i
    using slopes_fall [OF assms that] by auto
  then have "filter (\<lambda>i. fl_nonzero (slopes pc ! i)) [0..<15] = drops pc"
    unfolding drops_def by (intro filter_cong) auto
  moreover have "[0..<NG2C_GEN_ARRAY_SIZE] = [0..<15] @ [15]"
    by (simp add: NG2C_GEN_ARRAY_SIZE_def upt_rec)
  ultimately show ?thesis by (simp add: slope_steps_def slopes_last)
qed

lemma drop_slope:
  assumes "pc_array pc ! 0 \<noteq> 0" and "i \<in> set (drops pc)"
  shows "slopes pc ! i = Fin (- fall pc i)"
  using slopes_fall [OF assms(1), of i] assms(2) by (auto simp: drops_def)

lemma steeper_first:
  assumes "pc_array pc ! 0 \<noteq> 0" and "drops pc = i # xs"
  shows "steeper (slopes pc) i 0 = i"
  using steeper_first_step [OF assms(1)] assms(2) by (simp add: slope_steps_drops [OF assms(1)])

lemma drops_decision:
  assumes "pc_array pc ! 0 \<noteq> 0"
  shows "normalize_derive_analyze pc =
     (if consecutive (drops pc) then int (fold (steeper (slopes pc)) (drops pc) 0) else - 1)"
  using nda_decision [of pc] by (simp add: slope_steps_drops [OF assms])

lemma survival_accurate:
  assumes "pc_array pc ! 0 \<noteq> 0"
  shows "\<bar>survival pc i - ratio pc i\<bar> \<le> ratio pc i / 2 ^ 22"
proof -
  have "0 < (of_nat (unat (pc_array pc ! 0)) :: rat)"
    using assms(1) by (simp only: of_nat_0_less_iff unat_gt_0 not_False_eq_True)
  note e = rounded_quotient_error [OF of_nat_0_le_iff this, of "unat (pc_array pc ! i)"]
  show ?thesis
  proof (cases "i < 15")
    case True
    then show ?thesis unfolding survival_def ratio_def by (simp only: if_True e)
  qed (simp add: survival_def ratio_def)
qed

lemma fall_accurate:
  assumes "pc_array pc ! 0 \<noteq> 0"
  shows "\<bar>fall pc i - (ratio pc i - ratio pc (i + 1))\<bar> \<le> (ratio pc i + ratio pc (i + 1)) / 2 ^ 21"
  unfolding fall_def by (intro rounded_difference_error survival_accurate assms)

section \<open>Properties of the decision\<close>

text \<open>C3. The decision for a site with allocations in the window, on the counts.  Every loss of
  survivors the analysis works with is the exact difference of the shares of two successive ages
  up to a relative \<open>2 ^ -21\<close>, where the share after slot 14 is zero whatever the last slot
  holds.  The decision is a conflict exactly when the ages that lose a tenth or more of the
  allocated objects are not consecutive; it is no change when there are none; otherwise it is
  the age of the greatest loss, the earliest among equals.\<close>

theorem decision_spec:
  assumes "pc_array pc ! 0 \<noteq> 0"
  shows "(\<forall>i. \<bar>fall pc i - (ratio pc i - ratio pc (i + 1))\<bar> \<le> (ratio pc i + ratio pc (i + 1)) / 2 ^ 21)
    \<and> (normalize_derive_analyze pc = - 1 \<longleftrightarrow> \<not> consecutive (drops pc))
    \<and> (drops pc = [] \<longrightarrow> normalize_derive_analyze pc = 0)
    \<and> (drops pc \<noteq> [] \<and> consecutive (drops pc) \<longrightarrow>
        (\<exists>g \<in> set (drops pc). normalize_derive_analyze pc = int g
          \<and> (\<forall>j \<in> set (drops pc). fall pc j \<le> fall pc g \<and> (j < g \<longrightarrow> fall pc j < fall pc g))))"
proof (cases "drops pc")
  case Nil
  then show ?thesis using fall_accurate [OF assms] by (simp add: drops_decision [OF assms] consecutive_def)
next
  case (Cons i xs)
  let ?g = "fold (steeper (slopes pc)) xs i"
  have s: "slopes pc ! j = Fin (- fall pc j)" if "j \<in> insert i (set xs)" for j
    using that Cons drop_slope [OF assms, of j] by auto
  then have fin: "\<forall>j \<in> insert i (set xs). \<exists>q. slopes pc ! j = Fin q" by blast
  have "sorted_wrt (<) (drops pc)" by (simp add: drops_def sorted_wrt_filter)
  then have "sorted_wrt (<) xs" "\<forall>j \<in> set xs. i \<le> j" using Cons by auto
  note m = fold_steeper_min [OF fin this]
  have g: "?g \<in> insert i (set xs)" by (rule fold_steeper_in)
  have "\<forall>j \<in> set (drops pc). fall pc j \<le> fall pc ?g \<and> (j < ?g \<longrightarrow> fall pc j < fall pc ?g)"
    using m s s [OF g] Cons by (auto simp: not_less)
  moreover have "normalize_derive_analyze pc = (if consecutive (drops pc) then int ?g else - 1)"
    using steeper_first [OF assms Cons] by (simp add: drops_decision [OF assms] Cons)
  ultimately show ?thesis using Cons g fall_accurate [OF assms] by auto
qed

text \<open>Whatever the counters hold (also when a site has survivors but no allocation in the
  window, and the division gives an infinity), the decision is a conflict or a generation
  below 15.\<close>

theorem decision_bounds: "- 1 \<le> normalize_derive_analyze pc \<and> normalize_derive_analyze pc < 15"
  by (rule decision_range)

text \<open>Three curves: a cohort that dies at age 2; a flat one, which has no loss at all but decides
  14, since the last slot is not normalised; and one that dies in two waves.\<close>

definition ex_counter :: promotion_counter where
  "ex_counter = \<lparr>pc_hash = 65536, pc_array = [10, 10, 10, 0, 0, 0, 0, 0, 0, 0, 0, 0, 0, 0, 0, 0]\<rparr>"

definition ex_flat :: promotion_counter where
  "ex_flat = \<lparr>pc_hash = 65536, pc_array = replicate 16 10\<rparr>"

definition ex_waves :: promotion_counter where
  "ex_waves = \<lparr>pc_hash = 65536, pc_array = [10, 5, 5, 5, 0, 0, 0, 0, 0, 0, 0, 0, 0, 0, 0, 0]\<rparr>"

lemma ex_rounded: "round_bits 24 10 = 10" "round_bits 24 5 = 5" "round_bits 24 1 = 1"
    "round_bits 24 (1 / 2) = 1 / 2"
  by code_simp+

lemma ex_drops: "drops ex_counter = [2]" "drops ex_flat = [14]" "drops ex_waves = [0, 3]"
  by (simp_all add: drops_def fall_def survival_def tenth_double ex_rounded upt_rec nth_Cons'
      ex_counter_def ex_flat_def ex_waves_def)

theorem decision_spec_witness:
  "normalize_derive_analyze ex_counter = 2 \<and> normalize_derive_analyze ex_flat = 14
   \<and> normalize_derive_analyze ex_waves = - 1"
proof -
  have "pc_array ex_counter ! 0 \<noteq> 0" "pc_array ex_flat ! 0 \<noteq> 0" "pc_array ex_waves ! 0 \<noteq> 0"
    by (simp_all add: ex_counter_def ex_flat_def ex_waves_def)
  from this [THEN decision_spec] show ?thesis by (simp add: ex_drops consecutive_def)
qed

end
