(* ===== verification/Merge_Invariant.thy ===== *)
theory Merge_Invariant
  imports Merge_Counters
begin

text \<open>
  What the VM operation of Merge\_Counters keeps and does: merging adds every worker's counts
  to the global table and clears the worker, the invariant of the tables holds after every
  operation, and no assertion of the operation can fire.
\<close>

section \<open>Counters as seen by tag\<close>

definition table_addrs :: "nat hashtable \<Rightarrow> nat set" where
  "table_addrs t = ent_literal ` set (ht_entries t)"

text \<open>The count of a table for a tag and an age; 0 when the tag has no counter.\<close>

definition tag_count :: "pc_store \<Rightarrow> nat hashtable \<Rightarrow> uint \<Rightarrow> nat \<Rightarrow> ngen_t" where
  "tag_count pcs t h i = (case pct_get_counter t h of None \<Rightarrow> 0 | Some a \<Rightarrow> pc_array (pcs ! a) ! i)"

text \<open>The tag a worker's counter is merged under.\<close>

definition merged_tag :: "ngen_store \<Rightarrow> nat hashtable \<Rightarrow> uint \<Rightarrow> uint" where
  "merged_tag ngens mbt h =
     (case mbt_get_entry mbt (tag_site h) of
        None \<Rightarrow> h
      | Some a \<Rightarrow> if expanded_contexts (ngens ! a) then h else push_bit 16 (tag_site h))"

definition site_known :: "nat hashtable \<Rightarrow> uint \<Rightarrow> bool" where
  "site_known mbt h \<longleftrightarrow> mbt_get_entry mbt (tag_site h) \<noteq> None"

definition sites_known :: "nat hashtable \<Rightarrow> nat hashtable \<Rightarrow> bool" where
  "sites_known mbt t \<longleftrightarrow> (\<forall>e \<in> set (ht_entries t). site_known mbt (ent_hash e))"

section \<open>Lemmas\<close>

lemma site_known_merged: "site_known mbt h \<Longrightarrow> site_known mbt (merged_tag ngens mbt h)"
proof -
  have "tag_site (push_bit 16 (tag_site h)) = tag_site h"
    using tag_make_tag(1) [OF tag_site_less [of h], of 0] by (simp add: make_tag_def)
  then show "site_known mbt h \<Longrightarrow> site_known mbt (merged_tag ngens mbt h)"
    by (auto simp: site_known_def merged_tag_def split: option.splits)
qed

lemma pct_lookup_addr: "pct_inv pcs t \<Longrightarrow> pct_get_counter t h = Some a \<Longrightarrow> a \<in> table_addrs t"
  using ht_lookup_Some [of t h a] by (auto simp: pct_inv_def pct_get_counter_eq table_addrs_def)

lemma pct_addr_less: "pct_inv pcs t \<Longrightarrow> a \<in> table_addrs t \<Longrightarrow> a < length pcs"
  by (auto simp: pct_inv_def table_points_def list_all_iff table_addrs_def)

lemma pct_lookup_inj:
  "pct_inv pcs t \<Longrightarrow> pct_get_counter t h = Some a \<Longrightarrow> pct_get_counter t h' = Some a \<Longrightarrow> h = h'"
  using pct_get_counter_Some by metis

text \<open>\<^verbatim>\<open>get_counter_not_null\<close> in terms of counts: no count changes, one tag gains a counter.\<close>

lemma pct_get_or_add:
  assumes inv: "pct_inv pcs t"
  obtains g pcs' t' where "pct_get_counter_not_null blk h pcs t = Inr (g, pcs', t')" "pct_inv pcs' t'"
    "pct_get_counter t' = (pct_get_counter t)(h \<mapsto> g)"
    "g \<in> table_addrs t'" "g \<in> table_addrs t \<or> g = length pcs"
    "length pcs \<le> length pcs'" "\<forall>x < length pcs. pcs' ! x = pcs ! x"
    "\<forall>x < length pcs. x \<in> table_addrs t' \<longleftrightarrow> x \<in> table_addrs t"
    "\<forall>h' i. i < 16 \<longrightarrow> tag_count pcs' t' h' i = tag_count pcs t h' i"
    "ent_hash ` set (ht_entries t') = insert h (ent_hash ` set (ht_entries t))"
proof (cases "pct_get_counter t h")
  case (Some a)
  have ad: "a \<in> table_addrs t" by (rule pct_lookup_addr [OF inv Some])
  obtain e where "e \<in> set (ht_entries t)" "ent_hash e = h"
    using ht_lookup_Some [of t h a] inv Some by (auto simp: pct_inv_def pct_get_counter_eq)
  then have "insert h (ent_hash ` set (ht_entries t)) = ent_hash ` set (ht_entries t)" by auto
  with Some ad inv show ?thesis
    by (intro that [of a pcs t]) (auto simp: pct_get_counter_not_null_eq fun_upd_idem)
next
  case None
  let ?n = "length pcs"
  obtain t' where add: "pct_add_counter blk h pcs t = Inr (?n, pcs @ [new_PromotionCounter h], t')"
      "pct_inv (pcs @ [new_PromotionCounter h]) t'" "pct_get_counter t' = (pct_get_counter t)(h \<mapsto> ?n)"
    using pct_add_counter_ok [OF inv None] by blast
  have ht: "ht_inv t" using inv by (simp add: pct_inv_def)
  have "ht_insert blk h ?n t = Inr t'"
    using add(1) by (auto simp: pct_add_counter_def ht_insert_def res_simps Let_def)
  from ht_insert_entries [OF ht this] obtain e where e: "ent_hash e = h" "ent_literal e = ?n"
      "mset (ht_entries t') = add_mset e (mset (ht_entries t))" by blast
  have set: "set (ht_entries t') = insert e (set (ht_entries t))"
    using arg_cong [OF e(3), of set_mset] by simp
  have old: "a < ?n" if "pct_get_counter t h' = Some a" for h' a using pct_get_counter_Some [OF inv that] by simp
  have cnt: "tag_count (pcs @ [new_PromotionCounter h]) t' h' i = tag_count pcs t h' i" if "i < 16" for h' i
    using that old None add(3)
    by (auto simp: tag_count_def nth_append new_PromotionCounter_def split: option.splits)
  have "pct_get_counter_not_null blk h pcs t = Inr (?n, pcs @ [new_PromotionCounter h], t')"
    using None add(1) by (simp add: pct_get_counter_not_null_eq)
  then show ?thesis
    using add(2,3) set e cnt
    by (intro that [of ?n "pcs @ [new_PromotionCounter h]" t']) (auto simp: table_addrs_def nth_append)
qed

lemma pct_inv_grow:
  assumes "pct_inv pcs t" and "length pcs \<le> length pcs'" and "list_all pc_wf pcs'"
    and "\<forall>x < length pcs. pc_hash (pcs' ! x) = pc_hash (pcs ! x)"
  shows "pct_inv pcs' t"
  using assms by (auto simp: pct_inv_def table_points_def list_all_iff)

lemma pct_inv_update:
  assumes "pct_inv pcs t" and "pc_hash c = pc_hash (pcs ! x)" and "pc_wf c"
  shows "pct_inv (pcs[x := c]) t"
proof (rule pct_inv_grow [OF assms(1)])
  show "list_all pc_wf (pcs[x := c])" using assms by (auto simp: pct_inv_def intro: list_all_update)
  show "\<forall>y < length pcs. pc_hash (pcs[x := c] ! y) = pc_hash (pcs ! y)"
    using assms(2) by (metis nth_list_update nth_list_update_neq)
qed simp

section \<open>Merging\<close>

text \<open>What merging the counters at the addresses \<open>as\<close> into the global table does to the store
  and the table.\<close>

definition merged_into ::
    "(uint \<Rightarrow> uint) \<Rightarrow> nat list \<Rightarrow> pc_store \<times> nat hashtable \<Rightarrow> pc_store \<times> nat hashtable \<Rightarrow> bool" where
  "merged_into tag as st st' \<longleftrightarrow>
     (case (st, st') of ((pcs, G), (pcs', G')) \<Rightarrow>
        pct_inv pcs' G' \<and> length pcs \<le> length pcs'
        \<and> (\<forall>x < length pcs. x \<in> table_addrs G' \<longleftrightarrow> x \<in> table_addrs G)
        \<and> (\<forall>x < length pcs. pc_hash (pcs' ! x) = pc_hash (pcs ! x))
        \<and> (\<forall>x < length pcs. x \<notin> table_addrs G \<longrightarrow> x \<notin> set as \<longrightarrow> pcs' ! x = pcs ! x)
        \<and> (\<forall>x \<in> set as. pc_array (pcs' ! x) = replicate NG2C_GEN_ARRAY_SIZE 0)
        \<and> (\<forall>h i. 0 < i \<longrightarrow> i < 16 \<longrightarrow> tag_count pcs' G' h i = tag_count pcs G h i
             + sum_list (map (\<lambda>a. if tag (pc_hash (pcs ! a)) = h then pc_array (pcs ! a) ! i else 0) as))
        \<and> ent_hash ` set (ht_entries G') \<subseteq> ent_hash ` set (ht_entries G) \<union> tag ` (\<lambda>a. pc_hash (pcs ! a)) ` set as)"

lemma merge_counter_merged:
  assumes inv: "pct_inv pcs G" and a: "ent_literal e < length pcs" "ent_literal e \<notin> table_addrs G"
    and known: "site_known mbt (pc_hash (pcs ! ent_literal e))"
  shows "\<exists>st'. merge_counter cfg ngens mbt e (pcs, G) = Inr st'
    \<and> merged_into (merged_tag ngens mbt) [ent_literal e] (pcs, G) st'"
proof -
  let ?a = "ent_literal e"
  let ?h = "merged_tag ngens mbt (pc_hash (pcs ! ?a))"
  obtain ngen where ngen: "mbt_get_entry mbt (tag_site (pc_hash (pcs ! ?a))) = Some ngen"
    using known by (auto simp: site_known_def)
  then have tag: "(if expanded_contexts (ngens ! ngen) then pc_hash (pcs ! ?a)
      else push_bit 16 (tag_site (pc_hash (pcs ! ?a)))) = ?h"
    by (simp add: merged_tag_def)
  obtain g pcs1 G1 where g: "pct_get_counter_not_null (vc_blk cfg (length pcs)) ?h pcs G = Inr (g, pcs1, G1)"
      "pct_inv pcs1 G1" "pct_get_counter G1 = (pct_get_counter G)(?h \<mapsto> g)"
      "g \<in> table_addrs G1" "g \<in> table_addrs G \<or> g = length pcs"
      "length pcs \<le> length pcs1" "\<forall>x < length pcs. pcs1 ! x = pcs ! x"
      "\<forall>x < length pcs. x \<in> table_addrs G1 \<longleftrightarrow> x \<in> table_addrs G"
      "\<forall>h' i. i < 16 \<longrightarrow> tag_count pcs1 G1 h' i = tag_count pcs G h' i"
      "ent_hash ` set (ht_entries G1) = insert ?h (ent_hash ` set (ht_entries G))"
    by (rule pct_get_or_add [OF inv])
  have ga: "g \<noteq> ?a" using g(5) a by auto
  have gl: "g < length pcs1" "?a < length pcs1" using pct_addr_less [OF g(2,4)] a g(6) by auto
  let ?c = "(pcs1 ! g)\<lparr>pc_array := merge_arrays (pc_array (pcs1 ! g)) (pc_array (pcs1 ! ?a))\<rparr>"
  let ?pcs = "pcs1[g := ?c, ?a := pc_zero (pcs1 ! ?a)]"
  have run: "merge_counter cfg ngens mbt e (pcs, G) = Inr (?pcs, G1)"
    using g(1) ga by (simp add: merge_counter_def ngen tag update_promotions_pc_def Let_def)
  have inv': "pct_inv ?pcs G1"
    using ga by (intro pct_inv_update g(2)) (auto simp: pc_wf_def merge_arrays_def pc_zero_def)
  have "pct_get_counter G1 ?h = Some g" by (simp add: g(3))
  then have look: "pct_get_counter G1 h = Some g \<longleftrightarrow> h = ?h" for h
    using pct_lookup_inj [OF g(2)] by blast
  have ne: "x \<noteq> ?a" if "pct_get_counter G1 h = Some x" for h x
    using pct_lookup_addr [OF g(2) that] a g(8) by auto
  have cnt: "tag_count ?pcs G1 h i = tag_count pcs G h i + (if ?h = h then pc_array (pcs ! ?a) ! i else 0)"
    if i: "0 < i" "i < 16" for h i
  proof (cases "pct_get_counter G1 h")
    case (Some x)
    show ?thesis
    proof (cases "x = g")
      case True
      then have "h = ?h" using Some look by simp
      then show ?thesis
        using Some True i gl ga g(7) a(1) g(9) [rule_format, of i h]
        by (simp add: tag_count_def merge_arrays_def)
    next
      case False
      then have "h \<noteq> ?h" using Some look [of h] by auto
      then show ?thesis
        using Some False ne [OF Some] i g(9) [rule_format, of i h] by (simp add: tag_count_def)
    qed
  next
    case None
    then have "h \<noteq> ?h" using look [of h] by auto
    then show ?thesis using None g(9) [rule_format, of i h] i by (auto simp: tag_count_def)
  qed
  have "merged_into (merged_tag ngens mbt) [?a] (pcs, G) (?pcs, G1)"
    using inv' g(5,6,7,8,10) cnt a gl ga
    by (auto simp: merged_into_def nth_list_update pc_zero_def)
  with run show ?thesis by blast
qed

lemma merged_into_Nil: "pct_inv pcs G \<Longrightarrow> merged_into tag [] (pcs, G) (pcs, G)"
  by (simp add: merged_into_def)

lemma merged_into_Cons:
  assumes one: "merged_into tag [a] (pcs, G) (pcs1, G1)" and rest: "merged_into tag as (pcs1, G1) (pcs2, G2)"
    and as: "\<forall>x \<in> set (a # as). x < length pcs \<and> x \<notin> table_addrs G" "distinct (a # as)"
  shows "merged_into tag (a # as) (pcs, G) (pcs2, G2)"
proof -
  have A: "length pcs \<le> length pcs1" "\<forall>x < length pcs. x \<in> table_addrs G1 \<longleftrightarrow> x \<in> table_addrs G"
      "\<forall>x < length pcs. pc_hash (pcs1 ! x) = pc_hash (pcs ! x)"
      "\<forall>x < length pcs. x \<notin> table_addrs G \<longrightarrow> x \<noteq> a \<longrightarrow> pcs1 ! x = pcs ! x"
      "pc_array (pcs1 ! a) = replicate NG2C_GEN_ARRAY_SIZE 0"
    and A7: "0 < i \<Longrightarrow> i < 16 \<Longrightarrow> tag_count pcs1 G1 h i = tag_count pcs G h i
             + (if tag (pc_hash (pcs ! a)) = h then pc_array (pcs ! a) ! i else 0)"
    and A8: "ent_hash ` set (ht_entries G1) \<subseteq> ent_hash ` set (ht_entries G) \<union> {tag (pc_hash (pcs ! a))}" for h i
    using one by (auto simp: merged_into_def)
  have B: "pct_inv pcs2 G2" "length pcs1 \<le> length pcs2" "\<forall>x < length pcs1. x \<in> table_addrs G2 \<longleftrightarrow> x \<in> table_addrs G1"
      "\<forall>x < length pcs1. pc_hash (pcs2 ! x) = pc_hash (pcs1 ! x)"
      "\<forall>x < length pcs1. x \<notin> table_addrs G1 \<longrightarrow> x \<notin> set as \<longrightarrow> pcs2 ! x = pcs1 ! x"
      "\<forall>x \<in> set as. pc_array (pcs2 ! x) = replicate NG2C_GEN_ARRAY_SIZE 0"
    and B7: "0 < i \<Longrightarrow> i < 16 \<Longrightarrow> tag_count pcs2 G2 h i = tag_count pcs1 G1 h i
             + sum_list (map (\<lambda>a. if tag (pc_hash (pcs1 ! a)) = h then pc_array (pcs1 ! a) ! i else 0) as)"
    and B8: "ent_hash ` set (ht_entries G2) \<subseteq> ent_hash ` set (ht_entries G1) \<union> tag ` (\<lambda>a. pc_hash (pcs1 ! a)) ` set as" for h i
    using rest by (auto simp: merged_into_def)
  have same: "pcs1 ! x = pcs ! x" if "x \<in> set as" for x using A(4) as that by auto
  have cnt: "tag_count pcs2 G2 h i = tag_count pcs G h i
      + sum_list (map (\<lambda>a. if tag (pc_hash (pcs ! a)) = h then pc_array (pcs ! a) ! i else 0) (a # as))"
    if "0 < i" "i < 16" for h i
  proof -
    have "map (\<lambda>a. if tag (pc_hash (pcs1 ! a)) = h then pc_array (pcs1 ! a) ! i else 0) as
        = map (\<lambda>a. if tag (pc_hash (pcs ! a)) = h then pc_array (pcs ! a) ! i else 0) as"
      using same by (intro map_cong) auto
    then show ?thesis
      unfolding B7 [OF that] A7 [OF that] by (simp only: list.map sum_list.Cons add.assoc)
  qed
  have img: "(\<lambda>a. pc_hash (pcs1 ! a)) ` set as = (\<lambda>a. pc_hash (pcs ! a)) ` set as"
    using same by (auto simp: image_iff)
  have z: "pc_array (pcs2 ! a) = replicate NG2C_GEN_ARRAY_SIZE 0"
    using A(1,2,5) B(5) as by auto
  show ?thesis
    unfolding merged_into_def prod.case
  proof (intro conjI)
    show "\<forall>x < length pcs. x \<notin> table_addrs G \<longrightarrow> x \<notin> set (a # as) \<longrightarrow> pcs2 ! x = pcs ! x"
      using A(1,2,4) B(5) by auto
    show "ent_hash ` set (ht_entries G2) \<subseteq> ent_hash ` set (ht_entries G) \<union> tag ` (\<lambda>a. pc_hash (pcs ! a)) ` set (a # as)"
      using order_trans [OF B8 [unfolded img] Un_mono [OF A8 order_refl]]
      by (simp only: list.set image_insert Un_insert_left Un_insert_right Un_empty_right)
  qed (use A(1-3) B cnt z in auto)
qed

lemma merge_all_merged:
  assumes "pct_inv pcs G" and "distinct (map ent_literal es)"
    and "\<forall>e \<in> set es. ent_literal e < length pcs \<and> ent_literal e \<notin> table_addrs G
           \<and> site_known mbt (pc_hash (pcs ! ent_literal e))"
  shows "\<exists>st'. rfold (merge_counter cfg ngens mbt) es (pcs, G) = Inr st'
    \<and> merged_into (merged_tag ngens mbt) (map ent_literal es) (pcs, G) st'"
  using assms
proof (induction es arbitrary: pcs G)
  case Nil
  then show ?case by (simp add: merged_into_Nil)
next
  case (Cons e es)
  obtain pcs1 G1 where s: "merge_counter cfg ngens mbt e (pcs, G) = Inr (pcs1, G1)"
      "merged_into (merged_tag ngens mbt) [ent_literal e] (pcs, G) (pcs1, G1)"
    using merge_counter_merged [OF Cons.prems(1), of e mbt cfg ngens] Cons.prems(3) by auto
  have inv1: "pct_inv pcs1 G1" and fr: "length pcs \<le> length pcs1"
      "\<forall>x < length pcs. x \<in> table_addrs G1 \<longleftrightarrow> x \<in> table_addrs G"
      "\<forall>x < length pcs. pc_hash (pcs1 ! x) = pc_hash (pcs ! x)"
    using s(2) by (auto simp: merged_into_def)
  have "\<exists>st'. rfold (merge_counter cfg ngens mbt) es (pcs1, G1) = Inr st'
    \<and> merged_into (merged_tag ngens mbt) (map ent_literal es) (pcs1, G1) st'"
    using Cons.prems fr by (intro Cons.IH inv1) auto
  then obtain pcs2 G2 where r: "rfold (merge_counter cfg ngens mbt) es (pcs1, G1) = Inr (pcs2, G2)"
    "merged_into (merged_tag ngens mbt) (map ent_literal es) (pcs1, G1) (pcs2, G2)" by auto
  have "merged_into (merged_tag ngens mbt) (ent_literal e # map ent_literal es) (pcs, G) (pcs2, G2)"
    using Cons.prems by (intro merged_into_Cons [OF s(2) r(2)]) auto
  with s(1) r(1) show ?case by simp
qed

section \<open>All workers\<close>

definition worker_entries :: "vm_thread \<Rightarrow> nat ht_entry list" where
  "worker_entries th = (case th of Named_Thread t \<Rightarrow> concat (map (bucket t) [0..<table_size t]) | _ \<Rightarrow> [])"

lemma merge_do_thread_eq:
  "merge_do_thread cfg ngens mbt th st = rfold (merge_counter cfg ngens mbt) (worker_entries th) st"
  by (simp add: merge_do_thread_def worker_entries_def update_promotions_def split: vm_thread.splits)

lemma merge_threads_eq:
  "rfold (merge_do_thread cfg ngens mbt) ths st
     = rfold (merge_counter cfg ngens mbt) (concat (map worker_entries ths)) st"
  by (induction ths arbitrary: st) (auto simp: merge_do_thread_eq rfold_append rbind_def split: sum.splits)

section \<open>Deciding\<close>

lemma mbt_inv_update:
  assumes "mbt_inv ngens t" and "nga_hash c = nga_hash (ngens ! x)" and "nga_wf c"
  shows "mbt_inv (ngens[x := c]) t"
proof -
  have "nga_hash (ngens[x := c] ! y) = nga_hash (ngens ! y)" for y
    using assms(2) by (cases "x < length ngens") (auto simp: nth_list_update list_update_beyond)
  then show ?thesis
    using assms(1,3) by (auto simp: mbt_inv_def table_points_def intro: list_all_update)
qed

lemma mbt_lookup_wf:
  assumes "mbt_inv ngens mbt" and "mbt_get_entry mbt site = Some a"
  shows "a < length ngens" "nga_wf (ngens ! a)" "nga_hash (ngens ! a) = site"
  using assms table_points_lookup [of mbt nga_hash ngens site a]
  by (auto simp: mbt_inv_def mbt_get_entry_eq list_all_length split: if_splits)

lemma set_target_gen_hash: "set_target_gen c g a = Inr a' \<Longrightarrow> nga_hash a' = nga_hash a"
  by (auto simp: set_target_gen_def Let_def res_simps)

lemma decision_word:
  assumes "0 < normalize_derive_analyze pc"
  shows "unat (word_of_int (normalize_derive_analyze pc) :: uint) = nat (normalize_derive_analyze pc)"
    and "unat (word_of_int (normalize_derive_analyze pc) :: uint) < 16"
proof -
  let ?d = "normalize_derive_analyze pc"
  have r: "?d < 15" using decision_range [of pc] by simp
  show "unat (word_of_int ?d :: uint) = nat ?d" using r assms by (intro unat_word_of_int) auto
  then show "unat (word_of_int ?d :: uint) < 16" using r by simp
qed

text \<open>The counter after the allocations of the window were added to its age 0.\<close>

definition counted :: "ngen_store \<Rightarrow> nat hashtable \<Rightarrow> promotion_counter \<Rightarrow> promotion_counter" where
  "counted ngens mbt pc =
     (case mbt_get_entry mbt (tag_site (pc_hash pc)) of
        None \<Rightarrow> pc
      | Some a \<Rightarrow>
          pc\<lparr>pc_array := (pc_array pc)[0 := pc_array pc ! 0
               + nga_allocs_gen (ngens ! a) ! nga_index (ngens ! a) (tag_context (pc_hash pc))]\<rparr>)"

lemma counted_keeps [simp]:
  "pc_hash (counted ngens mbt pc) = pc_hash pc" "pc_wf (counted ngens mbt pc) = pc_wf pc"
  by (auto simp: counted_def pc_wf_def split: option.splits)

text \<open>What one counter's decision does to the array of its site.\<close>

definition decide_site :: "vm_config \<Rightarrow> int \<Rightarrow> uint \<Rightarrow> ngen_array \<Rightarrow> ngen_array" where
  "decide_site cfg decision context a =
     (if 0 < decision \<and> NG2C_PROF_ALLOC cfg
      then a\<lparr>nga_target_gen := (nga_target_gen a)[nga_index a context := word_of_int decision]\<rparr>
      else if decision < 0 \<and> NG2C_PROF_CONTEXT cfg \<and> \<not> expanded_contexts a then prepare_contexts a
      else a)"

lemma set_target_gen_decision:
  assumes "nga_wf a" and "unat c < 65536" and "0 < normalize_derive_analyze pc"
  shows "set_target_gen c (word_of_int (normalize_derive_analyze pc)) a
    = Inr (a\<lparr>nga_target_gen := (nga_target_gen a)[nga_index a c := word_of_int (normalize_derive_analyze pc)]\<rparr>)"
proof -
  let ?d = "normalize_derive_analyze pc"
  have u: "ucast (word_of_int ?d :: uint) = (word_of_int ?d :: ngen_t)"
  proof -
    have "unat (ucast (word_of_int ?d :: uint) :: ngen_t) = nat ?d"
      using decision_word [OF assms(3)] by (simp add: unsigned_ucast_eq take_bit_nat_eq_self)
    moreover have "unat (word_of_int ?d :: ngen_t) = nat ?d"
      using decision_range [of pc] assms(3) by (intro unat_word_of_int) auto
    ultimately show ?thesis using assms(3) by (simp add: word_unat_eq_iff)
  qed
  have "gen_in_range (ucast (word_of_int ?d :: uint))"
    using decision_word [OF assms(3)] by (simp add: gen_in_range_def word_less_nat_alt unsigned_ucast_eq take_bit_nat_eq_self)
  with nga_index_less [OF assms(1,2)] show ?thesis
    by (simp add: set_target_gen_def Let_def u)
qed

lemma decide_site_keeps:
  assumes "nga_wf a" and "unat c < 65536"
  shows "nga_wf (decide_site cfg (normalize_derive_analyze pc) c a)"
    and "nga_hash (decide_site cfg (normalize_derive_analyze pc) c a) = nga_hash a"
  using nga_wf_set_target_gen [OF assms(1) set_target_gen_decision [OF assms]] nga_wf_prepare_contexts [OF assms(1)] assms(1)
  by (auto simp: decide_site_def prepare_contexts_def)

lemma update_counter_eq:
  assumes inv: "mbt_inv ngens mbt" and known: "mbt_get_entry mbt (tag_site (pc_hash (pcs ! ent_literal p))) = Some a"
  shows "\<exists>need'. update_counter cfg mbt p (need, ngens, pcs)
    = Inr (need',
           ngens[a := decide_site cfg (normalize_derive_analyze (counted ngens mbt (pcs ! ent_literal p)))
                        (tag_context (pc_hash (pcs ! ent_literal p))) (ngens ! a)],
           pcs[ent_literal p := counted ngens mbt (pcs ! ent_literal p)])"
proof -
  let ?pc = "pcs ! ent_literal p"
  let ?c = "tag_context (pc_hash ?pc)" and ?d = "normalize_derive_analyze (counted ngens mbt ?pc)"
  have wf: "nga_wf (ngens ! a)" by (rule mbt_lookup_wf [OF inv known])
  have c: "unat ?c < 65536" by (rule tag_context_less)
  have n: "number_allocs ?c (ngens ! a) = Inr (nga_allocs_gen (ngens ! a) ! nga_index (ngens ! a) ?c)"
    using nga_index_less [OF wf c] by (simp add: number_allocs_def)
  have pc: "?pc\<lparr>pc_array := (pc_array ?pc)[0 := pc_array ?pc ! 0 + nga_allocs_gen (ngens ! a) ! nga_index (ngens ! a) ?c]\<rparr>
      = counted ngens mbt ?pc"
    by (simp add: counted_def known)
  have wf': "nga_wf (decide_site cfg ?d ?c (ngens ! a))" by (rule decide_site_keeps [OF wf c])
  have tg: "\<exists>g. target_gen ?c (decide_site cfg ?d ?c (ngens ! a)) = Inr g" using target_gen_ok [OF wf' c] by blast
  then have lg: "vmop_log cfg ?c (decide_site cfg ?d ?c (ngens ! a)) = Inr ()" by (auto simp: vmop_log_def)
  note U = update_counter_def [of cfg mbt p "(need, ngens, pcs)"]
  consider "0 < ?d" | "?d < 0" | "?d = 0" by linarith
  then show ?thesis
  proof cases
    case 1
    have "(if NG2C_PROF_ALLOC cfg then set_target_gen ?c (word_of_int ?d) (ngens ! a) else Inr (ngens ! a))
        = Inr (decide_site cfg ?d ?c (ngens ! a))"
      using 1 set_target_gen_decision [OF wf c 1] by (simp add: decide_site_def)
    with 1 lg show ?thesis unfolding U prod.case Let_def known option.case n rbind_simps pc by auto
  next
    case 2
    then show ?thesis
      using lg unfolding U prod.case Let_def known option.case n rbind_simps pc by (auto simp: decide_site_def)
  next
    case 3
    then show ?thesis
      unfolding U prod.case Let_def known option.case n rbind_simps pc by (auto simp: decide_site_def)
  qed
qed

lemma sites_known_lookup:
  assumes "pct_inv pcs t" and "sites_known mbt t" and "e \<in> set (ht_entries t)"
  shows "\<exists>a. mbt_get_entry mbt (tag_site (pc_hash (pcs ! ent_literal e))) = Some a"
  using assms by (auto simp: pct_inv_def table_points_def list_all_iff sites_known_def site_known_def)

lemma update_target_gen_ok:
  assumes "mbt_inv ngens mbt" and "pct_inv pcs G" and "sites_known mbt G"
  shows "\<exists>need' ngens' pcs'. update_target_gen cfg mbt G (need, ngens, pcs) = Inr (need', ngens', pcs')
    \<and> mbt_inv ngens' mbt \<and> length pcs' = length pcs \<and> list_all pc_wf pcs' \<and> map pc_hash pcs' = map pc_hash pcs
    \<and> (\<forall>x. x \<notin> table_addrs G \<longrightarrow> pcs' ! x = pcs ! x)"
proof -
  let ?P = "\<lambda>(need :: bool, ngens, pcs'). mbt_inv ngens mbt \<and> length pcs' = length pcs \<and> list_all pc_wf pcs'
      \<and> map pc_hash pcs' = map pc_hash pcs \<and> (\<forall>x. x \<notin> table_addrs G \<longrightarrow> pcs' ! x = pcs ! x)"
  have "\<exists>st'. rfold (update_counter cfg mbt) (ht_entries G) (need, ngens, pcs) = Inr st' \<and> ?P st'"
  proof (rule rfold_total)
    show "?P (need, ngens, pcs)" using assms by (simp add: pct_inv_def)
  next
    fix e st assume e: "e \<in> set (ht_entries G)" and P: "?P st"
    obtain nd ng pc where st: "st = (nd, ng, pc)" by (cases st)
    have hash: "pc_hash (pc ! x) = pc_hash (pcs ! x)" if "x < length pcs" for x
      using P st that by (auto dest: map_eq_imp_length_eq) (metis nth_map)
    have l: "ent_literal e < length pcs"
      using assms(2) e by (auto simp: pct_inv_def table_points_def list_all_iff)
    then obtain a where a: "mbt_get_entry mbt (tag_site (pc_hash (pc ! ent_literal e))) = Some a"
      using sites_known_lookup [OF assms(2,3) e] hash by auto
    have inv: "mbt_inv ng mbt" using P st by simp
    note wf = mbt_lookup_wf [OF inv a]
    have "ent_literal e \<in> table_addrs G" using e by (simp add: table_addrs_def)
    then have "pc[ent_literal e := c] ! x = pc ! x" if "x \<notin> table_addrs G" for x c
      using that by (metis nth_list_update_neq)
    moreover have "pc_wf (pc ! ent_literal e)" using P st l by (simp add: list_all_length)
    ultimately show "\<exists>t'. update_counter cfg mbt e st = Inr t' \<and> ?P t'"
      using update_counter_eq [OF inv a, of cfg nd] P st l
        mbt_inv_update [OF inv decide_site_keeps(2,1) [OF wf(2) tag_context_less]]
      by (auto simp: map_update list_update_same_conv hash [OF l] intro!: list_all_update)
  qed
  then show ?thesis
    using assms(2) by (auto simp: update_target_gen_def pct_inv_def buckets_entries)
qed

section \<open>The invariant of the profiler\<close>

definition worker_ok :: "ng2c_vm \<Rightarrow> nat hashtable \<Rightarrow> bool" where
  "worker_ok vm t \<longleftrightarrow> pct_inv (v_pcs vm) t \<and> sites_known (v_method_bci vm) t
     \<and> table_addrs t \<inter> table_addrs (v_promotion vm) = {}"

definition vm_thread_ok :: "ng2c_vm \<Rightarrow> vm_thread \<Rightarrow> bool" where
  "vm_thread_ok vm th \<longleftrightarrow>
     (case th of
        Named_Thread t \<Rightarrow> worker_ok vm t
      | Java_Thread jt \<Rightarrow> (\<forall>f \<in> set (jt_frames jt). vf_method f < length (fst (v_sa vm)))
      | Other_Thread \<Rightarrow> True)"

definition vm_inv :: "ng2c_vm \<Rightarrow> bool" where
  "vm_inv vm \<longleftrightarrow> mbt_inv (v_ngens vm) (v_method_bci vm)
     \<and> pct_inv (v_pcs vm) (v_promotion vm) \<and> sites_known (v_method_bci vm) (v_promotion vm)
     \<and> list_all (vm_thread_ok vm) (v_threads vm)
     \<and> distinct (map ent_literal (concat (map worker_entries (v_threads vm))))
     \<and> sa_inv (snd (v_sa vm)) \<and> list_all method_ok (fst (v_sa vm))"

lemma worker_entries_named: "ht_inv t \<Longrightarrow> worker_entries (Named_Thread t) = ht_entries t"
  by (simp add: worker_entries_def buckets_entries)

lemma worker_entry:
  assumes "vm_inv vm" and "e \<in> set (concat (map worker_entries (v_threads vm)))"
  shows "\<exists>t. Named_Thread t \<in> set (v_threads vm) \<and> worker_ok vm t \<and> e \<in> set (ht_entries t)"
proof -
  obtain th where th: "th \<in> set (v_threads vm)" "e \<in> set (worker_entries th)" using assms(2) by auto
  then obtain t where t: "th = Named_Thread t" by (cases th) (auto simp: worker_entries_def)
  have ok: "worker_ok vm t" using assms(1) th(1) t by (auto simp: vm_inv_def list_all_iff vm_thread_ok_def)
  then have "e \<in> set (ht_entries t)"
    using th t worker_entries_named [of t] by (auto simp: worker_ok_def pct_inv_def)
  with ok th t show ?thesis by auto
qed

lemma worker_entry_facts:
  assumes "vm_inv vm" and "e \<in> set (concat (map worker_entries (v_threads vm)))"
  shows "ent_literal e < length (v_pcs vm)" and "ent_literal e \<notin> table_addrs (v_promotion vm)"
    and "pc_hash (v_pcs vm ! ent_literal e) = ent_hash e" and "site_known (v_method_bci vm) (ent_hash e)"
proof -
  obtain t where t: "worker_ok vm t" "e \<in> set (ht_entries t)" using worker_entry [OF assms] by blast
  then show "ent_literal e < length (v_pcs vm)" "ent_literal e \<notin> table_addrs (v_promotion vm)"
    "pc_hash (v_pcs vm ! ent_literal e) = ent_hash e" "site_known (v_method_bci vm) (ent_hash e)"
    by (auto simp: worker_ok_def pct_inv_def table_points_def list_all_iff table_addrs_def sites_known_def)
qed

lemma merge_threads_merged:
  assumes inv: "vm_inv vm"
  defines "es \<equiv> concat (map worker_entries (v_threads vm))"
  shows "\<exists>pcs' G'. rfold (merge_do_thread cfg (v_ngens vm) (v_method_bci vm)) (v_threads vm)
        (v_pcs vm, v_promotion vm) = Inr (pcs', G')
    \<and> merged_into (merged_tag (v_ngens vm) (v_method_bci vm)) (map ent_literal es)
        (v_pcs vm, v_promotion vm) (pcs', G')
    \<and> sites_known (v_method_bci vm) G'"
proof -
  note W = worker_entry_facts [OF inv]
  have "pct_inv (v_pcs vm) (v_promotion vm)" and d: "distinct (map ent_literal es)"
    using inv by (auto simp: vm_inv_def es_def)
  from merge_all_merged [OF this, of "v_method_bci vm" cfg "v_ngens vm"]
  obtain pcs' G' where m: "rfold (merge_counter cfg (v_ngens vm) (v_method_bci vm)) es (v_pcs vm, v_promotion vm) = Inr (pcs', G')"
      "merged_into (merged_tag (v_ngens vm) (v_method_bci vm)) (map ent_literal es) (v_pcs vm, v_promotion vm) (pcs', G')"
    using W by (auto simp: es_def)
  have sub: "ent_hash ` set (ht_entries G') \<subseteq> ent_hash ` set (ht_entries (v_promotion vm))
      \<union> merged_tag (v_ngens vm) (v_method_bci vm) ` (\<lambda>a. pc_hash (v_pcs vm ! a)) ` set (map ent_literal es)"
    using m(2) by (simp add: merged_into_def)
  have "site_known (v_method_bci vm) h" if hG: "h \<in> ent_hash ` set (ht_entries G')" for h
  proof -
    consider "h \<in> ent_hash ` set (ht_entries (v_promotion vm))"
      | e where "e \<in> set es" "h = merged_tag (v_ngens vm) (v_method_bci vm) (pc_hash (v_pcs vm ! ent_literal e))"
      using subsetD [OF sub hG] by (auto simp: image_image)
    then show ?thesis
    proof cases
      case 1
      then show ?thesis using inv by (auto simp: vm_inv_def sites_known_def)
    next
      case 2
      then show ?thesis using W(3,4) [of e] by (auto simp: es_def intro: site_known_merged)
    qed
  qed
  then have "sites_known (v_method_bci vm) G'" by (auto simp: sites_known_def)
  with m show ?thesis by (auto simp: merge_threads_eq es_def)
qed

lemma zero_allocs_keeps: "nga_wf a \<Longrightarrow> nga_wf (zero_allocs a) \<and> nga_hash (zero_allocs a) = nga_hash a"
  by (auto simp: nga_wf_def zero_allocs_def Let_def)

lemma mbt_zero_inv:
  assumes inv: "mbt_inv ngens t"
  shows "mbt_inv (mbt_zero t ngens) t"
proof -
  have n: "nga_wf (mbt_zero t ngens ! a) \<and> nga_hash (mbt_zero t ngens ! a) = nga_hash (ngens ! a)"
    if "a < length ngens" for a
    using that mbt_zero_nth(2) [OF inv that] zero_allocs_keeps inv by (auto simp: mbt_inv_def list_all_length)
  then show ?thesis
    using inv mbt_zero_nth(1) [OF inv] by (auto simp: mbt_inv_def table_points_def list_all_iff list_all_length in_set_conv_nth)
qed

lemma pct_zero_keeps:
  assumes inv: "pct_inv pcs t"
  shows "list_all pc_wf (pct_zero t pcs)" and "\<forall>x < length pcs. pc_hash (pct_zero t pcs ! x) = pc_hash (pcs ! x)"
    and "a \<in> table_addrs t \<Longrightarrow> pc_array (pct_zero t pcs ! a) = replicate NG2C_GEN_ARRAY_SIZE 0"
    and "a < length pcs \<Longrightarrow> a \<notin> table_addrs t \<Longrightarrow> pct_zero t pcs ! a = pcs ! a"
proof -
  note Z = pct_zero_nth [OF inv]
  show "list_all pc_wf (pct_zero t pcs)" "\<forall>x < length pcs. pc_hash (pct_zero t pcs ! x) = pc_hash (pcs ! x)"
    using inv Z by (auto simp: list_all_length pc_wf_zero pct_inv_def pc_zero_def pc_wf_def)
  show "a \<in> table_addrs t \<Longrightarrow> pc_array (pct_zero t pcs ! a) = replicate NG2C_GEN_ARRAY_SIZE 0"
    using Z pct_addr_less [OF inv] by (auto simp: table_addrs_def pc_zero_def)
  show "a < length pcs \<Longrightarrow> a \<notin> table_addrs t \<Longrightarrow> pct_zero t pcs ! a = pcs ! a"
    using Z by (auto simp: table_addrs_def)
qed

lemma set_threads_context_ok:
  assumes "sa_inv sa" and "list_all method_ok ms"
    and "\<forall>jt. Java_Thread jt \<in> set ths \<longrightarrow> (\<forall>f \<in> set (jt_frames jt). vf_method f < length ms)"
  shows "\<exists>ths' sa'. set_threads_context cfg ths (ms, sa) = Inr (ths', ms, sa') \<and> sa_inv sa'
    \<and> list_all2 (\<lambda>th th'. case th of Java_Thread jt \<Rightarrow> (\<exists>jt'. th' = Java_Thread jt' \<and> jt_frames jt' = jt_frames jt)
                            | _ \<Rightarrow> th' = th) ths ths'"
  using assms
proof (induction ths arbitrary: sa)
  case (Cons th ths)
  have "\<exists>th' sa1. set_context_do_thread cfg th (ms, sa) = Inr (th', ms, sa1) \<and> sa_inv sa1
    \<and> (case th of Java_Thread jt \<Rightarrow> (\<exists>jt'. th' = Java_Thread jt' \<and> jt_frames jt' = jt_frames jt) | _ \<Rightarrow> th' = th)"
  proof (cases th)
    case (Java_Thread jt)
    have "\<forall>f \<in> set (jt_frames jt). vf_method f < length ms" using Cons.prems(3) Java_Thread by auto
    from calculate_context_total [OF Cons.prems(1) this Cons.prems(2), of "vc_sa cfg" "vc_blk cfg" "MaxJavaStackTraceDepth cfg"]
    show ?thesis by (auto simp: set_context_do_thread_def Java_Thread)
  qed (use Cons.prems in \<open>simp_all add: set_context_do_thread_def\<close>)
  then obtain th' sa1 where 1: "set_context_do_thread cfg th (ms, sa) = Inr (th', ms, sa1)" "sa_inv sa1"
    "case th of Java_Thread jt \<Rightarrow> (\<exists>jt'. th' = Java_Thread jt' \<and> jt_frames jt' = jt_frames jt) | _ \<Rightarrow> th' = th"
    by blast
  have rest: "\<forall>jt. Java_Thread jt \<in> set ths \<longrightarrow> (\<forall>f \<in> set (jt_frames jt). vf_method f < length ms)"
    using Cons.prems(3) by auto
  from Cons.IH [OF 1(2) Cons.prems(2) rest] 1 show ?case by auto
qed simp

lemma threads_unchanged:
  assumes "list_all2 (\<lambda>th th'. case th of Java_Thread jt \<Rightarrow> (\<exists>jt'. th' = Java_Thread jt' \<and> jt_frames jt' = jt_frames jt)
                         | _ \<Rightarrow> th' = th) ths ths'"
  shows "map worker_entries ths' = map worker_entries ths"
    and "Named_Thread t \<in> set ths' \<Longrightarrow> Named_Thread t \<in> set ths"
    and "Java_Thread jt' \<in> set ths' \<Longrightarrow> \<exists>jt. Java_Thread jt \<in> set ths \<and> jt_frames jt' = jt_frames jt"
  using assms by (induction rule: list_all2_induct) (auto simp: worker_entries_def split: vm_thread.splits)

text \<open>The state after the window was closed: same tables, counters of every table zero.\<close>

definition window_closed :: "ng2c_vm \<Rightarrow> bool" where
  "window_closed vm \<longleftrightarrow>
     (\<forall>a \<in> table_addrs (v_promotion vm). pc_array (v_pcs vm ! a) = replicate NG2C_GEN_ARRAY_SIZE 0)
     \<and> (\<forall>e \<in> set (concat (map worker_entries (v_threads vm))).
          pc_array (v_pcs vm ! ent_literal e) = replicate NG2C_GEN_ARRAY_SIZE 0)
     \<and> (\<forall>a \<in> table_addrs (v_method_bci vm). \<forall>c. unat c < 65536 \<longrightarrow> number_allocs c (v_ngens vm ! a) = Inr 0)"

lemma zero_allocs_number:
  assumes "nga_wf a" and "unat c < 65536"
  shows "number_allocs c (zero_allocs a) = Inr 0"
proof -
  have i: "nga_index (zero_allocs a) c = nga_index a c" by (simp add: nga_index_def zero_allocs_def Let_def)
  have "nga_index a c < (if expanded_contexts a then NG2C_MAX_ALLOC_SITE else 1)"
    using nga_index_less [OF assms] assms(1) expanded_contexts_iff [OF assms(1)]
    by (auto simp: nga_wf_def nga_index_shared)
  then have "nga_allocs_gen (zero_allocs a) ! nga_index a c = 0"
    unfolding zero_allocs_def Let_def by (simp add: nth_append del: max_alloc_site_simps)
  then show ?thesis
    using nga_index_less [OF assms] by (simp add: number_allocs_def i)
qed

lemma decide_phase:
  assumes "mbt_inv ngens mbt" and "pct_inv pcs G" and "sites_known mbt G"
  shows "\<exists>nd ngens' pcs'.
      (if b then update_target_gen cfg mbt G (False, ngens, pcs) else Inr (False, ngens, pcs)) = Inr (nd, ngens', pcs')
    \<and> mbt_inv ngens' mbt \<and> length pcs' = length pcs \<and> list_all pc_wf pcs' \<and> map pc_hash pcs' = map pc_hash pcs
    \<and> (\<forall>x. x \<notin> table_addrs G \<longrightarrow> pcs' ! x = pcs ! x)"
  using update_target_gen_ok [OF assms, of cfg False] assms by (cases b) (auto simp: pct_inv_def)

lemma print_phase:
  assumes "mbt_inv ngens mbt" and "pct_inv pcs G" and "sites_known mbt G"
  shows "\<exists>out. (if b then pct_print_on mbt ngens pcs G else Inr []) = Inr out"
proof -
  have "\<exists>out. rfold (\<lambda>entry out. let pc = pcs ! ent_literal entry
      in rbind (pc_target_gen mbt ngens pc) (\<lambda>g. Inr (out @ [(pc_hash pc, g, pc_array pc)]))) (ht_entries G) [] = Inr out \<and> True"
  proof (rule rfold_total)
    fix e out assume e: "e \<in> set (ht_entries G)"
    obtain a where a: "mbt_get_entry mbt (tag_site (pc_hash (pcs ! ent_literal e))) = Some a"
      using sites_known_lookup [OF assms(2,3) e] by blast
    obtain g where "target_gen (tag_context (pc_hash (pcs ! ent_literal e))) (ngens ! a) = Inr g"
      using target_gen_ok [OF mbt_lookup_wf(2) [OF assms(1) a] tag_context_less] by blast
    then show "\<exists>t'. (let pc = pcs ! ent_literal e
        in rbind (pc_target_gen mbt ngens pc) (\<lambda>g. Inr (out @ [(pc_hash pc, g, pc_array pc)]))) = Inr t' \<and> True"
      by (auto simp: pc_target_gen_def a Let_def)
  qed simp
  then show ?thesis using assms(2) by (auto simp: pct_print_on_def pct_inv_def buckets_entries)
qed

text \<open>Closing the window: the effect on the counters, from the merge to the clearing.\<close>

lemma close_window:
  assumes inv: "vm_inv vm"
    and m: "merged_into tag (map ent_literal (concat (map worker_entries (v_threads vm)))) (v_pcs vm, v_promotion vm) (pcs1, G1)"
    and u: "length pcs2 = length pcs1" "list_all pc_wf pcs2" "map pc_hash pcs2 = map pc_hash pcs1"
      "\<forall>x. x \<notin> table_addrs G1 \<longrightarrow> pcs2 ! x = pcs1 ! x"
  shows "pct_inv (pct_zero G1 pcs2) G1"
    and "worker_ok vm t \<Longrightarrow> pct_inv (pct_zero G1 pcs2) t \<and> table_addrs t \<inter> table_addrs G1 = {}"
    and "a \<in> table_addrs G1 \<Longrightarrow> pc_array (pct_zero G1 pcs2 ! a) = replicate NG2C_GEN_ARRAY_SIZE 0"
    and "e \<in> set (concat (map worker_entries (v_threads vm))) \<Longrightarrow>
      pc_array (pct_zero G1 pcs2 ! ent_literal e) = replicate NG2C_GEN_ARRAY_SIZE 0"
proof -
  let ?n = "length (v_pcs vm)"
  have M: "pct_inv pcs1 G1" "?n \<le> length pcs1"
      "\<forall>x < ?n. x \<in> table_addrs G1 \<longleftrightarrow> x \<in> table_addrs (v_promotion vm)"
      "\<forall>x < ?n. pc_hash (pcs1 ! x) = pc_hash (v_pcs vm ! x)"
      "\<forall>e \<in> set (concat (map worker_entries (v_threads vm))). pc_array (pcs1 ! ent_literal e) = replicate NG2C_GEN_ARRAY_SIZE 0"
    using m by (auto simp: merged_into_def)
  have h2: "\<forall>x < length pcs1. pc_hash (pcs2 ! x) = pc_hash (pcs1 ! x)"
    using u(1,3) by (metis nth_map)
  have inv2: "pct_inv pcs2 G1" using u(1,2) h2 by (intro pct_inv_grow [OF M(1)]) auto
  note Z = pct_zero_keeps [OF inv2] and L = pct_zero_nth(1) [OF inv2]
  show "pct_inv (pct_zero G1 pcs2) G1" using Z(1,2) L by (intro pct_inv_grow [OF inv2]) auto
  show "worker_ok vm t \<Longrightarrow> pct_inv (pct_zero G1 pcs2) t \<and> table_addrs t \<inter> table_addrs G1 = {}"
  proof -
    assume w: "worker_ok vm t"
    then have t: "pct_inv (v_pcs vm) t" "table_addrs t \<inter> table_addrs (v_promotion vm) = {}" by (auto simp: worker_ok_def)
    have "pct_inv (pct_zero G1 pcs2) t"
      using Z(1,2) L M(2,4) h2 u(1) by (intro pct_inv_grow [OF t(1)]) auto
    moreover have "table_addrs t \<inter> table_addrs G1 = {}"
      using t pct_addr_less [OF t(1)] M(3) by blast
    ultimately show ?thesis by simp
  qed
  show "a \<in> table_addrs G1 \<Longrightarrow> pc_array (pct_zero G1 pcs2 ! a) = replicate NG2C_GEN_ARRAY_SIZE 0" by (rule Z(3))
  assume e: "e \<in> set (concat (map worker_entries (v_threads vm)))"
  note W = worker_entry_facts(1,2) [OF inv e]
  have "ent_literal e \<notin> table_addrs G1" using W M(3) by simp
  then have "pct_zero G1 pcs2 ! ent_literal e = pcs1 ! ent_literal e"
    using Z(4) u(1,4) W(1) M(2) by auto
  then show "pc_array (pct_zero G1 pcs2 ! ent_literal e) = replicate NG2C_GEN_ARRAY_SIZE 0"
    using bspec [OF M(5) e] by simp
qed

lemma merge_and_decide_ok:
  assumes inv: "vm_inv vm"
  shows "\<exists>vm'. merge_and_decide cfg vm = Inr vm' \<and> vm_inv vm' \<and> window_closed vm'
    \<and> v_total_update_target_gen vm' = v_total_update_target_gen vm"
proof -
  let ?mbt = "v_method_bci vm"
  have V: "mbt_inv (v_ngens vm) ?mbt" "sa_inv (snd (v_sa vm))" "list_all method_ok (fst (v_sa vm))"
      "\<forall>jt. Java_Thread jt \<in> set (v_threads vm) \<longrightarrow> (\<forall>f \<in> set (jt_frames jt). vf_method f < length (fst (v_sa vm)))"
      "\<forall>t. Named_Thread t \<in> set (v_threads vm) \<longrightarrow> worker_ok vm t"
      "distinct (map ent_literal (concat (map worker_entries (v_threads vm))))"
    using inv by (auto simp: vm_inv_def list_all_iff vm_thread_ok_def)
  obtain pcs1 G1 where m: "rfold (merge_do_thread cfg (v_ngens vm) ?mbt) (v_threads vm) (v_pcs vm, v_promotion vm) = Inr (pcs1, G1)"
      "merged_into (merged_tag (v_ngens vm) ?mbt) (map ent_literal (concat (map worker_entries (v_threads vm))))
         (v_pcs vm, v_promotion vm) (pcs1, G1)" "sites_known ?mbt G1"
    using merge_threads_merged [OF inv, of cfg] by blast
  have inv1: "pct_inv pcs1 G1" using m(2) by (simp add: merged_into_def)
  obtain nd ngens2 pcs2 where u: "(if 1 < ucast (v_total_update_target_gen vm) div NG2CUpdateThreshold cfg
       then update_target_gen cfg ?mbt G1 (False, v_ngens vm, pcs1) else Inr (False, v_ngens vm, pcs1)) = Inr (nd, ngens2, pcs2)"
      "mbt_inv ngens2 ?mbt" "length pcs2 = length pcs1" "list_all pc_wf pcs2" "map pc_hash pcs2 = map pc_hash pcs1"
      "\<forall>x. x \<notin> table_addrs G1 \<longrightarrow> pcs2 ! x = pcs1 ! x"
    using decide_phase [OF V(1) inv1 m(3)] by blast
  have h2: "\<forall>x < length pcs1. pc_hash (pcs2 ! x) = pc_hash (pcs1 ! x)" using u(3,5) by (metis nth_map)
  have "pct_inv pcs2 G1" using u(3,4) h2 by (intro pct_inv_grow [OF inv1]) auto
  then obtain out where o: "(if 1 < ucast (v_total_update_target_gen vm) div NG2CUpdateThreshold cfg \<and> DEBUG_NG2C_PROF_VMOP cfg
      then pct_print_on ?mbt ngens2 pcs2 G1 else Inr []) = Inr out"
    using print_phase [OF u(2) _ m(3)] by blast
  obtain ths sa where c: "set_threads_context cfg (v_threads vm) (v_sa vm) = Inr (ths, fst (v_sa vm), sa)" "sa_inv sa"
      "list_all2 (\<lambda>th th'. case th of Java_Thread jt \<Rightarrow> (\<exists>jt'. th' = Java_Thread jt' \<and> jt_frames jt' = jt_frames jt)
                     | _ \<Rightarrow> th' = th) (v_threads vm) ths"
    using set_threads_context_ok [OF V(2-4), of cfg] by auto
  note T = threads_unchanged [OF c(3)] and C = close_window [OF inv m(2) u(3-6)]
  let ?vm = "vm\<lparr>v_ngens := mbt_zero ?mbt ngens2, v_pcs := pct_zero G1 pcs2, v_promotion := G1,
                v_threads := ths, v_sa := (fst (v_sa vm), sa)\<rparr>"
  have "merge_and_decide cfg vm = Inr ?vm"
    unfolding merge_and_decide_def m(1) rbind_simps prod.case u(1) o Let_def c(1) ..
  moreover have "list_all (vm_thread_ok ?vm) ths"
    unfolding list_all_iff
  proof
    fix th assume th: "th \<in> set ths"
    show "vm_thread_ok ?vm th"
    proof (cases th)
      case (Named_Thread t)
      then have "worker_ok vm t" using T(2) V(5) th by simp
      with C(2) [OF this] Named_Thread show ?thesis by (simp add: vm_thread_ok_def worker_ok_def)
    next
      case (Java_Thread jt)
      then show ?thesis using T(3) [of jt] V(4) th by (auto simp: vm_thread_ok_def)
    qed (simp add: vm_thread_ok_def)
  qed
  then have "vm_inv ?vm"
    using mbt_zero_inv [OF u(2)] C(1) m(3) V(3,6) c(2) T(1) by (simp add: vm_inv_def)
  moreover have "number_allocs ctx (mbt_zero ?mbt ngens2 ! a) = Inr 0"
    if "a \<in> table_addrs ?mbt" "unat ctx < 65536" for a ctx
  proof -
    have "a < length ngens2" using u(2) that(1) by (auto simp: mbt_inv_def table_points_def list_all_iff table_addrs_def)
    then show ?thesis
      using mbt_zero_nth(2) [OF u(2), of a] that u(2) zero_allocs_number by (auto simp: table_addrs_def mbt_inv_def list_all_length)
  qed
  then have "window_closed ?vm"
    using C(3,4) T(1) by (simp add: window_closed_def)
  ultimately show ?thesis by auto
qed

lemma vm_inv_counters [simp]:
  "vm_inv (vm\<lparr>v_total_update_target_gen := n\<rparr>) = vm_inv vm"
  "vm_inv (vm\<lparr>v_MaxTenuringThreshold := w\<rparr>) = vm_inv vm"
proof -
  have "vm_thread_ok (vm\<lparr>v_total_update_target_gen := n\<rparr>) = vm_thread_ok vm"
    "vm_thread_ok (vm\<lparr>v_MaxTenuringThreshold := w\<rparr>) = vm_thread_ok vm"
    by (simp_all add: fun_eq_iff vm_thread_ok_def worker_ok_def split: vm_thread.splits)
  then show "vm_inv (vm\<lparr>v_total_update_target_gen := n\<rparr>) = vm_inv vm"
    "vm_inv (vm\<lparr>v_MaxTenuringThreshold := w\<rparr>) = vm_inv vm"
    by (simp_all add: vm_inv_def)
qed

section \<open>Survivors\<close>

lemma tag_count_update:
  assumes inv: "pct_inv pcs t" and g: "pct_get_counter t h = Some g"
  shows "tag_count (pcs[g := c]) t h' i = (if h' = h then pc_array c ! i else tag_count pcs t h' i)"
proof (cases "pct_get_counter t h'")
  case (Some x)
  then show ?thesis
    using pct_get_counter_Some [OF inv g] pct_get_counter_Some [OF inv Some] g by (auto simp: tag_count_def nth_list_update)
qed (use g in \<open>auto simp: tag_count_def\<close>)

section \<open>Properties\<close>

text \<open>C1. Under the invariant of the profiler, the VM operation runs to its end: no assertion and
  no \<^verbatim>\<open>NULL\<close> dereference, in any phase, and the invariant holds again afterwards.\<close>

theorem doit_safe:
  assumes "vm_inv vm" and "NG2CUpdateThreshold cfg \<noteq> 0"
  shows "\<exists>vm'. doit cfg False vm = Inr vm' \<and> vm_inv vm'"
proof -
  show ?thesis
    using merge_and_decide_ok [of "vm\<lparr>v_total_update_target_gen := v_total_update_target_gen vm + 1\<rparr>" cfg] assms
    by (auto simp: doit_def Let_def)
qed

text \<open>C4. Merging moves counts and loses none: for every tag and age above 0 the global count grows
  by the counts of all workers under the counters merged into that tag (modulo \<open>2 ^ 64\<close>), and
  every worker's counter is zero afterwards.\<close>

theorem merge_conserves:
  assumes "vm_inv vm"
  shows "\<exists>pcs' G'. rfold (merge_do_thread cfg (v_ngens vm) (v_method_bci vm)) (v_threads vm)
        (v_pcs vm, v_promotion vm) = Inr (pcs', G')
    \<and> (\<forall>h i. 0 < i \<longrightarrow> i < NG2C_GEN_ARRAY_SIZE \<longrightarrow>
         tag_count pcs' G' h i = tag_count (v_pcs vm) (v_promotion vm) h i
           + sum_list (map (\<lambda>e. if merged_tag (v_ngens vm) (v_method_bci vm) (ent_hash e) = h
                                then pc_array (v_pcs vm ! ent_literal e) ! i else 0)
                (concat (map worker_entries (v_threads vm)))))
    \<and> (\<forall>e \<in> set (concat (map worker_entries (v_threads vm))).
         pc_array (pcs' ! ent_literal e) = replicate NG2C_GEN_ARRAY_SIZE 0)"
proof -
  let ?es = "concat (map worker_entries (v_threads vm))"
  let ?tag = "merged_tag (v_ngens vm) (v_method_bci vm)"
  obtain pcs' G' where m: "rfold (merge_do_thread cfg (v_ngens vm) (v_method_bci vm)) (v_threads vm)
        (v_pcs vm, v_promotion vm) = Inr (pcs', G')"
      "merged_into ?tag (map ent_literal ?es) (v_pcs vm, v_promotion vm) (pcs', G')"
    using merge_threads_merged [OF assms, of cfg] by blast
  have "map (\<lambda>a. if ?tag (pc_hash (v_pcs vm ! a)) = h then pc_array (v_pcs vm ! a) ! i else 0) (map ent_literal ?es)
      = map (\<lambda>e. if ?tag (ent_hash e) = h then pc_array (v_pcs vm ! ent_literal e) ! i else 0) ?es" for h i
    unfolding map_map comp_def using worker_entry_facts(3) [OF assms] by (intro map_cong refl) (simp only:)
  with m show ?thesis by (simp only: merged_into_def prod.case gen_array_size_simps) auto
qed

text \<open>C28. The schedule: with the profiler on, a run whose number is not a multiple of the
  threshold, or is at least four times the threshold, changes nothing but the count of runs,
  and from four times the threshold on it sets the tenuring threshold to 1.\<close>

theorem doit_schedule:
  assumes "NG2CUpdateThreshold cfg \<noteq> 0" and "UseROLP (vc_sa cfg) \<or> NG2CStaticAnalysis (vc_sa cfg) \<noteq> None"
    and "n = unat (v_total_update_target_gen vm + 1)" and "th = unat (NG2CUpdateThreshold cfg)"
    and "n mod th \<noteq> 0 \<or> 4 * th \<le> n"
  shows "doit cfg False vm = Inr (vm\<lparr>v_total_update_target_gen := v_total_update_target_gen vm + 1,
      v_MaxTenuringThreshold := (if 4 * th \<le> n then 1 else v_MaxTenuringThreshold vm)\<rparr>)"
proof -
  have th: "0 < th" using assms(1,4) by (simp add: unat_gt_0)
  let ?t = "v_total_update_target_gen vm + 1"
  have u: "unat (ucast ?t :: 64 word) = n" using assms(3) by (simp add: unsigned_ucast_eq take_bit_nat_eq_self unsigned_less [THEN less_trans])
  have "should_profile cfg ?t \<longleftrightarrow> n div th \<le> 3"
    by (simp add: should_profile_def word_le_nat_alt unat_div u assms(4))
  moreover have "n div th \<le> 3 \<longleftrightarrow> \<not> 4 * th \<le> n"
    using div_less_iff_less_mult [OF th, of n 4] by linarith
  moreover have "ucast ?t mod NG2CUpdateThreshold cfg = 0 \<longleftrightarrow> n mod th = 0"
    by (simp add: word_unat_eq_iff unat_mod u assms(4))
  ultimately show ?thesis
    using assms(1,2,5) by (cases vm) (auto simp: doit_def Let_def)
qed

text \<open>C27. A run that closes a window (its number is a multiple of the threshold, at most three
  times it) leaves every promotion counter, of the global table and of every worker, and
  every allocation count of every known site at 0.\<close>

theorem doit_closes_window:
  assumes "vm_inv vm" and "NG2CUpdateThreshold cfg \<noteq> 0" and "UseROLP (vc_sa cfg)"
    and "ucast (v_total_update_target_gen vm + 1) mod NG2CUpdateThreshold cfg = 0"
    and "should_profile cfg (v_total_update_target_gen vm + 1)"
  shows "\<exists>vm'. doit cfg False vm = Inr vm' \<and> window_closed vm'"
  using merge_and_decide_ok [of "vm\<lparr>v_total_update_target_gen := v_total_update_target_gen vm + 1\<rparr>" cfg] assms
  by (auto simp: doit_def Let_def)

text \<open>C6. What one counter's decision does to its allocation site: a generation \<open>d > 0\<close> becomes
  the target generation of the counter's context (when the build enables it); a conflict
  expands the site's contexts without changing the target generation of any context; no
  decision changes no site.\<close>

theorem update_counter_decides:
  assumes inv: "mbt_inv ngens mbt" and p: "pc_hash (pcs ! ent_literal p) = h"
    and site: "mbt_get_entry mbt (tag_site h) = Some a"
    and d: "d = normalize_derive_analyze (counted ngens mbt (pcs ! ent_literal p))"
  shows "\<exists>need' ngens' pcs'. update_counter cfg mbt p (need, ngens, pcs) = Inr (need', ngens', pcs')
    \<and> (0 < d \<and> NG2C_PROF_ALLOC cfg \<longrightarrow> target_gen (tag_context h) (ngens' ! a) = Inr (word_of_int d))
    \<and> (d < 0 \<and> NG2C_PROF_CONTEXT cfg \<longrightarrow> expanded_contexts (ngens' ! a)
        \<and> (\<forall>c. unat c < NG2C_MAX_ALLOC_SITE \<longrightarrow> target_gen c (ngens' ! a) = target_gen c (ngens ! a)))
    \<and> (d = 0 \<longrightarrow> ngens' = ngens)"
proof -
  let ?c = "tag_context h"
  let ?ngens = "ngens[a := decide_site cfg d ?c (ngens ! a)]"
  obtain need' where u: "update_counter cfg mbt p (need, ngens, pcs)
      = Inr (need', ?ngens, pcs[ent_literal p := counted ngens mbt (pcs ! ent_literal p)])"
    using update_counter_eq [OF inv, of pcs p a cfg need] p site d by auto
  note wf = mbt_lookup_wf [OF inv site]
  have a: "?ngens ! a = decide_site cfg d ?c (ngens ! a)" using wf(1) by simp
  have "target_gen ?c (?ngens ! a) = Inr (word_of_int d)" if pos: "0 < d" "NG2C_PROF_ALLOC cfg"
  proof -
    have "d < 15" using decision_range [of "counted ngens mbt (pcs ! ent_literal p)"] d by simp
    then have "unat (word_of_int d :: ngen_t) < 16" using pos by (subst unat_word_of_int) auto
    then have "gen_in_range (word_of_int d)" by (simp add: gen_in_range_def word_less_nat_alt)
    then show ?thesis
      unfolding a unfolding decide_site_def using pos nga_index_less [OF wf(2) tag_context_less] wf(2)
      by (simp add: target_gen_def nga_index_def nga_wf_def Let_def)
  qed
  moreover have "expanded_contexts (?ngens ! a)
      \<and> (\<forall>c. unat c < NG2C_MAX_ALLOC_SITE \<longrightarrow> target_gen c (?ngens ! a) = target_gen c (ngens ! a))"
    if "d < 0" "NG2C_PROF_CONTEXT cfg"
    using that prepare_contexts_target [OF wf(2)] expanded_contexts_iff [OF wf(2)] wf(2)
    unfolding a unfolding decide_site_def
    by (auto simp: prepare_contexts_def expanded_contexts_def word_sless_alt nga_wf_def)
  moreover have "d = 0 \<longrightarrow> ?ngens = ngens" by (simp add: decide_site_def)
  ultimately show ?thesis using u by blast
qed

text \<open>C9. A surviving object of a known site is counted exactly once in the worker's table: under
  the tag the merge will use, at the slot of its new age (the last slot for the maximal age).\<close>

theorem record_survivor_counts:
  assumes mbt: "mbt_inv ngens mbt" and inv: "pct_inv pcs t"
    and site: "mbt_get_entry mbt (tag_site h) = Some a" and age: "age \<le> max_age"
  shows "\<exists>pcs' t'. record_survivor cfg True h age ngens mbt pcs (Named_Thread t) = Inr (pcs', Named_Thread t') \<and> pct_inv pcs' t'
    \<and> (\<forall>h' i. i < NG2C_GEN_ARRAY_SIZE \<longrightarrow> tag_count pcs' t' h' i = tag_count pcs t h' i
         + (if h' = merged_tag ngens mbt h \<and> i = min 15 (unat age + 1) then 1 else 0))"
proof -
  have h: "h \<noteq> 0" using site by (auto simp: mbt_get_entry_def tag_site_def)
  let ?h = "merged_tag ngens mbt h"
  let ?age = "if age = max_age then age else age + 1"
  have tag: "(if expanded_contexts (ngens ! a) then h else push_bit 16 (tag_site h)) = ?h"
    by (simp add: merged_tag_def site)
  obtain g pcs1 t1 where g: "pct_get_counter_not_null (vc_blk cfg (length pcs)) ?h pcs t = Inr (g, pcs1, t1)"
      "pct_inv pcs1 t1" "pct_get_counter t1 = (pct_get_counter t)(?h \<mapsto> g)"
      "\<forall>h' i. i < 16 \<longrightarrow> tag_count pcs1 t1 h' i = tag_count pcs t h' i"
    by (rule pct_get_or_add [OF inv])
  have lk: "pct_get_counter t1 ?h = Some g" by (simp add: g(3))
  have au: "unat age \<le> 15" using age by (simp add: word_le_nat_alt max_age_def)
  have "unat (age + 1) = unat age + 1" using au by (simp add: unat_word_ariths)
  then have slot: "age_slot ?age = min 15 (unat age + 1)" and pos: "0 < ?age"
    using au by (auto simp: age_slot_def max_age_def NG2C_GEN_ARRAY_SIZE_def word_unat_eq_iff word_less_nat_alt)
  let ?c = "(pcs1 ! g)\<lparr>pc_array := (pc_array (pcs1 ! g))[age_slot ?age := pc_array (pcs1 ! g) ! age_slot ?age + 1]\<rparr>"
  have run: "record_survivor cfg True h age ngens mbt pcs (Named_Thread t) = Inr (pcs1[g := ?c], Named_Thread t1)"
    unfolding record_survivor_def using h by (simp add: site tag g(1) pc_update_ok [OF pos] Let_def)
  have wf: "pc_wf (pcs1 ! g)" using g(2) pct_get_counter_Some [OF g(2) lk] by (simp add: pct_inv_def list_all_length)
  have "pct_inv (pcs1[g := ?c]) t1" using wf by (intro pct_inv_update g(2)) (auto simp: pc_wf_def)
  moreover have "tag_count (pcs1[g := ?c]) t1 h' i = tag_count pcs t h' i
      + (if h' = ?h \<and> i = min 15 (unat age + 1) then 1 else 0)" if "i < NG2C_GEN_ARRAY_SIZE" for h' i
  proof -
    have "tag_count pcs1 t1 ?h i = pc_array (pcs1 ! g) ! i" by (simp add: tag_count_def lk)
    then show ?thesis
      unfolding tag_count_update [OF g(2) lk] slot using that wf g(4)
      by (simp add: nth_list_update pc_wf_def)
  qed
  ultimately show ?thesis using run by blast
qed

section \<open>An example state\<close>

text \<open>One known site (id 1), one worker that counted five survivors of age 1 for it.\<close>

definition ex_table :: "uint \<Rightarrow> nat hashtable" where
  "ex_table h =
     \<lparr>table_size = 4, buckets = (replicate 4 []) [unat h mod 4 := [\<lparr>ent_addr = 0, ent_hash = h, ent_literal = 0, ent_shared = False\<rparr>]],
      free_list = [], first_free_entry = 0, end_block = 0, entry_size = 24, number_of_entries = 1\<rparr>"

definition ex_vm :: ng2c_vm where
  "ex_vm =
     \<lparr>v_ngens = [new_NGenerationArray 1], v_method_bci = ex_table 1,
      v_pcs = [\<lparr>pc_hash = 65536, pc_array = [0, 5, 0, 0, 0, 0, 0, 0, 0, 0, 0, 0, 0, 0, 0, 0]\<rparr>],
      v_promotion = ht_new 4 24, v_threads = [Named_Thread (ex_table 65536), Java_Thread ex_thread],
      v_sa = ([ex_hashed], sa_empty), v_total_update_target_gen = 31, v_MaxTenuringThreshold = 15\<rparr>"

definition ex_cfg :: vm_config where
  "ex_cfg = \<lparr>vc_sa = \<lparr>UseROLP = True, NG2CStaticAnalysis = None\<rparr>, NG2CUpdateThreshold = 16,
     NG2C_PROF_ALLOC = True, NG2C_PROF_CONTEXT = True,
     DEBUG_NG2C_PROF_VMOP = True, DEBUG_NG2C_PROF_VMOP_UPDATE = True, MaxJavaStackTraceDepth = 1024, vc_blk = id\<rparr>"

lemma all_less_4: "(\<forall>i < (4 :: nat). P i) \<longleftrightarrow> P 0 \<and> P 1 \<and> P 2 \<and> P 3"
  by (auto simp: less_Suc_eq eval_nat_numeral)

lemma ex_table_buckets:
  "buckets (ex_table 1) = [[], [\<lparr>ent_addr = 0, ent_hash = 1, ent_literal = 0, ent_shared = False\<rparr>], [], []]"
  "buckets (ex_table 65536) = [[\<lparr>ent_addr = 0, ent_hash = 65536, ent_literal = 0, ent_shared = False\<rparr>], [], [], []]"
  "table_size (ex_table h) = 4" "entry_size (ex_table h) = 24" "number_of_entries (ex_table h) = 1"
proof -
  have "replicate 4 x = [x, x, x, x]" for x :: "nat ht_entry list" by (simp add: eval_nat_numeral)
  then show "buckets (ex_table 1) = [[], [\<lparr>ent_addr = 0, ent_hash = 1, ent_literal = 0, ent_shared = False\<rparr>], [], []]"
    "buckets (ex_table 65536) = [[\<lparr>ent_addr = 0, ent_hash = 65536, ent_literal = 0, ent_shared = False\<rparr>], [], [], []]"
    by (simp_all add: ex_table_def)
qed (simp_all add: ex_table_def)

lemma ex_table_inv: "ht_inv (ex_table 1)" "ht_inv (ex_table 65536)"
  by (simp_all add: ht_inv_def ex_table_buckets HeapWordSize_def ht_hashed_def hash_to_index_def all_less_4)

lemma ex_lookup: "mbt_get_entry (ex_table 1) 1 = Some 0"
  by (simp add: mbt_get_entry_def ex_table_buckets bucket_def hash_to_index_def)

lemma ex_entries: "ht_entries (ex_table h) = [\<lparr>ent_addr = 0, ent_hash = h, ent_literal = 0, ent_shared = False\<rparr>]"
proof -
  have "concat ((replicate 4 [])[i := [x]]) = [x]" if "i < 4" for i :: nat and x :: "nat ht_entry"
    using that by (auto simp: less_Suc_eq eval_nat_numeral)
  then show ?thesis by (simp add: ht_entries_def ex_table_def)
qed

lemma ex_vm_inv: "vm_inv ex_vm"
proof -
  have n: "ht_inv (ht_new 4 24 :: nat hashtable)" by (rule ht_inv_new) (auto simp: HeapWordSize_def)
  have e: "ht_entries (ht_new 4 24 :: nat hashtable) = []" by (simp add: ht_entries_def ht_new_def)
  have s: "tag_site 65536 = 1" by (simp add: tag_site_def)
  have "mbt_inv (v_ngens ex_vm) (v_method_bci ex_vm)"
    by (simp add: mbt_inv_def ex_vm_def ex_table_inv table_points_def ex_entries nga_wf_new) (simp add: new_NGenerationArray_def)
  moreover have "pct_inv (v_pcs ex_vm) (v_promotion ex_vm)" "pct_inv (v_pcs ex_vm) (ex_table 65536)"
    by (simp_all add: pct_inv_def ex_vm_def n e table_points_def ex_table_inv ex_entries pc_wf_def NG2C_GEN_ARRAY_SIZE_def)
  moreover have "worker_entries (Named_Thread (ex_table 65536)) = ht_entries (ex_table 65536)"
    by (rule worker_entries_named [OF ex_table_inv(2)])
  ultimately show ?thesis
    using sa_inv_empty ex_hashed_ok
    by (auto simp: vm_inv_def vm_thread_ok_def worker_ok_def sites_known_def site_known_def table_addrs_def
        ex_vm_def e s ex_entries ex_lookup worker_entries_def ex_thread_def ex_frame_def)
qed

theorem doit_safe_witness: "\<exists>vm'. doit ex_cfg False ex_vm = Inr vm' \<and> vm_inv vm'"
  by (rule doit_safe [OF ex_vm_inv]) (simp add: ex_cfg_def)

theorem merge_conserves_witness:
  "\<exists>pcs' G'. rfold (merge_do_thread ex_cfg (v_ngens ex_vm) (v_method_bci ex_vm)) (v_threads ex_vm)
        (v_pcs ex_vm, v_promotion ex_vm) = Inr (pcs', G') \<and> tag_count pcs' G' 65536 1 = 5"
proof -
  have w: "concat (map worker_entries (v_threads ex_vm)) = ht_entries (ex_table 65536)"
    using worker_entries_named [OF ex_table_inv(2)] by (simp add: ex_vm_def worker_entries_def)
  have t: "merged_tag (v_ngens ex_vm) (v_method_bci ex_vm) 65536 = 65536"
    by (simp add: merged_tag_def ex_vm_def tag_site_def ex_lookup)
  have z: "tag_count (v_pcs ex_vm) (v_promotion ex_vm) 65536 1 = 0"
    by (simp add: tag_count_def ex_vm_def pct_get_counter_eq ht_lookup_new)
  obtain pcs' G' where m: "rfold (merge_do_thread ex_cfg (v_ngens ex_vm) (v_method_bci ex_vm)) (v_threads ex_vm)
        (v_pcs ex_vm, v_promotion ex_vm) = Inr (pcs', G')"
      "\<forall>h i. 0 < i \<longrightarrow> i < NG2C_GEN_ARRAY_SIZE \<longrightarrow>
         tag_count pcs' G' h i = tag_count (v_pcs ex_vm) (v_promotion ex_vm) h i
           + sum_list (map (\<lambda>e. if merged_tag (v_ngens ex_vm) (v_method_bci ex_vm) (ent_hash e) = h
                                then pc_array (v_pcs ex_vm ! ent_literal e) ! i else 0)
                (concat (map worker_entries (v_threads ex_vm))))"
    using merge_conserves [OF ex_vm_inv, of ex_cfg] by blast
  have a: "pc_array (v_pcs ex_vm ! 0) ! 1 = 5" by (simp add: ex_vm_def)
  have "tag_count pcs' G' 65536 1 = 5"
    using m(2) [rule_format, of 1 65536] z a t unfolding w ex_entries by simp
  with m(1) show ?thesis by blast
qed

theorem doit_schedule_witness:
  "doit ex_cfg False (ex_vm\<lparr>v_total_update_target_gen := 63\<rparr>)
    = Inr (ex_vm\<lparr>v_total_update_target_gen := 64, v_MaxTenuringThreshold := 1\<rparr>)"
proof -
  have "unat (v_total_update_target_gen (ex_vm\<lparr>v_total_update_target_gen := 63\<rparr>) + 1) = 64" by simp
  moreover have "unat (NG2CUpdateThreshold ex_cfg) = 16" "NG2CUpdateThreshold ex_cfg \<noteq> 0" "UseROLP (vc_sa ex_cfg)"
    by (simp_all add: ex_cfg_def)
  ultimately have "doit ex_cfg False (ex_vm\<lparr>v_total_update_target_gen := 63\<rparr>)
      = Inr (ex_vm\<lparr>v_total_update_target_gen := 63, v_total_update_target_gen := 63 + 1, v_MaxTenuringThreshold := 1\<rparr>)"
    by (subst doit_schedule [of ex_cfg 64 _ 16]) simp_all
  then show ?thesis by simp
qed

theorem doit_closes_window_witness: "\<exists>vm'. doit ex_cfg False ex_vm = Inr vm' \<and> window_closed vm'"
  by (rule doit_closes_window [OF ex_vm_inv]) (simp_all add: ex_cfg_def ex_vm_def should_profile_def)

theorem update_counter_decides_witness:
  "\<exists>need' ngens' pcs'. update_counter ex_cfg (ex_table 1) \<lparr>ent_addr = 0, ent_hash = 65536, ent_literal = 0, ent_shared = False\<rparr>
      (False, [new_NGenerationArray 1], [ex_counter]) = Inr (need', ngens', pcs')
    \<and> target_gen 0 (ngens' ! 0) = Inr 2"
proof -
  have inv: "mbt_inv [new_NGenerationArray 1] (ex_table 1)"
    using ex_vm_inv by (simp add: vm_inv_def ex_vm_def)
  have c: "counted [new_NGenerationArray 1] (ex_table 1) ex_counter = ex_counter"
    by (simp add: counted_def ex_counter_def tag_site_def ex_lookup new_NGenerationArray_def nga_index_def)
  have d: "normalize_derive_analyze ex_counter = 2"
    using steeper_first [of ex_counter 2 "[]"] ex_drops(1) by (simp add: drops_decision consecutive_def ex_counter_def)
  have "\<exists>need' ngens' pcs'. update_counter ex_cfg (ex_table 1) \<lparr>ent_addr = 0, ent_hash = 65536, ent_literal = 0, ent_shared = False\<rparr>
      (False, [new_NGenerationArray 1], [ex_counter]) = Inr (need', ngens', pcs')
    \<and> (0 < (2 :: int) \<and> NG2C_PROF_ALLOC ex_cfg \<longrightarrow> target_gen (tag_context 65536) (ngens' ! 0) = Inr (word_of_int 2))
    \<and> (2 < (0 :: int) \<and> NG2C_PROF_CONTEXT ex_cfg \<longrightarrow> expanded_contexts (ngens' ! 0)
        \<and> (\<forall>c. unat c < NG2C_MAX_ALLOC_SITE \<longrightarrow> target_gen c (ngens' ! 0) = target_gen c ([new_NGenerationArray 1] ! 0)))
    \<and> ((2 :: int) = 0 \<longrightarrow> ngens' = [new_NGenerationArray 1])"
    by (rule update_counter_decides [OF inv]) (simp_all add: c d tag_site_def ex_lookup, simp_all add: ex_counter_def)
  then show ?thesis by (simp add: ex_cfg_def tag_context_def)
qed

theorem record_survivor_counts_witness:
  "\<exists>pcs' t'. record_survivor ex_cfg True 65541 0 (v_ngens ex_vm) (ex_table 1) (v_pcs ex_vm) (Named_Thread (ex_table 65536)) = Inr (pcs', Named_Thread t')
    \<and> tag_count pcs' t' 65536 1 = 6"
proof -
  have inv: "mbt_inv (v_ngens ex_vm) (ex_table 1)" "pct_inv (v_pcs ex_vm) (ex_table 65536)"
    using ex_vm_inv by (auto simp: vm_inv_def ex_vm_def vm_thread_ok_def worker_ok_def)
  have t: "merged_tag (v_ngens ex_vm) (ex_table 1) 65541 = 65536"
    by (simp add: merged_tag_def ex_vm_def tag_site_def ex_lookup new_NGenerationArray_def expanded_contexts_def)
  have z: "tag_count (v_pcs ex_vm) (ex_table 65536) 65536 1 = 5"
    by (simp add: tag_count_def ex_vm_def pct_get_counter_def ex_table_buckets bucket_def hash_to_index_def)
  have site: "mbt_get_entry (ex_table 1) (tag_site 65541) = Some 0" by (simp add: tag_site_def ex_lookup)
  have age: "(0 :: uint) \<le> max_age" by (simp add: max_age_def)
  obtain pcs' t' where r: "record_survivor ex_cfg True 65541 0 (v_ngens ex_vm) (ex_table 1) (v_pcs ex_vm) (Named_Thread (ex_table 65536)) = Inr (pcs', Named_Thread t')"
      "\<forall>h' i. i < NG2C_GEN_ARRAY_SIZE \<longrightarrow> tag_count pcs' t' h' i = tag_count (v_pcs ex_vm) (ex_table 65536) h' i
         + (if h' = merged_tag (v_ngens ex_vm) (ex_table 1) 65541 \<and> i = min 15 (unat (0 :: uint) + 1) then 1 else 0)"
    using record_survivor_counts [OF inv site age, of ex_cfg] by blast
  have "tag_count pcs' t' 65536 1 = 6" using r(2) [rule_format, of 1 65536] z t by simp
  with r(1) show ?thesis by blast
qed

end
