(* ===== verification/Vm_Alloc.thy ===== *)
theory Vm_Alloc
  imports Humongous Tlab Merge_Invariant
begin

text \<open>
  The allocation paths of the virtual machine: the front end of \<^verbatim>\<open>G1CollectedHeap\<close>
  (attempts in the mutator region and in the regions of the dynamic generations, their slow paths with
  the retry protocol, new allocation buffers, \<^verbatim>\<open>mem_allocate\<close>), and the allocation of objects and
  arrays in \<^verbatim>\<open>CollectedHeap\<close>, where the profile decides about the generation and puts the
  allocation site and context into the object header.

  A collection, what other threads do meanwhile, and the state of the \<^verbatim>\<open>GC_locker\<close> are inputs:
  a retry loop consumes one \<^verbatim>\<open>round\<close> per iteration and is \<^verbatim>\<open>Diverged\<close> when the rounds it is given run out.
\<close>

section \<open>State\<close>

datatype card = Clean_Card | Dirty_Card | G1_Young_Card

record vm = g1_state +
  vm_mutator :: alloc_region
  vm_survivor :: alloc_region
  vm_old :: alloc_region
  vm_retained_old :: "nat option"
  vm_gens :: "gen_alloc_region option list"
  vm_cards :: "nat \<Rightarrow> card"
  vm_total_collections :: nat
  vm_prof :: ng2c_vm

text \<open>
  The configuration; the decision of the policy to start a marking cycle and the collection that does so
  (\<^verbatim>\<open>need_to_start_conc_mark\<close> and \<^verbatim>\<open>collect\<close>) belong to it.
\<close>

record vm_cfg =
  cf_flags :: vm_flags
  cf_prof :: vm_config
  cf_env :: g1_env
  cf_grow :: grow_env
  cf_GCLockerRetryAllocationCount :: int
  cf_need_to_start_conc_mark :: "nat \<Rightarrow> vm \<Rightarrow> bool"
  cf_collect :: "vm \<Rightarrow> vm"

text \<open>What competing threads allocate during the unlocked attempt, the locked attempt and the filling up of a region.\<close>

record rivals =
  rv_first :: "nat list"
  rv_locked :: "nat list"
  rv_fill :: "nat list list"

text \<open>
  One iteration of a retry loop: competing allocations, the state of the \<^verbatim>\<open>GC_locker\<close>
  (\<^verbatim>\<open>is_active_and_needs_gc\<close>, \<^verbatim>\<open>needs_gc\<close>), a collection pause with its result and whether
  it was performed, and what happens while the thread stalls.
\<close>

record vm_round =
  rd_rivals :: rivals
  rd_active_and_needs_gc :: bool
  rd_needs_gc :: bool
  rd_pause :: "nat \<Rightarrow> nat \<Rightarrow> vm \<Rightarrow> nat option \<times> bool \<times> vm"
  rd_stall :: "vm \<Rightarrow> vm"

definition set_heap_lock :: "bool \<Rightarrow> g1_heap \<Rightarrow> g1_heap" where
  "set_heap_lock b h = h\<lparr>gh_st := (gh_st h)\<lparr>st_mt := (gh_mt h)\<lparr>Heap_lock := b\<rparr>\<rparr>\<rparr>"

definition set_freelist_lock :: "bool \<Rightarrow> g1_heap \<Rightarrow> g1_heap" where
  "set_freelist_lock b h = h\<lparr>gh_st := (gh_st h)\<lparr>st_mt := (gh_mt h)\<lparr>FreeList_lock := b\<rparr>\<rparr>\<rparr>"

definition with_heap_lock :: "(vm \<Rightarrow> ('r \<times> vm) res) \<Rightarrow> vm \<Rightarrow> ('r \<times> vm) res" where
  "with_heap_lock f s =
     rbind (f (s\<lparr>as_heap := set_heap_lock True (as_heap s)\<rparr>)) (\<lambda>(x, s1). Inr (x, s1\<lparr>as_heap := set_heap_lock False (as_heap s1)\<rparr>))"

definition heap_not_locked_and_not_at_safepoint :: "vm \<Rightarrow> bool" where
  "heap_not_locked_and_not_at_safepoint s \<longleftrightarrow> \<not> Heap_lock (gh_mt (as_heap s)) \<and> \<not> is_at_safepoint (gh_mt (as_heap s))"

section \<open>Cards\<close>

definition byte_for :: "nat \<Rightarrow> nat" where
  "byte_for p = p * HeapWordSize div 2 ^ card_shift"

definition byte_after :: "nat \<Rightarrow> nat" where
  "byte_after p = byte_for p + 1"

definition set_cards :: "card \<Rightarrow> nat \<Rightarrow> nat \<Rightarrow> vm \<Rightarrow> vm" where
  "set_cards c start word_size s =
     s\<lparr>vm_cards := \<lambda>i. if byte_for start \<le> i \<and> i < byte_after (start + word_size - 1) then c else vm_cards s i\<rparr>"

definition g1_mark_as_young :: "nat \<Rightarrow> nat \<Rightarrow> vm \<Rightarrow> vm" where
  "g1_mark_as_young start word_size s = set_cards G1_Young_Card start word_size s"

definition g1_mark_as_dirty :: "nat \<Rightarrow> nat \<Rightarrow> vm \<Rightarrow> vm" where
  "g1_mark_as_dirty start word_size s = set_cards Dirty_Card start word_size s"

definition heap_region_containing_raw :: "nat \<Rightarrow> 'a g1_state_scheme \<Rightarrow> nat res" where
  "heap_region_containing_raw addr s =
     vassert (is_in_reserved addr s) ''invariant'' (addr_to_region_unsafe addr (g1_hrs s))"

definition dirty_young_block :: "nat \<Rightarrow> nat \<Rightarrow> vm \<Rightarrow> vm res" where
  "dirty_young_block start word_size s =
     vassert (\<not> Heap_lock (gh_mt (as_heap s))) ''heap locked''
      (rbind (heap_region_containing_raw start s) (\<lambda>p.
         let r = gh_hr (as_heap s) p
         in vassert (start \<noteq> 0 \<and> 0 < word_size) ''pre-condition''
           (vassert (hr_bottom r \<le> start \<and> start < hr_top r) ''it should contain start''
           (vassert (is_young r) ''it should be young''
           (vassert (\<not> isHumongous r) ''it should not be humongous''
           (vassert (hr_bottom r \<le> start + word_size - 1 \<and> start + word_size - 1 < hr_top r) ''it should also contain end - 1''
             (Inr (g1_mark_as_young start word_size s))))))))"

section \<open>Attempts\<close>

definition mutator_attempt_allocation :: "nat list \<Rightarrow> nat \<Rightarrow> vm \<Rightarrow> (nat option \<times> vm) res" where
  "mutator_attempt_allocation ss word_size s =
     rbind (attempt_allocation ss word_size False (vm_mutator s) (as_heap s)) (\<lambda>(result, h). Inr (result, s\<lparr>as_heap := h\<rparr>))"

definition mutator_attempt_allocation_locked :: "vm_cfg \<Rightarrow> rivals \<Rightarrow> nat \<Rightarrow> vm \<Rightarrow> (nat option \<times> vm) res" where
  "mutator_attempt_allocation_locked cfg rv word_size s =
     rbind (attempt_allocation_locked (mutator_allocate_new_region (cf_env cfg)) mutator_retire_region (rv_locked rv) (rv_fill rv)
              word_size False (vm_mutator s) (as_heap s)) (\<lambda>(result, ar, h).
       Inr (result, s\<lparr>vm_mutator := ar, as_heap := h\<rparr>))"

definition mutator_attempt_allocation_force :: "vm_cfg \<Rightarrow> nat \<Rightarrow> vm \<Rightarrow> (nat option \<times> vm) res" where
  "mutator_attempt_allocation_force cfg word_size s =
     rbind (attempt_allocation_force (mutator_allocate_new_region (cf_env cfg)) word_size False (vm_mutator s) (as_heap s)) (\<lambda>(result, ar, h).
       Inr (result, s\<lparr>vm_mutator := ar, as_heap := h\<rparr>))"

text \<open>How the part of a round that holds the lock ends.\<close>

datatype locked_end = Got nat | Try_GC nat | Wait_For_GC

definition gc_locker_decision :: "vm_round \<Rightarrow> vm \<Rightarrow> locked_end" where
  "gc_locker_decision rd s =
     (if rd_active_and_needs_gc rd then Wait_For_GC
      else if rd_needs_gc rd then Wait_For_GC
      else Try_GC (vm_total_collections s))"

definition slow_locked_part :: "vm_cfg \<Rightarrow> vm_round \<Rightarrow> nat \<Rightarrow> vm \<Rightarrow> (locked_end \<times> vm) res" where
  "slow_locked_part cfg rd word_size s =
     rbind (mutator_attempt_allocation_locked cfg (rd_rivals rd) word_size s) (\<lambda>(result, s1).
       case result of
         Some obj \<Rightarrow> Inr (Got obj, s1)
       | None \<Rightarrow>
           vassert (ar_get (vm_mutator s1) = None) ''only way to get here''
             (if rd_active_and_needs_gc rd \<and> can_expand_young_list (as_heap s1)
              then rbind (mutator_attempt_allocation_force cfg word_size s1) (\<lambda>(forced, s2).
                     case forced of Some obj \<Rightarrow> Inr (Got obj, s2) | None \<Rightarrow> Inr (Wait_For_GC, s2))
              else Inr (gc_locker_decision rd s1, s1)))"

text \<open>
  The protocol that \<^verbatim>\<open>attempt_allocation_slow\<close> and \<^verbatim>\<open>attempt_allocation_humongous\<close> share once the locked part is
  over: \<open>Inl\<close> is a return with the result and the collection count, if it is set, \<open>Inr\<close> goes round
  again.  The second component is the retry count.
\<close>

type_synonym slow_result = "nat option \<times> nat option"

definition after_locked_part :: "vm_cfg \<Rightarrow> vm_round \<Rightarrow> nat \<Rightarrow> locked_end \<Rightarrow> int \<Rightarrow> vm \<Rightarrow> ((slow_result + unit) \<times> int \<times> vm) res" where
  "after_locked_part cfg rd word_size le retry_count s =
     (case le of
        Got obj \<Rightarrow> Inr (Inl (Some obj, None), retry_count, s)
      | Try_GC gc_count_before \<Rightarrow>
          (case rd_pause rd word_size gc_count_before s of
             (result, succeeded, s1) \<Rightarrow>
               if result \<noteq> None
               then vassert succeeded ''only way to get back a non-NULL result'' (Inr (Inl (result, None), retry_count, s1))
               else if succeeded then Inr (Inl (None, Some (vm_total_collections s1)), retry_count, s1)
               else Inr (Inr (), retry_count, s1))
      | Wait_For_GC \<Rightarrow>
          if cf_GCLockerRetryAllocationCount cfg < retry_count
          then Inr (Inl (None, Some (vm_total_collections s)), retry_count, s)
          else Inr (Inr (), retry_count + 1, rd_stall rd s))"

fun slow_rounds :: "vm_cfg \<Rightarrow> vm_round list \<Rightarrow> nat \<Rightarrow> int \<Rightarrow> vm \<Rightarrow> (slow_result \<times> int \<times> vm) res" where
  "slow_rounds cfg [] word_size retry_count s = Inl (Diverged ''attempt_allocation_slow'')"
| "slow_rounds cfg (rd # rds) word_size retry_count s =
     rbind (with_heap_lock (slow_locked_part cfg rd word_size) s) (\<lambda>(le, s1).
     rbind (after_locked_part cfg rd word_size le retry_count s1) (\<lambda>(e, retry_count1, s2).
       case e of
         Inl r \<Rightarrow> Inr (r, retry_count1, s2)
       | Inr _ \<Rightarrow>
           rbind (mutator_attempt_allocation (rv_first (rd_rivals rd)) word_size s2) (\<lambda>(result, s3).
             if result \<noteq> None then Inr ((result, None), retry_count1, s3)
             else slow_rounds cfg rds word_size retry_count1 s3)))"

definition attempt_allocation_slow :: "vm_cfg \<Rightarrow> vm_round list \<Rightarrow> nat \<Rightarrow> int \<Rightarrow> vm \<Rightarrow> (slow_result \<times> int \<times> vm) res" where
  "attempt_allocation_slow cfg rds word_size retry_count s =
     vassert (heap_not_locked_and_not_at_safepoint s) ''heap lock''
    (vassert (\<not> g1_isHumongous (gh_grain (as_heap s)) word_size) ''should not be called for humongous allocation requests''
      (slow_rounds cfg rds word_size retry_count s))"

definition g1_attempt_allocation :: "vm_cfg \<Rightarrow> nat list \<Rightarrow> vm_round list \<Rightarrow> nat \<Rightarrow> int \<Rightarrow> vm \<Rightarrow> (slow_result \<times> int \<times> vm) res" where
  "g1_attempt_allocation cfg ss rds word_size retry_count s =
     vassert (heap_not_locked_and_not_at_safepoint s) ''heap lock''
    (vassert (\<not> g1_isHumongous (gh_grain (as_heap s)) word_size) ''should not be called for humongous allocation requests''
      (rbind (mutator_attempt_allocation ss word_size s) (\<lambda>(first, s1).
       rbind (case first of
                Some obj \<Rightarrow> Inr ((Some obj, None), retry_count, s1)
              | None \<Rightarrow> attempt_allocation_slow cfg rds word_size retry_count s1) (\<lambda>((result, cnt), retry_count1, s2).
         vassert (\<not> Heap_lock (gh_mt (as_heap s2))) ''heap locked''
           (case result of
              Some obj \<Rightarrow> rbind (dirty_young_block obj word_size s2) (\<lambda>s3. Inr ((result, cnt), retry_count1, s3))
            | None \<Rightarrow> Inr ((result, cnt), retry_count1, s2))))))"

definition gen_attempt_allocation :: "vm_cfg \<Rightarrow> rivals \<Rightarrow> int \<Rightarrow> nat \<Rightarrow> vm \<Rightarrow> (nat option \<times> vm) res" where
  "gen_attempt_allocation cfg rv gen word_size s =
     vassert (\<not> g1_isHumongous (gh_grain (as_heap s)) word_size) ''should not be called for humongous allocation requests''
    (vassert (0 < gen \<and> gen < int (length (vm_gens s))) ''invalid gen''
      (rbind (deref (vm_gens s ! nat gen) ''_gen_alloc_regions->at(gen)'') (\<lambda>ar.
       rbind (attempt_allocation (rv_first rv) word_size True ar (as_heap s)) (\<lambda>(first, h).
       rbind (if first = None
              then with_heap_lock (\<lambda>s1.
                     rbind (attempt_allocation_locked (gen_allocate_new_region (cf_env cfg)) (gen_retire_region (cf_env cfg)) (rv_locked rv)
                              (rv_fill rv) word_size True ar (as_heap s1)) (\<lambda>(result, ar1, h1).
                       Inr (result, s1\<lparr>vm_gens := (vm_gens s1)[nat gen := Some ar1], as_heap := h1\<rparr>))) (s\<lparr>as_heap := h\<rparr>)
              else Inr (first, s\<lparr>as_heap := h\<rparr>)) (\<lambda>(result, s2).
         Inr (result, case result of Some obj \<Rightarrow> g1_mark_as_dirty obj word_size s2 | None \<Rightarrow> s2))))))"

definition survivor_attempt_allocation :: "vm_cfg \<Rightarrow> rivals \<Rightarrow> nat \<Rightarrow> vm \<Rightarrow> (nat option \<times> vm) res" where
  "survivor_attempt_allocation cfg rv word_size s =
     vassert (\<not> g1_isHumongous (gh_grain (as_heap s)) word_size) ''we should not be seeing humongous-size allocations in this path''
      (rbind (attempt_allocation (rv_first rv) word_size False (vm_survivor s) (as_heap s)) (\<lambda>(first, h).
       rbind (if first = None
              then rbind (attempt_allocation_locked (survivor_allocate_new_region (cf_env cfg)) survivor_retire_region (rv_locked rv)
                            (rv_fill rv) word_size False (vm_survivor s) (set_freelist_lock True h)) (\<lambda>(result, ar1, h1).
                     Inr (result, s\<lparr>vm_survivor := ar1, as_heap := set_freelist_lock False h1\<rparr>))
              else Inr (first, s\<lparr>as_heap := h\<rparr>)) (\<lambda>(result, s2).
         case result of
           Some obj \<Rightarrow> rbind (dirty_young_block obj word_size s2) (\<lambda>s3. Inr (result, s3))
         | None \<Rightarrow> Inr (result, s2))))"

definition old_attempt_allocation :: "vm_cfg \<Rightarrow> rivals \<Rightarrow> nat \<Rightarrow> vm \<Rightarrow> (nat option \<times> vm) res" where
  "old_attempt_allocation cfg rv word_size s =
     vassert (\<not> g1_isHumongous (gh_grain (as_heap s)) word_size) ''we should not be seeing humongous-size allocations in this path''
      (rbind (attempt_allocation (rv_first rv) word_size True (vm_old s) (as_heap s)) (\<lambda>(first, h).
         if first = None
         then rbind (attempt_allocation_locked (old_allocate_new_region (cf_env cfg)) old_retire_region (rv_locked rv)
                       (rv_fill rv) word_size True (vm_old s) (set_freelist_lock True h)) (\<lambda>(result, ar1, h1).
                Inr (result, s\<lparr>vm_old := ar1, as_heap := set_freelist_lock False h1\<rparr>))
         else Inr (first, s\<lparr>as_heap := h\<rparr>)))"

fun humongous_rounds :: "vm_cfg \<Rightarrow> vm_round list \<Rightarrow> nat \<Rightarrow> nat \<Rightarrow> int \<Rightarrow> vm \<Rightarrow> (slow_result \<times> int \<times> vm) res" where
  "humongous_rounds cfg [] list_id word_size retry_count s = Inl (Diverged ''attempt_allocation_humongous'')"
| "humongous_rounds cfg (rd # rds) list_id word_size retry_count s =
     rbind (with_heap_lock (\<lambda>s1.
              rbind (humongous_obj_allocate (cf_env cfg) (cf_grow cfg) list_id word_size s1) (\<lambda>(result, s2).
                Inr (case result of Some obj \<Rightarrow> Got obj | None \<Rightarrow> gc_locker_decision rd s2, s2))) s) (\<lambda>(le, s3).
     rbind (after_locked_part cfg rd word_size le retry_count s3) (\<lambda>(e, retry_count1, s4).
       case e of
         Inl r \<Rightarrow> Inr (r, retry_count1, s4)
       | Inr _ \<Rightarrow> humongous_rounds cfg rds list_id word_size retry_count1 s4))"

definition attempt_allocation_humongous :: "vm_cfg \<Rightarrow> vm_round list \<Rightarrow> nat \<Rightarrow> nat \<Rightarrow> int \<Rightarrow> vm \<Rightarrow> (slow_result \<times> int \<times> vm) res" where
  "attempt_allocation_humongous cfg rds list_id word_size retry_count s =
     vassert (heap_not_locked_and_not_at_safepoint s) ''heap lock''
    (vassert (g1_isHumongous (gh_grain (as_heap s)) word_size) ''should only be called for humongous allocations''
      (let s1 = (if cf_need_to_start_conc_mark cfg word_size s then cf_collect cfg s else s)
       in humongous_rounds cfg rds list_id word_size retry_count s1))"

definition attempt_allocation_at_safepoint :: "vm_cfg \<Rightarrow> rivals \<Rightarrow> nat \<Rightarrow> nat \<Rightarrow> bool \<Rightarrow> vm \<Rightarrow> (nat option \<times> bool \<times> vm) res" where
  "attempt_allocation_at_safepoint cfg rv list_id word_size expect_null_mutator_alloc_region s =
     vassert (is_at_safepoint (gh_mt (as_heap s)) \<and> is_VM_thread (gh_mt (as_heap s))) ''should be VM thread''
    (vassert (ar_get (vm_mutator s) = None \<or> \<not> expect_null_mutator_alloc_region) ''unexpectedly found to be non-NULL''
      (if \<not> g1_isHumongous (gh_grain (as_heap s)) word_size
       then rbind (mutator_attempt_allocation_locked cfg rv word_size s) (\<lambda>(result, s1). Inr (result, False, s1))
       else rbind (humongous_obj_allocate (cf_env cfg) (cf_grow cfg) list_id word_size s) (\<lambda>(result, s1).
              Inr (result, result \<noteq> None \<and> cf_need_to_start_conc_mark cfg 0 s1, s1))))"

section \<open>Allocation buffers\<close>

definition tlab_capacity :: "vm \<Rightarrow> nat" where
  "tlab_capacity s = GrainBytes (gh_grain (as_heap s))"

definition unsafe_max_tlab_alloc :: "vm_flags \<Rightarrow> vm \<Rightarrow> nat" where
  "unsafe_max_tlab_alloc fl s =
     (let max_tlab_size = GrainWords (gh_grain (as_heap s)) div 2 * HeapWordSize
      in case ar_get (vm_mutator s) of
           None \<Rightarrow> max_tlab_size
         | Some p \<Rightarrow> min (max (free (gh_hr (as_heap s) p)) (MinTLABSize fl)) max_tlab_size)"

definition allocate_new_tlab :: "vm_cfg \<Rightarrow> nat list \<Rightarrow> vm_round list \<Rightarrow> nat \<Rightarrow> vm \<Rightarrow> (nat option \<times> vm) res" where
  "allocate_new_tlab cfg ss rds word_size s =
     vassert (heap_not_locked_and_not_at_safepoint s) ''heap lock''
    (vassert (\<not> g1_isHumongous (gh_grain (as_heap s)) word_size) ''we do not allow humongous TLABs''
      (rbind (g1_attempt_allocation cfg ss rds word_size 0 s) (\<lambda>((result, _), _, s1). Inr (result, s1))))"

definition allocate_new_gen_tlab :: "vm_cfg \<Rightarrow> rivals \<Rightarrow> int \<Rightarrow> nat \<Rightarrow> vm \<Rightarrow> (nat option \<times> vm) res" where
  "allocate_new_gen_tlab cfg rv gen word_size s =
     vassert (heap_not_locked_and_not_at_safepoint s) ''heap lock''
    (vassert (\<not> g1_isHumongous (gh_grain (as_heap s)) word_size) ''we do not allow humongous TLABs''
      (gen_attempt_allocation cfg rv gen word_size s))"

definition register_tlab :: "tlab \<Rightarrow> vm \<Rightarrow> (tlab \<times> vm) res" where
  "register_tlab t s =
     rbind (heap_region_containing_raw (tl_start t) s) (\<lambda>p.
       Inr (t\<lparr>tl_my_heap_region := Some p\<rparr>, s\<lparr>as_heap := gh_put p (add_active_tlab (gh_hr (as_heap s) p)) (as_heap s)\<rparr>))"

definition zero_to_words :: "nat \<Rightarrow> nat \<Rightarrow> vm \<Rightarrow> vm" where
  "zero_to_words p n s =
     s\<lparr>as_mem := \<lambda>q. if p \<le> q \<and> q < p + n then \<lparr>ob_mark = 0, ob_klass = None, ob_length = 0\<rparr> else as_mem s q\<rparr>"

text \<open>Which of its buffers a thread uses for an allocation.\<close>

definition tlab_index :: "klass_handle \<Rightarrow> alloc_thread \<Rightarrow> nat" where
  "tlab_index kh th = (if kh_alloc_gen kh \<noteq> 0 then th_genTlab th else 0)"

definition allocate_from_tlab_slow ::
    "vm_cfg \<Rightarrow> rivals \<Rightarrow> vm_round list \<Rightarrow> klass_handle \<Rightarrow> nat \<Rightarrow> alloc_thread \<Rightarrow> vm \<Rightarrow> (nat option \<times> alloc_thread \<times> vm) res" where
  "allocate_from_tlab_slow cfg rv rds kh sz th s =
     (let fl = cf_flags cfg; i = tlab_index kh th; t = th_tlabGenArray th ! i
      in if tl_refill_waste_limit t < tlab_free t then Inr (None, put_tlab i (record_slow_allocation fl t) th, s)
         else let new_tlab_size = compute_size fl (unsafe_max_tlab_alloc fl s) sz t
              in rbind (clear_before_allocation fl (cf_env cfg) t s) (\<lambda>(t1, bytes, s1).
                 let th1 = (put_tlab i t1 th)\<lparr>th_allocated_bytes := th_allocated_bytes th + of_nat bytes\<rparr>
                 in if new_tlab_size = 0 then Inr (None, th1, s1)
                    else rbind (if kh_alloc_gen kh = 0 then allocate_new_tlab cfg (rv_first rv) rds new_tlab_size s1
                                else allocate_new_gen_tlab cfg rv (th_alloc_gen th1) new_tlab_size s1) (\<lambda>(obj, s2).
                         case obj of
                           None \<Rightarrow> Inr (None, th1, s2)
                         | Some p \<Rightarrow>
                             let s3 = (if ZeroTLAB fl then zero_to_words p new_tlab_size s2 else s2)
                             in rbind (tlab_fill fl p (p + sz) new_tlab_size t1) (\<lambda>t2.
                                rbind (register_tlab t2 s3) (\<lambda>(t3, s4). Inr (Some p, put_tlab i t3 th1, s4))))))"

definition allocate_from_tlab ::
    "vm_cfg \<Rightarrow> rivals \<Rightarrow> vm_round list \<Rightarrow> klass_handle \<Rightarrow> nat \<Rightarrow> alloc_thread \<Rightarrow> vm \<Rightarrow> (nat option \<times> alloc_thread \<times> vm) res" where
  "allocate_from_tlab cfg rv rds kh sz th s =
     vassert (UseTLAB (cf_flags cfg)) ''should use UseTLAB''
      (let i = tlab_index kh th
       in rbind (tlab_allocate sz (th_tlabGenArray th ! i)) (\<lambda>(obj, t).
            case obj of
              Some p \<Rightarrow> Inr (Some p, put_tlab i t th, s)
            | None \<Rightarrow> allocate_from_tlab_slow cfg rv rds kh sz (put_tlab i t th) s))"

section \<open>Memory outside buffers\<close>

text \<open>One iteration of \<^verbatim>\<open>mem_allocate\<close>, with the outcome of the collection: whether its prologue and its pause succeeded, and its result.\<close>

record mem_round =
  mr_rivals :: rivals
  mr_rounds :: "vm_round list"
  mr_collect :: "nat \<Rightarrow> nat \<Rightarrow> vm \<Rightarrow> bool \<times> bool \<times> nat option \<times> vm"

definition merge_alloc_counters :: "vm_cfg \<Rightarrow> vm \<Rightarrow> vm res" where
  "merge_alloc_counters cfg s = rbind (doit (cf_prof cfg) False (vm_prof s)) (\<lambda>pr. Inr (s\<lparr>vm_prof := pr\<rparr>))"

fun mem_rounds :: "vm_cfg \<Rightarrow> mem_round list \<Rightarrow> nat \<Rightarrow> nat \<Rightarrow> bool \<Rightarrow> int \<Rightarrow> int \<Rightarrow> vm \<Rightarrow> (nat option \<times> vm) res" where
  "mem_rounds cfg [] list_id word_size is_alloc_gen gen retry_count s = Inl (Diverged ''mem_allocate'')"
| "mem_rounds cfg (mr # mrs) list_id word_size is_alloc_gen gen retry_count s =
     rbind (if \<not> g1_isHumongous (gh_grain (as_heap s)) word_size
            then if is_alloc_gen
                 then rbind (gen_attempt_allocation cfg (mr_rivals mr) gen word_size s) (\<lambda>(r, s1). Inr ((r, None), retry_count, s1))
                 else g1_attempt_allocation cfg (rv_first (mr_rivals mr)) (mr_rounds mr) word_size retry_count s
            else attempt_allocation_humongous cfg (mr_rounds mr) list_id word_size retry_count s) (\<lambda>((result, gc_count_before), retry_count1, s1).
       if result \<noteq> None then Inr (result, s1)
       else vassert (\<not> is_alloc_gen) ''Gen allocations should not need to start a GC!''
             (rbind (deref gc_count_before ''gc_count_before'') (\<lambda>cnt.
                case mr_collect mr word_size cnt s1 of
                  (prologue_succeeded, pause_succeeded, op_result, s2) \<Rightarrow>
                    if prologue_succeeded \<and> pause_succeeded
                    then rbind (case op_result of
                                  Some obj \<Rightarrow> if \<not> g1_isHumongous (gh_grain (as_heap s2)) word_size
                                              then dirty_young_block obj word_size s2 else Inr s2
                                | None \<Rightarrow> Inr s2) (\<lambda>s3.
                         rbind (merge_alloc_counters cfg s3) (\<lambda>s4. Inr (op_result, s4)))
                    else if cf_GCLockerRetryAllocationCount cfg < retry_count1 then Inr (None, s2)
                    else vassert (op_result = None) ''the result should be NULL if the VM op did not succeed''
                           (mem_rounds cfg mrs list_id word_size is_alloc_gen gen retry_count1 s2))))"

definition mem_allocate :: "vm_cfg \<Rightarrow> mem_round list \<Rightarrow> nat \<Rightarrow> nat \<Rightarrow> bool \<Rightarrow> int \<Rightarrow> vm \<Rightarrow> (nat option \<times> vm) res" where
  "mem_allocate cfg mrs list_id word_size is_alloc_gen gen s =
     vassert (heap_not_locked_and_not_at_safepoint s) ''heap lock''
       (mem_rounds cfg mrs list_id word_size is_alloc_gen gen 0 s)"

section \<open>Objects\<close>

text \<open>What an allocation meets: competing threads and collections, for the buffer and for the memory outside.\<close>

record alloc_course =
  co_rivals :: rivals
  co_rounds :: "vm_round list"
  co_mem :: "mem_round list"
  co_list_id :: nat

text \<open>An allocation that fails throws \<^verbatim>\<open>OutOfMemoryError\<close>; the exception is the result \<open>None\<close>.\<close>

definition common_mem_allocate_noinit ::
    "vm_cfg \<Rightarrow> alloc_course \<Rightarrow> klass_handle \<Rightarrow> nat \<Rightarrow> alloc_thread \<Rightarrow> vm \<Rightarrow> (nat option \<times> alloc_thread \<times> vm) res" where
  "common_mem_allocate_noinit cfg co kh sz th s =
     rbind (if UseTLAB (cf_flags cfg) then allocate_from_tlab cfg (co_rivals co) (co_rounds co) kh sz th s else Inr (None, th, s)) (\<lambda>(result, th1, s1).
       if result \<noteq> None then Inr (result, th1, s1)
       else rbind (mem_allocate cfg (co_mem co) (co_list_id co) sz (kh_alloc_gen kh \<noteq> 0) (th_alloc_gen th1) s1) (\<lambda>(result2, s2).
              Inr (result2,
                   if result2 \<noteq> None then th1\<lparr>th_allocated_bytes := th_allocated_bytes th1 + of_nat (sz * HeapWordSize)\<rparr> else th1, s2)))"

text \<open>The two assertions.  The stores that follow them, of the class gap and of the words after
  the header, write nothing the model has: its memory holds the headers of objects, not their
  fields.\<close>

definition init_obj :: "nat \<Rightarrow> nat \<Rightarrow> unit res" where
  "init_obj p sz =
     vassert (p \<noteq> 0) ''cannot initialize NULL object'' (vassert (header_size \<le> sz) ''unexpected object size'' (Inr ()))"

definition common_mem_allocate_init ::
    "vm_cfg \<Rightarrow> alloc_course \<Rightarrow> klass_handle \<Rightarrow> nat \<Rightarrow> alloc_thread \<Rightarrow> vm \<Rightarrow> (nat option \<times> alloc_thread \<times> vm) res" where
  "common_mem_allocate_init cfg co kh sz th s =
     rbind (common_mem_allocate_noinit cfg co kh sz th s) (\<lambda>(result, th1, s1).
       case result of
         None \<Rightarrow> Inr (None, th1, s1)
       | Some p \<Rightarrow> rbind (init_obj p sz) (\<lambda>_. Inr (Some p, th1, s1)))"

definition thread_context :: "alloc_thread \<Rightarrow> vm \<Rightarrow> uint" where
  "thread_context th s = (case v_threads (vm_prof s) ! th_id th of Java_Thread jt \<Rightarrow> jt_context jt | _ \<Rightarrow> initial_context)"

text \<open>The profiling step at the head of \<^verbatim>\<open>obj_allocate\<close>, \<^verbatim>\<open>array_allocate\<close> and \<^verbatim>\<open>array_allocate_nozero\<close>.\<close>

definition profile_allocation :: "uint \<Rightarrow> klass_handle \<Rightarrow> alloc_thread \<Rightarrow> vm \<Rightarrow> (klass_handle \<times> alloc_thread \<times> vm) res" where
  "profile_allocation gen kh th s =
     (if gen \<noteq> 0
      then let context = thread_context th s AND 0xFFFF;
               alloc_site_id = gen AND 0xFFFF;
               mark = push_bit 16 alloc_site_id OR context;
               pr = vm_prof s
           in rbind (deref (mbt_get_entry (v_method_bci pr) alloc_site_id) ''there should be an ngen array for each alloc site id'') (\<lambda>i.
              rbind (inc_number_allocs context (v_ngens pr ! i)) (\<lambda>a.
              rbind (target_gen context a) (\<lambda>g.
                let kh1 = kh\<lparr>kh_alloc_gen := int (unat g), kh_as_hash := mark\<rparr>
                in rbind (set_alloc_gen (kh_alloc_gen kh1) th) (\<lambda>th1.
                     Inr (kh1, th1, s\<lparr>vm_prof := pr\<lparr>v_ngens := (v_ngens pr)[i := a]\<rparr>\<rparr>)))))
      else Inr (kh, th, s))"

definition obj_allocate ::
    "vm_cfg \<Rightarrow> alloc_course \<Rightarrow> klass_handle \<Rightarrow> uint \<Rightarrow> int \<Rightarrow> alloc_thread \<Rightarrow> vm \<Rightarrow> (nat option \<times> alloc_thread \<times> vm) res" where
  "obj_allocate cfg co kh gen sz th s =
     vassert (0 \<le> sz) ''int won't convert to size_t''
      (rbind (profile_allocation gen kh th s) (\<lambda>(kh1, th1, s1).
       rbind (common_mem_allocate_init cfg co kh1 (nat sz) th1 s1) (\<lambda>(obj, th2, s2).
         case obj of
           None \<Rightarrow> Inr (None, th2, s2)
         | Some p \<Rightarrow> rbind (post_allocation_setup_obj (cf_flags cfg) kh1 p s2) (\<lambda>s3. Inr (Some p, th2, s3)))))"

definition array_allocate ::
    "vm_cfg \<Rightarrow> alloc_course \<Rightarrow> klass_handle \<Rightarrow> uint \<Rightarrow> int \<Rightarrow> int \<Rightarrow> alloc_thread \<Rightarrow> vm \<Rightarrow> (nat option \<times> alloc_thread \<times> vm) res" where
  "array_allocate cfg co kh gen sz len th s =
     vassert (0 \<le> sz) ''int won't convert to size_t''
      (rbind (profile_allocation gen kh th s) (\<lambda>(kh1, th1, s1).
       rbind (common_mem_allocate_init cfg co kh1 (nat sz) th1 s1) (\<lambda>(obj, th2, s2).
         case obj of
           None \<Rightarrow> Inr (None, th2, s2)
         | Some p \<Rightarrow> rbind (post_allocation_setup_array (cf_flags cfg) kh1 p len s2) (\<lambda>s3. Inr (Some p, th2, s3)))))"

definition array_allocate_nozero ::
    "vm_cfg \<Rightarrow> alloc_course \<Rightarrow> klass_handle \<Rightarrow> uint \<Rightarrow> int \<Rightarrow> int \<Rightarrow> alloc_thread \<Rightarrow> vm \<Rightarrow> (nat option \<times> alloc_thread \<times> vm) res" where
  "array_allocate_nozero cfg co kh gen sz len th s =
     vassert (0 \<le> sz) ''int won't convert to size_t''
      (rbind (profile_allocation gen kh th s) (\<lambda>(kh1, th1, s1).
       rbind (common_mem_allocate_noinit cfg co kh1 (nat sz) th1 s1) (\<lambda>(obj, th2, s2).
         case obj of
           None \<Rightarrow> Inr (None, th2, s2)
         | Some p \<Rightarrow> rbind (post_allocation_setup_array (cf_flags cfg) kh1 p len s2) (\<lambda>s3. Inr (Some p, th2, s3)))))"

end
