(* ===== verification/Vm_Invariant.thy ===== *)
theory Vm_Invariant
  imports Vm_Alloc
begin

text \<open>
  The invariant of the heap between allocations and what an allocation does to it.  \<open>vm_ok\<close> says
  that the free lists are represented, that the sequence of regions covers the reserved heap
  in order, and that the mutator region and the region of every dynamic generation are usable.  An
  allocation of either kind hands out a block above the former top of a region of the right
  kind and leaves everything else as it was (\<open>got\<close>).
\<close>

section \<open>The invariant\<close>

definition regions_ok :: "nat \<Rightarrow> alloc_region \<Rightarrow> gen_alloc_region option list \<Rightarrow> g1_heap \<Rightarrow> bool" where
  "regions_ok n mut gens h \<longleftrightarrow>
     alloc_region_ok False mutator_active mut h \<and> ar_regs mut \<subseteq> {..<n} \<and>
     (\<forall>g. 0 < g \<and> g < length gens \<longrightarrow>
        (\<exists>ar. gens ! g = Some ar \<and> gr_gen ar = int g \<and> alloc_region_ok True (gen_active (int g)) ar h \<and> ar_regs ar \<subseteq> {..<n}))"

definition vm_ok :: "vm \<Rightarrow> nat list \<Rightarrow> nat list \<Rightarrow> bool" where
  "vm_ok s xs ys \<longleftrightarrow>
     heap_rep (as_heap s) xs ys \<and> seq_inv (g1_hrs s) (gh_st (as_heap s)) \<and> set xs \<union> set ys \<subseteq> {..<seq_length (g1_hrs s)} \<and>
     as_reserved s = (seq_heap_bottom (g1_hrs s), seq_heap_end (g1_hrs s)) \<and>
     heap_not_locked_and_not_at_safepoint s \<and> gh_inc_cset_active (as_heap s) \<and>
     regions_ok (seq_length (g1_hrs s)) (vm_mutator s) (vm_gens s) (as_heap s)"

text \<open>The region belongs to eden (generation 0) or to a dynamic generation.\<close>

definition in_gen :: "nat \<Rightarrow> heap_region \<Rightarrow> bool" where
  "in_gen g r \<longleftrightarrow> (if g = 0 then hr_young_type r = Young else hr_young_type r = NotYoung \<and> hr_gen r = int g)"

section \<open>Frames\<close>

lemma set_heap_lock_simps [simp]:
  "gh_st (set_heap_lock b h) = (gh_st h)\<lparr>st_mt := (gh_mt h)\<lparr>Heap_lock := b\<rparr>\<rparr>" "gh_free_list (set_heap_lock b h) = gh_free_list h"
  "gh_secondary_free_list (set_heap_lock b h) = gh_secondary_free_list h" "gh_old_set (set_heap_lock b h) = gh_old_set h"
  "gh_dummy_region (set_heap_lock b h) = gh_dummy_region h" "gh_next_young (set_heap_lock b h) = gh_next_young h"
  "gh_next_in_cset (set_heap_lock b h) = gh_next_in_cset h" "gh_all_regions_allocated (set_heap_lock b h) = gh_all_regions_allocated h"
  "gh_inc_cset_head (set_heap_lock b h) = gh_inc_cset_head h" "gh_inc_cset_tail (set_heap_lock b h) = gh_inc_cset_tail h"
  "gh_inc_cset_active (set_heap_lock b h) = gh_inc_cset_active h" "is_young_list_full (set_heap_lock b h) = is_young_list_full h"
  by (simp_all add: set_heap_lock_def is_young_list_full_def)

lemma lists_as_lock [simp]: "lists_as l xs (st\<lparr>st_mt := m\<rparr>) = lists_as l xs st"
proof
  show "lists_as l xs st" if "lists_as l xs (st\<lparr>st_mt := m\<rparr>)" by (rule lists_as_frame [OF that]) simp_all
  show "lists_as l xs (st\<lparr>st_mt := m\<rparr>)" if "lists_as l xs st" by (rule lists_as_frame [OF that]) simp_all
qed

lemma heap_rep_lock [simp]: "heap_rep (set_heap_lock b h) xs ys = heap_rep h xs ys"
  by (simp add: heap_rep_def ready_def)

lemma active_lock [simp]:
  "mutator_active (set_heap_lock b h) = mutator_active h" "gen_active g (set_heap_lock b h) = gen_active g h"
  by (simp_all add: fun_eq_iff mutator_active_def gen_active_def unowned_def)

lemma alloc_region_ok_lock [simp]:
  "alloc_region_ok False mutator_active ar (set_heap_lock b h) = alloc_region_ok False mutator_active ar h"
  "alloc_region_ok True (gen_active g) gar (set_heap_lock b h) = alloc_region_ok True (gen_active g) gar h"
  by (simp_all add: alloc_region_ok_def split: ar_ptr.splits)

lemma steady_lock:
  assumes "steady A B (set_heap_lock True h) h'" and "\<not> Heap_lock (gh_mt h)"
  shows "steady A B h (set_heap_lock False h')"
proof -
  have "(gh_mt h)\<lparr>Heap_lock := False\<rparr> = gh_mt h" using assms(2) by simp
  moreover have "gh_mt h' = (gh_mt h)\<lparr>Heap_lock := True\<rparr>" using assms(1) by (simp add: steady_def)
  ultimately show ?thesis using assms(1) by (simp add: steady_def untouched_def)
qed

lemma same_region_ok:
  assumes "untouched B h h'" and "gh_grain h' = gh_grain h" and "ar_regs ar \<inter> B = {}"
  shows "alloc_region_ok False mutator_active ar h \<Longrightarrow> alloc_region_ok False mutator_active ar h'"
proof -
  assume ok: "alloc_region_ok False mutator_active ar h"
  show ?thesis
  proof (cases "ar_region ar")
    case (AR_Region p)
    then have "p \<notin> B" using assms(3) by (simp add: ar_regs_def)
    then have "gh_hr h' p = gh_hr h p" "st_next (gh_st h') p = st_next (gh_st h) p" "gh_next_in_cset h' p = gh_next_in_cset h p"
      using assms(1) by (simp_all add: untouched_def)
    then show ?thesis using ok AR_Region assms(2) by (simp add: alloc_region_ok_def mutator_active_def unowned_def)
  qed (use ok in \<open>simp_all add: alloc_region_ok_def\<close>)
qed

lemma same_gen_region_ok:
  assumes "untouched B h h'" and "gh_grain h' = gh_grain h" and "ar_regs ar \<inter> B = {}"
  shows "alloc_region_ok True (gen_active g) ar h \<Longrightarrow> alloc_region_ok True (gen_active g) ar h'"
proof -
  assume ok: "alloc_region_ok True (gen_active g) ar h"
  show ?thesis
  proof (cases "ar_region ar")
    case (AR_Region p)
    then have "p \<notin> B" using assms(3) by (simp add: ar_regs_def)
    then have "gh_hr h' p = gh_hr h p" "st_next (gh_st h') p = st_next (gh_st h) p"
      using assms(1) by (simp_all add: untouched_def)
    then show ?thesis using ok AR_Region assms(2) by (simp add: alloc_region_ok_def gen_active_def unowned_def)
  qed (use ok in \<open>simp_all add: alloc_region_ok_def\<close>)
qed

lemma seq_inv_steady:
  assumes "seq_inv sq (gh_st h)" and "steady A B h h'" and "B \<subseteq> {..<seq_length sq}"
  shows "seq_inv sq (gh_st h')"
proof -
  have g: "gh_grain h' = gh_grain h" and p: "placed (gh_hr h q) (gh_hr h' q)" for q using assms(2) by (auto simp: steady_def)
  have o: "gh_hr h' i = gh_hr h i" "st_next (gh_st h') i = st_next (gh_st h) i" if "seq_length sq \<le> i" for i
  proof -
    have "i \<notin> B" using assms(3) that by auto
    then show "gh_hr h' i = gh_hr h i" "st_next (gh_st h') i = st_next (gh_st h) i"
      using assms(2) by (simp_all add: steady_def untouched_def)
  qed
  have s: "startsHumongous (gh_hr h' q) = startsHumongous (gh_hr h q)" for q
    using p [of q] by (simp add: placed_def startsHumongous_def)
  have e: "hr_index (gh_hr h' q) = hr_index (gh_hr h q)" "hr_bottom (gh_hr h' q) = hr_bottom (gh_hr h q)"
    "hr_orig_end (gh_hr h' q) = hr_orig_end (gh_hr h q)" "hr_end (gh_hr h' q) = hr_end (gh_hr h q)" for q
    using p [of q] by (simp_all add: placed_def)
  show ?thesis using assms(1) o unfolding seq_inv_def g s e by (simp split del: if_split)
qed

section \<open>Blocks\<close>

text \<open>What an allocation leaves alone; \<open>F\<close> are the regions that were free.\<close>

definition vm_steady :: "nat set \<Rightarrow> vm \<Rightarrow> vm \<Rightarrow> bool" where
  "vm_steady F s s' \<longleftrightarrow>
     as_mem s' = as_mem s \<and> as_reserved s' = as_reserved s \<and> g1_hrs s' = g1_hrs s \<and> vm_prof s' = vm_prof s \<and>
     length (vm_gens s') = length (vm_gens s) \<and> gh_grain (as_heap s') = gh_grain (as_heap s) \<and>
     (\<forall>q. placed (gh_hr (as_heap s) q) (gh_hr (as_heap s') q)) \<and>
     (\<forall>q. q \<notin> F \<longrightarrow> hr_gen (gh_hr (as_heap s') q) = hr_gen (gh_hr (as_heap s) q) \<and>
        hr_young_type (gh_hr (as_heap s') q) = hr_young_type (gh_hr (as_heap s) q))"

text \<open>The block of \<open>sz\<close> words at \<open>obj\<close> was unused before and lies in a region of generation \<open>g\<close>.\<close>

definition fresh_in :: "nat \<Rightarrow> nat \<Rightarrow> nat \<Rightarrow> vm \<Rightarrow> vm \<Rightarrow> nat \<Rightarrow> bool" where
  "fresh_in g sz obj s s' p \<longleftrightarrow>
     p < seq_length (g1_hrs s) \<and> in_gen g (gh_hr (as_heap s') p) \<and> \<not> isHumongous (gh_hr (as_heap s') p) \<and> hr_top (gh_hr (as_heap s) p) \<le> obj \<and>
     hr_bottom (gh_hr (as_heap s') p) \<le> obj \<and> obj + sz \<le> hr_top (gh_hr (as_heap s') p) \<and>
     hr_top (gh_hr (as_heap s') p) \<le> seq_heap_bottom (g1_hrs s) + (p + 1) * GrainWords (gh_grain (as_heap s)) \<and>
     seq_heap_bottom (g1_hrs s) + p * GrainWords (gh_grain (as_heap s)) \<le> obj"

definition got :: "nat \<Rightarrow> nat \<Rightarrow> nat set \<Rightarrow> vm \<Rightarrow> nat \<Rightarrow> vm \<Rightarrow> bool" where
  "got g sz F s obj s' \<longleftrightarrow>
     (\<exists>xs ys. vm_ok s' xs ys \<and> set xs \<union> set ys \<subseteq> F) \<and> vm_steady F s s' \<and> (\<exists>p. fresh_in g sz obj s s' p)"

lemma free_region_empty:
  assumes "heap_rep h xs ys" and "p \<in> set xs \<union> set ys"
  shows "hr_top (gh_hr h p) = hr_bottom (gh_hr h p)" "\<not> hr_bottom (gh_hr h p) < hr_top (gh_hr h p)"
proof -
  have "lists_as (gh_free_list h) xs (gh_st h)" "lists_as (gh_secondary_free_list h) ys (gh_st h)" "ready h p"
    using assms by (auto simp: heap_rep_def)
  then have "used (gh_hr h p) = 0" "hr_bottom (gh_hr h p) \<le> hr_top (gh_hr h p)"
    using assms(2) by (auto simp: lists_as_def fits_iff ready_def region_inv_def)
  then show "hr_top (gh_hr h p) = hr_bottom (gh_hr h p)" "\<not> hr_bottom (gh_hr h p) < hr_top (gh_hr h p)"
    by (auto simp: used_def HeapWordSize_def)
qed

lemma region_top_in_heap:
  assumes "seq_inv sq (gh_st h)" and "p < seq_length sq" and "unowned h p"
  shows "hr_bottom (gh_hr h p) = seq_heap_bottom sq + p * GrainWords (gh_grain h)"
    "hr_top (gh_hr h p) \<le> seq_heap_bottom sq + (p + 1) * GrainWords (gh_grain h)"
proof -
  have "p < hs_allocated_length sq" using assms(1,2) by (auto simp: seq_inv_def)
  then have "hr_bottom (gh_hr h p) = seq_heap_bottom sq + p * GrainWords (gh_grain h)"
      "(if startsHumongous (gh_hr h p) then hr_orig_end (gh_hr h p) else hr_end (gh_hr h p)) = seq_heap_bottom sq + (p + 1) * GrainWords (gh_grain h)"
    using assms(1) unfolding seq_inv_def by blast+
  moreover have "\<not> startsHumongous (gh_hr h p)" "hr_top (gh_hr h p) \<le> hr_end (gh_hr h p)"
    using assms(3) by (auto simp: unowned_def isHumongous_def startsHumongous_def region_inv_def)
  ultimately show "hr_bottom (gh_hr h p) = seq_heap_bottom sq + p * GrainWords (gh_grain h)"
    "hr_top (gh_hr h p) \<le> seq_heap_bottom sq + (p + 1) * GrainWords (gh_grain h)" by simp_all
qed

lemma active_regs:
  assumes "alloc_region_ok True (gen_active g) ar h" and "p \<in> ar_regs ar"
  shows "unowned h p" "hr_gen (gh_hr h p) = g" "hr_young_type (gh_hr h p) = NotYoung"
  using assms by (auto simp: alloc_region_ok_def ar_regs_def gen_active_def split: ar_ptr.splits)

lemma active_mut_regs:
  assumes "alloc_region_ok False mutator_active ar h" and "p \<in> ar_regs ar"
  shows "unowned h p" "hr_young_type (gh_hr h p) = Young"
  using assms by (auto simp: alloc_region_ok_def ar_regs_def mutator_active_def split: ar_ptr.splits)

lemma gen_new_region_keeps:
  assumes "gen_allocate_new_region env sz f ar h = Inr (r, ar', h')" shows "gr_gen ar' = gr_gen ar"
  using assms by (auto simp: gen_allocate_new_region_def res_simps Let_def split: option.splits if_splits)

lemma gen_locked_keeps:
  assumes "attempt_allocation_locked (gen_allocate_new_region env) ret ss batches sz bu ar h = Inr (r, ar', h')"
  shows "gr_gen ar' = gr_gen ar"
proof -
  have n: "gr_gen ar' = gr_gen ar" if "new_alloc_region_and_allocate (gen_allocate_new_region env) sz f ar h = Inr (r, ar', h')" for f and ar ar' :: gen_alloc_region and r h h'
    using that gen_new_region_keeps by (fastforce simp: new_alloc_region_and_allocate_def res_simps Let_def split: option.splits if_splits)
  have t: "gr_gen ar' = gr_gen ar" if "retire ret batches True ar h = Inr (ar', h')" for ar ar' :: gen_alloc_region and h h'
    using that by (auto simp: retire_def res_simps Let_def split: ar_ptr.splits if_splits)
  show ?thesis using assms n t by (fastforce simp: attempt_allocation_locked_def res_simps split: if_splits)
qed

lemma regions_ok_mut:
  assumes "regions_ok n mut gens h" and "heap_rep h xs ys" and "steady (set xs \<union> set ys) (ar_regs mut \<union> set xs \<union> set ys) h h'"
    and "alloc_region_ok False mutator_active mut' h'" and "ar_regs mut' \<subseteq> {..<n}"
  shows "regions_ok n mut' gens h'"
proof -
  have f: "untouched (ar_regs mut \<union> set xs \<union> set ys) h h'" "gh_grain h' = gh_grain h" using assms(3) by (auto simp: steady_def)
  have "alloc_region_ok True (gen_active (int g)) ar h'" if "alloc_region_ok True (gen_active (int g)) ar h" for g ar
  proof (rule same_gen_region_ok [OF f _ that])
    show "ar_regs ar \<inter> (ar_regs mut \<union> set xs \<union> set ys) = {}"
      using active_regs [OF that] active_mut_regs [of mut h] rep_notin [OF assms(2)] assms(1) by (fastforce simp: regions_ok_def)
  qed
  then show ?thesis using assms(1,4,5) unfolding regions_ok_def by blast
qed

lemma regions_ok_gen:
  assumes "regions_ok n mut gens h" and "heap_rep h xs ys" and "steady (set xs \<union> set ys) (ar_regs ar \<union> set xs \<union> set ys) h h'"
    and "gens ! g = Some ar" "0 < g" "g < length gens"
    and "alloc_region_ok True (gen_active (int g)) ar' h'" and "ar_regs ar' \<subseteq> {..<n}" and "gr_gen ar' = int g"
  shows "regions_ok n mut (gens[g := Some ar']) h'"
proof -
  have f: "untouched (ar_regs ar \<union> set xs \<union> set ys) h h'" "gh_grain h' = gh_grain h" using assms(3) by (auto simp: steady_def)
  have a: "alloc_region_ok True (gen_active (int g)) ar h" using assms(1,4-6) by (force simp: regions_ok_def)
  have o: "alloc_region_ok True (gen_active (int k)) ak h'" if "alloc_region_ok True (gen_active (int k)) ak h" "k \<noteq> g" for k ak
  proof (rule same_gen_region_ok [OF f _ that(1)])
    show "ar_regs ak \<inter> (ar_regs ar \<union> set xs \<union> set ys) = {}"
      using active_regs [OF that(1)] active_regs [OF a] that(2) rep_notin [OF assms(2)] by fastforce
  qed
  have "alloc_region_ok False mutator_active mut h'"
  proof (rule same_region_ok [OF f])
    show m: "alloc_region_ok False mutator_active mut h" using assms(1) by (simp add: regions_ok_def)
    show "ar_regs mut \<inter> (ar_regs ar \<union> set xs \<union> set ys) = {}"
      using active_mut_regs [OF m] active_regs [OF a] rep_notin [OF assms(2)] by fastforce
  qed
  moreover have "\<exists>ak. gens[g := Some ar'] ! k = Some ak \<and> gr_gen ak = int k \<and> alloc_region_ok True (gen_active (int k)) ak h' \<and> ar_regs ak \<subseteq> {..<n}"
    if k: "0 < k" "k < length gens" for k
  proof (cases "k = g")
    case False
    obtain ak where ak: "gens ! k = Some ak" "gr_gen ak = int k" "alloc_region_ok True (gen_active (int k)) ak h" "ar_regs ak \<subseteq> {..<n}"
      using assms(1) k unfolding regions_ok_def by blast
    show ?thesis using ak(1,2,4) o [OF ak(3) False] False by (intro exI [of _ ak]) simp
  qed (use assms(6-9) in simp)
  ultimately show ?thesis using assms(1) unfolding regions_ok_def length_list_update by blast
qed

lemma got_intro:
  assumes "vm_ok s xs ys" and "heap_rep (as_heap s') xs' ys'" and "set xs' \<union> set ys' \<subseteq> set xs \<union> set ys"
    and "steady (set xs \<union> set ys) (R \<union> set xs \<union> set ys) (as_heap s) (as_heap s')" and "R \<subseteq> {..<seq_length (g1_hrs s)}"
    and "regions_ok (seq_length (g1_hrs s)) (vm_mutator s') (vm_gens s') (as_heap s')" and "length (vm_gens s') = length (vm_gens s)"
    and "as_mem s' = as_mem s" "as_reserved s' = as_reserved s" "g1_hrs s' = g1_hrs s" "vm_prof s' = vm_prof s"
    and "unowned (as_heap s') p" "in_gen g (gh_hr (as_heap s') p)"
    and "p \<in> R \<and> hr_top (gh_hr (as_heap s) p) \<le> obj \<or> p \<in> set xs \<union> set ys \<and> obj = hr_bottom (gh_hr (as_heap s') p)"
    and "hr_bottom (gh_hr (as_heap s') p) \<le> obj" "obj + sz = hr_top (gh_hr (as_heap s') p)"
  shows "got g sz (set xs \<union> set ys) s obj s'"
proof -
  have v: "seq_inv (g1_hrs s) (gh_st (as_heap s))" "set xs \<union> set ys \<subseteq> {..<seq_length (g1_hrs s)}" "heap_rep (as_heap s) xs ys"
      "as_reserved s = (seq_heap_bottom (g1_hrs s), seq_heap_end (g1_hrs s))" "heap_not_locked_and_not_at_safepoint s" "gh_inc_cset_active (as_heap s)"
    using assms(1) unfolding vm_ok_def by blast+
  have t: "gh_grain (as_heap s') = gh_grain (as_heap s)" "gh_mt (as_heap s') = gh_mt (as_heap s)" "gh_inc_cset_active (as_heap s') = gh_inc_cset_active (as_heap s)"
      "placed (gh_hr (as_heap s) q) (gh_hr (as_heap s') q)"
      "q \<notin> set xs \<union> set ys \<Longrightarrow> hr_gen (gh_hr (as_heap s') q) = hr_gen (gh_hr (as_heap s) q) \<and> hr_young_type (gh_hr (as_heap s') q) = hr_young_type (gh_hr (as_heap s) q)" for q
    using assms(4) unfolding steady_def by blast+
  have sq: "seq_inv (g1_hrs s) (gh_st (as_heap s'))"
    by (rule seq_inv_steady [OF v(1) assms(4)]) (use assms(5) v(2) in auto)
  have p: "p < seq_length (g1_hrs s)" using assms(5,14) v(2) by auto
  have "hr_top (gh_hr (as_heap s) p) \<le> obj"
    using assms(14) free_region_empty(1) [OF v(3), of p] t(4) [of p] by (auto simp: placed_def)
  moreover have "set xs' \<union> set ys' \<subseteq> {..<seq_length (g1_hrs s)}" using assms(3) v(2) by blast
  then have "vm_ok s' xs' ys'" using assms(2,6,9,10) sq v(4-6) t(2,3) by (simp add: vm_ok_def heap_not_locked_and_not_at_safepoint_def)
  ultimately show ?thesis
    using assms(3,7-11,13,15,16) t region_top_in_heap [OF sq p assms(12)] p assms(12) unfolding got_def vm_steady_def fresh_in_def
    by (intro conjI exI [of _ xs'] exI [of _ ys'] exI [of _ p]) (simp_all add: t(1) unowned_def)
qed

lemma vm_ok_cards: "vm_ok (s\<lparr>vm_cards := c\<rparr>) xs ys = vm_ok s xs ys"
  by (simp add: vm_ok_def heap_not_locked_and_not_at_safepoint_def)

lemma fresh_in_cards: "fresh_in g sz obj s (s'\<lparr>vm_cards := c\<rparr>) p = fresh_in g sz obj s s' p"
  by (simp add: fresh_in_def)

lemma vm_steady_cards: "vm_steady F s (s'\<lparr>vm_cards := c\<rparr>) = vm_steady F s s'"
  by (simp add: vm_steady_def)

lemma got_cards: "got g sz F s obj s' \<Longrightarrow> got g sz F s obj (s'\<lparr>vm_cards := c\<rparr>)"
  unfolding got_def vm_ok_cards fresh_in_cards vm_steady_cards .

lemma got_after:
  assumes "vm_steady {} s s1" and "got g sz F s1 obj s'" shows "got g sz F s obj s'"
proof -
  have "placed (gh_hr (as_heap s) q) (gh_hr (as_heap s1) q)" for q using assms(1) by (simp add: vm_steady_def)
  then have "placed (gh_hr (as_heap s) q) (gh_hr (as_heap s') q)" "hr_top (gh_hr (as_heap s) q) \<le> hr_top (gh_hr (as_heap s1) q)" for q
    using assms(2) placed_trans unfolding got_def vm_steady_def by (blast, simp add: placed_def)
  then show ?thesis using assms unfolding got_def vm_steady_def fresh_in_def by (auto intro: order_trans)
qed

lemma gen_got:
  assumes "vm_ok s xs ys" and "vm_gens s ! g = Some ar" "0 < g" "g < length (vm_gens s)"
    and "ar_regs ar \<subseteq> {..<seq_length (g1_hrs s)}"
    and "heap_rep h' xs' ys'" "set xs' \<union> set ys' \<subseteq> set xs \<union> set ys" "steady (set xs \<union> set ys) (ar_regs ar \<union> set xs \<union> set ys) (as_heap s) h'"
    and "alloc_region_ok True (gen_active (int g)) ar' h'" "gr_gen ar' = int g" "ar_region ar' = AR_Region p"
    and "p \<in> ar_regs ar \<and> hr_top (gh_hr (as_heap s) p) \<le> obj \<or> p \<in> set xs \<union> set ys \<and> obj = hr_bottom (gh_hr h' p)"
    and "hr_bottom (gh_hr h' p) \<le> obj" "obj + sz = hr_top (gh_hr h' p)"
  shows "got g sz (set xs \<union> set ys) s obj (g1_mark_as_dirty obj sz (s\<lparr>vm_gens := (vm_gens s)[g := Some ar'], as_heap := h'\<rparr>))"
  unfolding g1_mark_as_dirty_def set_cards_def
proof (rule got_cards, rule got_intro [OF assms(1), where R = "ar_regs ar" and p = p and xs' = xs' and ys' = ys'])
  have v: "heap_rep (as_heap s) xs ys" "regions_ok (seq_length (g1_hrs s)) (vm_mutator s) (vm_gens s) (as_heap s)" "set xs \<union> set ys \<subseteq> {..<seq_length (g1_hrs s)}"
    using assms(1) unfolding vm_ok_def by blast+
  have r: "ar_regs ar' \<subseteq> {..<seq_length (g1_hrs s)}" using assms(5,11,12) v(3) by (auto simp: ar_regs_def)
  show "regions_ok (seq_length (g1_hrs s)) (vm_mutator (s\<lparr>vm_gens := (vm_gens s)[g := Some ar'], as_heap := h'\<rparr>))
      (vm_gens (s\<lparr>vm_gens := (vm_gens s)[g := Some ar'], as_heap := h'\<rparr>)) (as_heap (s\<lparr>vm_gens := (vm_gens s)[g := Some ar'], as_heap := h'\<rparr>))"
    using regions_ok_gen [OF v(2,1) assms(8,2,3,4,9) r assms(10)] by simp
  have "p \<in> ar_regs ar'" using assms(11) by (simp add: ar_regs_def)
  then show "unowned (as_heap (s\<lparr>vm_gens := (vm_gens s)[g := Some ar'], as_heap := h'\<rparr>)) p"
    "in_gen g (gh_hr (as_heap (s\<lparr>vm_gens := (vm_gens s)[g := Some ar'], as_heap := h'\<rparr>)) p)"
    using active_regs [OF assms(9)] assms(3) by (simp_all add: in_gen_def)
qed (use assms in simp_all)

lemma mutator_got:
  assumes "vm_ok s xs ys"
    and "heap_rep h' xs' ys'" "set xs' \<union> set ys' \<subseteq> set xs \<union> set ys"
    "steady (set xs \<union> set ys) (ar_regs (vm_mutator s) \<union> set xs \<union> set ys) (as_heap s) h'"
    and "alloc_region_ok False mutator_active ar' h'" "ar_region ar' = AR_Region p"
    and "p \<in> ar_regs (vm_mutator s) \<and> hr_top (gh_hr (as_heap s) p) \<le> obj \<or> p \<in> set xs \<union> set ys \<and> obj = hr_bottom (gh_hr h' p)"
    and "hr_bottom (gh_hr h' p) \<le> obj" "obj + sz = hr_top (gh_hr h' p)"
  shows "got 0 sz (set xs \<union> set ys) s obj (s\<lparr>vm_mutator := ar', as_heap := h'\<rparr>)"
proof (rule got_intro [OF assms(1), where R = "ar_regs (vm_mutator s)" and p = p and xs' = xs' and ys' = ys'])
  have v: "heap_rep (as_heap s) xs ys" "regions_ok (seq_length (g1_hrs s)) (vm_mutator s) (vm_gens s) (as_heap s)" "set xs \<union> set ys \<subseteq> {..<seq_length (g1_hrs s)}"
    using assms(1) unfolding vm_ok_def by blast+
  then show "ar_regs (vm_mutator s) \<subseteq> {..<seq_length (g1_hrs s)}" by (simp add: regions_ok_def)
  then have r: "ar_regs ar' \<subseteq> {..<seq_length (g1_hrs s)}" using assms(6,7) v(3) by (auto simp: ar_regs_def)
  show "regions_ok (seq_length (g1_hrs s)) (vm_mutator (s\<lparr>vm_mutator := ar', as_heap := h'\<rparr>))
      (vm_gens (s\<lparr>vm_mutator := ar', as_heap := h'\<rparr>)) (as_heap (s\<lparr>vm_mutator := ar', as_heap := h'\<rparr>))"
    using regions_ok_mut [OF v(2,1) assms(4,5) r] by simp
  have "p \<in> ar_regs ar'" using assms(6) by (simp add: ar_regs_def)
  then show "unowned (as_heap (s\<lparr>vm_mutator := ar', as_heap := h'\<rparr>)) p" "in_gen 0 (gh_hr (as_heap (s\<lparr>vm_mutator := ar', as_heap := h'\<rparr>)) p)"
    using active_mut_regs [OF assms(5)] by (simp_all add: in_gen_def)
qed (use assms in simp_all)

text \<open>The first attempt without the lock allocates or leaves the invariant.\<close>

lemma gen_first:
  assumes "vm_ok s xs ys" and "vm_gens s ! g = Some ar" "0 < g" "g < length (vm_gens s)" and "0 < sz"
  shows "\<exists>res h1. attempt_allocation ss sz True ar (as_heap s) = Inr (res, h1) \<and> vm_steady {} s (s\<lparr>as_heap := h1\<rparr>) \<and>
    vm_ok (s\<lparr>as_heap := h1\<rparr>) xs ys \<and>
    (\<forall>obj. res = Some obj \<longrightarrow> got g sz (set xs \<union> set ys) s obj (g1_mark_as_dirty obj sz (s\<lparr>as_heap := h1\<rparr>)))"
proof -
  let ?h = "as_heap s" and ?n = "seq_length (g1_hrs s)"
  have v: "heap_rep ?h xs ys" "regions_ok ?n (vm_mutator s) (vm_gens s) ?h" "seq_inv (g1_hrs s) (gh_st ?h)"
    using assms(1) unfolding vm_ok_def by blast+
  have ar: "gr_gen ar = int g" "alloc_region_ok True (gen_active (int g)) ar ?h" "ar_regs ar \<subseteq> {..<?n}"
    using v(2) assms(2-4) unfolding regions_ok_def by force+
  obtain res h1 where a: "attempt_allocation ss sz True ar ?h = Inr (res, h1)" "heap_rep h1 xs ys"
      "alloc_region_ok True (gen_active (int g)) ar h1" "steady {} (ar_regs ar) ?h h1"
      "\<forall>obj. res = Some obj \<longrightarrow> (\<exists>p. ar_region ar = AR_Region p \<and> hr_top (gh_hr ?h p) \<le> obj \<and> obj + sz = hr_top (gh_hr h1 p) \<and>
          obj + sz \<le> hr_end (gh_hr h1 p) \<and> hr_bottom (gh_hr h1 p) \<le> hr_top (gh_hr ?h p))"
    using gen.attempt_ok [OF v(1) ar(2) assms(5), of ss] by blast
  have st: "steady (set xs \<union> set ys) (ar_regs ar \<union> set xs \<union> set ys) ?h h1" by (rule steady_mono [OF a(4)]) auto
  have id: "(vm_gens s)[g := Some ar] = vm_gens s" using assms(2) by (metis list_update_id)
  have "regions_ok ?n (vm_mutator s) (vm_gens s) h1"
    using regions_ok_gen [OF v(2,1) st assms(2-4) a(3) ar(3,1)] by (simp add: id)
  then have "vm_ok (s\<lparr>as_heap := h1\<rparr>) xs ys"
    using assms(1) a(2,4) seq_inv_steady [OF v(3) a(4) ar(3)] by (simp add: vm_ok_def heap_not_locked_and_not_at_safepoint_def steady_def)
  moreover have "got g sz (set xs \<union> set ys) s obj (g1_mark_as_dirty obj sz (s\<lparr>as_heap := h1\<rparr>))" if o: "res = Some obj" for obj
  proof -
    obtain p where p: "ar_region ar = AR_Region p" "hr_top (gh_hr ?h p) \<le> obj" "obj + sz = hr_top (gh_hr h1 p)"
        "hr_bottom (gh_hr h1 p) \<le> hr_top (gh_hr ?h p)" using a(5) o by blast
    have "got g sz (set xs \<union> set ys) s obj (g1_mark_as_dirty obj sz (s\<lparr>vm_gens := (vm_gens s)[g := Some ar], as_heap := h1\<rparr>))"
      using p by (intro gen_got [OF assms(1-4) ar(3) a(2) _ st a(3) ar(1) p(1)]) (auto simp: ar_regs_def)
    then show ?thesis by (simp add: id)
  qed
  ultimately show ?thesis using a(1,4) by (auto simp: vm_steady_def steady_def)
qed

lemma gen_attempt_got:
  assumes "vm_ok s xs ys" and "0 < g" "g < length (vm_gens s)" and "xs @ ys \<noteq> []"
    and "0 < sz" "\<not> g1_isHumongous (gh_grain (as_heap s)) sz" and "\<forall>q. 0 < env_obj_size (cf_env cfg) q"
  shows "\<exists>obj s'. gen_attempt_allocation cfg rv (int g) sz s = Inr (Some obj, s') \<and> got g sz (set xs \<union> set ys) s obj s'"
proof -
  let ?F = "set xs \<union> set ys"
  obtain ar where ar: "vm_gens s ! g = Some ar" using assms(1-3) unfolding vm_ok_def regions_ok_def by blast
  obtain res h1 where a: "attempt_allocation (rv_first rv) sz True ar (as_heap s) = Inr (res, h1)" "vm_steady {} s (s\<lparr>as_heap := h1\<rparr>)"
      "vm_ok (s\<lparr>as_heap := h1\<rparr>) xs ys" "\<forall>obj. res = Some obj \<longrightarrow> got g sz ?F s obj (g1_mark_as_dirty obj sz (s\<lparr>as_heap := h1\<rparr>))"
    using gen_first [OF assms(1) ar assms(2,3,5), of "rv_first rv"] by blast
  show ?thesis
  proof (cases res)
    case (Some obj)
    then show ?thesis using assms(2,3,6) ar a(1,4) by (simp add: gen_attempt_allocation_def)
  next
    case None
    let ?s1 = "s\<lparr>as_heap := h1\<rparr>" and ?hl = "set_heap_lock True h1"
    have v: "heap_rep ?hl xs ys" "\<not> Heap_lock (gh_mt h1)" "\<not> is_at_safepoint (gh_mt h1)" "regions_ok (seq_length (g1_hrs s)) (vm_mutator s) (vm_gens s) h1"
      using a(3) by (auto simp: vm_ok_def heap_not_locked_and_not_at_safepoint_def)
    have r: "gr_gen ar = int g" "alloc_region_ok True (gen_active (int g)) ar ?hl" "ar_regs ar \<subseteq> {..<seq_length (g1_hrs s)}"
      using v(4) assms(2,3) ar unfolding regions_ok_def by force+
    have l: "gen_amb (cf_env cfg) ?hl" "gen_room (int g) ar ?hl" "sz \<le> GrainWords (gh_grain ?hl)"
      using v(3) a(2) assms(6,7) r(1) by (simp_all add: gen_amb_def gen_room_def vm_steady_def g1_isHumongous_def)
    obtain obj ar' h' xs' ys' p where k: "attempt_allocation_locked (gen_allocate_new_region (cf_env cfg)) (gen_retire_region (cf_env cfg))
          (rv_locked rv) (rv_fill rv) sz True ar ?hl = Inr (Some obj, ar', h')" "heap_rep h' xs' ys'"
        "alloc_region_ok True (gen_active (int g)) ar' h'" "ar_region ar' = AR_Region p"
        "ar_region ar = AR_Region p \<and> hr_top (gh_hr ?hl p) \<le> obj \<or> p \<in> ?F \<and> obj = hr_bottom (gh_hr h' p)"
        "hr_bottom (gh_hr h' p) \<le> obj" "obj + sz = hr_top (gh_hr h' p)"
        "steady ?F (ar_regs ar \<union> set xs \<union> set ys) ?hl h'" "set xs' \<union> set ys' \<subseteq> ?F"
      using gen.attempt_locked_ok [OF v(1) r(2) l(1,2) assms(4,5) l(3), of "rv_locked rv" "rv_fill rv"] by blast
    have alt: "p \<in> ar_regs ar \<and> hr_top (gh_hr h1 p) \<le> obj \<or> p \<in> ?F \<and> obj = hr_bottom (gh_hr h' p)"
      using k(5) by (auto simp: ar_regs_def)
    have "got g sz ?F ?s1 obj (g1_mark_as_dirty obj sz (?s1\<lparr>vm_gens := (vm_gens s)[g := Some ar'], as_heap := set_heap_lock False h'\<rparr>))"
      using gen_got [OF a(3), of g ar "set_heap_lock False h'" xs' ys' ar' p obj sz] ar assms(2,3) r(1,3) k steady_lock [OF k(8) v(2)]
        gen_locked_keeps [OF k(1)] alt by simp
    then have "got g sz ?F s obj (g1_mark_as_dirty obj sz (s\<lparr>vm_gens := (vm_gens s)[g := Some ar'], as_heap := set_heap_lock False h'\<rparr>))"
      using got_after [OF a(2)] by simp
    moreover have "gen_attempt_allocation cfg rv (int g) sz s =
        Inr (Some obj, g1_mark_as_dirty obj sz (s\<lparr>vm_gens := (vm_gens s)[g := Some ar'], as_heap := set_heap_lock False h'\<rparr>))"
      using assms(2,3,6) ar a(1) None k(1) by (simp add: gen_attempt_allocation_def with_heap_lock_def)
    ultimately show ?thesis by blast
  qed
qed

lemma seq_inv_end:
  assumes "seq_inv sq st" and "i < seq_length sq"
  shows "seq_heap_bottom sq + (i + 1) * GrainWords (st_grain st) \<le> seq_heap_end sq"
proof -
  let ?G = "GrainWords (st_grain st)"
  have "ba_maps (hs_regions sq) (seq_heap_bottom sq) (seq_heap_end sq) (nat (LogOfHRGrainBytes (st_grain st)))"
      "2 ^ nat (LogOfHRGrainBytes (st_grain st)) = ?G * HeapWordSize" "i < seq_max_length sq" using assms by (auto simp: seq_inv_def)
  moreover from this have "seq_heap_end sq = seq_heap_bottom sq + seq_max_length sq * ?G"
    by (auto simp: ba_maps_def seq_max_length_def HeapWordSize_def algebra_simps)
  moreover have "(i + 1) * ?G \<le> seq_max_length sq * ?G" using calculation(3) by (intro mult_le_mono1) simp
  ultimately show ?thesis by simp
qed

text \<open>The region of a new block.\<close>

lemma fresh_containing:
  assumes "vm_ok s xs ys" and "fresh_in g sz obj s0 s p" and "vm_steady F s0 s" and "0 < sz"
  shows "heap_region_containing_raw obj s = Inr p" "obj \<noteq> 0" "is_in_reserved obj s" "is_in_reserved (obj + sz - 1) s"
proof -
  let ?G = "GrainWords (gh_grain (as_heap s))" and ?b = "seq_heap_bottom (g1_hrs s)"
  have v: "seq_inv (g1_hrs s) (gh_st (as_heap s))" "as_reserved s = (?b, seq_heap_end (g1_hrs s))" using assms(1) by (auto simp: vm_ok_def)
  have f: "p < seq_length (g1_hrs s)" "?b + p * ?G \<le> obj" "obj + sz \<le> ?b + (p + 1) * ?G"
    using assms(2,3) by (auto simp: fresh_in_def vm_steady_def)
  have "0 < ?b" using v(1) by (simp add: seq_inv_def)
  then show nz: "obj \<noteq> 0" using f(2) by simp
  have e: "?b + (p + 1) * ?G \<le> seq_heap_end (g1_hrs s)" by (rule seq_inv_end [OF v(1) f(1)])
  then show r: "is_in_reserved obj s" "is_in_reserved (obj + sz - 1) s" using f assms(4) v(2) by (auto simp: is_in_reserved_def)
  have "addr_to_region_unsafe obj (g1_hrs s) = Inr p" by (rule seq_inv_addr [OF v(1) f(1,2)]) (use f(3) assms(4) in simp)
  then show "heap_region_containing_raw obj s = Inr p" using r by (simp add: heap_region_containing_raw_def)
qed

lemma dirty_young_got:
  assumes "got 0 sz F s obj s'" and "0 < sz"
  shows "\<exists>s2. dirty_young_block obj sz s' = Inr s2 \<and> got 0 sz F s obj s2"
proof -
  obtain xs ys p where o: "vm_ok s' xs ys" "fresh_in 0 sz obj s s' p" "vm_steady F s s'" using assms(1) by (auto simp: got_def)
  note c = fresh_containing [OF o assms(2)]
  have f: "\<not> isHumongous (gh_hr (as_heap s') p)" "is_young (gh_hr (as_heap s') p)" "hr_bottom (gh_hr (as_heap s') p) \<le> obj"
      "obj + sz \<le> hr_top (gh_hr (as_heap s') p)" using o(2) by (auto simp: fresh_in_def in_gen_def is_young_def)
  have "\<not> Heap_lock (gh_mt (as_heap s'))" using o(1) by (simp add: vm_ok_def heap_not_locked_and_not_at_safepoint_def)
  moreover have e: "hr_bottom (gh_hr (as_heap s') p) \<le> obj + sz - 1" "obj + sz - 1 < hr_top (gh_hr (as_heap s') p)" "obj < hr_top (gh_hr (as_heap s') p)"
    using f(3,4) assms(2) by linarith+
  ultimately have "dirty_young_block obj sz s' = Inr (g1_mark_as_young obj sz s')"
    using c f e assms(2) unfolding dirty_young_block_def by (simp add: Let_def)
  then show ?thesis using got_cards [OF assms(1)] by (simp add: g1_mark_as_young_def set_cards_def)
qed

text \<open>The mutator region: without the lock, or in the first round under the lock.\<close>

lemma mutator_first:
  assumes "vm_ok s xs ys" and "0 < sz"
  shows "\<exists>res s1. mutator_attempt_allocation ss sz s = Inr (res, s1) \<and> vm_steady {} s s1 \<and> vm_ok s1 xs ys \<and>
    (\<not> is_young_list_full (as_heap s) \<longrightarrow> \<not> is_young_list_full (as_heap s1)) \<and>
    (\<forall>obj. res = Some obj \<longrightarrow> got 0 sz (set xs \<union> set ys) s obj s1)"
proof -
  let ?h = "as_heap s" and ?ar = "vm_mutator s" and ?n = "seq_length (g1_hrs s)"
  have v: "heap_rep ?h xs ys" "regions_ok ?n ?ar (vm_gens s) ?h" "seq_inv (g1_hrs s) (gh_st ?h)"
      "alloc_region_ok False mutator_active ?ar ?h" "ar_regs ?ar \<subseteq> {..<?n}"
    using assms(1) unfolding vm_ok_def regions_ok_def by blast+
  obtain res h1 where a: "attempt_allocation ss sz False ?ar ?h = Inr (res, h1)" "heap_rep h1 xs ys"
      "alloc_region_ok False mutator_active ?ar h1" "mutator_room ?ar ?h \<longrightarrow> mutator_room ?ar h1" "steady {} (ar_regs ?ar) ?h h1"
      "\<forall>obj. res = Some obj \<longrightarrow> (\<exists>p. ar_region ?ar = AR_Region p \<and> hr_top (gh_hr ?h p) \<le> obj \<and> obj + sz = hr_top (gh_hr h1 p) \<and>
          obj + sz \<le> hr_end (gh_hr h1 p) \<and> hr_bottom (gh_hr h1 p) \<le> hr_top (gh_hr ?h p))"
    using mut.attempt_ok [OF v(1,4) assms(2), of ss] by blast
  have st: "steady (set xs \<union> set ys) (ar_regs ?ar \<union> set xs \<union> set ys) ?h h1" by (rule steady_mono [OF a(5)]) auto
  have "vm_ok (s\<lparr>as_heap := h1\<rparr>) xs ys"
    using assms(1) a(2,5) seq_inv_steady [OF v(3) a(5) v(5)] regions_ok_mut [OF v(2,1) st a(3) v(5)]
    by (simp add: vm_ok_def heap_not_locked_and_not_at_safepoint_def steady_def)
  moreover have "got 0 sz (set xs \<union> set ys) s obj (s\<lparr>as_heap := h1\<rparr>)" if o: "res = Some obj" for obj
  proof -
    obtain p where p: "ar_region ?ar = AR_Region p" "hr_top (gh_hr ?h p) \<le> obj" "obj + sz = hr_top (gh_hr h1 p)"
        "hr_bottom (gh_hr h1 p) \<le> hr_top (gh_hr ?h p)" using a(6) o by blast
    have "got 0 sz (set xs \<union> set ys) s obj (s\<lparr>vm_mutator := ?ar, as_heap := h1\<rparr>)"
      using p by (intro mutator_got [OF assms(1) a(2) _ st a(3) p(1)]) (auto simp: ar_regs_def)
    then show ?thesis by simp
  qed
  ultimately show ?thesis using a(1,4,5)
    by (intro exI [of _ res] exI [of _ "s\<lparr>as_heap := h1\<rparr>"]) (simp add: mutator_attempt_allocation_def vm_steady_def steady_def mutator_room_def)
qed

lemma mutator_slow_got:
  assumes "vm_ok s xs ys" and "\<not> is_young_list_full (as_heap s)" and "xs @ ys \<noteq> []"
    and "0 < sz" "\<not> g1_isHumongous (gh_grain (as_heap s)) sz"
  shows "\<exists>obj s'. attempt_allocation_slow cfg (rd # rds) sz n s = Inr ((Some obj, None), n, s') \<and> got 0 sz (set xs \<union> set ys) s obj s'"
proof -
  let ?h = "as_heap s" and ?F = "set xs \<union> set ys" and ?ar = "vm_mutator s" and ?rv = "rd_rivals rd"
  let ?hl = "set_heap_lock True ?h"
  have v: "heap_rep ?hl xs ys" "\<not> Heap_lock (gh_mt ?h)" "\<not> is_at_safepoint (gh_mt ?h)" "gh_inc_cset_active ?h" "alloc_region_ok False mutator_active ?ar ?hl"
    using assms(1) by (auto simp: vm_ok_def heap_not_locked_and_not_at_safepoint_def regions_ok_def)
  have l: "mutator_amb ?hl" "mutator_room ?ar ?hl" "sz \<le> GrainWords (gh_grain ?hl)"
    using v(3,4) assms(2,5) by (simp_all add: mutator_amb_def mutator_room_def g1_isHumongous_def)
  obtain obj ar' h' xs' ys' p where r: "attempt_allocation_locked (mutator_allocate_new_region (cf_env cfg)) mutator_retire_region
        (rv_locked ?rv) (rv_fill ?rv) sz False ?ar ?hl = Inr (Some obj, ar', h')" "heap_rep h' xs' ys'"
      "alloc_region_ok False mutator_active ar' h'" "ar_region ar' = AR_Region p"
      "ar_region ?ar = AR_Region p \<and> hr_top (gh_hr ?hl p) \<le> obj \<or> p \<in> ?F \<and> obj = hr_bottom (gh_hr h' p)"
      "hr_bottom (gh_hr h' p) \<le> obj" "obj + sz = hr_top (gh_hr h' p)"
      "steady ?F (ar_regs ?ar \<union> set xs \<union> set ys) ?hl h'" "set xs' \<union> set ys' \<subseteq> ?F"
    using mut.attempt_locked_ok [OF v(1,5) l(1,2) assms(3,4) l(3), of "cf_env cfg" "rv_locked ?rv" "rv_fill ?rv"] by blast
  have alt: "p \<in> ar_regs ?ar \<and> hr_top (gh_hr ?h p) \<le> obj \<or> p \<in> ?F \<and> obj = hr_bottom (gh_hr h' p)"
    using r(5) by (auto simp: ar_regs_def)
  have "got 0 sz ?F s obj (s\<lparr>vm_mutator := ar', as_heap := set_heap_lock False h'\<rparr>)"
    using mutator_got [OF assms(1), of "set_heap_lock False h'" xs' ys' ar' p obj sz] r steady_lock [OF r(8) v(2)] alt by simp
  moreover have "attempt_allocation_slow cfg (rd # rds) sz n s = Inr ((Some obj, None), n, s\<lparr>vm_mutator := ar', as_heap := set_heap_lock False h'\<rparr>)"
    using r(1) v(2,3) assms(5)
    by (simp add: attempt_allocation_slow_def with_heap_lock_def slow_locked_part_def mutator_attempt_allocation_locked_def
        after_locked_part_def heap_not_locked_and_not_at_safepoint_def)
  ultimately show ?thesis by blast
qed

lemma mutator_attempt_got:
  assumes "vm_ok s xs ys" and "\<not> is_young_list_full (as_heap s)" and "xs @ ys \<noteq> []"
    and "0 < sz" "\<not> g1_isHumongous (gh_grain (as_heap s)) sz"
  shows "\<exists>obj s'. g1_attempt_allocation cfg ss (rd # rds) sz n s = Inr ((Some obj, None), n, s') \<and> got 0 sz (set xs \<union> set ys) s obj s'"
proof -
  let ?F = "set xs \<union> set ys"
  obtain res s1 where a: "mutator_attempt_allocation ss sz s = Inr (res, s1)" "vm_steady {} s s1" "vm_ok s1 xs ys"
      "\<not> is_young_list_full (as_heap s1)" "\<forall>obj. res = Some obj \<longrightarrow> got 0 sz ?F s obj s1"
    using mutator_first [OF assms(1,4), of ss] assms(2) by blast
  have hum: "\<not> g1_isHumongous (gh_grain (as_heap s1)) sz" using a(2) assms(5) by (simp add: vm_steady_def)
  have "\<exists>obj s2. (case res of Some obj \<Rightarrow> Inr ((Some obj, None), n, s1) | None \<Rightarrow> attempt_allocation_slow cfg (rd # rds) sz n s1)
      = Inr ((Some obj, None), n, s2) \<and> got 0 sz ?F s obj s2"
    using a(5) mutator_slow_got [OF a(3,4) assms(3,4) hum, of cfg rd rds n] got_after [OF a(2)] by (cases res) fastforce+
  then obtain obj s2 where o: "(case res of Some obj \<Rightarrow> Inr ((Some obj, None), n, s1) | None \<Rightarrow> attempt_allocation_slow cfg (rd # rds) sz n s1)
      = Inr ((Some obj, None), n, s2)" "got 0 sz ?F s obj s2" by blast
  obtain s3 where s3: "dirty_young_block obj sz s2 = Inr s3" "got 0 sz ?F s obj s3" using dirty_young_got [OF o(2) assms(4)] by blast
  have "\<not> Heap_lock (gh_mt (as_heap s2))" using o(2) by (auto simp: got_def vm_ok_def heap_not_locked_and_not_at_safepoint_def)
  moreover have "heap_not_locked_and_not_at_safepoint s" using assms(1) by (simp add: vm_ok_def)
  ultimately have "g1_attempt_allocation cfg ss (rd # rds) sz n s = Inr ((Some obj, None), n, s3)"
    using a(1) o(1) s3(1) assms(5) by (simp add: g1_attempt_allocation_def)
  then show ?thesis using s3(2) by blast
qed

end
