(* ===== verification/Thread_Buffers.thy ===== *)
theory Thread_Buffers
  imports Vm_Invariant
begin

text \<open>
  The allocation buffers of all threads together.  \<open>bufs_ok\<close> is their invariant: each buffer in use lies
  below the top of a region of its generation, the buffers are pairwise disjoint, and the count
  of active buffers of a region is the number of buffers that lie in it.  \<open>parsed\<close> says that the used
  part of each buffer is a sequence of objects.  Both survive everything an allocation does to a
  buffer: taking the next words, retiring it and filling it anew.
\<close>

section \<open>The invariant\<close>

definition bufs :: "alloc_thread list \<Rightarrow> (nat \<times> nat) set" where
  "bufs ths = {..<length ths} \<times> {..<NG2C_GEN_ARRAY_SIZE}"

definition buf :: "alloc_thread list \<Rightarrow> nat \<times> nat \<Rightarrow> tlab" where
  "buf ths b = th_tlabGenArray (ths ! fst b) ! snd b"

definition lies_in :: "vm_flags \<Rightarrow> vm \<Rightarrow> nat \<Rightarrow> tlab \<Rightarrow> nat \<Rightarrow> bool" where
  "lies_in fl s g t p \<longleftrightarrow>
     p < seq_length (g1_hrs s) \<and> in_gen g (gh_hr (as_heap s) p) \<and> hr_bottom (gh_hr (as_heap s) p) \<le> tl_start t \<and>
     hard_end fl t \<le> hr_top (gh_hr (as_heap s) p) \<and>
     hard_end fl t \<le> seq_heap_bottom (g1_hrs s) + (p + 1) * GrainWords (gh_grain (as_heap s))"

definition buf_ok :: "vm_flags \<Rightarrow> vm \<Rightarrow> nat \<Rightarrow> tlab \<Rightarrow> bool" where
  "buf_ok fl s g t \<longleftrightarrow> tlab_ok fl t s \<and> (tl_end t \<noteq> 0 \<longrightarrow> (\<exists>p. tl_my_heap_region t = Some p \<and> lies_in fl s g t p))"

definition apart :: "vm_flags \<Rightarrow> tlab \<Rightarrow> tlab \<Rightarrow> bool" where
  "apart fl t u \<longleftrightarrow> tl_end t = 0 \<or> tl_end u = 0 \<or> hard_end fl t \<le> tl_start u \<or> hard_end fl u \<le> tl_start t"

definition bufs_ok :: "vm_flags \<Rightarrow> (nat \<times> nat) set \<Rightarrow> (nat \<times> nat \<Rightarrow> tlab) \<Rightarrow> vm \<Rightarrow> bool" where
  "bufs_ok fl I B s \<longleftrightarrow>
     finite I \<and> (\<forall>b \<in> I. buf_ok fl s (snd b) (B b)) \<and> (\<forall>b \<in> I. \<forall>c \<in> I. b \<noteq> c \<longrightarrow> apart fl (B b) (B c)) \<and>
     (\<forall>p. hr_active_tlabs (gh_hr (as_heap s) p) = int (card {b \<in> I. tl_my_heap_region (B b) = Some p}))"

definition parsed :: "(nat \<times> nat) set \<Rightarrow> (nat \<times> nat \<Rightarrow> tlab) \<Rightarrow> (nat \<Rightarrow> obj) \<Rightarrow> bool" where
  "parsed I B m \<longleftrightarrow> (\<forall>b \<in> I. tl_end (B b) \<noteq> 0 \<longrightarrow> tiled m (tl_start (B b)) (tl_top (B b)))"

lemma bufs_okD:
  assumes "bufs_ok fl I B s" and "b \<in> I"
  shows "tlab_ok fl (B b) s" "buf_ok fl s (snd b) (B b)" "tl_end (B b) \<noteq> 0 \<Longrightarrow> \<exists>p. tl_my_heap_region (B b) = Some p \<and> lies_in fl s (snd b) (B b) p"
  using assms by (auto simp: bufs_ok_def buf_ok_def)

lemma in_use_bounds:
  assumes "tlab_ok fl t s" and "tl_end t \<noteq> 0"
  shows "0 < tl_start t" "tl_start t \<le> tl_top t" "tl_top t \<le> tl_end t" "tl_top t < hard_end fl t" "tl_start t < hard_end fl t"
  using assms alignment_reserve_min [of fl] by (auto simp: tlab_ok_def tlab_invariants_def hard_end_def min_fill_size_def)

lemma tlab_ok_reserved: "as_reserved s' = as_reserved s \<Longrightarrow> tlab_ok fl t s' = tlab_ok fl t s"
  by (simp add: tlab_ok_def is_in_reserved_def)

text \<open>A buffer in use keeps its region off the free lists.\<close>

lemma lies_in_not_free:
  assumes "lies_in fl s g t p" and "tlab_ok fl t s" "tl_end t \<noteq> 0" and "heap_rep (as_heap s) xs ys"
  shows "p \<notin> set xs \<union> set ys"
proof
  assume "p \<in> set xs \<union> set ys"
  from free_region_empty(2) [OF assms(4) this] show False
    using assms(1) in_use_bounds(5) [OF assms(2,3)] by (simp add: lies_in_def)
qed

lemma lies_in_steady:
  assumes "lies_in fl s g t p" and "vm_steady F s s'" and "p \<notin> F"
  shows "lies_in fl s' g t p"
proof -
  have "placed (gh_hr (as_heap s) p) (gh_hr (as_heap s') p)" "hr_gen (gh_hr (as_heap s') p) = hr_gen (gh_hr (as_heap s) p)"
      "hr_young_type (gh_hr (as_heap s') p) = hr_young_type (gh_hr (as_heap s) p)" "g1_hrs s' = g1_hrs s" "gh_grain (as_heap s') = gh_grain (as_heap s)"
    using assms(2,3) by (auto simp: vm_steady_def)
  then show ?thesis using assms(1) by (auto simp: lies_in_def placed_def in_gen_def)
qed

lemma bufs_ok_steady:
  assumes "bufs_ok fl I B s" and "vm_ok s xs ys" and "vm_steady (set xs \<union> set ys) s s'"
  shows "bufs_ok fl I B s'"
proof -
  have r: "as_reserved s' = as_reserved s" "hr_active_tlabs (gh_hr (as_heap s') p) = hr_active_tlabs (gh_hr (as_heap s) p)" for p
    using assms(3) by (auto simp: vm_steady_def placed_def)
  have rep: "heap_rep (as_heap s) xs ys" using assms(2) by (simp add: vm_ok_def)
  have "buf_ok fl s' (snd b) (B b)" if b: "b \<in> I" for b
  proof -
    note o = bufs_okD [OF assms(1) b]
    have "\<exists>p. tl_my_heap_region (B b) = Some p \<and> lies_in fl s' (snd b) (B b) p" if u: "tl_end (B b) \<noteq> 0"
      using o(3) [OF u] lies_in_steady [OF _ assms(3) lies_in_not_free [OF _ o(1) u rep]] by blast
    then show ?thesis using o(1) by (simp add: buf_ok_def tlab_ok_reserved [OF r(1)])
  qed
  then show ?thesis using assms(1) by (simp add: bufs_ok_def r(2))
qed

text \<open>A new block is apart from all buffers.\<close>

lemma fresh_apart:
  assumes "bufs_ok fl I B s" and "vm_ok s xs ys" and "fresh_in g n obj s s' p" and "vm_steady (set xs \<union> set ys) s s'"
    and "b \<in> I" and "tl_end (B b) \<noteq> 0"
  shows "hard_end fl (B b) \<le> obj \<or> obj + n \<le> tl_start (B b)"
proof -
  let ?G = "GrainWords (gh_grain (as_heap s))" and ?b = "seq_heap_bottom (g1_hrs s)"
  obtain q where q: "lies_in fl s (snd b) (B b) q" using bufs_okD(3) [OF assms(1,5,6)] by blast
  have sq: "seq_inv (g1_hrs s) (gh_st (as_heap s))" using assms(2) by (simp add: vm_ok_def)
  have f: "hr_top (gh_hr (as_heap s) p) \<le> obj" "?b + p * ?G \<le> obj" "obj + n \<le> ?b + (p + 1) * ?G"
    using assms(3) by (auto simp: fresh_in_def)
  have l: "q < seq_length (g1_hrs s)" "hr_bottom (gh_hr (as_heap s) q) \<le> tl_start (B b)" "hard_end fl (B b) \<le> hr_top (gh_hr (as_heap s) q)"
      "hard_end fl (B b) \<le> ?b + (q + 1) * ?G" using q by (auto simp: lies_in_def)
  have "q < hs_allocated_length (g1_hrs s)" using l(1) sq by (auto simp: seq_inv_def)
  then have lo: "?b + q * ?G \<le> tl_start (B b)" using l(2) sq by (auto simp: seq_inv_def)
  consider "q = p" | "q < p" | "p < q" by linarith
  then show ?thesis
  proof cases
    case 2
    then have "(q + 1) * ?G \<le> p * ?G" by (intro mult_le_mono1) simp
    then show ?thesis using f(2) l(4) by linarith
  next
    case 3
    then have "(p + 1) * ?G \<le> q * ?G" by (intro mult_le_mono1) simp
    then show ?thesis using f(3) lo by linarith
  qed (use f(1) l(3) in simp)
qed

section \<open>Counting buffers\<close>

text \<open>A change of a region's count of buffers and of its offset table.\<close>

definition retagged :: "nat \<Rightarrow> int \<Rightarrow> g1_heap \<Rightarrow> g1_heap \<Rightarrow> bool" where
  "retagged p a h h' \<longleftrightarrow>
     (\<exists>bs e. h' = (gh_put p ((gh_hr h p)\<lparr>hr_active_tlabs := a, hr_bot_blocks := bs\<rparr>) h)\<lparr>gh_enqueued := e\<rparr>)"

lemma retagged_facts:
  assumes "retagged p a h h'"
  shows "hr_index (gh_hr h' q) = hr_index (gh_hr h q)" "hr_bottom (gh_hr h' q) = hr_bottom (gh_hr h q)" "hr_top (gh_hr h' q) = hr_top (gh_hr h q)"
    "hr_end (gh_hr h' q) = hr_end (gh_hr h q)" "hr_orig_end (gh_hr h' q) = hr_orig_end (gh_hr h q)"
    "hr_humongous_type (gh_hr h' q) = hr_humongous_type (gh_hr h q)" "hr_young_type (gh_hr h' q) = hr_young_type (gh_hr h q)"
    "hr_gen (gh_hr h' q) = hr_gen (gh_hr h q)" "hr_containing_set (gh_hr h' q) = hr_containing_set (gh_hr h q)"
    "hr_is_gen_alloc_region (gh_hr h' q) = hr_is_gen_alloc_region (gh_hr h q)" "hr_in_cset (gh_hr h' q) = hr_in_cset (gh_hr h q)"
    "hr_young_index_in_cset (gh_hr h' q) = hr_young_index_in_cset (gh_hr h q)"
    "region_inv g (gh_hr h' q) = region_inv g (gh_hr h q)" "hr_active_tlabs (gh_hr h' q) = (if q = p then a else hr_active_tlabs (gh_hr h q))"
    "st_next (gh_st h') = st_next (gh_st h)" "gh_grain h' = gh_grain h" "gh_mt h' = gh_mt h" "gh_next_in_cset h' = gh_next_in_cset h"
    "gh_inc_cset_active h' = gh_inc_cset_active h" "keeps p h h'" "is_young_list_full h' = is_young_list_full h"
proof -
  obtain bs e where h': "h' = (gh_put p ((gh_hr h p)\<lparr>hr_active_tlabs := a, hr_bot_blocks := bs\<rparr>) h)\<lparr>gh_enqueued := e\<rparr>"
    using assms by (auto simp: retagged_def)
  have r: "gh_hr h' q = (if q = p then (gh_hr h p)\<lparr>hr_active_tlabs := a, hr_bot_blocks := bs\<rparr> else gh_hr h q)" by (simp add: h')
  show "hr_index (gh_hr h' q) = hr_index (gh_hr h q)" "hr_bottom (gh_hr h' q) = hr_bottom (gh_hr h q)" "hr_top (gh_hr h' q) = hr_top (gh_hr h q)"
    "hr_end (gh_hr h' q) = hr_end (gh_hr h q)" "hr_orig_end (gh_hr h' q) = hr_orig_end (gh_hr h q)"
    "hr_humongous_type (gh_hr h' q) = hr_humongous_type (gh_hr h q)" "hr_young_type (gh_hr h' q) = hr_young_type (gh_hr h q)"
    "hr_gen (gh_hr h' q) = hr_gen (gh_hr h q)" "hr_containing_set (gh_hr h' q) = hr_containing_set (gh_hr h q)"
    "hr_is_gen_alloc_region (gh_hr h' q) = hr_is_gen_alloc_region (gh_hr h q)" "hr_in_cset (gh_hr h' q) = hr_in_cset (gh_hr h q)"
    "hr_young_index_in_cset (gh_hr h' q) = hr_young_index_in_cset (gh_hr h q)"
    "hr_active_tlabs (gh_hr h' q) = (if q = p then a else hr_active_tlabs (gh_hr h q))" by (simp_all add: r)
  show "region_inv g (gh_hr h' q) = region_inv g (gh_hr h q)" by (simp add: r region_inv_def region_preds)
  show "st_next (gh_st h') = st_next (gh_st h)" "gh_grain h' = gh_grain h" "gh_mt h' = gh_mt h" "gh_next_in_cset h' = gh_next_in_cset h"
    "gh_inc_cset_active h' = gh_inc_cset_active h" "keeps p h h'" "is_young_list_full h' = is_young_list_full h"
    by (simp_all add: h' keeps_def is_young_list_full_def)
qed

lemma retagged_used: "retagged p a h h' \<Longrightarrow> used (gh_hr h' q) = used (gh_hr h q)" "retagged p a h h' \<Longrightarrow> unowned h' q = unowned h q"
  "retagged p a h h' \<Longrightarrow> isHumongous (gh_hr h' q) = isHumongous (gh_hr h q)" "retagged p a h h' \<Longrightarrow> is_young (gh_hr h' q) = is_young (gh_hr h q)"
  "retagged p a h h' \<Longrightarrow> startsHumongous (gh_hr h' q) = startsHumongous (gh_hr h q)"
  by (simp_all add: used_def unowned_def isHumongous_def startsHumongous_def is_young_def retagged_facts [of p a h h'])

lemma alloc_region_ok_retagged:
  assumes "retagged p a h h'"
  shows "alloc_region_ok False mutator_active ar h' = alloc_region_ok False mutator_active ar h"
    "alloc_region_ok True (gen_active g) gar h' = alloc_region_ok True (gen_active g) gar h"
  by (simp_all add: alloc_region_ok_def mutator_active_def gen_active_def hr_is_empty_def retagged_facts [OF assms] retagged_used [OF assms] split: ar_ptr.splits)

lemma seq_inv_retagged:
  assumes "retagged p a h h'" shows "seq_inv sq (gh_st h') = seq_inv sq (gh_st h)"
  unfolding seq_inv_def retagged_facts [OF assms] retagged_used [OF assms] ..

lemma vm_ok_retagged:
  assumes "vm_ok s xs ys" and "retagged p a (as_heap s) h'" and "p \<notin> set xs \<union> set ys"
  shows "vm_ok (s\<lparr>as_heap := h', as_mem := m\<rparr>) xs ys"
proof -
  have "heap_rep h' xs ys"
    using assms(1,3) retagged_facts(20) [OF assms(2)] by (intro keeps_rep [of "as_heap s" xs ys p h']) (auto simp: vm_ok_def)
  then show ?thesis using assms(1)
    by (simp add: vm_ok_def heap_not_locked_and_not_at_safepoint_def regions_ok_def seq_inv_retagged [OF assms(2)]
        alloc_region_ok_retagged [OF assms(2)] retagged_facts [OF assms(2)])
qed

lemma lies_in_retagged:
  "retagged p a (as_heap s) h' \<Longrightarrow> lies_in fl (s\<lparr>as_heap := h', as_mem := m\<rparr>) g t q = lies_in fl s g t q"
  by (simp add: lies_in_def in_gen_def retagged_facts [of p a "as_heap s" h'])

lemma vm_ok_mem: "vm_ok (s\<lparr>as_mem := m\<rparr>) xs ys = vm_ok s xs ys"
  by (simp add: vm_ok_def heap_not_locked_and_not_at_safepoint_def)

lemma bufs_ok_mem: "bufs_ok fl I B (s\<lparr>as_mem := m\<rparr>) = bufs_ok fl I B s"
  by (simp add: bufs_ok_def buf_ok_def lies_in_def tlab_ok_def is_in_reserved_def)

section \<open>Changing a buffer\<close>

text \<open>The words of a buffer are handed out, or only its statistics change.\<close>

lemma bufs_ok_advance:
  assumes "bufs_ok fl I B s" and "b \<in> I" and "tl_start t = tl_start (B b)" "tl_end t = tl_end (B b)" "tl_my_heap_region t = tl_my_heap_region (B b)"
    and "tl_top (B b) \<le> tl_top t" "tl_top t \<le> tl_end (B b)"
  shows "bufs_ok fl I (B(b := t)) s"
proof -
  have h: "hard_end fl t = hard_end fl (B b)" using assms(4) by (simp add: hard_end_def)
  have "tlab_ok fl t s" using bufs_okD(1) [OF assms(1,2)] assms(3-7) h by (auto simp: tlab_ok_def tlab_invariants_def)
  then have "buf_ok fl s (snd b) t" using bufs_okD(2) [OF assms(1,2)] assms(3-5) h by (simp add: buf_ok_def lies_in_def)
  moreover have "{c \<in> I. tl_my_heap_region ((B(b := t)) c) = Some p} = {c \<in> I. tl_my_heap_region (B c) = Some p}" for p
    using assms(5) by auto
  ultimately show ?thesis using assms(1,3,4) h by (auto simp: bufs_ok_def apart_def)
qed

text \<open>A buffer that is not in use counts for no region; giving one up and registering one change the count by one.\<close>

lemma bufs_ok_drop:
  assumes "bufs_ok fl I B s" and "b \<in> I" and "tl_my_heap_region (B b) = Some p" and "tlab_ok fl t s" "tl_end t = 0"
    and "retagged p (hr_active_tlabs (gh_hr (as_heap s) p) - 1) (as_heap s) h'"
  shows "bufs_ok fl I (B(b := t)) (s\<lparr>as_heap := h', as_mem := m\<rparr>)"
proof -
  let ?s = "s\<lparr>as_heap := h', as_mem := m\<rparr>"
  have t: "tl_my_heap_region t = None" using assms(4,5) by (simp add: tlab_ok_def)
  have fin: "finite {c \<in> I. tl_my_heap_region (B c) = Some p}" using assms(1) by (simp add: bufs_ok_def)
  have e: "{c \<in> I. tl_my_heap_region ((B(b := t)) c) = Some p} = {c \<in> I. tl_my_heap_region (B c) = Some p} - {b}"
    and o: "q \<noteq> p \<Longrightarrow> {c \<in> I. tl_my_heap_region ((B(b := t)) c) = Some q} = {c \<in> I. tl_my_heap_region (B c) = Some q}" for q
    using assms(2,3) t by auto
  have "b \<in> {c \<in> I. tl_my_heap_region (B c) = Some p}" using assms(2,3) by simp
  then have c: "int (card {c \<in> I. tl_my_heap_region ((B(b := t)) c) = Some p}) = int (card {c \<in> I. tl_my_heap_region (B c) = Some p}) - 1"
    using card_Suc_Diff1 [OF fin] unfolding e by fastforce
  have "hr_active_tlabs (gh_hr h' q) = int (card {c \<in> I. tl_my_heap_region ((B(b := t)) c) = Some q})" for q
    using assms(1) c o [of q] by (cases "q = p") (simp_all add: bufs_ok_def retagged_facts(14) [OF assms(6)])
  moreover have "buf_ok fl ?s (snd c) ((B(b := t)) c)" if "c \<in> I" for c
    using bufs_okD(2) [OF assms(1) that] assms(4,5) lies_in_retagged [OF assms(6)] tlab_ok_reserved [of ?s s] by (simp add: buf_ok_def)
  ultimately show ?thesis using assms(1,5) by (auto simp: bufs_ok_def apart_def)
qed

lemma bufs_ok_register:
  assumes "bufs_ok fl I B s" and "b \<in> I" and "tl_end (B b) = 0" and "tlab_ok fl t s" "tl_end t \<noteq> 0"
    and "tl_my_heap_region t = Some p" "lies_in fl s (snd b) t p"
    and "\<And>c. c \<in> I \<Longrightarrow> tl_end (B c) \<noteq> 0 \<Longrightarrow> hard_end fl (B c) \<le> tl_start t \<or> hard_end fl t \<le> tl_start (B c)"
    and "retagged p (hr_active_tlabs (gh_hr (as_heap s) p) + 1) (as_heap s) h'"
  shows "bufs_ok fl I (B(b := t)) (s\<lparr>as_heap := h', as_mem := m\<rparr>)"
proof -
  let ?s = "s\<lparr>as_heap := h', as_mem := m\<rparr>"
  have u: "tl_my_heap_region (B b) = None" using bufs_okD(1) [OF assms(1,2)] assms(3) by (simp add: tlab_ok_def)
  have fin: "finite {c \<in> I. tl_my_heap_region (B c) = Some p}" using assms(1) by (simp add: bufs_ok_def)
  have e: "{c \<in> I. tl_my_heap_region ((B(b := t)) c) = Some p} = insert b {c \<in> I. tl_my_heap_region (B c) = Some p}"
    and o: "q \<noteq> p \<Longrightarrow> {c \<in> I. tl_my_heap_region ((B(b := t)) c) = Some q} = {c \<in> I. tl_my_heap_region (B c) = Some q}" for q
    using assms(2,6) u by auto
  have "b \<notin> {c \<in> I. tl_my_heap_region (B c) = Some p}" using u by simp
  then have c: "int (card {c \<in> I. tl_my_heap_region ((B(b := t)) c) = Some p}) = int (card {c \<in> I. tl_my_heap_region (B c) = Some p}) + 1"
    unfolding e using fin by simp
  have "hr_active_tlabs (gh_hr h' q) = int (card {c \<in> I. tl_my_heap_region ((B(b := t)) c) = Some q})" for q
    using assms(1) c o [of q] by (cases "q = p") (simp_all add: bufs_ok_def retagged_facts(14) [OF assms(9)])
  moreover have "buf_ok fl ?s (snd c) ((B(b := t)) c)" if "c \<in> I" for c
    using bufs_okD(2) [OF assms(1) that] assms(4,6,7) lies_in_retagged [OF assms(9)] tlab_ok_reserved [of ?s s] by (simp add: buf_ok_def)
  ultimately show ?thesis using assms(1,8) by (fastforce simp: bufs_ok_def apart_def)
qed

text \<open>Memory that changes outside the used parts.\<close>

lemma parsed_frame:
  assumes "parsed I B m" and "\<And>c p. c \<in> I \<Longrightarrow> tl_end (B c) \<noteq> 0 \<Longrightarrow> tl_start (B c) \<le> p \<Longrightarrow> p < tl_top (B c) \<Longrightarrow> m' p = m p"
  shows "parsed I B m'"
  using assms tiled_frame [of m _ _ m'] unfolding parsed_def by blast

lemma parsed_drop: "parsed I B m \<Longrightarrow> tl_end t = 0 \<Longrightarrow> parsed I (B(b := t)) m"
  by (simp add: parsed_def)

section \<open>Allocation in a buffer\<close>

text \<open>The object at \<open>obj\<close> has its place in a region of generation \<open>g\<close>.\<close>

definition obj_at :: "nat \<Rightarrow> nat \<Rightarrow> nat \<Rightarrow> vm \<Rightarrow> bool" where
  "obj_at g sz obj s \<longleftrightarrow>
     obj \<noteq> 0 \<and> (\<exists>p < seq_length (g1_hrs s). in_gen g (gh_hr (as_heap s) p) \<and> hr_bottom (gh_hr (as_heap s) p) \<le> obj \<and>
        obj + sz \<le> hr_top (gh_hr (as_heap s) p))"

text \<open>The memory of the object is the last of buffer \<open>b\<close> and its header is still to be written.\<close>

definition awaiting :: "(nat \<times> nat) set \<Rightarrow> (nat \<times> nat \<Rightarrow> tlab) \<Rightarrow> nat \<times> nat \<Rightarrow> nat \<Rightarrow> nat \<Rightarrow> (nat \<Rightarrow> obj) \<Rightarrow> bool" where
  "awaiting I B b obj sz m \<longleftrightarrow>
     (\<forall>c \<in> I. tl_end (B c) \<noteq> 0 \<longrightarrow> tiled m (tl_start (B c)) (if c = b then obj else tl_top (B c))) \<and>
     tl_start (B b) \<le> obj \<and> tl_top (B b) = obj + sz \<and> tl_end (B b) \<noteq> 0"

lemma buf_allocate:
  assumes "bufs_ok fl I B s" and "parsed I B (as_mem s)" and "b \<in> I" and "sz \<le> tlab_free (B b)" "0 < sz"
  shows "tlab_allocate sz (B b) = Inr (Some (tl_top (B b)), (B b)\<lparr>tl_top := tl_top (B b) + sz\<rparr>)"
    "bufs_ok fl I (B(b := (B b)\<lparr>tl_top := tl_top (B b) + sz\<rparr>)) s"
    "awaiting I (B(b := (B b)\<lparr>tl_top := tl_top (B b) + sz\<rparr>)) b (tl_top (B b)) sz (as_mem s)" "obj_at (snd b) sz (tl_top (B b)) s"
proof -
  note o = bufs_okD(1) [OF assms(1,3)]
  have u: "tl_end (B b) \<noteq> 0" "tl_top (B b) + sz \<le> tl_end (B b)" using assms(4,5) by (auto simp: tlab_free_def)
  note i = in_use_bounds [OF o u(1)]
  show "tlab_allocate sz (B b) = Inr (Some (tl_top (B b)), (B b)\<lparr>tl_top := tl_top (B b) + sz\<rparr>)"
    using o assms(4) by (simp add: tlab_allocate_spec tlab_ok_def)
  show "bufs_ok fl I (B(b := (B b)\<lparr>tl_top := tl_top (B b) + sz\<rparr>)) s"
    by (rule bufs_ok_advance [OF assms(1,3)]) (use u in simp_all)
  show "awaiting I (B(b := (B b)\<lparr>tl_top := tl_top (B b) + sz\<rparr>)) b (tl_top (B b)) sz (as_mem s)"
    using assms(2,3) u(1) i(2) by (simp add: awaiting_def parsed_def)
  obtain p where "lies_in fl s (snd b) (B b) p" using bufs_okD(3) [OF assms(1,3) u(1)] by blast
  then show "obj_at (snd b) sz (tl_top (B b)) s"
    using i u(2) unfolding lies_in_def obj_at_def by (intro conjI exI [of _ p]) (auto simp: hard_end_def)
qed

lemma bufs_apart:
  assumes "bufs_ok fl I B s" and "b \<in> I" "c \<in> I" "b \<noteq> c" and "tl_end (B b) \<noteq> 0" "tl_end (B c) \<noteq> 0"
  shows "hard_end fl (B b) \<le> tl_start (B c) \<or> hard_end fl (B c) \<le> tl_start (B b)"
proof -
  have "apart fl (B b) (B c)" using assms(1-4) unfolding bufs_ok_def by blast
  then show ?thesis using assms(5,6) by (simp add: apart_def)
qed

text \<open>The rest of one buffer is outside the used parts of all.\<close>

lemma outside_used:
  assumes "bufs_ok fl I B s" and "b \<in> I" and "tl_end (B b) \<noteq> 0" and "same_outside (tl_top (B b)) (hard_end fl (B b)) s s1"
    and "c \<in> I" "tl_end (B c) \<noteq> 0" "tl_start (B c) \<le> q" "q < tl_top (B c)"
  shows "as_mem s1 q = as_mem s q"
proof (cases "c = b")
  case False
  then have "hard_end fl (B c) \<le> tl_start (B b) \<or> hard_end fl (B b) \<le> tl_start (B c)"
    using bufs_apart [OF assms(1,5,2)] assms(3,6) by blast
  then show ?thesis
    using assms(7,8) in_use_bounds [OF bufs_okD(1) [OF assms(1,5)] assms(6)] in_use_bounds [OF bufs_okD(1) [OF assms(1,2)] assms(3)]
    by (intro same_outside_facts(4) [OF assms(4)]) auto
qed (use assms(8) in \<open>auto intro: same_outside_facts(4) [OF assms(4)]\<close>)

text \<open>Retiring a buffer leaves a filler behind its objects.\<close>

lemma buf_parsable:
  assumes "flags_ok fl" and "bufs_ok fl I B s" and "parsed I B (as_mem s)" and "b \<in> I" and "\<forall>q. 0 < env_obj_size env q"
  shows "\<exists>t n h m. make_parsable fl env True (B b) s = Inr (t, n, s\<lparr>as_heap := h, as_mem := m\<rparr>) \<and> tl_end t = 0 \<and>
    tl_my_thread t = tl_my_thread (B b) \<and> bufs_ok fl I (B(b := t)) (s\<lparr>as_heap := h, as_mem := m\<rparr>) \<and> parsed I (B(b := t)) m \<and>
    (if tl_end (B b) = 0 then h = as_heap s \<and> m = as_mem s
     else (\<exists>p a. lies_in fl s (snd b) (B b) p \<and> retagged p a (as_heap s) h) \<and> tiled m (tl_start (B b)) (hard_end fl (B b)) \<and>
       (\<forall>q. q < tl_top (B b) \<or> hard_end fl (B b) \<le> q \<longrightarrow> m q = as_mem s q))"
proof -
  let ?t = "B b"
  note o = bufs_okD(1) [OF assms(2,4)]
  show ?thesis
  proof (cases "tl_end ?t = 0")
    case True
    have "make_parsable fl env True ?t s = Inr (?t, 0, s\<lparr>as_heap := as_heap s, as_mem := as_mem s\<rparr>)" using retire_unused [OF o True] by simp
    then show ?thesis using True assms(2,3)
      by (intro exI [of _ ?t] exI [of _ 0] exI [of _ "as_heap s"] exI [of _ "as_mem s"]) simp
  next
    case False
    obtain p where p: "tl_my_heap_region ?t = Some p" "lies_in fl s (snd b) ?t p" using bufs_okD(3) [OF assms(2,4) False] by blast
    obtain s1 h where r: "make_parsable fl env True ?t s = Inr (reset_tlab ?t, tlab_used_bytes ?t, s1\<lparr>as_heap := h\<rparr>)"
        "tiled (as_mem s1) (tl_top ?t) (hard_end fl ?t)" "same_outside (tl_top ?t) (hard_end fl ?t) s s1" "one_less p (as_heap s) h"
      using retire_spec [OF assms(1) o False assms(5)] p(1) by auto
    have tag: "retagged p (hr_active_tlabs (gh_hr (as_heap s) p) - 1) (as_heap s) h"
      using r(4) unfolding one_less_def retagged_def by blast
    have s1: "s1\<lparr>as_heap := h\<rparr> = s\<lparr>as_heap := h, as_mem := as_mem s1\<rparr>" using r(3) by (auto simp: same_outside_def)
    have "tlab_ok fl (reset_tlab ?t) s" by (simp add: tlab_ok_def reset_tlab_def tlab_invariants_def)
    then have "bufs_ok fl I (B(b := reset_tlab ?t)) (s\<lparr>as_heap := h, as_mem := as_mem s1\<rparr>)"
      by (rule bufs_ok_drop [OF assms(2,4) p(1) _ _ tag]) (simp add: reset_tlab_def)
    moreover have pm: "parsed I B (as_mem s1)"
      using outside_used [OF assms(2,4) False r(3)] by (intro parsed_frame [OF assms(3)])
    moreover have "tiled (as_mem s1) (tl_start ?t) (hard_end fl ?t)"
      using pm r(2) assms(4) False tiled_trans unfolding parsed_def by metis
    moreover have "as_mem s1 q = as_mem s q" if "q < tl_top ?t \<or> hard_end fl ?t \<le> q" for q
      using same_outside_facts(4) [OF r(3)] that by auto
    ultimately show ?thesis using False r(1) s1 p(2) tag parsed_drop [OF pm, of "reset_tlab ?t" b]
      by (intro exI [of _ "reset_tlab ?t"] exI [of _ "tlab_used_bytes ?t"] exI [of _ h] exI [of _ "as_mem s1"]) (auto simp: reset_tlab_def)
  qed
qed

lemma buf_retire:
  assumes "flags_ok fl" and "vm_ok s xs ys" and "bufs_ok fl I B s" and "parsed I B (as_mem s)" and "b \<in> I" and "\<forall>q. 0 < env_obj_size env q"
  shows "\<exists>t n h m. clear_before_allocation fl env (B b) s = Inr (t, n, s\<lparr>as_heap := h, as_mem := m\<rparr>) \<and> tl_end t = 0 \<and>
    tl_my_thread t = tl_my_thread (B b) \<and> vm_ok (s\<lparr>as_heap := h, as_mem := m\<rparr>) xs ys \<and> bufs_ok fl I (B(b := t)) (s\<lparr>as_heap := h, as_mem := m\<rparr>) \<and>
    parsed I (B(b := t)) m \<and> gh_grain h = gh_grain (as_heap s) \<and> is_young_list_full h = is_young_list_full (as_heap s) \<and>
    (tl_end (B b) \<noteq> 0 \<longrightarrow> tiled m (tl_start (B b)) (hard_end fl (B b)))"
proof -
  define t1 where "t1 = (B b)\<lparr>tl_slow_refill_waste := tl_slow_refill_waste (B b) + of_nat (tlab_remaining fl (B b))\<rparr>"
  let ?B = "B(b := t1)"
  have t1: "tl_end t1 = tl_end (B b)" "tl_top t1 = tl_top (B b)" "tl_start t1 = tl_start (B b)" "tl_my_heap_region t1 = tl_my_heap_region (B b)"
      "tl_my_thread t1 = tl_my_thread (B b)" "hard_end fl t1 = hard_end fl (B b)" by (simp_all add: t1_def hard_end_def)
  have "tl_top (B b) \<le> tl_end (B b)" using bufs_okD(1) [OF assms(3,5)] by (simp add: tlab_ok_def tlab_invariants_def)
  then have B: "bufs_ok fl I ?B s" using t1 by (intro bufs_ok_advance [OF assms(3,5)]) simp_all
  have P: "parsed I ?B (as_mem s)" using assms(4,5) t1 by (simp add: parsed_def)
  obtain t n h m where r: "make_parsable fl env True t1 s = Inr (t, n, s\<lparr>as_heap := h, as_mem := m\<rparr>)" "tl_end t = 0" "tl_my_thread t = tl_my_thread (B b)"
      "bufs_ok fl I (B(b := t)) (s\<lparr>as_heap := h, as_mem := m\<rparr>)" "parsed I (B(b := t)) m"
    and e: "if tl_end t1 = 0 then h = as_heap s \<and> m = as_mem s
     else (\<exists>p a. lies_in fl s (snd b) t1 p \<and> retagged p a (as_heap s) h) \<and> tiled m (tl_start t1) (hard_end fl t1) \<and>
       (\<forall>q. q < tl_top t1 \<or> hard_end fl t1 \<le> q \<longrightarrow> m q = as_mem s q)"
    using buf_parsable [OF assms(1) B P assms(5,6)] unfolding fun_upd_same fun_upd_upd t1(5) by blast
  have run: "clear_before_allocation fl env (B b) s = make_parsable fl env True t1 s" by (simp add: clear_before_allocation_def t1_def)
  have "vm_ok (s\<lparr>as_heap := h, as_mem := m\<rparr>) xs ys \<and> gh_grain h = gh_grain (as_heap s) \<and> is_young_list_full h = is_young_list_full (as_heap s)"
  proof (cases "tl_end t1 = 0")
    case False
    then obtain p a where p: "lies_in fl s (snd b) t1 p" "retagged p a (as_heap s) h" using e by auto
    have "lies_in fl s (snd b) (B b) p" using p(1) t1 by (simp add: lies_in_def)
    then have nf: "p \<notin> set xs \<union> set ys"
      using assms(2) False t1(1) by (intro lies_in_not_free [OF _ bufs_okD(1) [OF assms(3,5)]]) (auto simp: vm_ok_def)
    show ?thesis using vm_ok_retagged [OF assms(2) p(2) nf, of m] retagged_facts(16,21) [OF p(2)] by simp
  qed (use e assms(2) in simp)
  then show ?thesis using run r e t1(1,3,6) by (intro exI [of _ t] exI [of _ n] exI [of _ h] exI [of _ m]) auto
qed

end
