(* ===== verification/Object_Alloc.thy ===== *)
theory Object_Alloc
  imports Thread_Buffers
begin

text \<open>
  The allocation of an object from the profiling step to the finished header.  As long as a free region is
  left and, for eden, the young list has room, every path returns an object: from the
  current buffer, from a new buffer, or from memory outside the buffers.  The object lies in a region of the
  generation the profile names and carries the tag of its site and context, its allocation is
  counted, and the invariants of the heap and of the buffers of all threads hold again.
\<close>

section \<open>New buffers\<close>

definition cfg_ok :: "vm_cfg \<Rightarrow> vm \<Rightarrow> bool" where
  "cfg_ok cfg s \<longleftrightarrow>
     flags_ok (cf_flags cfg) \<and> 0 < TLABRefillWasteFraction (cf_flags cfg) \<and> (\<forall>q. 0 < env_obj_size (cf_env cfg) q) \<and>
     GrainWords (gh_grain (as_heap s)) \<le> filler_array_max_size (cf_flags cfg)"

text \<open>Memory may be taken for generation \<open>g\<close>; eden needs room in the young list.\<close>

definition may_allocate :: "nat \<Rightarrow> vm \<Rightarrow> bool" where
  "may_allocate g s \<longleftrightarrow> (if g = 0 then \<not> is_young_list_full (as_heap s) else g < length (vm_gens s))"

definition taken_from :: "nat set \<Rightarrow> vm \<Rightarrow> bool" where
  "taken_from F s \<longleftrightarrow> (\<exists>xs ys. vm_ok s xs ys \<and> set xs \<union> set ys \<subseteq> F)"

lemma new_block:
  assumes "vm_ok s xs ys" and "cfg_ok cfg s" and "may_allocate g s" and "xs @ ys \<noteq> []" and "0 < n" "\<not> g1_isHumongous (gh_grain (as_heap s)) n"
    and "rds \<noteq> []"
  shows "\<exists>obj s'. (if g = 0 then allocate_new_tlab cfg (rv_first rv) rds n s else allocate_new_gen_tlab cfg rv (int g) n s) = Inr (Some obj, s') \<and>
    got g n (set xs \<union> set ys) s obj s'"
proof -
  have nl: "heap_not_locked_and_not_at_safepoint s" using assms(1) by (simp add: vm_ok_def)
  show ?thesis
  proof (cases "g = 0")
    case True
    then obtain rd rds' where "rds = rd # rds'" "\<not> is_young_list_full (as_heap s)"
      using assms(3,7) by (cases rds) (auto simp: may_allocate_def)
    then show ?thesis using mutator_attempt_got [OF assms(1) _ assms(4-6), of cfg "rv_first rv" rd rds' 0] nl True assms(6)
      by (auto simp: allocate_new_tlab_def)
  next
    case False
    then show ?thesis using gen_attempt_got [OF assms(1) _ _ assms(4-6), of g cfg rv] nl assms(2,3,6)
      by (simp add: allocate_new_gen_tlab_def cfg_ok_def may_allocate_def)
  qed
qed

lemma register_tlab_run:
  assumes "heap_region_containing_raw (tl_start t) s = Inr p"
  shows "\<exists>h. register_tlab t s = Inr (t\<lparr>tl_my_heap_region := Some p\<rparr>, s\<lparr>as_heap := h\<rparr>) \<and>
    retagged p (hr_active_tlabs (gh_hr (as_heap s) p) + 1) (as_heap s) h"
proof -
  let ?r = "gh_hr (as_heap s) p" and ?h = "as_heap s"
  have "gh_put p (add_active_tlab ?r) ?h =
      (gh_put p (?r\<lparr>hr_active_tlabs := hr_active_tlabs ?r + 1, hr_bot_blocks := hr_bot_blocks ?r\<rparr>) ?h)\<lparr>gh_enqueued := gh_enqueued ?h\<rparr>"
    by (simp add: add_active_tlab_def gh_put_def)
  then have "retagged p (hr_active_tlabs ?r + 1) ?h (gh_put p (add_active_tlab ?r) ?h)" unfolding retagged_def by blast
  then show ?thesis using assms by (intro exI [of _ "gh_put p (add_active_tlab ?r) ?h"]) (simp add: register_tlab_def)
qed

text \<open>A fresh block becomes the new buffer \<open>b\<close>, with the object as its first one.\<close>

lemma buf_refill:
  assumes "vm_ok s xs ys" and "bufs_ok fl I B s" and "parsed I B (as_mem s)" and "b \<in> I" "tl_end (B b) = 0"
    and "got (snd b) n (set xs \<union> set ys) s obj s2" and "0 < sz" "sz + alignment_reserve fl \<le> n" "n \<le> filler_array_max_size fl"
    and "0 < TLABRefillWasteFraction fl"
  shows "\<exists>t2 t3 h m. tlab_fill fl obj (obj + sz) n (B b) = Inr t2 \<and>
    register_tlab t2 (if ZeroTLAB fl then zero_to_words obj n s2 else s2) = Inr (t3, s2\<lparr>as_heap := h, as_mem := m\<rparr>) \<and>
    tl_my_thread t3 = tl_my_thread (B b) \<and> taken_from (set xs \<union> set ys) (s2\<lparr>as_heap := h, as_mem := m\<rparr>) \<and>
    bufs_ok fl I (B(b := t3)) (s2\<lparr>as_heap := h, as_mem := m\<rparr>) \<and> awaiting I (B(b := t3)) b obj sz m \<and>
    obj_at (snd b) sz obj (s2\<lparr>as_heap := h, as_mem := m\<rparr>) \<and> gh_grain h = gh_grain (as_heap s2)"
proof -
  obtain xs' ys' p where g: "vm_ok s2 xs' ys'" "set xs' \<union> set ys' \<subseteq> set xs \<union> set ys" "vm_steady (set xs \<union> set ys) s s2" "fresh_in (snd b) n obj s s2 p"
    using assms(6) by (auto simp: got_def)
  have n: "0 < n" using assms(7,8) by simp
  note c = fresh_containing [OF g(1,4,3) n]
  define m where "m = (if ZeroTLAB fl then as_mem (zero_to_words obj n s2) else as_mem s2)"
  define t2 where "t2 = (B b)\<lparr>tl_number_of_refills := tl_number_of_refills (B b) + 1, tl_start := obj, tl_top := obj + sz, tl_pf_top := obj + sz,
     tl_end := obj + n - alignment_reserve fl, tl_refill_waste_limit := tl_desired_size (B b) div TLABRefillWasteFraction fl\<rparr>"
  define t3 where "t3 = t2\<lparr>tl_my_heap_region := Some p\<rparr>"
  have fill: "tlab_fill fl obj (obj + sz) n (B b) = Inr t2" unfolding t2_def by (rule tlab_fill_spec [OF assms(10,8)])
  have t3: "tl_start t3 = obj" "tl_top t3 = obj + sz" "tl_end t3 = obj + n - alignment_reserve fl" "tl_end t3 \<noteq> 0" "tl_my_heap_region t3 = Some p"
      "hard_end fl t3 = obj + n" "tl_my_thread t3 = tl_my_thread (B b)"
    using assms(7,8) c(2) by (simp_all add: t3_def t2_def hard_end_def)
  have s3: "(if ZeroTLAB fl then zero_to_words obj n s2 else s2) = s2\<lparr>as_mem := m\<rparr>" by (simp add: m_def zero_to_words_def)
  have "heap_region_containing_raw (tl_start t2) (s2\<lparr>as_mem := m\<rparr>) = Inr p"
    using c(1) by (simp add: t2_def heap_region_containing_raw_def is_in_reserved_def)
  from register_tlab_run [OF this] obtain h where "register_tlab t2 (s2\<lparr>as_mem := m\<rparr>) = Inr (t3, s2\<lparr>as_mem := m, as_heap := h\<rparr>)"
      "retagged p (hr_active_tlabs (gh_hr (as_heap (s2\<lparr>as_mem := m\<rparr>)) p) + 1) (as_heap (s2\<lparr>as_mem := m\<rparr>)) h" unfolding t3_def by blast
  then have h: "register_tlab t2 (s2\<lparr>as_mem := m\<rparr>) = Inr (t3, s2\<lparr>as_heap := h, as_mem := m\<rparr>)"
      "retagged p (hr_active_tlabs (gh_hr (as_heap s2) p) + 1) (as_heap s2) h" by simp_all
  have mem: "m q = as_mem s q" if "q < obj \<or> obj + n \<le> q" for q
    using that g(3) by (auto simp: m_def zero_to_words_def vm_steady_def)
  have ok: "tlab_ok fl t3 s2" "lies_in fl s2 (snd b) t3 p"
    using c t3 assms(8,9) g(3,4) by (auto simp: tlab_ok_def tlab_invariants_def lies_in_def fresh_in_def vm_steady_def)
  have apart: "hard_end fl (B q) \<le> obj \<or> obj + n \<le> tl_start (B q)" if "q \<in> I" "tl_end (B q) \<noteq> 0" for q
    by (rule fresh_apart [OF assms(2,1) g(4,3) that])
  have "bufs_ok fl I (B(b := t3)) (s2\<lparr>as_heap := h, as_mem := m\<rparr>)"
    by (rule bufs_ok_register [OF bufs_ok_steady [OF assms(2,1) g(3)] assms(4,5) ok(1) t3(4,5) ok(2) _ h(2)]) (use apart t3 in auto)
  moreover have "p \<notin> set xs' \<union> set ys'"
    using lies_in_not_free [OF ok(2,1) t3(4)] g(1) by (auto simp: vm_ok_def)
  then have "taken_from (set xs \<union> set ys) (s2\<lparr>as_heap := h, as_mem := m\<rparr>)"
    using vm_ok_retagged [OF g(1) h(2)] g(2) unfolding taken_from_def by blast
  moreover have "parsed I B m"
  proof (rule parsed_frame [OF assms(3)])
    show "m q = as_mem s q" if "r \<in> I" "tl_end (B r) \<noteq> 0" "tl_start (B r) \<le> q" "q < tl_top (B r)" for r q
      using apart [OF that(1,2)] that in_use_bounds [OF bufs_okD(1) [OF assms(2) that(1)] that(2)] by (intro mem) auto
  qed
  then have "awaiting I (B(b := t3)) b obj sz m" using t3 by (simp add: awaiting_def parsed_def tiled.empty)
  moreover have "obj_at (snd b) sz obj (s2\<lparr>as_heap := h, as_mem := m\<rparr>)"
    using g(3,4) assms(8) c(2) retagged_facts(2,3,7,8) [OF h(2)] unfolding obj_at_def
    by (intro conjI exI [of _ p]) (auto simp: fresh_in_def in_gen_def vm_steady_def)
  ultimately show ?thesis using fill s3 h(1) t3(7) retagged_facts(16) [OF h(2)] by auto
qed

section \<open>Allocation from a buffer\<close>

lemma max_tlab_half: "unsafe_max_tlab_alloc fl s div HeapWordSize \<le> GrainWords (gh_grain (as_heap s)) div 2"
proof -
  have "unsafe_max_tlab_alloc fl s \<le> GrainWords (gh_grain (as_heap s)) div 2 * HeapWordSize"
    by (simp add: unsafe_max_tlab_alloc_def Let_def split: option.splits)
  then have "unsafe_max_tlab_alloc fl s div HeapWordSize \<le> GrainWords (gh_grain (as_heap s)) div 2 * HeapWordSize div HeapWordSize"
    by (rule div_le_mono)
  then show ?thesis by (simp add: HeapWordSize_def)
qed

text \<open>
  The outcome of an allocation from buffer \<open>b\<close>: the buffer is now \<open>t\<close>; either the object has its memory, or everything is
  as before up to the retirement of the buffer.
\<close>

definition buf_outcome ::
    "vm_cfg \<Rightarrow> (nat \<times> nat) set \<Rightarrow> (nat \<times> nat \<Rightarrow> tlab) \<Rightarrow> nat \<times> nat \<Rightarrow> nat \<Rightarrow> nat list \<Rightarrow> nat list \<Rightarrow> vm \<Rightarrow> nat option \<Rightarrow> tlab \<Rightarrow> vm \<Rightarrow> bool" where
  "buf_outcome cfg I B b sz xs ys s res t s' \<longleftrightarrow>
     bufs_ok (cf_flags cfg) I (B(b := t)) s' \<and> tl_my_thread t = tl_my_thread (B b) \<and> vm_prof s' = vm_prof s \<and>
     gh_grain (as_heap s') = gh_grain (as_heap s) \<and>
     (case res of
        None \<Rightarrow> vm_ok s' xs ys \<and> parsed I (B(b := t)) (as_mem s') \<and> may_allocate (snd b) s'
      | Some obj \<Rightarrow> taken_from (set xs \<union> set ys) s' \<and> awaiting I (B(b := t)) b obj sz (as_mem s') \<and> obj_at (snd b) sz obj s')"

lemma buf_slow:
  assumes "vm_ok s xs ys" and "cfg_ok cfg s" and "bufs_ok (cf_flags cfg) I B s" and "parsed I B (as_mem s)" and "b \<in> I"
    and "th_tlabGenArray th ! snd b = B b" and "tlab_index kh th = snd b" "kh_alloc_gen kh = int (snd b)" "th_alloc_gen th = int (snd b)"
    and "may_allocate (snd b) s" and "xs @ ys \<noteq> []" and "0 < sz" and "rds \<noteq> []"
  shows "\<exists>res t n s'. allocate_from_tlab_slow cfg rv rds kh sz th s = Inr (res, (put_tlab (snd b) t th)\<lparr>th_allocated_bytes := n\<rparr>, s') \<and>
    buf_outcome cfg I B b sz xs ys s res t s'"
proof (cases "tl_refill_waste_limit (B b) < tlab_free (B b)")
  case True
  let ?t = "record_slow_allocation (cf_flags cfg) (B b)"
  have "tl_top (B b) \<le> tl_end (B b)" using bufs_okD(1) [OF assms(3,5)] by (simp add: tlab_ok_def tlab_invariants_def)
  then have "bufs_ok (cf_flags cfg) I (B(b := ?t)) s" by (intro bufs_ok_advance [OF assms(3,5)]) (simp_all add: record_slow_allocation_def)
  moreover have "parsed I (B(b := ?t)) (as_mem s)" using assms(4,5) by (simp add: parsed_def record_slow_allocation_def)
  moreover have "put_tlab (snd b) ?t th = (put_tlab (snd b) ?t th)\<lparr>th_allocated_bytes := th_allocated_bytes th\<rparr>" by (simp add: put_tlab_def)
  ultimately show ?thesis using True assms(1,6,7,10)
    by (intro exI [of _ None] exI [of _ ?t] exI [of _ "th_allocated_bytes th"] exI [of _ s])
      (simp add: allocate_from_tlab_slow_def Let_def buf_outcome_def record_slow_allocation_def)
next
  case False
  let ?fl = "cf_flags cfg" and ?i = "snd b"
  define n where "n = compute_size ?fl (unsafe_max_tlab_alloc ?fl s) sz (B b)"
  have c: "flags_ok ?fl" "\<forall>q. 0 < env_obj_size (cf_env cfg) q" "0 < TLABRefillWasteFraction ?fl" "GrainWords (gh_grain (as_heap s)) \<le> filler_array_max_size ?fl"
    using assms(2) by (auto simp: cfg_ok_def)
  obtain t bytes h m where r: "clear_before_allocation ?fl (cf_env cfg) (B b) s = Inr (t, bytes, s\<lparr>as_heap := h, as_mem := m\<rparr>)" "tl_end t = 0"
      "tl_my_thread t = tl_my_thread (B b)" "vm_ok (s\<lparr>as_heap := h, as_mem := m\<rparr>) xs ys" "bufs_ok ?fl I (B(b := t)) (s\<lparr>as_heap := h, as_mem := m\<rparr>)"
      "parsed I (B(b := t)) m" "gh_grain h = gh_grain (as_heap s)" "is_young_list_full h = is_young_list_full (as_heap s)"
    using buf_retire [OF c(1) assms(1,3,4,5) c(2)] by blast
  let ?s1 = "s\<lparr>as_heap := h, as_mem := m\<rparr>" and ?th1 = "(put_tlab ?i t th)\<lparr>th_allocated_bytes := th_allocated_bytes th + of_nat bytes\<rparr>"
  have may: "may_allocate ?i ?s1" using assms(10) r(8) by (simp add: may_allocate_def)
  have run: "allocate_from_tlab_slow cfg rv rds kh sz th s =
      (if n = 0 then Inr (None, ?th1, ?s1)
       else rbind (if ?i = 0 then allocate_new_tlab cfg (rv_first rv) rds n ?s1 else allocate_new_gen_tlab cfg rv (int ?i) n ?s1) (\<lambda>(obj, s2).
              case obj of None \<Rightarrow> Inr (None, ?th1, s2)
              | Some p \<Rightarrow> rbind (tlab_fill ?fl p (p + sz) n t) (\<lambda>t2.
                  rbind (register_tlab t2 (if ZeroTLAB ?fl then zero_to_words p n s2 else s2)) (\<lambda>(t3, s4). Inr (Some p, put_tlab ?i t3 ?th1, s4)))))"
    using False r(1) assms(9) unfolding allocate_from_tlab_slow_def Let_def n_def assms(6-8) by (simp add: put_tlab_def)
  show ?thesis
  proof (cases "n = 0")
    case True
    then show ?thesis using run r may
      by (intro exI [of _ None] exI [of _ t] exI [of _ "th_allocated_bytes th + of_nat bytes"] exI [of _ ?s1]) (simp add: buf_outcome_def)
  next
    case False
    have n: "sz + alignment_reserve ?fl \<le> n" "n \<le> GrainWords (gh_grain (as_heap s)) div 2"
      using compute_size_bounds(1) [of ?fl _ sz "B b"] compute_size_bounds(2) [of ?fl _ sz "B b"] max_tlab_half [of ?fl s] False
      unfolding n_def by (blast, meson order_trans)
    then have hum: "\<not> g1_isHumongous (gh_grain (as_heap ?s1)) n" "n \<le> filler_array_max_size ?fl"
      using r(7) c(4) by (auto simp: g1_isHumongous_def)
    have cfg: "cfg_ok cfg ?s1" using assms(2) r(7) by (simp add: cfg_ok_def)
    obtain obj s2 where g: "(if ?i = 0 then allocate_new_tlab cfg (rv_first rv) rds n ?s1 else allocate_new_gen_tlab cfg rv (int ?i) n ?s1) = Inr (Some obj, s2)"
        "got ?i n (set xs \<union> set ys) ?s1 obj s2"
      using new_block [OF r(4) cfg may assms(11) _ hum(1) assms(13), of rv] False by blast
    obtain t2 t3 h2 m2 where f: "tlab_fill ?fl obj (obj + sz) n t = Inr t2"
        "register_tlab t2 (if ZeroTLAB ?fl then zero_to_words obj n s2 else s2) = Inr (t3, s2\<lparr>as_heap := h2, as_mem := m2\<rparr>)"
        "tl_my_thread t3 = tl_my_thread t" "taken_from (set xs \<union> set ys) (s2\<lparr>as_heap := h2, as_mem := m2\<rparr>)"
        "bufs_ok ?fl I (B(b := t3)) (s2\<lparr>as_heap := h2, as_mem := m2\<rparr>)" "awaiting I (B(b := t3)) b obj sz m2" "obj_at ?i sz obj (s2\<lparr>as_heap := h2, as_mem := m2\<rparr>)"
        "gh_grain h2 = gh_grain (as_heap s2)"
      using buf_refill [OF r(4,5) _ assms(5) _ g(2) assms(12) n(1) hum(2) c(3)] r(2,6) by auto
    have "vm_prof s2 = vm_prof s" "gh_grain (as_heap s2) = gh_grain (as_heap s)" using g(2) r(7) by (simp_all add: got_def vm_steady_def)
    then show ?thesis using run g(1) f False r(3)
      by (intro exI [of _ "Some obj"] exI [of _ t3] exI [of _ "th_allocated_bytes th + of_nat bytes"] exI [of _ "s2\<lparr>as_heap := h2, as_mem := m2\<rparr>"])
        (simp add: buf_outcome_def put_tlab_def)
  qed
qed

lemma buf_path:
  assumes "vm_ok s xs ys" and "cfg_ok cfg s" and "bufs_ok (cf_flags cfg) I B s" and "parsed I B (as_mem s)" and "b \<in> I"
    and "th_tlabGenArray th ! snd b = B b" and "tlab_index kh th = snd b" "kh_alloc_gen kh = int (snd b)" "th_alloc_gen th = int (snd b)"
    and "may_allocate (snd b) s" and "xs @ ys \<noteq> []" and "0 < sz" and "rds \<noteq> []" and "UseTLAB (cf_flags cfg)"
  shows "\<exists>res t n s'. allocate_from_tlab cfg rv rds kh sz th s = Inr (res, (put_tlab (snd b) t th)\<lparr>th_allocated_bytes := n\<rparr>, s') \<and>
    buf_outcome cfg I B b sz xs ys s res t s'"
proof (cases "sz \<le> tlab_free (B b)")
  case True
  note a = buf_allocate [OF assms(3,4,5) True assms(12)]
  let ?t = "(B b)\<lparr>tl_top := tl_top (B b) + sz\<rparr>"
  have "put_tlab (snd b) ?t th = (put_tlab (snd b) ?t th)\<lparr>th_allocated_bytes := th_allocated_bytes th\<rparr>" by (simp add: put_tlab_def)
  moreover have "allocate_from_tlab cfg rv rds kh sz th s = Inr (Some (tl_top (B b)), put_tlab (snd b) ?t th, s)"
    using assms(6,7,14) a(1) by (simp add: allocate_from_tlab_def Let_def)
  moreover have "taken_from (set xs \<union> set ys) s" using assms(1) by (auto simp: taken_from_def)
  ultimately show ?thesis using a(2-4)
    by (intro exI [of _ "Some (tl_top (B b))"] exI [of _ ?t] exI [of _ "th_allocated_bytes th"] exI [of _ s]) (simp add: buf_outcome_def)
next
  case False
  have "tlab_allocate sz (B b) = Inr (None, B b)"
    using bufs_okD(1) [OF assms(3,5)] False by (simp add: tlab_allocate_spec tlab_ok_def)
  moreover have "put_tlab (snd b) (B b) th = th" unfolding put_tlab_def assms(6) [symmetric] by simp
  ultimately have "allocate_from_tlab cfg rv rds kh sz th s = allocate_from_tlab_slow cfg rv rds kh sz th s"
    using assms(6,7,14) by (simp add: allocate_from_tlab_def Let_def)
  then show ?thesis using buf_slow [OF assms(1-13), of rv] by simp
qed

section \<open>Memory outside the buffers\<close>

lemma mem_path:
  assumes "vm_ok s xs ys" and "cfg_ok cfg s" and "may_allocate g s" and "xs @ ys \<noteq> []"
    and "0 < sz" "\<not> g1_isHumongous (gh_grain (as_heap s)) sz" and "mr_rounds mr \<noteq> []"
  shows "\<exists>obj s'. mem_allocate cfg (mr # mrs) list_id sz (g \<noteq> 0) (int g) s = Inr (Some obj, s') \<and> got g sz (set xs \<union> set ys) s obj s'"
proof -
  have nl: "heap_not_locked_and_not_at_safepoint s" using assms(1) by (simp add: vm_ok_def)
  obtain rd rds where rds: "mr_rounds mr = rd # rds" using assms(7) by (cases "mr_rounds mr") auto
  show ?thesis
  proof (cases "g = 0")
    case True
    then have "\<not> is_young_list_full (as_heap s)" using assms(3) by (simp add: may_allocate_def)
    from mutator_attempt_got [OF assms(1) this assms(4-6), of cfg "rv_first (mr_rivals mr)" rd rds 0]
    show ?thesis using nl True rds assms(6) by (auto simp: mem_allocate_def)
  next
    case False
    then have "g < length (vm_gens s)" "0 < g" using assms(3) by (auto simp: may_allocate_def)
    from gen_attempt_got [OF assms(1) this(2,1) assms(4-6), of cfg "mr_rivals mr"]
    show ?thesis using nl False assms(2,6) by (auto simp: mem_allocate_def cfg_ok_def)
  qed
qed

lemma got_obj_at:
  assumes "got g sz F s obj s'" and "0 < sz" shows "obj_at g sz obj s'"
proof -
  obtain xs ys p where o: "vm_ok s' xs ys" "fresh_in g sz obj s s' p" "vm_steady F s s'" using assms(1) by (auto simp: got_def)
  then show ?thesis using fresh_containing(2) [OF o assms(2)] unfolding obj_at_def
    by (intro conjI exI [of _ p]) (auto simp: fresh_in_def vm_steady_def)
qed

section \<open>All threads\<close>

definition thread_wf :: "alloc_thread \<Rightarrow> bool" where
  "thread_wf th \<longleftrightarrow> length (th_tlabGenArray th) = NG2C_GEN_ARRAY_SIZE \<and> (\<forall>t \<in> set (th_tlabGenArray th). tl_my_thread t = th_id th)"

definition threads_ok :: "vm_flags \<Rightarrow> alloc_thread list \<Rightarrow> vm \<Rightarrow> bool" where
  "threads_ok fl ths s \<longleftrightarrow>
     (\<forall>j < length ths. thread_wf (ths ! j)) \<and>
     bufs_ok fl (bufs ths) (buf ths) s \<and> parsed (bufs ths) (buf ths) (as_mem s)"

text \<open>Memory for an object of \<open>sz\<close> words in generation \<open>g\<close> that only waits for its header.\<close>

definition header_ready :: "vm_flags \<Rightarrow> alloc_thread list \<Rightarrow> nat \<Rightarrow> nat \<Rightarrow> nat set \<Rightarrow> nat \<Rightarrow> vm \<Rightarrow> bool" where
  "header_ready fl ths g sz F obj s \<longleftrightarrow>
     taken_from F s \<and> obj_at g sz obj s \<and> (\<forall>ob. oop_size ob = Inr sz \<longrightarrow> threads_ok fl ths (s\<lparr>as_mem := (as_mem s)(obj := ob)\<rparr>))"

lemma buf_update:
  assumes "j < length ths" and "g < length (th_tlabGenArray (ths ! j))"
    and "th_tlabGenArray th = (th_tlabGenArray (ths ! j))[g := t]"
  shows "buf (ths[j := th]) = (buf ths)((j, g) := t)" "bufs (ths[j := th]) = bufs ths"
proof
  fix b show "buf (ths[j := th]) b = ((buf ths)((j, g) := t)) b"
    using assms by (cases b; cases "fst b = j"; cases "snd b = g") (auto simp: buf_def)
next
  show "bufs (ths[j := th]) = bufs ths" by (simp add: bufs_def)
qed

lemma threads_ok_update:
  assumes "threads_ok fl ths s" and "j < length ths" and "g < NG2C_GEN_ARRAY_SIZE"
    and "th_tlabGenArray th = (th_tlabGenArray (ths ! j))[g := t]" "th_id th = th_id (ths ! j)" "tl_my_thread t = tl_my_thread (buf ths (j, g))"
    and "bufs_ok fl (bufs ths) ((buf ths)((j, g) := t)) s'" and "parsed (bufs ths) ((buf ths)((j, g) := t)) (as_mem s')"
  shows "threads_ok fl (ths[j := th]) s'"
proof -
  have l: "length (th_tlabGenArray (ths ! j)) = NG2C_GEN_ARRAY_SIZE" "\<forall>t \<in> set (th_tlabGenArray (ths ! j)). tl_my_thread t = th_id (ths ! j)"
    using assms(1,2) by (auto simp: threads_ok_def thread_wf_def)
  then have "tl_my_thread t = th_id th" using assms(3,5,6) by (simp add: buf_def)
  then have "thread_wf th" using l assms(4,5) set_update_subset_insert unfolding thread_wf_def by fastforce
  moreover have "buf (ths[j := th]) = (buf ths)((j, g) := t)" "bufs (ths[j := th]) = bufs ths"
    using buf_update [OF assms(2) _ assms(4)] l(1) assms(3) by simp_all
  ultimately show ?thesis using assms(1,2,7,8) by (simp add: threads_ok_def nth_list_update)
qed

lemma write_awaited:
  assumes "awaiting I B b obj sz m" and "bufs_ok fl I B s" and "b \<in> I" and "oop_size ob = Inr sz" "0 < sz"
  shows "parsed I B (m(obj := ob))"
  unfolding parsed_def
proof (intro ballI impI)
  fix c assume c: "c \<in> I" "tl_end (B c) \<noteq> 0"
  have a: "tiled m (tl_start (B c)) (if c = b then obj else tl_top (B c))" "tl_start (B b) \<le> obj" "tl_top (B b) = obj + sz" "tl_end (B b) \<noteq> 0"
    using assms(1) c by (auto simp: awaiting_def)
  show "tiled (m(obj := ob)) (tl_start (B c)) (tl_top (B c))"
  proof (cases "c = b")
    case True
    have "tiled (m(obj := ob)) (tl_start (B b)) obj" using a(1) True by (auto intro: tiled_frame)
    then show ?thesis using tiled_snoc [of "m(obj := ob)" "tl_start (B b)" obj sz] assms(4,5) True a(3) by simp
  next
    case False
    then have "hard_end fl (B c) \<le> tl_start (B b) \<or> hard_end fl (B b) \<le> tl_start (B c)"
      using bufs_apart [OF assms(2) c(1) assms(3)] c(2) a(4) by blast
    then have "obj < tl_start (B c) \<or> tl_top (B c) \<le> obj"
      using a(2,3) assms(5) in_use_bounds [OF bufs_okD(1) [OF assms(2) c(1)] c(2)] in_use_bounds [OF bufs_okD(1) [OF assms(2,3)] a(4)] by linarith
    then show ?thesis using a(1) False by (auto intro: tiled_frame)
  qed
qed

lemma write_outside:
  assumes "parsed I B (as_mem s)" and "bufs_ok fl I B s" and "vm_ok s xs ys" and "got g sz (set xs \<union> set ys) s obj s'" and "0 < sz"
  shows "parsed I B ((as_mem s')(obj := ob))" "bufs_ok fl I B s'"
proof -
  obtain p where p: "fresh_in g sz obj s s' p" "vm_steady (set xs \<union> set ys) s s'" using assms(4) by (auto simp: got_def)
  show "bufs_ok fl I B s'" by (rule bufs_ok_steady [OF assms(2,3) p(2)])
  have "as_mem s' = as_mem s" using p(2) by (simp add: vm_steady_def)
  then show "parsed I B ((as_mem s')(obj := ob))"
  proof (intro parsed_frame [OF assms(1)])
    show "((as_mem s')(obj := ob)) q = as_mem s q" if "c \<in> I" "tl_end (B c) \<noteq> 0" "tl_start (B c) \<le> q" "q < tl_top (B c)" for c q
      using fresh_apart [OF assms(2,3) p that(1,2)] that assms(5) \<open>as_mem s' = as_mem s\<close>
        in_use_bounds [OF bufs_okD(1) [OF assms(2) that(1)] that(2)] by auto
  qed
qed

lemma outside_ready:
  assumes "vm_ok s xs ys" and "threads_ok fl ths s" and "got g sz (set xs \<union> set ys) s obj s'" and "0 < sz"
  shows "header_ready fl ths g sz (set xs \<union> set ys) obj s'"
proof -
  have t: "bufs_ok fl (bufs ths) (buf ths) s" "parsed (bufs ths) (buf ths) (as_mem s)" using assms(2) by (auto simp: threads_ok_def)
  note w = write_outside [OF t(2,1) assms(1,3,4)]
  have "threads_ok fl ths (s'\<lparr>as_mem := (as_mem s')(obj := ob)\<rparr>)" for ob
    using assms(2) w by (simp add: threads_ok_def bufs_ok_mem)
  moreover have "taken_from (set xs \<union> set ys) s'" using assms(3) by (auto simp: got_def taken_from_def)
  ultimately show ?thesis using got_obj_at [OF assms(3,4)] by (simp add: header_ready_def)
qed

lemma threads_ok_bytes:
  assumes "header_ready fl (ths[j := th]) g sz F obj s" and "j < length ths"
  shows "header_ready fl (ths[j := th\<lparr>th_allocated_bytes := n\<rparr>]) g sz F obj s"
proof -
  have "buf (ths[j := th\<lparr>th_allocated_bytes := n\<rparr>]) = buf (ths[j := th])"
  proof
    show "buf (ths[j := th\<lparr>th_allocated_bytes := n\<rparr>]) b = buf (ths[j := th]) b" for b
      using assms(2) by (cases "fst b = j") (simp_all add: buf_def)
  qed
  moreover have "bufs (ths[j := th\<lparr>th_allocated_bytes := n\<rparr>]) = bufs (ths[j := th])" by (simp add: bufs_def)
  moreover have "thread_wf (ths[j := th\<lparr>th_allocated_bytes := n\<rparr>] ! i) = thread_wf (ths[j := th] ! i)" for i
    using assms(2) by (cases "i = j") (simp_all add: thread_wf_def)
  ultimately show ?thesis using assms(1) by (simp add: header_ready_def threads_ok_def)
qed

lemma outside_path:
  assumes "vm_ok s xs ys" and "cfg_ok cfg s" and "threads_ok (cf_flags cfg) (ths[j := th]) s" and "j < length ths"
    and "kh_alloc_gen kh = int g" "th_alloc_gen th = int g" and "may_allocate g s" and "xs @ ys \<noteq> []"
    and "0 < sz" "\<not> g1_isHumongous (gh_grain (as_heap s)) sz" and "co_mem co = mr # mrs" "mr_rounds mr \<noteq> []"
  obtains obj s' where
    "mem_allocate cfg (co_mem co) (co_list_id co) sz (kh_alloc_gen kh \<noteq> 0) (th_alloc_gen th) s = Inr (Some obj, s')"
    "header_ready (cf_flags cfg) (ths[j := th\<lparr>th_allocated_bytes := th_allocated_bytes th + of_nat (sz * HeapWordSize)\<rparr>]) g sz (set xs \<union> set ys) obj s'"
    "vm_prof s' = vm_prof s"
proof -
  obtain obj s' where o: "mem_allocate cfg (co_mem co) (co_list_id co) sz (g \<noteq> 0) (int g) s = Inr (Some obj, s')" "got g sz (set xs \<union> set ys) s obj s'"
    using mem_path [OF assms(1,2,7-10,12), of mrs "co_list_id co"] assms(11) by auto
  moreover have "vm_prof s' = vm_prof s" using o(2) by (simp add: got_def vm_steady_def)
  ultimately show thesis using that threads_ok_bytes [OF outside_ready [OF assms(1,3) o(2) assms(9)] assms(4)] assms(5,6) by simp
qed

text \<open>The memory of an object, for thread \<open>j\<close> whose current generation is \<open>g\<close>.\<close>

lemma noinit_ready:
  assumes "vm_ok s xs ys" and "cfg_ok cfg s" and "threads_ok (cf_flags cfg) ths s" and "j < length ths"
    and "g < NG2C_GEN_ARRAY_SIZE" and "kh_alloc_gen kh = int g" "th_alloc_gen (ths ! j) = int g" "th_genTlab (ths ! j) = g"
    and "may_allocate g s" and "xs @ ys \<noteq> []" and "0 < sz" "\<not> g1_isHumongous (gh_grain (as_heap s)) sz"
    and "co_rounds co \<noteq> []" and "co_mem co = mr # mrs" "mr_rounds mr \<noteq> []"
  shows "\<exists>obj th s'. common_mem_allocate_noinit cfg co kh sz (ths ! j) s = Inr (Some obj, th, s') \<and>
    header_ready (cf_flags cfg) (ths[j := th]) g sz (set xs \<union> set ys) obj s' \<and> vm_prof s' = vm_prof s"
proof -
  let ?fl = "cf_flags cfg" and ?th = "ths ! j" and ?b = "(j, g)" and ?F = "set xs \<union> set ys"
  have t: "bufs_ok ?fl (bufs ths) (buf ths) s" "parsed (bufs ths) (buf ths) (as_mem s)" "?b \<in> bufs ths" "th_tlabGenArray ?th ! snd ?b = buf ths ?b"
    using assms(3-5) by (auto simp: threads_ok_def bufs_def buf_def)
  show ?thesis
  proof (cases "UseTLAB ?fl")
    case False
    have same: "threads_ok ?fl (ths[j := ?th]) s" using assms(3) by simp
    show ?thesis
      by (rule outside_path [OF assms(1,2) same assms(4,6,7,9-12,14,15)]) (use False in \<open>auto simp: common_mem_allocate_noinit_def\<close>)
  next
    case True
    have i: "tlab_index kh ?th = snd ?b" using assms(6,8) by (simp add: tlab_index_def)
    obtain res tl n s1 where r: "allocate_from_tlab cfg (co_rivals co) (co_rounds co) kh sz ?th s =
          Inr (res, (put_tlab g tl ?th)\<lparr>th_allocated_bytes := n\<rparr>, s1)" "buf_outcome cfg (bufs ths) (buf ths) ?b sz xs ys s res tl s1"
      using buf_path [OF assms(1,2) t(1-4) i _ _ _ assms(10,11,13) True, of "co_rivals co"] assms(6,7,9) by auto
    let ?th1 = "(put_tlab g tl ?th)\<lparr>th_allocated_bytes := n\<rparr>"
    have o: "bufs_ok ?fl (bufs ths) ((buf ths)(?b := tl)) s1" "tl_my_thread tl = tl_my_thread (buf ths ?b)" "vm_prof s1 = vm_prof s"
        "gh_grain (as_heap s1) = gh_grain (as_heap s)" using r(2) by (auto simp: buf_outcome_def)
    have upd: "threads_ok ?fl (ths[j := ?th1]) s2"
      if "bufs_ok ?fl (bufs ths) ((buf ths)(?b := tl)) s2" "parsed (bufs ths) ((buf ths)(?b := tl)) (as_mem s2)" for s2
      by (rule threads_ok_update [OF assms(3-5) _ _ o(2) that]) (simp_all add: put_tlab_def)
    show ?thesis
    proof (cases res)
      case None
      then have q: "vm_ok s1 xs ys" "threads_ok ?fl (ths[j := ?th1]) s1" "may_allocate g s1" using r(2) upd o(1) by (auto simp: buf_outcome_def)
      have c: "cfg_ok cfg s1" "\<not> g1_isHumongous (gh_grain (as_heap s1)) sz" using assms(2,12) o(4) by (auto simp: cfg_ok_def)
      have ag: "th_alloc_gen ?th1 = int g" using assms(7) by (simp add: put_tlab_def)
      show ?thesis
        by (rule outside_path [OF q(1) c(1) q(2) assms(4,6) ag q(3) assms(10,11) c(2) assms(14,15)])
          (use True r(1) None o(3) in \<open>auto simp: common_mem_allocate_noinit_def\<close>)
    next
      case (Some obj)
      then have q: "taken_from ?F s1" "awaiting (bufs ths) ((buf ths)(?b := tl)) ?b obj sz (as_mem s1)" "obj_at g sz obj s1"
        using r(2) by (auto simp: buf_outcome_def)
      have "threads_ok ?fl (ths[j := ?th1]) (s1\<lparr>as_mem := (as_mem s1)(obj := ob)\<rparr>)" if "oop_size ob = Inr sz" for ob
        using write_awaited [OF q(2) o(1) t(3) that assms(11)] o(1) by (intro upd) (simp_all add: bufs_ok_mem)
      then show ?thesis using True r(1) Some q(1,3) o(3) by (simp add: common_mem_allocate_noinit_def header_ready_def)
    qed
  qed
qed

section \<open>The profiling step\<close>

definition low16 :: "uint \<Rightarrow> uint" where
  "low16 x = x AND 0xFFFF"

definition context_of :: "alloc_thread \<Rightarrow> vm \<Rightarrow> uint" where
  "context_of th s = low16 (thread_context th s)"

lemma low_bits:
  fixes x :: uint
  shows "low16 x = take_bit 16 x" "unat (low16 x) < 65536"
proof -
  show m: "low16 x = take_bit 16 x" by (simp add: low16_def take_bit_eq_mask mask_eq_exp_minus_1)
  show "unat (low16 x) < 65536" unfolding m using take_bit_nat_less_exp [of 16 "unat x"] by (simp add: unsigned_take_bit_eq)
qed

lemma tag_not_zero:
  assumes "low16 gen \<noteq> 0" shows "push_bit 16 (low16 gen) OR c \<noteq> 0"
proof
  assume "push_bit 16 (low16 gen) OR c = 0"
  then have z: "push_bit 16 (low16 gen) = 0" by (simp add: or_eq_0_iff)
  have "bit (low16 gen) n = False" for n
  proof (cases "n < 16")
    case True
    have "bit (push_bit 16 (low16 gen)) (n + 16) = False" by (simp add: z)
    then show ?thesis using True by (simp add: bit_simps)
  qed (simp add: low_bits(1) bit_simps)
  then show False using assms bit_word_eqI [of "low16 gen" 0] by simp
qed

lemma profile_run:
  assumes "thread_wf th" and "vm_inv (vm_prof s)" and "gen \<noteq> 0" and "mbt_get_entry (v_method_bci (vm_prof s)) (low16 gen) = Some i"
    and "target_gen (context_of th s) (v_ngens (vm_prof s) ! i) = Inr g"
  shows "\<exists>a. profile_allocation gen kh th s =
      Inr (kh\<lparr>kh_alloc_gen := int (unat g), kh_as_hash := push_bit 16 (low16 gen) OR context_of th s\<rparr>,
           th\<lparr>th_alloc_gen := int (unat g), th_genTlab := unat g\<rparr>,
           s\<lparr>vm_prof := (vm_prof s)\<lparr>v_ngens := (v_ngens (vm_prof s))[i := a]\<rparr>\<rparr>) \<and>
    unat g < NG2C_GEN_ARRAY_SIZE \<and> i < length (v_ngens (vm_prof s)) \<and> vm_inv ((vm_prof s)\<lparr>v_ngens := (v_ngens (vm_prof s))[i := a]\<rparr>) \<and>
    number_allocs (context_of th s) a = map_sum id (\<lambda>n. n + 1) (number_allocs (context_of th s) (v_ngens (vm_prof s) ! i))"
proof -
  let ?pr = "vm_prof s" and ?c = "context_of th s"
  let ?n = "v_ngens ?pr ! i"
  have inv: "mbt_inv (v_ngens ?pr) (v_method_bci ?pr)" using assms(2) by (simp add: vm_inv_def)
  have "ht_lookup (v_method_bci ?pr) (low16 gen) = Some i" using assms(4) by (simp add: mbt_get_entry_eq split: if_splits)
  then have i: "i < length (v_ngens ?pr)" using inv table_points_lookup unfolding mbt_inv_def by blast
  have wf: "nga_wf ?n" using inv i by (simp add: mbt_inv_def list_all_length)
  have c: "unat ?c < 65536" by (simp add: context_of_def low_bits(2))
  obtain a where a: "inc_number_allocs ?c ?n = Inr a" "nga_wf a" "nga_target_gen a = nga_target_gen ?n" "nga_factor a = nga_factor ?n"
      "number_allocs ?c a = map_sum id (\<lambda>n. n + 1) (number_allocs ?c ?n)" using inc_number_allocs_ok [OF wf c] by blast
  have "nga_hash a = nga_hash ?n" using a(1) by (auto simp: inc_number_allocs_def Let_def res_simps)
  then have "mbt_inv ((v_ngens ?pr)[i := a]) (v_method_bci ?pr)" by (rule mbt_inv_update [OF inv _ a(2)])
  then have vi: "vm_inv (?pr\<lparr>v_ngens := (v_ngens ?pr)[i := a]\<rparr>)"
    using assms(2) by (simp add: vm_inv_def list_all_iff vm_thread_ok_def worker_ok_def split: vm_thread.splits)
  have t: "target_gen ?c a = Inr g" using assms(5) a(3,4) by (simp add: target_gen_def nga_index_def)
  have g: "unat g < NG2C_GEN_ARRAY_SIZE" using target_gen_ok [OF wf c] assms(5) by (auto simp: word_less_nat_alt)
  have "set_alloc_gen (int (unat g)) th = Inr (th\<lparr>th_alloc_gen := int (unat g), th_genTlab := unat g\<rparr>)"
    using assms(1) g by (simp add: set_alloc_gen_def thread_wf_def)
  then have "profile_allocation gen kh th s =
      Inr (kh\<lparr>kh_alloc_gen := int (unat g), kh_as_hash := push_bit 16 (low16 gen) OR ?c\<rparr>, th\<lparr>th_alloc_gen := int (unat g), th_genTlab := unat g\<rparr>,
           s\<lparr>vm_prof := ?pr\<lparr>v_ngens := (v_ngens ?pr)[i := a]\<rparr>\<rparr>)"
    using assms(3,4) a(1) t unfolding profile_allocation_def low16_def [symmetric] context_of_def [symmetric] by (simp add: Let_def)
  then show ?thesis using g i vi a(5) by blast
qed

end
