(* ===== verification/Object_Entry.thy ===== *)
theory Object_Entry
  imports Object_Alloc
begin

text \<open>
  The three entry points of object allocation, \<^verbatim>\<open>obj_allocate\<close>, \<^verbatim>\<open>array_allocate\<close> and
  \<^verbatim>\<open>array_allocate_nozero\<close>, at a profiled allocation site: the profiling step, the memory and
  the header put together.
\<close>

section \<open>The profile and the heap\<close>

text \<open>The invariants of the heap and of the buffers do not depend on the profile.\<close>

lemma prof_independent [simp]:
  "vm_ok (s\<lparr>vm_prof := pr\<rparr>) xs ys = vm_ok s xs ys" "cfg_ok cfg (s\<lparr>vm_prof := pr\<rparr>) = cfg_ok cfg s"
  "may_allocate g (s\<lparr>vm_prof := pr\<rparr>) = may_allocate g s" "threads_ok fl ths (s\<lparr>vm_prof := pr\<rparr>) = threads_ok fl ths s"
  by (simp_all add: vm_ok_def heap_not_locked_and_not_at_safepoint_def cfg_ok_def may_allocate_def threads_ok_def bufs_ok_def buf_ok_def
      lies_in_def tlab_ok_def is_in_reserved_def)

lemma mem_independent [simp]:
  "obj_at g sz obj (s\<lparr>as_mem := m\<rparr>) = obj_at g sz obj s" "taken_from F (s\<lparr>as_mem := m\<rparr>) = taken_from F s"
  by (simp_all add: obj_at_def taken_from_def vm_ok_mem)

lemma threads_ok_gen:
  assumes "threads_ok fl ths s" and "j < length ths"
  shows "threads_ok fl (ths[j := (ths ! j)\<lparr>th_alloc_gen := a, th_genTlab := b\<rparr>]) s"
proof -
  let ?ths = "ths[j := (ths ! j)\<lparr>th_alloc_gen := a, th_genTlab := b\<rparr>]"
  have "buf ?ths = buf ths"
  proof
    show "buf ?ths c = buf ths c" for c using assms(2) by (cases "fst c = j") (simp_all add: buf_def)
  qed
  moreover have "bufs ?ths = bufs ths" by (simp add: bufs_def)
  moreover have "thread_wf (?ths ! i) = thread_wf (ths ! i)" for i
    using assms(2) by (cases "i = j") (simp_all add: thread_wf_def)
  ultimately show ?thesis using assms(1) by (simp add: threads_ok_def)
qed

section \<open>Profiled memory\<close>

text \<open>
  What the caller has to provide for an object of \<open>sz\<close> words by thread \<open>j\<close> at the site \<open>gen\<close>: the
  profile knows the site, whose target generation for the current context is \<open>g\<close>; the heap is
  in order and has a free region; the object is not humongous.
\<close>

definition can_allocate :: "vm_cfg \<Rightarrow> alloc_course \<Rightarrow> alloc_thread list \<Rightarrow> nat \<Rightarrow> uint \<Rightarrow> nat \<Rightarrow> nat \<Rightarrow> nat \<Rightarrow> nat set \<Rightarrow> vm \<Rightarrow> bool" where
  "can_allocate cfg co ths j gen sz i g F s \<longleftrightarrow>
     (\<exists>xs ys. vm_ok s xs ys \<and> F = set xs \<union> set ys) \<and> F \<noteq> {} \<and> cfg_ok cfg s \<and> threads_ok (cf_flags cfg) ths s \<and> j < length ths \<and>
     vm_inv (vm_prof s) \<and> gen \<noteq> 0 \<and> mbt_get_entry (v_method_bci (vm_prof s)) (low16 gen) = Some i \<and>
     map_sum id unat (target_gen (context_of (ths ! j) s) (v_ngens (vm_prof s) ! i)) = Inr g \<and> may_allocate g s \<and>
     header_size \<le> sz \<and> \<not> g1_isHumongous (gh_grain (as_heap s)) sz \<and>
     co_rounds co \<noteq> [] \<and> co_mem co \<noteq> [] \<and> mr_rounds (hd (co_mem co)) \<noteq> []"

text \<open>The allocation counter of site \<open>i\<close> and context \<open>c\<close> went up by one, and the profile is still well formed.\<close>

definition counted :: "nat \<Rightarrow> uint \<Rightarrow> ng2c_vm \<Rightarrow> ng2c_vm \<Rightarrow> bool" where
  "counted i c pr pr' \<longleftrightarrow>
     vm_inv pr' \<and> number_allocs c (v_ngens pr' ! i) = map_sum id (\<lambda>n. n + 1) (number_allocs c (v_ngens pr ! i))"

lemma profiled_memory:
  assumes "can_allocate cfg co ths j gen sz i g F s"
  shows "\<exists>kh1 th1 s1 obj th2 s2. profile_allocation gen kh (ths ! j) s = Inr (kh1, th1, s1) \<and>
    common_mem_allocate_noinit cfg co kh1 sz th1 s1 = Inr (Some obj, th2, s2) \<and>
    header_ready (cf_flags cfg) (ths[j := th2]) g sz F obj s2 \<and> kh_value kh1 = kh_value kh \<and>
    kh_as_hash kh1 = make_tag (low16 gen) (context_of (ths ! j) s) \<and> kh_as_hash kh1 \<noteq> 0 \<and>
    counted i (context_of (ths ! j) s) (vm_prof s) (vm_prof s2)"
proof -
  let ?th = "ths ! j" and ?pr = "vm_prof s"
  obtain xs ys gw where c: "vm_ok s xs ys" "F = set xs \<union> set ys" "xs @ ys \<noteq> []" "cfg_ok cfg s" "threads_ok (cf_flags cfg) ths s" "j < length ths"
      "vm_inv ?pr" "gen \<noteq> 0" "mbt_get_entry (v_method_bci ?pr) (low16 gen) = Some i" "target_gen (context_of ?th s) (v_ngens ?pr ! i) = Inr gw"
      "g = unat gw" "may_allocate g s" "0 < sz" "\<not> g1_isHumongous (gh_grain (as_heap s)) sz" "co_rounds co \<noteq> []" "co_mem co \<noteq> []"
      "mr_rounds (hd (co_mem co)) \<noteq> []"
    using assms by (cases "target_gen (context_of ?th s) (v_ngens ?pr ! i)") (auto simp: can_allocate_def header_size_def)
  have wf: "thread_wf ?th" using c(5,6) by (simp add: threads_ok_def)
  obtain mr mrs where mr: "co_mem co = mr # mrs" "mr_rounds mr \<noteq> []" using c(16,17) by (cases "co_mem co") auto
  let ?kh = "kh\<lparr>kh_alloc_gen := int g, kh_as_hash := make_tag (low16 gen) (context_of ?th s)\<rparr>"
  let ?th1 = "?th\<lparr>th_alloc_gen := int g, th_genTlab := g\<rparr>" and ?s1 = "\<lambda>a. s\<lparr>vm_prof := ?pr\<lparr>v_ngens := (v_ngens ?pr)[i := a]\<rparr>\<rparr>"
  obtain a where a: "profile_allocation gen kh ?th s = Inr (?kh, ?th1, ?s1 a)" "g < NG2C_GEN_ARRAY_SIZE" "i < length (v_ngens ?pr)"
      "vm_inv (?pr\<lparr>v_ngens := (v_ngens ?pr)[i := a]\<rparr>)"
      "number_allocs (context_of ?th s) a = map_sum id (\<lambda>n. n + 1) (number_allocs (context_of ?th s) (v_ngens ?pr ! i))"
    using profile_run [OF wf c(7-10), of kh] unfolding make_tag_def c(11) by blast
  have t: "threads_ok (cf_flags cfg) (ths[j := ?th1]) (?s1 a)" using threads_ok_gen [OF c(5,6)] by simp
  have n: "\<exists>obj th s'. common_mem_allocate_noinit cfg co ?kh sz (ths[j := ?th1] ! j) (?s1 a) = Inr (Some obj, th, s') \<and>
      header_ready (cf_flags cfg) (ths[j := ?th1, j := th]) g sz (set xs \<union> set ys) obj s' \<and> vm_prof s' = vm_prof (?s1 a)"
    by (rule noinit_ready [OF _ _ t _ a(2) _ _ _ _ c(3) c(13) _ c(15) mr]) (use c in simp_all)
  have "low16 gen \<noteq> 0" using c(9) by (auto simp: mbt_get_entry_eq split: if_splits)
  then have "make_tag (low16 gen) (context_of ?th s) \<noteq> 0" unfolding make_tag_def by (rule tag_not_zero)
  then show ?thesis using n a c(2,6) by (fastforce simp: counted_def)
qed

section \<open>Headers\<close>

text \<open>
  The new object: in a region of generation \<open>g\<close>, of class \<open>k\<close> and of \<open>sz\<close> words, tagged; the
  heap took at most regions of \<open>F\<close> and the buffers of all threads are in order.
\<close>

definition allocated :: "vm_flags \<Rightarrow> alloc_thread list \<Rightarrow> nat \<Rightarrow> nat \<Rightarrow> nat set \<Rightarrow> klass \<Rightarrow> uint \<Rightarrow> nat \<Rightarrow> vm \<Rightarrow> bool" where
  "allocated fl ths g sz F k tag obj s \<longleftrightarrow>
     taken_from F s \<and> obj_at g sz obj s \<and> threads_ok fl ths s \<and> ob_klass (as_mem s obj) = Some k \<and> oop_size (as_mem s obj) = Inr sz \<and>
     ng2c_prof (ob_mark (as_mem s obj)) = ucast tag"

lemma header_written:
  assumes "header_ready fl ths g sz F obj s" and "new_mark fl kh m" "kh_as_hash kh \<noteq> 0"
    and "oop_size \<lparr>ob_mark = m, ob_klass = Some k, ob_length = n\<rparr> = Inr sz"
  shows "allocated fl ths g sz F k (kh_as_hash kh) obj (put_obj obj \<lparr>ob_mark = m, ob_klass = Some k, ob_length = n\<rparr> s)"
  using assms new_mark_tag [OF assms(2,3)] by (simp add: header_ready_def allocated_def put_obj_def)

lemma put_obj_prof [simp]: "vm_prof (put_obj p ob s) = vm_prof s"
  by (simp add: put_obj_def)

lemma setup_obj_ready:
  assumes "header_ready fl ths g sz F obj s" and "kh_value kh = Some k" "kl_layout_helper k = Instance_Layout (sz * HeapWordSize)" "kh_as_hash kh \<noteq> 0" "header_size \<le> sz"
  shows "\<exists>s'. post_allocation_setup_obj fl kh obj s = Inr s' \<and> allocated fl ths g sz F k (kh_as_hash kh) obj s' \<and> vm_prof s' = vm_prof s"
proof -
  have "obj \<noteq> 0" using assms(1) by (simp add: header_ready_def obj_at_def)
  from setup_common [OF this assms(2), of fl s] obtain m where m: "new_mark fl kh m"
      "post_allocation_setup_common fl kh obj s = Inr (put_obj obj \<lparr>ob_mark = m, ob_klass = Some k, ob_length = ob_length (as_mem s obj)\<rparr> s)" by blast
  have "oop_size \<lparr>ob_mark = m, ob_klass = Some k, ob_length = n\<rparr> = Inr sz" for n
    using assms(3,5) by (simp add: oop_size_def Let_def header_size_def HeapWordSize_def LogHeapWordSize_def MinObjAlignment_def)
  then show ?thesis using header_written [OF assms(1) m(1) assms(4)] m(2) assms(3)
    by (simp add: post_allocation_setup_obj_def is_array_def)
qed

lemma setup_array_ready:
  assumes "header_ready fl ths g sz F obj s" and "kh_value kh = Some k" "kl_layout_helper k = Array_Layout hdr l" "kh_as_hash kh \<noteq> 0"
    and "0 \<le> len" "sz = align_size_up (nat len * 2 ^ l + hdr) HeapWordSize div HeapWordSize" "header_size \<le> sz"
  shows "\<exists>s'. post_allocation_setup_array fl kh obj len s = Inr s' \<and> allocated fl ths g sz F k (kh_as_hash kh) obj s' \<and>
    ob_length (as_mem s' obj) = nat len \<and> vm_prof s' = vm_prof s"
proof -
  have "obj \<noteq> 0" using assms(1) by (simp add: header_ready_def obj_at_def)
  from setup_common [OF this assms(2), of fl "set_length (nat len) obj s"] obtain m where m: "new_mark fl kh m"
      "post_allocation_setup_common fl kh obj (set_length (nat len) obj s) = Inr (put_obj obj \<lparr>ob_mark = m, ob_klass = Some k, ob_length = nat len\<rparr> s)"
    by auto
  have "oop_size \<lparr>ob_mark = m, ob_klass = Some k, ob_length = nat len\<rparr> = Inr sz"
    using assms(3,6,7) by (simp add: oop_size_def Let_def header_size_def MinObjAlignment_def)
  then show ?thesis using header_written [OF assms(1) m(1) assms(4)] m(2) assms(3,5)
    by (simp add: post_allocation_setup_array_def is_array_def del: write_put)
qed

section \<open>An example state\<close>

text \<open>The profile sends the known site to generation 1.\<close>

definition sample_prof :: ng2c_vm where
  "sample_prof = ex_vm\<lparr>v_ngens := [(new_NGenerationArray 1)\<lparr>nga_target_gen := replicate NG2C_MAX_ALLOC_SITE 1\<rparr>]\<rparr>"

lemma sample_prof_inv: "vm_inv sample_prof"
proof -
  let ?n = "(new_NGenerationArray 1)\<lparr>nga_target_gen := replicate NG2C_MAX_ALLOC_SITE 1\<rparr>"
  have n: "v_ngens ex_vm = [new_NGenerationArray 1]" by (simp add: ex_vm_def)
  have "mbt_inv (v_ngens ex_vm) (v_method_bci ex_vm)" using ex_vm_inv by (simp add: vm_inv_def)
  from mbt_inv_update [OF this, of ?n 0] have "mbt_inv [?n] (v_method_bci ex_vm)"
    using nga_wf_new [of 1] by (simp add: n nga_wf_def list_all_length gen_in_range_def)
  then show ?thesis
    using ex_vm_inv by (simp add: sample_prof_def vm_inv_def list_all_iff vm_thread_ok_def worker_ok_def split: vm_thread.splits)
qed

text \<open>Three regions, the last one free; one thread, with no buffer yet.\<close>

definition sample_g1_heap :: g1_heap where
  "sample_g1_heap = sample_heap\<lparr>
     gh_st := (tag_hr 2 (Some 0) sample_layout)\<lparr>st_mt := (st_mt sample_layout)\<lparr>Heap_lock := False\<rparr>\<rparr>,
     gh_free_list := (gh_free_list sample_heap)\<lparr>rl_head := Some 2, rl_tail := Some 2\<rparr>\<rparr>"

definition sample_vm :: vm where
  "sample_vm =
     \<lparr>as_heap = sample_g1_heap, as_mem = (\<lambda>p. \<lparr>ob_mark = 0, ob_klass = None, ob_length = 0\<rparr>), as_reserved = (128, 512),
      g1_hrs = sample_region_seq, g1_expansion_regions = 0, g1_high = 512, g1_high_boundary = 512,
      vm_mutator = \<lparr>ar_region = AR_Dummy, ar_count = 0, ar_used_bytes_before = 0, ar_bot_updates = False\<rparr>,
      vm_survivor = \<lparr>ar_region = AR_Null, ar_count = 0, ar_used_bytes_before = 0, ar_bot_updates = False\<rparr>,
      vm_old = \<lparr>ar_region = AR_Null, ar_count = 0, ar_used_bytes_before = 0, ar_bot_updates = True\<rparr>, vm_retained_old = None,
      vm_gens = [None, Some (sample_gen_region\<lparr>gr_gen := 1\<rparr>)], vm_cards = (\<lambda>c. Clean_Card), vm_total_collections = 0,
      vm_prof = sample_prof\<rparr>"

definition sample_vm_cfg :: vm_cfg where
  "sample_vm_cfg =
     \<lparr>cf_flags = sample_flags, cf_prof = ex_cfg, cf_env = sample_env,
      cf_grow = \<lparr>ge_page_size = 512, ge_commit = (\<lambda>n. True), ge_room = (\<lambda>n. True), ge_G1ExitOnExpansionFailure = False\<rparr>,
      cf_GCLockerRetryAllocationCount = 2, cf_need_to_start_conc_mark = (\<lambda>n s. False), cf_collect = id\<rparr>"

definition sample_rivals :: rivals where
  "sample_rivals = \<lparr>rv_first = [3], rv_locked = [], rv_fill = [[2]]\<rparr>"

definition sample_round :: vm_round where
  "sample_round = \<lparr>rd_rivals = sample_rivals, rd_active_and_needs_gc = False, rd_needs_gc = False, rd_pause = (\<lambda>n k s. (None, False, s)), rd_stall = id\<rparr>"

definition sample_thread :: alloc_thread where
  "sample_thread =
     \<lparr>th_id = 1, th_tlabGenArray = replicate NG2C_GEN_ARRAY_SIZE (ThreadLocalAllocBuffer sample_flags 1),
      th_genTlab = 1, th_curTlab = 0, th_alloc_gen = 1, th_allocated_bytes = 0\<rparr>"

lemma sample_g1_heap_facts:
  "gh_st sample_g1_heap = (tag_hr 2 (Some 0) sample_layout)\<lparr>st_mt := (st_mt sample_layout)\<lparr>Heap_lock := False\<rparr>\<rparr>"
  "heap_rep sample_g1_heap [2] []" "GrainWords (gh_grain sample_g1_heap) = 128" "gh_inc_cset_active sample_g1_heap"
  "\<not> is_at_safepoint (gh_mt sample_g1_heap)" "\<not> Heap_lock (gh_mt sample_g1_heap)"
  "hr_active_tlabs (gh_hr sample_g1_heap p) = 0"
  by (simp_all add: heap_rep_def sample_g1_heap_def sample_heap_def lists_as_def fits_iff linked_kind_def HeapRegionLinkedList_def HeapRegionSet_def
      sample_layout_def sample_store_def sample_region_def tag_hr_def put_hr_def isHumongous_def is_young_def used_def capacity_def HeapWordSize_def
      ready_def region_inv_def region_preds)

lemma sample_g1_seq: "seq_inv sample_region_seq (gh_st sample_g1_heap)"
proof -
  have l: "seq_length sample_region_seq = 3" "hs_allocated_length sample_region_seq = 3" by (simp_all add: sample_region_seq_def seq_length_def)
  let ?st = "(tag_hr 2 (Some 0) sample_layout)\<lparr>st_mt := (st_mt sample_layout)\<lparr>Heap_lock := False\<rparr>\<rparr>"
  have e: "st_grain ?st = st_grain sample_layout" "st_next ?st = st_next sample_layout"
      "hr_index (st_hr ?st i) = hr_index (st_hr sample_layout i)" "hr_bottom (st_hr ?st i) = hr_bottom (st_hr sample_layout i)"
      "hr_orig_end (st_hr ?st i) = hr_orig_end (st_hr sample_layout i)" "hr_end (st_hr ?st i) = hr_end (st_hr sample_layout i)"
      "startsHumongous (st_hr ?st i) = startsHumongous (st_hr sample_layout i)" for i
    by (simp_all add: tag_hr_def put_hr_def startsHumongous_def)
  show ?thesis using sample_layout_inv unfolding seq_inv_def l sample_g1_heap_facts(1) e by (simp split del: if_split)
qed

lemma sample_vm_ok: "vm_ok sample_vm [2] []"
proof -
  have b: "seq_heap_bottom sample_region_seq = 128" "seq_heap_end sample_region_seq = 512" "seq_length sample_region_seq = 3"
    by (simp_all add: sample_region_seq_def seq_heap_bottom_def seq_heap_end_def bottom_address_mapped_def end_address_mapped_def seq_length_def HeapWordSize_def)
  have "regions_ok 3 (vm_mutator sample_vm) (vm_gens sample_vm) sample_g1_heap"
    by (auto simp: regions_ok_def sample_vm_def alloc_region_ok_def ar_regs_def sample_gen_region_def less_Suc_eq)
  then show ?thesis
    using sample_g1_heap_facts sample_g1_seq unfolding vm_ok_def by (simp add: sample_vm_def b heap_not_locked_and_not_at_safepoint_def)
qed

lemma sample_threads_ok: "threads_ok sample_flags [sample_thread] sample_vm"
proof -
  have b: "tl_end (buf [sample_thread] b) = 0 \<and> tl_my_heap_region (buf [sample_thread] b) = None \<and> tlab_ok sample_flags (buf [sample_thread] b) sample_vm"
    if "b \<in> bufs [sample_thread]" for b
    using that by (auto simp: bufs_def buf_def sample_thread_def ThreadLocalAllocBuffer_def tlab_ok_def tlab_invariants_def)
  have "thread_wf sample_thread" by (simp add: thread_wf_def sample_thread_def ThreadLocalAllocBuffer_def)
  moreover have "hr_active_tlabs (gh_hr (as_heap sample_vm) p) = 0" for p using sample_g1_heap_facts(7) by (simp add: sample_vm_def)
  moreover have "{b \<in> bufs [sample_thread]. tl_my_heap_region (buf [sample_thread] b) = Some p} = {}" for p using b by auto
  moreover have "finite (bufs [sample_thread])" by (simp add: bufs_def)
  ultimately show ?thesis using b by (simp add: threads_ok_def bufs_ok_def buf_ok_def apart_def parsed_def)
qed

definition sample_course :: alloc_course where
  "sample_course =
     \<lparr>co_rivals = sample_rivals, co_rounds = [sample_round],
      co_mem = [\<lparr>mr_rivals = sample_rivals, mr_rounds = [sample_round], mr_collect = (\<lambda>n k s. (True, True, None, s))\<rparr>], co_list_id = 1\<rparr>"

lemma sample_context: "context_of sample_thread sample_vm = 7"
  by (simp add: context_of_def low16_def thread_context_def sample_thread_def sample_vm_def sample_prof_def ex_vm_def ex_thread_def)

lemma sample_can_allocate:
  assumes "2 \<le> sz" "sz \<le> 64"
  shows "can_allocate sample_vm_cfg sample_course [sample_thread] 0 1 sz 0 1 {2} sample_vm"
proof -
  have "GrainWords (gh_grain sample_g1_heap) \<le> filler_array_max_size sample_flags"
    unfolding sample_g1_heap_facts(3)
    by (simp add: filler_array_max_size_def filler_array_hdr_size_def max_int_array_length_def sample_flags_def
        int_array_header_size_def array_header_size_in_bytes_def length_offset_in_bytes_def align_size_up_def align_size_down_def
        HeapWordSize_def max_jint_def MinObjAlignment_def align_object_offset_def HeapWordsPerLong_def)
  then have "cfg_ok sample_vm_cfg sample_vm"
    by (simp add: cfg_ok_def sample_vm_cfg_def sample_flags_ok sample_vm_def) (simp add: sample_flags_def sample_env_def)
  moreover have "map_sum id unat (target_gen 7 (v_ngens sample_prof ! 0)) = Inr 1"
    by (simp add: target_gen_def nga_index_def sample_prof_def new_NGenerationArray_def gen_in_range_def NG2C_MAX_ALLOC_SITE_def Let_def)
  moreover have "mbt_get_entry (v_method_bci sample_prof) (low16 1) = Some 0"
    using ex_lookup by (simp add: sample_prof_def ex_vm_def low16_def)
  moreover have "may_allocate 1 sample_vm" by (simp add: may_allocate_def sample_vm_def)
  moreover have "\<exists>xs ys. vm_ok sample_vm xs ys \<and> {2} = set xs \<union> set ys" using sample_vm_ok by force
  moreover have "vm_prof sample_vm = sample_prof" "as_heap sample_vm = sample_g1_heap" by (simp_all add: sample_vm_def)
  moreover have "threads_ok (cf_flags sample_vm_cfg) [sample_thread] sample_vm" using sample_threads_ok by (simp add: sample_vm_cfg_def)
  moreover have "co_rounds sample_course \<noteq> []" "co_mem sample_course \<noteq> []" "mr_rounds (hd (co_mem sample_course)) \<noteq> []"
    by (simp_all add: sample_course_def)
  ultimately show ?thesis using assms sample_prof_inv
    unfolding can_allocate_def by (simp add: sample_context header_size_def g1_isHumongous_def sample_g1_heap_facts(3))
qed

section \<open>Properties\<close>

text \<open>C2. Allocating an instance at a profiled site succeeds as long as a free region is left (and, for eden, the
  young list has room), on every path: from the buffer of the thread for that generation, from a
  new buffer, or from memory outside the buffers.  No assertion fails.  The object lies below
  the top of a region of the generation the profile names for the site and the context of
  the thread, has the requested class and size, and its mark word carries site and context.  The
  allocation is counted once.  Afterwards the heap and the profile satisfy their invariants, the buffers of
  all threads are disjoint, parsable and counted in their regions, and only free regions have
  been taken.\<close>

theorem obj_allocate_complete:
  assumes "can_allocate cfg co ths j gen sz i g F s"
    and "kh_value kh = Some k" "kl_layout_helper k = Instance_Layout (sz * HeapWordSize)"
  shows "\<exists>obj th s'. obj_allocate cfg co kh gen (int sz) (ths ! j) s = Inr (Some obj, th, s') \<and>
    allocated (cf_flags cfg) (ths[j := th]) g sz F k (make_tag (low16 gen) (context_of (ths ! j) s)) obj s' \<and>
    counted i (context_of (ths ! j) s) (vm_prof s) (vm_prof s')"
proof -
  let ?c = "context_of (ths ! j) s"
  have hs: "header_size \<le> sz" using assms(1) by (simp add: can_allocate_def)
  from profiled_memory [OF assms(1), of kh] obtain kh1 th1 s1 obj th2 s2 where
    r: "profile_allocation gen kh (ths ! j) s = Inr (kh1, th1, s1)" "common_mem_allocate_noinit cfg co kh1 sz th1 s1 = Inr (Some obj, th2, s2)"
      "header_ready (cf_flags cfg) (ths[j := th2]) g sz F obj s2" "kh_value kh1 = kh_value kh" "kh_as_hash kh1 = make_tag (low16 gen) ?c"
      "kh_as_hash kh1 \<noteq> 0" "counted i ?c (vm_prof s) (vm_prof s2)" by blast
  obtain s3 where p: "post_allocation_setup_obj (cf_flags cfg) kh1 obj s2 = Inr s3"
      "allocated (cf_flags cfg) (ths[j := th2]) g sz F k (kh_as_hash kh1) obj s3" "vm_prof s3 = vm_prof s2"
    using setup_obj_ready [OF r(3) _ assms(3) r(6) hs] r(4) assms(2) by auto
  have "obj \<noteq> 0" using r(3) by (auto simp: header_ready_def obj_at_def)
  with hs have "common_mem_allocate_init cfg co kh1 sz th1 s1 = Inr (Some obj, th2, s2)"
    using r(2) by (simp add: common_mem_allocate_init_def init_obj_def)
  then have "obj_allocate cfg co kh gen (int sz) (ths ! j) s = Inr (Some obj, th2, s3)"
    using r(1) p(1) by (simp add: obj_allocate_def)
  then show ?thesis using p r(5,7) by auto
qed

theorem obj_allocate_complete_witness:
  "\<exists>obj th s'. obj_allocate sample_vm_cfg sample_course (KlassHandle (Some (Object_klass sample_flags))) 1 2 sample_thread sample_vm = Inr (Some obj, th, s') \<and>
     ng2c_prof (ob_mark (as_mem s' obj)) = 0x10007 \<and> obj_at 1 2 obj s'"
proof -
  have k: "kl_layout_helper (Object_klass sample_flags) = Instance_Layout (2 * HeapWordSize)" by (simp add: sample_flags_def HeapWordSize_def)
  have "make_tag (low16 1) 7 = 0x10007" by (simp add: make_tag_def low16_def)
  then show ?thesis
    using obj_allocate_complete [OF sample_can_allocate [of 2] _ k, of "KlassHandle (Some (Object_klass sample_flags))"]
    by (auto simp: KlassHandle_def sample_context allocated_def)
qed

text \<open>C11. The same for arrays, whether or not their elements are zeroed: both entry points return the same array
  of the requested length, in the generation, with the tag and with the effect on profile, heap and buffers
  that an instance has.\<close>

theorem array_allocate_complete:
  assumes "can_allocate cfg co ths j gen sz i g F s"
    and "kh_value kh = Some k" "kl_layout_helper k = Array_Layout hdr l"
    and "0 \<le> len" "sz = align_size_up (nat len * 2 ^ l + hdr) HeapWordSize div HeapWordSize"
  shows "\<exists>obj th s'. array_allocate cfg co kh gen (int sz) len (ths ! j) s = Inr (Some obj, th, s') \<and>
    array_allocate_nozero cfg co kh gen (int sz) len (ths ! j) s = Inr (Some obj, th, s') \<and> ob_length (as_mem s' obj) = nat len \<and>
    allocated (cf_flags cfg) (ths[j := th]) g sz F k (make_tag (low16 gen) (context_of (ths ! j) s)) obj s' \<and>
    counted i (context_of (ths ! j) s) (vm_prof s) (vm_prof s')"
proof -
  let ?c = "context_of (ths ! j) s"
  have hs: "header_size \<le> sz" using assms(1) by (simp add: can_allocate_def)
  from profiled_memory [OF assms(1), of kh] obtain kh1 th1 s1 obj th2 s2 where
    r: "profile_allocation gen kh (ths ! j) s = Inr (kh1, th1, s1)" "common_mem_allocate_noinit cfg co kh1 sz th1 s1 = Inr (Some obj, th2, s2)"
      "header_ready (cf_flags cfg) (ths[j := th2]) g sz F obj s2" "kh_value kh1 = kh_value kh" "kh_as_hash kh1 = make_tag (low16 gen) ?c"
      "kh_as_hash kh1 \<noteq> 0" "counted i ?c (vm_prof s) (vm_prof s2)" by blast
  obtain s3 where p: "post_allocation_setup_array (cf_flags cfg) kh1 obj len s2 = Inr s3" "ob_length (as_mem s3 obj) = nat len"
      "allocated (cf_flags cfg) (ths[j := th2]) g sz F k (kh_as_hash kh1) obj s3" "vm_prof s3 = vm_prof s2"
    using setup_array_ready [OF r(3) _ assms(3) r(6) assms(4,5) hs] r(4) assms(2) by auto
  have "obj \<noteq> 0" using r(3) by (auto simp: header_ready_def obj_at_def)
  with hs have "common_mem_allocate_init cfg co kh1 sz th1 s1 = Inr (Some obj, th2, s2)"
    using r(2) by (simp add: common_mem_allocate_init_def init_obj_def)
  then have "array_allocate cfg co kh gen (int sz) len (ths ! j) s = Inr (Some obj, th2, s3)"
      "array_allocate_nozero cfg co kh gen (int sz) len (ths ! j) s = Inr (Some obj, th2, s3)"
    using r(1,2) p(1) by (simp_all add: array_allocate_def array_allocate_nozero_def)
  then show ?thesis using p r(5,7) by auto
qed

theorem array_allocate_complete_witness:
  "\<exists>obj th s'. array_allocate sample_vm_cfg sample_course (KlassHandle (Some (intArrayKlassObj sample_flags))) 1 4 3 sample_thread sample_vm =
       Inr (Some obj, th, s') \<and> ob_length (as_mem s' obj) = 3 \<and> obj_at 1 4 obj s'"
proof -
  have k: "kl_layout_helper (intArrayKlassObj sample_flags) = Array_Layout 16 2" by (simp add: sample_flags_def)
  have z: "4 = align_size_up (nat 3 * 2 ^ 2 + 16) HeapWordSize div HeapWordSize" by (simp add: align_size_up_def HeapWordSize_def)
  show ?thesis
    using array_allocate_complete [OF sample_can_allocate [of 4] _ k _ z, of "KlassHandle (Some (intArrayKlassObj sample_flags))"]
    by (auto simp: KlassHandle_def allocated_def)
qed

end
