(* ===== verification/Parsable_Heap.thy ===== *)
theory Parsable_Heap
  imports Object_Entry
begin

text \<open>
  Preparing the heap for a collection: \<^verbatim>\<open>CollectedHeap::ensure_parsability\<close> makes the buffers of all Java
  threads parsable.  When it retires them, each buffer is filled up to its end, so that the region it
  lies in can be walked object by object, and no region counts an active buffer any more.
\<close>

section \<open>All threads\<close>

text \<open>
  The model has no deferred card marks: neither the flush of a thread's mark, which the build
  with the server compiler does after the thread's buffers, nor the two assertions of the other
  build, that the collector does not defer marks and the thread has none.  Both leave buffers,
  regions and object headers as they are.  Whether the VM is initialized is the parameter
  \<open>is_init_completed\<close>.
\<close>

definition ensure_parsability ::
    "vm_flags \<Rightarrow> g1_env \<Rightarrow> bool \<Rightarrow> bool \<Rightarrow> alloc_thread list \<Rightarrow> 'a alloc_state_scheme \<Rightarrow> (alloc_thread list \<times> 'a alloc_state_scheme) res" where
  "ensure_parsability fl env is_init_completed retire_tlabs ths s =
     vassert (is_at_safepoint (gh_mt (as_heap s)) \<or> \<not> is_init_completed) ''Should only be called at a safepoint or at start-up''
    (vassert (\<not> UseTLAB fl \<or> ths \<noteq> []) ''Attempt to fill tlabs before main thread has been added''
      (rfold (\<lambda>th (done_ths, s1). rbind (thread_ensure_parsability fl env retire_tlabs th s1) (\<lambda>(th1, s2). Inr (done_ths @ [th1], s2))) ths ([], s)))"

section \<open>Lemmas\<close>

text \<open>The invariant of the heap apart from locks.\<close>

definition core_ok :: "vm \<Rightarrow> nat list \<Rightarrow> nat list \<Rightarrow> bool" where
  "core_ok s xs ys \<longleftrightarrow>
     heap_rep (as_heap s) xs ys \<and> seq_inv (g1_hrs s) (gh_st (as_heap s)) \<and> set xs \<union> set ys \<subseteq> {..<seq_length (g1_hrs s)} \<and>
     as_reserved s = (seq_heap_bottom (g1_hrs s), seq_heap_end (g1_hrs s)) \<and>
     regions_ok (seq_length (g1_hrs s)) (vm_mutator s) (vm_gens s) (as_heap s)"

lemma vm_ok_core:
  "vm_ok s xs ys \<longleftrightarrow> core_ok s xs ys \<and> heap_not_locked_and_not_at_safepoint s \<and> gh_inc_cset_active (as_heap s)"
  by (auto simp: vm_ok_def core_ok_def)

lemma core_ok_retagged:
  assumes "core_ok s xs ys" and "retagged p a (as_heap s) h'" and "p \<notin> set xs \<union> set ys"
  shows "core_ok (s\<lparr>as_heap := h', as_mem := m\<rparr>) xs ys"
proof -
  have "heap_rep h' xs ys"
    using assms(1,3) retagged_facts(20) [OF assms(2)] by (intro keeps_rep [of "as_heap s" xs ys p h']) (auto simp: core_ok_def)
  then show ?thesis using assms(1)
    by (simp add: core_ok_def regions_ok_def seq_inv_retagged [OF assms(2)] alloc_region_ok_retagged [OF assms(2)] retagged_facts [OF assms(2)])
qed

text \<open>Only the heap and the memory change, and no lock is taken or released.\<close>

definition swept :: "vm \<Rightarrow> vm \<Rightarrow> bool" where
  "swept s s' \<longleftrightarrow> s' = s\<lparr>as_heap := as_heap s', as_mem := as_mem s'\<rparr> \<and> gh_mt (as_heap s') = gh_mt (as_heap s) \<and>
     gh_inc_cset_active (as_heap s') = gh_inc_cset_active (as_heap s)"

lemma swept_refl: "swept s s"
  by (simp add: swept_def)

lemma swept_trans: "swept s s' \<Longrightarrow> swept s' s'' \<Longrightarrow> swept s s''"
  unfolding swept_def by (metis alloc_state.surjective alloc_state.update_convs(1,2))

text \<open>The buffers \<open>D\<close> of the threads \<open>ths0\<close> have been retired and their memory can be walked; the others are as before.\<close>

definition drained :: "vm_flags \<Rightarrow> alloc_thread list \<Rightarrow> (nat \<times> nat) set \<Rightarrow> alloc_thread list \<Rightarrow> vm \<Rightarrow> bool" where
  "drained fl ths0 D ths s \<longleftrightarrow>
     threads_ok fl ths s \<and> length ths = length ths0 \<and>
     (\<forall>b \<in> bufs ths0. if b \<in> D
        then tl_end (buf ths b) = 0 \<and> (tl_end (buf ths0 b) \<noteq> 0 \<longrightarrow> tiled (as_mem s) (tl_start (buf ths0 b)) (hard_end fl (buf ths0 b)))
        else buf ths b = buf ths0 b)"

lemma drain_step:
  assumes "flags_ok fl" "\<forall>q. 0 < env_obj_size env q" and "threads_ok fl ths0 s0" and "drained fl ths0 D ths s" and "core_ok s xs ys"
    and "j < length ths" "i < NG2C_GEN_ARRAY_SIZE" "(j, i) \<notin> D"
  shows "\<exists>th s'. make_tlab_parsable fl env True i (ths ! j) s = Inr (th, s') \<and> drained fl ths0 (insert (j, i) D) (ths[j := th]) s' \<and>
    core_ok s' xs ys \<and> swept s s'"
proof -
  let ?I = "bufs ths" and ?b = "(j, i)"
  have T: "threads_ok fl ths s" "length ths = length ths0" using assms(4) by (auto simp: drained_def)
  have I: "bufs ths0 = ?I" using T(2) by (simp add: bufs_def)
  have b: "?b \<in> ?I" "th_tlabGenArray (ths ! j) ! i = buf ths ?b" using assms(6,7) by (simp_all add: bufs_def buf_def)
  have ok: "bufs_ok fl ?I (buf ths) s" "parsed ?I (buf ths) (as_mem s)" using T(1) by (auto simp: threads_ok_def)
  have ok0: "bufs_ok fl ?I (buf ths0) s0" using assms(3) by (simp add: threads_ok_def I)
  have same: "buf ths ?b = buf ths0 ?b" using assms(4,8) b(1) by (simp add: drained_def I)
  obtain t n h m where r: "make_parsable fl env True (buf ths ?b) s = Inr (t, n, s\<lparr>as_heap := h, as_mem := m\<rparr>)" "tl_end t = 0"
      "tl_my_thread t = tl_my_thread (buf ths ?b)" "bufs_ok fl ?I ((buf ths)(?b := t)) (s\<lparr>as_heap := h, as_mem := m\<rparr>)" "parsed ?I ((buf ths)(?b := t)) m"
    and e: "if tl_end (buf ths ?b) = 0 then h = as_heap s \<and> m = as_mem s
       else (\<exists>p a. lies_in fl s (snd ?b) (buf ths ?b) p \<and> retagged p a (as_heap s) h) \<and> tiled m (tl_start (buf ths ?b)) (hard_end fl (buf ths ?b)) \<and>
         (\<forall>q. q < tl_top (buf ths ?b) \<or> hard_end fl (buf ths ?b) \<le> q \<longrightarrow> m q = as_mem s q)"
    using buf_parsable [OF assms(1) ok b(1) assms(2)] by blast
  let ?th = "(put_tlab i t (ths ! j))\<lparr>th_allocated_bytes := th_allocated_bytes (ths ! j) + of_nat n\<rparr>" and ?s = "s\<lparr>as_heap := h, as_mem := m\<rparr>"
  have run: "make_tlab_parsable fl env True i (ths ! j) s = Inr (?th, ?s)" using r(1) b(2) by (simp add: make_tlab_parsable_def)
  have a: "th_tlabGenArray ?th = (th_tlabGenArray (ths ! j))[i := t]" "i < length (th_tlabGenArray (ths ! j))" "th_id ?th = th_id (ths ! j)"
    using T(1) assms(6,7) by (auto simp: put_tlab_def threads_ok_def thread_wf_def)
  have tok: "threads_ok fl (ths[j := ?th]) ?s" by (rule threads_ok_update [OF T(1) assms(6,7) a(1,3) r(3)]) (use r(4,5) in simp_all)
  have rep: "core_ok ?s xs ys \<and> swept s ?s"
  proof (cases "tl_end (buf ths ?b) = 0")
    case False
    then obtain p c where p: "lies_in fl s i (buf ths ?b) p" "retagged p c (as_heap s) h" using e by auto
    have "p \<notin> set xs \<union> set ys"
      using assms(5) by (intro lies_in_not_free [OF p(1) bufs_okD(1) [OF ok(1) b(1)] False]) (simp add: core_ok_def)
    then show ?thesis using core_ok_retagged [OF assms(5) p(2), of m] retagged_facts(17,19) [OF p(2)] by (simp add: swept_def)
  qed (use e assms(5) in \<open>simp add: swept_refl\<close>)
  have keep: "tiled m (tl_start (buf ths0 c)) (hard_end fl (buf ths0 c))"
    if c: "c \<in> ?I" "c \<noteq> ?b" "tl_end (buf ths0 c) \<noteq> 0" "tiled (as_mem s) (tl_start (buf ths0 c)) (hard_end fl (buf ths0 c))" for c
  proof (cases "tl_end (buf ths ?b) = 0")
    case False
    then have "hard_end fl (buf ths0 c) \<le> tl_start (buf ths ?b) \<or> hard_end fl (buf ths ?b) \<le> tl_start (buf ths0 c)"
      using bufs_apart [OF ok0 c(1) b(1) c(2,3)] same by simp
    then show ?thesis using e False in_use_bounds(2) [OF bufs_okD(1) [OF ok(1) b(1)] False] by (intro tiled_frame [OF c(4)]) auto
  qed (use e c in simp)
  have "drained fl ths0 (insert ?b D) (ths[j := ?th]) ?s"
    using assms(4) tok r(2) e same keep unfolding drained_def buf_update(1) [OF assms(6) a(2,1)] I by (auto split: if_splits)
  then show ?thesis using run rep by (intro exI [of _ ?th] exI [of _ ?s]) simp
qed

lemma drain_thread:
  assumes "flags_ok fl" "\<forall>q. 0 < env_obj_size env q" and "threads_ok fl ths0 s0" and "drained fl ths0 D ths s" and "core_ok s xs ys"
    and "j < length ths" "set il \<subseteq> {..<NG2C_GEN_ARRAY_SIZE}" "distinct il" "\<forall>i \<in> set il. (j, i) \<notin> D"
  shows "\<exists>th s'. rfold (\<lambda>i (th, s). make_tlab_parsable fl env True i th s) il (ths ! j, s) = Inr (th, s') \<and>
    drained fl ths0 (D \<union> {j} \<times> set il) (ths[j := th]) s' \<and> core_ok s' xs ys \<and> swept s s'"
  using assms(4-9)
proof (induction il arbitrary: ths D s)
  case (Cons i il)
  obtain th s1 where r: "make_tlab_parsable fl env True i (ths ! j) s = Inr (th, s1)" "drained fl ths0 (insert (j, i) D) (ths[j := th]) s1"
      "core_ok s1 xs ys" "swept s s1"
    using drain_step [OF assms(1-3) Cons.prems(1-3), of i] Cons.prems(4,6) by auto
  from Cons.IH [OF r(2,3)] Cons.prems(3-6) obtain th2 s2 where
    "rfold (\<lambda>i (th, s). make_tlab_parsable fl env True i th s) il (ths[j := th] ! j, s1) = Inr (th2, s2)"
    "drained fl ths0 (insert (j, i) D \<union> {j} \<times> set il) (ths[j := th, j := th2]) s2" "core_ok s2 xs ys" "swept s1 s2" by auto
  moreover have "insert (j, i) D \<union> {j} \<times> set il = D \<union> {j} \<times> set (i # il)" by auto
  ultimately show ?case using r(1) Cons.prems(3) swept_trans [OF r(4)] by simp
qed (simp add: swept_refl)

lemma thread_parsable:
  assumes "UseTLAB fl"
  shows "thread_ensure_parsability fl env ret th s = rfold (\<lambda>i (th, s). make_tlab_parsable fl env ret i th s) [0..<NG2C_GEN_ARRAY_SIZE] (th, s)"
proof -
  have "[0..<NG2C_GEN_ARRAY_SIZE] = 0 # [1..<NG2C_GEN_ARRAY_SIZE]" by (simp add: NG2C_GEN_ARRAY_SIZE_def upt_rec)
  then show ?thesis using assms unfolding thread_ensure_parsability_def make_gen_tlabs_parsable_def by (simp add: split_def)
qed

text \<open>Retiring the buffers \<open>il\<close> of every thread.\<close>

lemma drain_all:
  assumes "flags_ok fl" "\<forall>q. 0 < env_obj_size env q" "threads_ok fl ths0 s0" and "set il \<subseteq> {..<NG2C_GEN_ARRAY_SIZE}" "distinct il"
    and each: "\<And>th s. thread_wf th \<Longrightarrow> act th s = rfold (\<lambda>i (th, s). make_tlab_parsable fl env True i th s) il (th, s)"
    and "drained fl ths0 ({..<length dn} \<times> set il) (dn @ rest) s" and "core_ok s xs ys"
  shows "\<exists>ths s'. rfold (\<lambda>th (done_ths, s1). rbind (act th s1) (\<lambda>(th1, s2). Inr (done_ths @ [th1], s2))) rest (dn, s) =
      Inr (ths, s') \<and> drained fl ths0 ({..<length ths0} \<times> set il) ths s' \<and> core_ok s' xs ys \<and> swept s s'"
  using assms(7,8)
proof (induction rest arbitrary: dn s)
  case Nil
  then show ?case by (auto simp: drained_def swept_refl)
next
  case (Cons th rest)
  let ?D = "\<lambda>n. {..<n} \<times> set il"
  have "thread_wf ((dn @ th # rest) ! length dn)" using Cons.prems(1) by (auto simp: drained_def threads_ok_def simp del: nth_append_length)
  then have w: "thread_wf th" by simp
  obtain th1 s1 where r: "act th s = Inr (th1, s1)"
      "drained fl ths0 (?D (length dn) \<union> {length dn} \<times> set il) ((dn @ th # rest)[length dn := th1]) s1" "core_ok s1 xs ys" "swept s s1"
    using drain_thread [OF assms(1-3) Cons.prems, of "length dn" il] assms(4,5) each [OF w, of s] by auto
  have "?D (length dn) \<union> {length dn} \<times> set il = ?D (length (dn @ [th1]))" by auto
  then have "drained fl ths0 (?D (length (dn @ [th1]))) ((dn @ [th1]) @ rest) s1" using r(2) by simp
  from Cons.IH [OF this r(3)] show ?case using r(1) swept_trans [OF r(4)] by fastforce
qed

section \<open>An example\<close>

text \<open>A thread at a safepoint with a buffer of eight words for generation 1 in region 0.\<close>

definition sample_buffer :: tlab where
  "sample_buffer = (ThreadLocalAllocBuffer sample_flags 1)\<lparr>tl_start := 128, tl_top := 128, tl_end := 134, tl_my_heap_region := Some 0\<rparr>"

definition sample_safepoint :: vm where
  "sample_safepoint = sample_vm\<lparr>as_heap := sample_g1_heap\<lparr>gh_st := (gh_st sample_g1_heap)
     \<lparr>st_hr := (\<lambda>i. if i = 0 then (gh_hr sample_g1_heap 0)\<lparr>hr_gen := 1, hr_active_tlabs := 1\<rparr> else gh_hr sample_g1_heap i),
      st_mt := (gh_mt sample_g1_heap)\<lparr>is_at_safepoint := True\<rparr>\<rparr>\<rparr>\<rparr>"

lemma sample_safepoint_heap:
  "heap_rep (as_heap sample_safepoint) [2] []" "is_at_safepoint (gh_mt (as_heap sample_safepoint))"
  "hr_active_tlabs (gh_hr (as_heap sample_safepoint) p) = (if p = 0 then 1 else 0)"
  "in_gen 1 (gh_hr (as_heap sample_safepoint) 0)" "hr_bottom (gh_hr (as_heap sample_safepoint) 0) = 128" "hr_top (gh_hr (as_heap sample_safepoint) 0) = 136"
  "GrainWords (gh_grain (as_heap sample_safepoint)) = 128"
  by (simp_all add: sample_safepoint_def sample_vm_def heap_rep_def sample_g1_heap_def sample_heap_def lists_as_def fits_iff linked_kind_def
      HeapRegionLinkedList_def HeapRegionSet_def sample_layout_def sample_store_def sample_region_def tag_hr_def put_hr_def isHumongous_def is_young_def
      used_def capacity_def HeapWordSize_def ready_def region_inv_def region_preds in_gen_def)

definition same_place :: "heap_region \<Rightarrow> heap_region \<Rightarrow> bool" where
  "same_place r r' \<longleftrightarrow> hr_index r' = hr_index r \<and> hr_bottom r' = hr_bottom r \<and> hr_end r' = hr_end r \<and> hr_orig_end r' = hr_orig_end r \<and>
     hr_humongous_type r' = hr_humongous_type r"

lemma seq_inv_same:
  assumes "seq_inv sq st" and g: "st_grain st' = st_grain st" and n: "st_next st' = st_next st"
    and p: "\<And>i. same_place (st_hr st i) (st_hr st' i)" and o: "\<And>i. seq_length sq \<le> i \<Longrightarrow> st_hr st' i = st_hr st i"
  shows "seq_inv sq st'"
proof -
  have e: "hr_index (st_hr st' i) = hr_index (st_hr st i)" "hr_bottom (st_hr st' i) = hr_bottom (st_hr st i)"
      "hr_orig_end (st_hr st' i) = hr_orig_end (st_hr st i)" "hr_end (st_hr st' i) = hr_end (st_hr st i)"
      "startsHumongous (st_hr st' i) = startsHumongous (st_hr st i)" for i
    using p [of i] by (simp_all add: same_place_def startsHumongous_def)
  show ?thesis using assms(1) o unfolding seq_inv_def g n e by (simp split del: if_split)
qed

lemma sample_safepoint_core: "core_ok sample_safepoint [2] []"
proof -
  have l: "seq_length sample_region_seq = 3" "hs_allocated_length sample_region_seq = 3" by (simp_all add: sample_region_seq_def seq_length_def)
  have "seq_inv sample_region_seq (gh_st (as_heap sample_safepoint))"
    by (rule seq_inv_same [OF sample_g1_seq]) (auto simp: sample_safepoint_def same_place_def l)
  moreover have "regions_ok 3 (vm_mutator sample_safepoint) (vm_gens sample_safepoint) (as_heap sample_safepoint)"
    by (auto simp: regions_ok_def sample_safepoint_def sample_vm_def alloc_region_ok_def ar_regs_def sample_gen_region_def less_Suc_eq)
  moreover have "g1_hrs sample_safepoint = sample_region_seq" "as_reserved sample_safepoint = as_reserved sample_vm" "g1_hrs sample_vm = sample_region_seq"
    by (simp_all add: sample_safepoint_def sample_vm_def)
  ultimately show ?thesis using sample_safepoint_heap(1) sample_vm_ok l unfolding core_ok_def vm_ok_def by simp
qed

lemma sample_buffer_ok: "buf_ok sample_flags sample_safepoint 1 sample_buffer" "hard_end sample_flags sample_buffer = 136"
proof -
  show e: "hard_end sample_flags sample_buffer = 136"
    by (simp add: hard_end_def sample_buffer_def alignment_reserve_def end_reserve_def sample_flags_def int_array_header_size_def
        array_header_size_in_bytes_def length_offset_in_bytes_def align_size_up_def HeapWordSize_def)
  have "lies_in sample_flags sample_safepoint 1 sample_buffer 0"
    using sample_safepoint_heap(4-7) e unfolding lies_in_def
    by (simp add: sample_safepoint_def sample_vm_def sample_buffer_def sample_region_seq_def seq_length_def seq_heap_bottom_def
        bottom_address_mapped_def HeapWordSize_def)
  moreover have "tlab_ok sample_flags sample_buffer sample_safepoint"
    unfolding tlab_ok_def e
    by (simp add: sample_buffer_def tlab_invariants_def is_in_reserved_def sample_safepoint_def sample_vm_def filler_array_max_size_def
        filler_array_hdr_size_def max_int_array_length_def sample_flags_def int_array_header_size_def array_header_size_in_bytes_def
        length_offset_in_bytes_def align_size_up_def align_size_down_def HeapWordSize_def max_jint_def MinObjAlignment_def
        align_object_offset_def HeapWordsPerLong_def)
  ultimately show "buf_ok sample_flags sample_safepoint 1 sample_buffer" by (simp add: buf_ok_def sample_buffer_def)
qed

definition sample_owner :: alloc_thread where
  "sample_owner = put_tlab 1 sample_buffer sample_thread"

lemma sample_owner_buf:
  "buf [sample_owner] b = (if snd b = 1 then sample_buffer else ThreadLocalAllocBuffer sample_flags 1)" if "b \<in> bufs [sample_owner]" for b
  using that by (auto simp: bufs_def buf_def sample_owner_def put_tlab_def sample_thread_def nth_list_update)

lemma sample_owner_ok: "threads_ok sample_flags [sample_owner] sample_safepoint"
proof -
  let ?u = "ThreadLocalAllocBuffer sample_flags 1"
  have u: "buf_ok sample_flags sample_safepoint g ?u" "tl_end ?u = 0" "tl_my_heap_region ?u = None" "tl_my_heap_region sample_buffer = Some 0" for g
    by (simp_all add: buf_ok_def tlab_ok_def tlab_invariants_def ThreadLocalAllocBuffer_def sample_buffer_def)
  have I: "b \<in> bufs [sample_owner] \<longleftrightarrow> fst b = 0 \<and> snd b < NG2C_GEN_ARRAY_SIZE" for b by (auto simp: bufs_def mem_Times_iff)
  have m: "{b \<in> bufs [sample_owner]. tl_my_heap_region (buf [sample_owner] b) = Some p} = (if p = 0 then {(0, 1)} else {})" for p
    using u(3,4) by (auto simp: sample_owner_buf I NG2C_GEN_ARRAY_SIZE_def split: if_splits)
  have "\<forall>b \<in> bufs [sample_owner]. buf_ok sample_flags sample_safepoint (snd b) (buf [sample_owner] b)"
    using u(1) sample_buffer_ok(1) by (auto simp: sample_owner_buf)
  moreover have "apart sample_flags (buf [sample_owner] b) (buf [sample_owner] c)" if "b \<in> bufs [sample_owner]" "c \<in> bufs [sample_owner]" "b \<noteq> c" for b c
    using that u(2) sample_owner_buf [OF that(1)] sample_owner_buf [OF that(2)] by (cases b; cases c) (auto simp: I apart_def)
  moreover have "finite (bufs [sample_owner])" by (simp add: bufs_def)
  ultimately have "bufs_ok sample_flags (bufs [sample_owner]) (buf [sample_owner]) sample_safepoint"
    using sample_safepoint_heap(3) by (simp add: bufs_ok_def m)
  moreover have "parsed (bufs [sample_owner]) (buf [sample_owner]) (as_mem sample_safepoint)"
    by (auto simp: parsed_def sample_owner_buf ThreadLocalAllocBuffer_def sample_buffer_def intro: tiled.intros)
  moreover have "thread_wf sample_owner"
    using set_update_subset_insert [of "th_tlabGenArray sample_thread" 1 sample_buffer]
    by (auto simp: thread_wf_def sample_owner_def put_tlab_def sample_thread_def ThreadLocalAllocBuffer_def sample_buffer_def)
  ultimately show ?thesis by (simp add: threads_ok_def)
qed

section \<open>Properties\<close>

text \<open>C12. Retiring the buffers of all threads before a collection succeeds, no assertion fails: afterwards no
  thread has a buffer, the memory of every former buffer, from its start to its hard end,
  can be walked object by object, no region counts an active buffer, and the free lists and the invariant of the buffers
  are kept.\<close>

theorem ensure_parsability_complete:
  assumes "flags_ok fl" "UseTLAB fl" "\<forall>q. 0 < env_obj_size env q" and "threads_ok fl ths s" and "core_ok s xs ys"
    and "is_at_safepoint (gh_mt (as_heap s))" "ths \<noteq> []"
  shows "\<exists>ths' s'. ensure_parsability fl env ic True ths s = Inr (ths', s') \<and> threads_ok fl ths' s' \<and> core_ok s' xs ys \<and>
    length ths' = length ths \<and> (\<forall>p. hr_active_tlabs (gh_hr (as_heap s') p) = 0) \<and>
    (\<forall>b \<in> bufs ths. tl_end (buf ths' b) = 0 \<and>
       (tl_end (buf ths b) \<noteq> 0 \<longrightarrow> tiled (as_mem s') (tl_start (buf ths b)) (hard_end fl (buf ths b))))"
proof -
  let ?il = "[0..<NG2C_GEN_ARRAY_SIZE]"
  have "drained fl ths ({..<length []} \<times> set ?il) ([] @ ths) s" using assms(4) by (simp add: drained_def)
  moreover have "set ?il \<subseteq> {..<NG2C_GEN_ARRAY_SIZE}" "distinct ?il" by auto
  note drain_all [OF assms(1,3,4) this thread_parsable [OF assms(2)] _ assms(5)]
  ultimately obtain ths' s' where
    r: "ensure_parsability fl env ic True ths s = Inr (ths', s')" "drained fl ths ({..<length ths} \<times> set ?il) ths' s'" "core_ok s' xs ys"
    using assms(6,7) unfolding ensure_parsability_def by fastforce
  have "{..<length ths} \<times> set ?il = bufs ths" by (auto simp: bufs_def)
  then have r2: "drained fl ths (bufs ths) ths' s'" using r(2) by simp
  have d: "threads_ok fl ths' s'" "bufs ths' = bufs ths" "\<forall>b \<in> bufs ths. tl_end (buf ths' b) = 0"
    using r2 by (auto simp: drained_def bufs_def)
  have ok: "bufs_ok fl (bufs ths) (buf ths') s'" using d(1,2) by (simp add: threads_ok_def)
  have "{b \<in> bufs ths. tl_my_heap_region (buf ths' b) = Some p} = {}" for p
    using d(3) bufs_okD(1) [OF ok] by (auto simp: tlab_ok_def)
  then have "hr_active_tlabs (gh_hr (as_heap s') p) = 0" for p using ok by (simp add: bufs_ok_def)
  then show ?thesis using r(1,3) r2 d(1) by (auto simp: drained_def)
qed

theorem ensure_parsability_complete_witness:
  "\<exists>ths' s'. ensure_parsability sample_flags sample_env True True [sample_owner] sample_safepoint = Inr (ths', s') \<and>
     hr_active_tlabs (gh_hr (as_heap s') 0) = 0 \<and> tiled (as_mem s') 128 136"
proof -
  have b: "(0, 1) \<in> bufs [sample_owner]" by (simp add: bufs_def NG2C_GEN_ARRAY_SIZE_def)
  have e: "tl_start (buf [sample_owner] (0, 1)) = 128" "tl_end (buf [sample_owner] (0, 1)) \<noteq> 0" "hard_end sample_flags (buf [sample_owner] (0, 1)) = 136"
    using sample_owner_buf [OF b] sample_buffer_ok(2) by (simp_all add: sample_buffer_def)
  have f: "UseTLAB sample_flags" "\<forall>q. 0 < env_obj_size sample_env q" by (simp_all add: sample_flags_def sample_env_def)
  obtain ths' s' where r: "ensure_parsability sample_flags sample_env True True [sample_owner] sample_safepoint = Inr (ths', s')"
      "\<forall>p. hr_active_tlabs (gh_hr (as_heap s') p) = 0"
      "\<forall>b \<in> bufs [sample_owner]. tl_end (buf ths' b) = 0 \<and> (tl_end (buf [sample_owner] b) \<noteq> 0 \<longrightarrow>
         tiled (as_mem s') (tl_start (buf [sample_owner] b)) (hard_end sample_flags (buf [sample_owner] b)))"
    using ensure_parsability_complete [OF sample_flags_ok f sample_owner_ok sample_safepoint_core sample_safepoint_heap(2), of True] by auto
  have "tiled (as_mem s') 128 136" using r(3) b e by metis
  then show ?thesis using r(1,2) by blast
qed

end
