(* ===== verification/Gen_Management.thy ===== *)
theory Gen_Management
  imports Parsable_Heap
begin

text \<open>
  The dynamic generations of NG2C as a whole: their creation with the heap, the set-up and release of their
  allocation regions around a collection, the creation of a generation by the application, and the start
  of a new epoch of a generation, which is a VM operation that retires the buffers and the
  allocation region of the generation.
\<close>

section \<open>VM operations\<close>

datatype gc_cause =
    java_lang_system_gc | full_gc_alot | scavenge_alot | allocation_profiler | jvmti_force_gc | gc_locker | heap_inspection
  | heap_dump | prepare_migration | collect_gen | no_gc | no_cause_specified | allocation_failure | tenured_generation_full
  | metadata_GC_threshold | cms_generation_full | cms_initial_mark | cms_final_remark | cms_concurrent_mark
  | old_generation_expanded_on_last_scavenge | old_generation_too_full_to_scavenge | adaptive_size_policy
  | g1_inc_collection_pause | g1_humongous_allocation | last_ditch_collection | last_gc_cause

record gc_operation =
  op_gc_count_before :: nat
  op_full_gc_count_before :: nat
  op_full :: bool
  op_gc_cause :: gc_cause

text \<open>What an operation sees of the rest of the VM: the number of full collections and the state of the \<^verbatim>\<open>GC_locker\<close>.\<close>

record gc_view =
  gv_total_full_collections :: nat
  gv_active_and_needs_gc :: bool

definition is_maximal_no_gc :: "'a g1_state_scheme \<Rightarrow> bool" where
  "is_maximal_no_gc s = (uncommitted_size s = 0)"

definition skip_operation :: "gc_view \<Rightarrow> gc_operation \<Rightarrow> vm \<Rightarrow> bool res" where
  "skip_operation vw op s =
     (let skip = op_gc_count_before op \<noteq> vm_total_collections s;
          skip1 = (if op_full op \<and> skip then op_full_gc_count_before op \<noteq> gv_total_full_collections vw else skip);
          skip2 = (if \<not> skip1 \<and> gv_active_and_needs_gc vw then is_maximal_no_gc s else skip1)
      in vassert (\<not> (\<not> skip1 \<and> gv_active_and_needs_gc vw) \<or> \<not> (skip2 \<and> op_gc_cause op = gc_locker)) ''GC_locker cannot be active when initiating GC''
           (Inr (skip2 \<and> op_gc_cause op \<noteq> collect_gen)))"

text \<open>The lock of the pending list of references is not part of the model.\<close>

definition doit_prologue :: "gc_view \<Rightarrow> gc_operation \<Rightarrow> vm \<Rightarrow> (bool \<times> vm) res" where
  "doit_prologue vw op s =
     vassert (op_gc_cause op \<noteq> no_gc \<and> op_gc_cause op \<noteq> no_cause_specified) ''Illegal GCCause''
       (let s1 = s\<lparr>as_heap := set_heap_lock True (as_heap s)\<rparr>
        in rbind (skip_operation vw op s1) (\<lambda>skip.
             if skip then Inr (False, s1\<lparr>as_heap := set_heap_lock False (as_heap s1)\<rparr>) else Inr (True, s1)))"

definition doit_epilogue :: "vm \<Rightarrow> vm" where
  "doit_epilogue s = s\<lparr>as_heap := set_heap_lock False (as_heap s)\<rparr>"

definition set_safepoint :: "bool \<Rightarrow> vm \<Rightarrow> vm" where
  "set_safepoint b s =
     (let h = as_heap s in s\<lparr>as_heap := h\<lparr>gh_st := (gh_st h)\<lparr>st_mt := (gh_mt h)\<lparr>is_at_safepoint := b, is_VM_thread := b\<rparr>\<rparr>\<rparr>\<rparr>)"

text \<open>A Java thread has the VM thread execute an operation at a safepoint; the threads belong to the state of the operation.\<close>

definition vm_thread_execute ::
    "gc_view \<Rightarrow> gc_operation \<Rightarrow> ('t \<Rightarrow> vm \<Rightarrow> ('t \<times> vm) res) \<Rightarrow> 't \<Rightarrow> vm \<Rightarrow> ('t \<times> vm) res" where
  "vm_thread_execute vw op op_doit ths s =
     rbind (doit_prologue vw op s) (\<lambda>(ok, s1).
       if \<not> ok then Inr (ths, s1)
       else rbind (op_doit ths (set_safepoint True s1)) (\<lambda>(ths1, s2). Inr (ths1, doit_epilogue (set_safepoint False s2))))"

section \<open>The array of generations\<close>

text \<open>The constructor of the heap; the entry of eden is \<^verbatim>\<open>NULL\<close>.\<close>

definition gens_setup :: "gen_alloc_region option list res" where
  "gens_setup = rfold (\<lambda>i gens. rbind (GenAllocRegion (int i)) (\<lambda>ar. Inr (gens @ [Some ar]))) [1..<NG2C_GEN_ARRAY_SIZE] [None]"

definition gens_at :: "int \<Rightarrow> vm \<Rightarrow> gen_alloc_region option res" where
  "gens_at i s = vassert (0 \<le> i \<and> i < int (length (vm_gens s))) ''illegal index'' (Inr (vm_gens s ! nat i))"

definition init_gen_alloc_regions :: "vm \<Rightarrow> vm res" where
  "init_gen_alloc_regions s =
     rfold (\<lambda>i s. rbind (gens_at (int i) s) (\<lambda>r. rbind (deref r ''_gen_alloc_regions->at(i)'') (\<lambda>ar.
       vassert (ar_get ar = None) ''pre-condition''
         (rbind (ar_init ar) (\<lambda>ar1. Inr (s\<lparr>vm_gens := (vm_gens s)[i := Some ar1]\<rparr>)))))) [1..<length (vm_gens s)] s"

definition release_gen_alloc_regions :: "g1_env \<Rightarrow> vm \<Rightarrow> vm res" where
  "release_gen_alloc_regions env s =
     rfold (\<lambda>i s. rbind (gens_at (int i) s) (\<lambda>r. rbind (deref r ''_gen_alloc_regions->at(i)'') (\<lambda>ar.
       rbind (release (gen_retire_region env) [] ar (as_heap s)) (\<lambda>(_, ar1, h).
         vassert (ar_get ar1 = None) ''post-condition''
           (Inr (s\<lparr>as_heap := h, vm_gens := (vm_gens s)[i := Some ar1]\<rparr>)))))) [1..<length (vm_gens s)] s"

definition init_mutator_alloc_region :: "vm \<Rightarrow> vm res" where
  "init_mutator_alloc_region s =
     vassert (ar_get (vm_mutator s) = None) ''pre-condition''
       (rbind (ar_init (vm_mutator s)) (\<lambda>ar. Inr (s\<lparr>vm_mutator := ar\<rparr>)))"

definition release_mutator_alloc_region :: "vm \<Rightarrow> vm res" where
  "release_mutator_alloc_region s =
     rbind (release mutator_retire_region [] (vm_mutator s) (as_heap s)) (\<lambda>(_, ar, h).
       vassert (ar_get ar = None) ''post-condition'' (Inr (s\<lparr>as_heap := h, vm_mutator := ar\<rparr>)))"

text \<open>The bytes in use: those of retired regions and of the regions that are allocated in.\<close>

definition g1_used :: "vm \<Rightarrow> nat res" where
  "g1_used s =
     vassert (Heap_lock (gh_mt (as_heap s))) ''Should be owned on this thread's behalf.''
       (let result = gh_summary_bytes_used (as_heap s) +
              (case ar_get (vm_mutator s) of None \<Rightarrow> 0 | Some p \<Rightarrow> used (gh_hr (as_heap s) p))
        in rfold (\<lambda>i result. rbind (gens_at (int i) s) (\<lambda>r. rbind (deref r ''_gen_alloc_regions->at(i)'') (\<lambda>ar.
             Inr (case ar_get ar of None \<Rightarrow> result | Some p \<Rightarrow> result + used (gh_hr (as_heap s) p))))) [1..<length (vm_gens s)] result)"

section \<open>Allocation regions of a collection\<close>

definition init_gc_alloc_regions :: "vm \<Rightarrow> vm res" where
  "init_gc_alloc_regions s =
     vassert (is_at_safepoint (gh_mt (as_heap s)) \<and> is_VM_thread (gh_mt (as_heap s))) ''should be at a safepoint''
      (rbind (ar_init (vm_survivor s)) (\<lambda>surv.
       rbind (ar_init (vm_old s)) (\<lambda>old.
         let s1 = s\<lparr>vm_survivor := surv, vm_old := old, vm_retained_old := None\<rparr>; h = as_heap s
         in case vm_retained_old s of
              None \<Rightarrow> Inr s1
            | Some p \<Rightarrow>
                let r = gh_hr h p
                in if \<not> hr_in_cset r \<and> hr_top r \<noteq> hr_end r \<and> \<not> hr_is_empty r \<and> \<not> isHumongous r
                   then rbind (gh_on p (\<lambda>r. Inr (set_saved_mark (gh_gc_time_stamp h) r)) h) (\<lambda>h1.
                        rbind (set_remove p (gh_old_set h1) (gh_st h1)) (\<lambda>(os, st).
                        rbind (gh_on p (note_start_of_copying (gh_during_initial_mark h1)) (h1\<lparr>gh_old_set := os, gh_st := st\<rparr>)) (\<lambda>h2.
                        rbind (ar_set p old h2) (\<lambda>old1. Inr (s1\<lparr>as_heap := h2, vm_old := old1\<rparr>)))))
                   else Inr s1)))"

text \<open>The desired sizes of promotion buffers are not part of the model.\<close>

definition release_gc_alloc_regions :: "vm \<Rightarrow> vm res" where
  "release_gc_alloc_regions s =
     rbind (release survivor_retire_region [] (vm_survivor s) (as_heap s)) (\<lambda>(_, surv, h).
     rbind (release old_retire_region [] (vm_old s) h) (\<lambda>(p, old, h1).
       Inr (s\<lparr>as_heap := h1, vm_survivor := surv, vm_old := old, vm_retained_old := p\<rparr>)))"

definition abandon_gc_alloc_regions :: "vm \<Rightarrow> vm res" where
  "abandon_gc_alloc_regions s =
     vassert (ar_get (vm_survivor s) = None) ''pre-condition''
    (vassert (ar_get (vm_old s) = None) ''pre-condition'' (Inr (s\<lparr>vm_retained_old := None\<rparr>)))"

section \<open>A new epoch\<close>

definition collect_gen_do_thread ::
    "vm_flags \<Rightarrow> g1_env \<Rightarrow> int \<Rightarrow> alloc_thread \<Rightarrow> 'a alloc_state_scheme \<Rightarrow> (alloc_thread \<times> 'a alloc_state_scheme) res" where
  "collect_gen_do_thread fl env gen th s =
     vassert (0 < gen) ''gen 0 is eden, we should not be making it parsable''
       (if nat gen < length (th_tlabGenArray th) then make_tlab_parsable fl env True (nat gen) th s
        else Inl (Buffer_Overflow ''_tlabGenArray''))"

definition rebase_alloc_gen :: "vm_flags \<Rightarrow> g1_env \<Rightarrow> int \<Rightarrow> alloc_thread list \<Rightarrow> vm \<Rightarrow> (alloc_thread list \<times> vm) res" where
  "rebase_alloc_gen fl env gen ths s =
     vassert (is_at_safepoint (gh_mt (as_heap s)) \<and> is_VM_thread (gh_mt (as_heap s))) ''should be at a safepoint''
    (vassert (0 < gen) ''trying to rebase eden?''
    (vassert (gen < int (length (vm_gens s))) ''gen is higher than the number of created gens''
      (rbind (rfold (\<lambda>th (done_ths, s1). rbind (collect_gen_do_thread fl env gen th s1) (\<lambda>(th1, s2). Inr (done_ths @ [th1], s2))) ths ([], s)) (\<lambda>(ths1, s1).
       rbind (gens_at gen s1) (\<lambda>rebase_gen.
         vassert (rebase_gen \<noteq> None) ''Gen alloc region should't be null.''
           (rbind (deref rebase_gen ''rebase_gen'') (\<lambda>ar.
            rbind (retire (gen_retire_region env) [] True ar (as_heap s1)) (\<lambda>(ar1, h).
              Inr (ths1, s1\<lparr>as_heap := h, vm_gens := (vm_gens s1)[nat gen := Some ar1]\<rparr>)))))))))"

definition VM_Rebase_Gen :: gc_operation where
  "VM_Rebase_Gen = \<lparr>op_gc_count_before = 0, op_full_gc_count_before = 0, op_full = False, op_gc_cause = collect_gen\<rparr>"

definition g1_capacity :: "'a g1_state_scheme \<Rightarrow> nat" where
  "g1_capacity s = (g1_high s - fst (as_reserved s)) * HeapWordSize"

definition non_young_capacity_bytes :: "g1_heap \<Rightarrow> nat" where
  "non_young_capacity_bytes h = total_capacity_bytes (gh_grain h) (gh_old_set h) + total_capacity_bytes (gh_grain h) (gh_humongous_set h)"

text \<open>
  \<open>ihop\<close> is the flag \<^verbatim>\<open>InitiatingHeapOccupancyPercent\<close> and \<open>gc\<close> the collection that \<^verbatim>\<open>collect\<close> starts.
\<close>

definition collect_alloc_gen ::
    "vm_flags \<Rightarrow> g1_env \<Rightarrow> nat \<Rightarrow> (alloc_thread list \<Rightarrow> vm \<Rightarrow> (alloc_thread list \<times> vm) res) \<Rightarrow> gc_view \<Rightarrow> int \<Rightarrow> alloc_thread list \<Rightarrow> vm
     \<Rightarrow> (alloc_thread list \<times> vm) res" where
  "collect_alloc_gen fl env ihop gc vw gen ths s =
     (if int (length (vm_gens s)) \<le> gen \<or> gen < 0 then Inr (ths, s)
      else rbind (gens_at gen s) (\<lambda>cg.
             vassert (cg \<noteq> None) ''Gen alloc region shouldn't be null.''
               (rbind (deref cg ''collect_gen'') (\<lambda>ar.
                  let s1 = s\<lparr>vm_gens := (vm_gens s)[nat gen := Some (new_epoch ar)]\<rparr>;
                      marking_initiating_used_threshold = g1_capacity s1 div 100 * ihop;
                      cur_used_bytes = non_young_capacity_bytes (as_heap s1);
                      alloc_byte_size = GrainBytes (gh_grain (as_heap s1)) * HeapWordSize
                  in if marking_initiating_used_threshold < cur_used_bytes + alloc_byte_size then gc ths s1
                     else vm_thread_execute vw VM_Rebase_Gen (rebase_alloc_gen fl env gen) ths s1))))"

section \<open>Generations of the application\<close>

definition new_alloc_gen :: "vm \<Rightarrow> (int \<times> vm) res" where
  "new_alloc_gen s =
     (let gen = int (length (vm_gens s))
      in rbind (GenAllocRegion gen) (\<lambda>new_gen.
         rbind (ar_init new_gen) (\<lambda>ar.
           let ar1 = ar\<lparr>gr_gen := gen\<rparr>; gens = vm_gens s @ [Some ar1]
           in vassert (gens ! nat gen = Some ar1) ''Last gen alloc should be the new one.'' (Inr (gen, s\<lparr>vm_gens := gens\<rparr>)))))"

definition JVM_SetAllocGen :: "int \<Rightarrow> alloc_thread \<Rightarrow> alloc_thread res" where
  "JVM_SetAllocGen gen th = set_alloc_gen gen th"

definition JVM_GetAllocGen :: "alloc_thread \<Rightarrow> int" where
  "JVM_GetAllocGen th = th_alloc_gen th"

definition JVM_NewAllocGen :: "alloc_thread \<Rightarrow> vm \<Rightarrow> (int \<times> alloc_thread \<times> vm) res" where
  "JVM_NewAllocGen th s = rbind (new_alloc_gen s) (\<lambda>(gen, s1). rbind (set_alloc_gen gen th) (\<lambda>th1. Inr (gen, th1, s1)))"

section \<open>Lemmas\<close>

subsection \<open>Locks and safepoints\<close>

definition with_mt :: "mt_state \<Rightarrow> vm \<Rightarrow> vm" where
  "with_mt m s = s\<lparr>as_heap := (as_heap s)\<lparr>gh_st := (gh_st (as_heap s))\<lparr>st_mt := m\<rparr>\<rparr>\<rparr>"

lemma with_mt_simps [simp]:
  "gh_mt (as_heap (with_mt m s)) = m" "with_mt m (with_mt m' s) = with_mt m s" "vm_gens (with_mt m s) = vm_gens s"
  "gh_hr (as_heap (with_mt m s)) = gh_hr (as_heap s)" "as_mem (with_mt m s) = as_mem s" "gh_grain (as_heap (with_mt m s)) = gh_grain (as_heap s)"
  "gh_enqueued (as_heap (with_mt m s)) = gh_enqueued (as_heap s)" "gh_inc_cset_active (as_heap (with_mt m s)) = gh_inc_cset_active (as_heap s)"
  by (simp_all add: with_mt_def)

lemma mt_changes:
  "s\<lparr>as_heap := set_heap_lock b (as_heap s)\<rparr> = with_mt ((gh_mt (as_heap s))\<lparr>Heap_lock := b\<rparr>) s"
  "set_safepoint b s = with_mt ((gh_mt (as_heap s))\<lparr>is_at_safepoint := b, is_VM_thread := b\<rparr>) s"
  "doit_epilogue s = with_mt ((gh_mt (as_heap s))\<lparr>Heap_lock := False\<rparr>) s"
  by (simp_all add: with_mt_def set_heap_lock_def set_safepoint_def doit_epilogue_def Let_def)

lemma active_mt:
  "alloc_region_ok False mutator_active ar (as_heap (with_mt m s)) = alloc_region_ok False mutator_active ar (as_heap s)"
  "alloc_region_ok True (gen_active g) gar (as_heap (with_mt m s)) = alloc_region_ok True (gen_active g) gar (as_heap s)"
  by (simp_all add: alloc_region_ok_def mutator_active_def gen_active_def unowned_def with_mt_def split: ar_ptr.splits)

lemma core_ok_mt:
  assumes "SecondaryFreeList_lock m = SecondaryFreeList_lock (gh_mt (as_heap s))"
  shows "core_ok (with_mt m s) xs ys = core_ok s xs ys"
proof -
  have "heap_rep (as_heap (with_mt m s)) xs ys = heap_rep (as_heap s) xs ys"
    using assms by (simp add: heap_rep_def with_mt_def ready_def)
  moreover have "seq_inv sq (gh_st (as_heap (with_mt m s))) = seq_inv sq (gh_st (as_heap s))" for sq
    by (simp add: seq_inv_def with_mt_def)
  moreover have "g1_hrs (with_mt m s) = g1_hrs s" "as_reserved (with_mt m s) = as_reserved s" "vm_mutator (with_mt m s) = vm_mutator s"
    by (simp_all add: with_mt_def)
  ultimately show ?thesis by (simp add: core_ok_def regions_ok_def active_mt)
qed

lemma threads_ok_mt [simp]: "threads_ok fl ths (with_mt m s) = threads_ok fl ths s"
  by (simp add: threads_ok_def bufs_ok_def buf_ok_def lies_in_def tlab_ok_def is_in_reserved_def with_mt_def)

lemma drained_mt [simp]: "drained fl ths0 D ths (with_mt m s) = drained fl ths0 D ths s"
  by (simp add: drained_def)

subsection \<open>Retiring the region of a generation\<close>

text \<open>What is left of region \<open>p\<close> of a generation after it was retired: it is full, and its cards are to be refined.\<close>

definition closed_region :: "nat \<Rightarrow> g1_heap \<Rightarrow> bool" where
  "closed_region p h \<longleftrightarrow>
     hr_end (gh_hr h p) - hr_top (gh_hr h p) < min_fill_size \<and> \<not> hr_is_gen_alloc_region (gh_hr h p) \<and> p \<in> set (gh_enqueued h)"

lemma retire_gen:
  assumes "heap_rep h xs ys" and "alloc_region_ok True (gen_active g) ar h" and "gen_amb env h"
  shows "\<exists>h'. retire (gen_retire_region env) batches True ar h = Inr (ar\<lparr>ar_used_bytes_before := 0, ar_region := AR_Dummy\<rparr>, h') \<and>
    heap_rep h' xs ys \<and> steady {} (ar_regs ar) h h' \<and> gen_amb env h' \<and>
    (\<forall>p. ar_region ar = AR_Region p \<and> g \<noteq> 0 \<and> hr_active_tlabs (gh_hr h p) = 0 \<longrightarrow> closed_region p h')"
proof (cases "ar_region ar")
  case (AR_Region p)
  have a: "gen_active g h p" "\<not> hr_is_empty (gh_hr h p)" "ar_used_bytes_before ar \<le> used (gh_hr h p)" "ar_bot_updates ar"
    using assms(2) AR_Region by (auto simp: alloc_region_ok_def)
  have u: "unowned h p" "hr_gen (gh_hr h p) = g" using a(1) by (auto simp: gen_active_def)
  have le: "hr_top (gh_hr h p) \<le> hr_end (gh_hr h p)" using u(1) by (auto simp: unowned_def region_inv_def)
  obtain r' where r': "fill_up_remaining_space True batches (gh_hr h p) = Inr r'" "grown (gh_hr h p) r'" "hr_end r' - hr_top r' < min_fill_size"
    using fill_up_spec [OF a(2) le, of True batches] by auto
  note g = grown_facts [OF r'(2)]
  let ?h = "gh_put p r' h"
  have rep: "heap_rep ?h xs ys" using keeps_rep [OF assms(1) keeps_put] rep_notin [OF assms(1) u(1)] by blast
  have l: "gen_amb env ?h" "gen_active g ?h p" "\<not> hr_is_empty (gh_hr ?h p)"
    using assms(3) a(2) g gen_grown [OF a(1) r'(2)] by (simp_all add: gen_amb_def not_empty_iff)
  obtain h' where h': "gen_retire_region env p (used r' - ar_used_bytes_before ar) ar ?h = Inr h'" "heap_rep h' xs ys" "gen_amb env h'"
      "\<not> hr_is_gen_alloc_region (gh_hr h' p)" "steady {} {p} ?h h'"
      "gh_enqueued h' = (if hr_gen (gh_hr ?h p) \<noteq> 0 \<and> hr_active_tlabs (gh_hr ?h p) = 0 then p # gh_enqueued ?h else gh_enqueued ?h)"
    using gen_retire [OF rep l, of "used r' - ar_used_bytes_before ar" ar] by blast
  have "ar_used_bytes_before ar \<le> used r'" using a(3) grown_used [OF r'(2)] by linarith
  then have "retire (gen_retire_region env) batches True ar h = Inr (ar\<lparr>ar_used_bytes_before := 0, ar_region := AR_Dummy\<rparr>, h')"
    using a(2,4) r'(1) h'(1) unfolding retire_def AR_Region ar_ptr.case by (simp add: gh_on_def Let_def)
  moreover have "steady {} (ar_regs ar) h h'"
    using steady_trans [OF grown_steady [OF r'(2), of "{p}" "{}"] h'(5), of "{}" "{p}"] AR_Region by (simp add: ar_regs_def)
  moreover have "closed_region p h'" if "g \<noteq> 0" "hr_active_tlabs (gh_hr h p) = 0"
  proof -
    have "hr_gen r' = g" "hr_active_tlabs r' = 0" using u(2) that(2) g(10,15) by simp_all
    moreover have "placed (gh_hr ?h p) (gh_hr h' p)" using h'(5) unfolding steady_def by blast
    ultimately show ?thesis using h'(4,6) that(1) r'(3) by (auto simp: closed_region_def placed_def)
  qed
  ultimately show ?thesis using h'(2,3) AR_Region by auto
next
  case AR_Dummy
  then have "ar\<lparr>ar_used_bytes_before := 0, ar_region := AR_Dummy\<rparr> = ar" using assms(2) by (simp add: alloc_region_ok_def)
  then show ?thesis using AR_Dummy assms steady_refl by (auto simp: retire_def)
qed (use assms(2) in \<open>simp add: alloc_region_ok_def\<close>)

subsection \<open>Rebasing a generation\<close>

lemma swept_facts:
  assumes "swept s s'"
  shows "vm_gens s' = vm_gens s" "g1_hrs s' = g1_hrs s" "gh_mt (as_heap s') = gh_mt (as_heap s)"
    "gh_inc_cset_active (as_heap s') = gh_inc_cset_active (as_heap s)"
proof -
  have e: "s' = s\<lparr>as_heap := as_heap s', as_mem := as_mem s'\<rparr>" using assms by (simp add: swept_def)
  show "vm_gens s' = vm_gens s" "g1_hrs s' = g1_hrs s" by (subst e, simp)+
qed (use assms in \<open>simp_all add: swept_def\<close>)

lemma threads_ok_steady:
  assumes "threads_ok fl ths s" and "steady {} Q (as_heap s) h'"
  shows "threads_ok fl ths (s\<lparr>as_heap := h', vm_gens := gens\<rparr>)"
proof -
  let ?s = "s\<lparr>as_heap := h', vm_gens := gens\<rparr>"
  have p: "placed (gh_hr (as_heap s) q) (gh_hr h' q)" "hr_gen (gh_hr h' q) = hr_gen (gh_hr (as_heap s) q)"
      "hr_young_type (gh_hr h' q) = hr_young_type (gh_hr (as_heap s) q)" "gh_grain h' = gh_grain (as_heap s)" for q
    using assms(2) by (auto simp: steady_def)
  have l: "lies_in fl ?s g t q" if "lies_in fl s g t q" for g t q
    using that p(1-3) [of q] p(4) by (auto simp: lies_in_def placed_def in_gen_def)
  have b: "buf_ok fl ?s g t" if "buf_ok fl s g t" for g t
    using that l tlab_ok_reserved [of ?s s fl t] by (auto simp: buf_ok_def)
  have "hr_active_tlabs (gh_hr h' q) = hr_active_tlabs (gh_hr (as_heap s) q)" for q using p(1) [of q] by (simp add: placed_def)
  then show ?thesis using assms(1) b by (simp add: threads_ok_def bufs_ok_def)
qed

text \<open>A region of a generation all of whose buffers have been retired counts no buffer.\<close>

lemma no_buffers_left:
  assumes "drained fl ths0 ({..<length ths0} \<times> {g}) ths s" and "gen_active (int g) (as_heap s) p" and "g < NG2C_GEN_ARRAY_SIZE"
  shows "hr_active_tlabs (gh_hr (as_heap s) p) = 0"
proof -
  have d: "bufs_ok fl (bufs ths) (buf ths) s" "bufs ths = bufs ths0" using assms(1) by (auto simp: drained_def threads_ok_def bufs_def)
  have "{b \<in> bufs ths. tl_my_heap_region (buf ths b) = Some p} = {}"
  proof (rule ccontr)
    assume "{b \<in> bufs ths. tl_my_heap_region (buf ths b) = Some p} \<noteq> {}"
    then obtain b where b: "b \<in> bufs ths" "tl_my_heap_region (buf ths b) = Some p" by auto
    have u: "tl_end (buf ths b) \<noteq> 0" using bufs_okD(1) [OF d(1) b(1)] b(2) by (auto simp: tlab_ok_def)
    then have "lies_in fl s (snd b) (buf ths b) p" using bufs_okD(3) [OF d(1) b(1)] b(2) by auto
    then have "snd b = g" using assms(2) by (auto simp: lies_in_def in_gen_def gen_active_def split: if_splits)
    moreover have b0: "b \<in> bufs ths0" using b(1) d(2) by simp
    ultimately have "b \<in> {..<length ths0} \<times> {g}" by (cases b) (simp add: bufs_def)
    then show False using assms(1) b0 u unfolding drained_def by (meson)
  qed
  then show ?thesis using d(1) by (simp add: bufs_ok_def)
qed

lemma rebase_run:
  assumes "flags_ok fl" "gen_amb env (as_heap s)" "is_at_safepoint (gh_mt (as_heap s))" and "threads_ok fl ths s" and "core_ok s xs ys"
    and "0 < g" "g < NG2C_GEN_ARRAY_SIZE" "g < length (vm_gens s)" "vm_gens s ! g = Some ar"
  shows "\<exists>ths' s'. rebase_alloc_gen fl env (int g) ths s = Inr (ths', s') \<and> core_ok s' xs ys \<and>
    drained fl ths ({..<length ths} \<times> {g}) ths' s' \<and> gh_mt (as_heap s') = gh_mt (as_heap s) \<and>
    gh_inc_cset_active (as_heap s') = gh_inc_cset_active (as_heap s) \<and>
    vm_gens s' = (vm_gens s)[g := Some (ar\<lparr>ar_used_bytes_before := 0, ar_region := AR_Dummy\<rparr>)] \<and>
    (\<forall>p. ar_region ar = AR_Region p \<longrightarrow> closed_region p (as_heap s'))"
proof -
  let ?act = "collect_gen_do_thread fl env (int g)" and ?ar = "ar\<lparr>ar_used_bytes_before := 0, ar_region := AR_Dummy\<rparr>"
  have e: "\<forall>q. 0 < env_obj_size env q" "is_VM_thread (gh_mt (as_heap s))" using assms(2,3) by (auto simp: gen_amb_def)
  have each: "?act th t = rfold (\<lambda>i (th, s). make_tlab_parsable fl env True i th s) [g] (th, t)" if "thread_wf th" for th t
    using that assms(6,7) by (simp add: collect_gen_do_thread_def thread_wf_def rbind_def split: sum.splits)
  have "drained fl ths ({..<length []} \<times> set [g]) ([] @ ths) s" using assms(4) by (simp add: drained_def)
  from drain_all [OF assms(1) e(1) assms(4) _ _ each this assms(5)] assms(7) obtain ths1 s1 where
    r: "rfold (\<lambda>th (done_ths, s1). rbind (?act th s1) (\<lambda>(th1, s2). Inr (done_ths @ [th1], s2))) ths ([], s) = Inr (ths1, s1)"
      "drained fl ths ({..<length ths} \<times> {g}) ths1 s1" "core_ok s1 xs ys" "swept s s1" by auto
  have f: "vm_gens s1 = vm_gens s" "gh_mt (as_heap s1) = gh_mt (as_heap s)" "gh_inc_cset_active (as_heap s1) = gh_inc_cset_active (as_heap s)"
      "g1_hrs s1 = g1_hrs s"
    using swept_facts [OF r(4)] by simp_all
  have amb: "gen_amb env (as_heap s1)" using assms(2) f(2) by (simp add: gen_amb_def)
  have ro: "regions_ok (seq_length (g1_hrs s1)) (vm_mutator s1) (vm_gens s1) (as_heap s1)" "heap_rep (as_heap s1) xs ys"
    using r(3) by (auto simp: core_ok_def)
  then have ok: "alloc_region_ok True (gen_active (int g)) ar (as_heap s1)" "gr_gen ar = int g" "ar_regs ar \<subseteq> {..<seq_length (g1_hrs s1)}"
    using assms(6,8,9) f(1) by (force simp: regions_ok_def)+
  obtain h' where h': "retire (gen_retire_region env) [] True ar (as_heap s1) = Inr (?ar, h')" "heap_rep h' xs ys" "steady {} (ar_regs ar) (as_heap s1) h'"
      "\<forall>p. ar_region ar = AR_Region p \<and> int g \<noteq> 0 \<and> hr_active_tlabs (gh_hr (as_heap s1) p) = 0 \<longrightarrow> closed_region p h'"
    using retire_gen [OF ro(2) ok(1) amb, of "[]"] by blast
  let ?s = "s1\<lparr>as_heap := h', vm_gens := (vm_gens s1)[g := Some ?ar]\<rparr>"
  have "rebase_alloc_gen fl env (int g) ths s = Inr (ths1, ?s)"
    using r(1) assms(3,6,8,9) e(2) f(1) h'(1) by (simp add: rebase_alloc_gen_def gens_at_def)
  moreover have "regions_ok (seq_length (g1_hrs s1)) (vm_mutator s1) ((vm_gens s1)[g := Some ?ar]) h'"
    using assms(6,8,9) f(1) ok
    by (intro regions_ok_gen [OF ro steady_mono [OF h'(3)]]) (auto simp: alloc_region_ok_def ar_regs_def)
  then have "core_ok ?s xs ys" using r(3) h'(2) seq_inv_steady [OF _ h'(3) ok(3)] by (simp add: core_ok_def)
  moreover have "threads_ok fl ths1 ?s" using r(2) by (intro threads_ok_steady [OF _ h'(3)]) (simp add: drained_def)
  then have "drained fl ths ({..<length ths} \<times> {g}) ths1 ?s" using r(2) by (simp add: drained_def)
  moreover have "closed_region p h'" if "ar_region ar = AR_Region p" for p
  proof -
    have "gen_active (int g) (as_heap s1) p" using ok(1) that by (simp add: alloc_region_ok_def)
    then show ?thesis using h'(4) that no_buffers_left [OF r(2) _ assms(7)] assms(6) by simp
  qed
  ultimately show ?thesis using f h'(3) by (intro exI [of _ ths1] exI [of _ ?s]) (simp add: steady_def)
qed

subsection \<open>Around a collection\<close>

text \<open>A loop over the generations that changes each of them with \<open>f\<close>.\<close>

lemma gens_fold:
  assumes "P k s" "k \<le> n" "n = length (vm_gens s)"
    and step: "\<And>i s. P i s \<Longrightarrow> k \<le> i \<Longrightarrow> i < n \<Longrightarrow> length (vm_gens s) = n \<Longrightarrow>
      \<exists>s'. F i s = Inr s' \<and> vm_gens s' = (vm_gens s)[i := map_option f (vm_gens s ! i)] \<and> P (Suc i) s'"
  shows "\<exists>s'. rfold F [k..<n] s = Inr s' \<and> vm_gens s' = take k (vm_gens s) @ map (map_option f) (drop k (vm_gens s)) \<and> P n s'"
  using assms
proof (induction "n - k" arbitrary: k s)
  case (Suc d)
  then have k: "k < n" by simp
  obtain s1 where s1: "F k s = Inr s1" "vm_gens s1 = (vm_gens s)[k := map_option f (vm_gens s ! k)]" "P (Suc k) s1"
    using Suc.prems(4) [OF Suc.prems(1) order_refl k Suc.prems(3) [symmetric]] by blast
  have c: "d = n - Suc k" "Suc k \<le> n" "n = length (vm_gens s1)" using Suc.hyps(2) k s1(2) Suc.prems(3) by auto
  have st: "\<exists>s'. F i t = Inr s' \<and> vm_gens s' = (vm_gens t)[i := map_option f (vm_gens t ! i)] \<and> P (Suc i) s'"
    if "P i t" "Suc k \<le> i" "i < n" "length (vm_gens t) = n" for i t
    by (rule Suc.prems(4) [OF that(1) _ that(3,4)]) (use that(2) in simp)
  from Suc.hyps(1) [OF c(1) s1(3) c(2,3) st]
  obtain s' where s': "rfold F [Suc k..<n] s1 = Inr s'" "P n s'"
      "vm_gens s' = take (Suc k) (vm_gens s1) @ map (map_option f) (drop (Suc k) (vm_gens s1))" by blast
  have "vm_gens s' = take k (vm_gens s) @ map (map_option f) (drop k (vm_gens s))"
    using s'(3) s1(2) k Suc.prems(3) by (simp add: take_Suc_conv_app_nth Cons_nth_drop_Suc [symmetric])
  then show ?case using s1(1) s'(1,2) k by (simp add: upt_conv_Cons)
qed simp

definition released :: "gen_alloc_region \<Rightarrow> gen_alloc_region" where
  "released ar = ar\<lparr>ar_used_bytes_before := 0, ar_region := AR_Null\<rparr>"

lemma release_gen:
  assumes "heap_rep h xs ys" and "alloc_region_ok True (gen_active g) ar h" and "gen_amb env h" and "0 < g"
  shows "\<exists>q h'. release (gen_retire_region env) [] ar h = Inr (q, released ar, h') \<and> heap_rep h' xs ys \<and> steady {} (ar_regs ar) h h' \<and> gen_amb env h'"
proof (cases "ar_region ar")
  case (AR_Region p)
  have "hr_gen (gh_hr h p) = g" using assms(2) AR_Region by (simp add: alloc_region_ok_def gen_active_def)
  then show ?thesis using retire_gen [OF assms(1-3), of "[]"] AR_Region assms(4) by (auto simp: release_def ar_hr_def released_def)
next
  case AR_Dummy
  then have "ar\<lparr>ar_region := AR_Null\<rparr> = released ar" using assms(2) by (simp add: alloc_region_ok_def released_def)
  then show ?thesis using AR_Dummy assms steady_refl by (auto simp: release_def ar_hr_def retire_def)
qed (use assms(2) in \<open>simp add: alloc_region_ok_def\<close>)

text \<open>The generations from \<open>k\<close> on still have their allocation regions.\<close>

definition gens_from :: "nat \<Rightarrow> nat \<Rightarrow> g1_env \<Rightarrow> nat list \<Rightarrow> nat list \<Rightarrow> vm \<Rightarrow> bool" where
  "gens_from n k env xs ys s \<longleftrightarrow>
     heap_rep (as_heap s) xs ys \<and> gen_amb env (as_heap s) \<and>
     (\<forall>i. k \<le> i \<and> i < n \<longrightarrow> (\<exists>ar. vm_gens s ! i = Some ar \<and> alloc_region_ok True (gen_active (int i)) ar (as_heap s)))"

lemma release_step:
  assumes "gens_from n k env xs ys s" and "0 < k" "k < n" "length (vm_gens s) = n"
  shows "\<exists>s'. rbind (gens_at (int k) s) (\<lambda>r. rbind (deref r ''_gen_alloc_regions->at(i)'') (\<lambda>ar.
       rbind (release (gen_retire_region env) [] ar (as_heap s)) (\<lambda>(_, ar1, h).
         vassert (ar_get ar1 = None) ''post-condition'' (Inr (s\<lparr>as_heap := h, vm_gens := (vm_gens s)[k := Some ar1]\<rparr>))))) = Inr s' \<and>
    vm_gens s' = (vm_gens s)[k := map_option released (vm_gens s ! k)] \<and> gens_from n (Suc k) env xs ys s'"
proof -
  obtain ar where ar: "vm_gens s ! k = Some ar" "alloc_region_ok True (gen_active (int k)) ar (as_heap s)"
    using assms by (auto simp: gens_from_def)
  have h: "heap_rep (as_heap s) xs ys" "gen_amb env (as_heap s)" using assms(1) by (auto simp: gens_from_def)
  obtain q h' where r: "release (gen_retire_region env) [] ar (as_heap s) = Inr (q, released ar, h')" "heap_rep h' xs ys"
      "steady {} (ar_regs ar) (as_heap s) h'" "gen_amb env h'" using release_gen [OF h(1) ar(2) h(2)] assms(2) by auto
  have f: "untouched (ar_regs ar) (as_heap s) h'" "gh_grain h' = gh_grain (as_heap s)" using r(3) by (auto simp: steady_def)
  have keep: "alloc_region_ok True (gen_active (int i)) a h'" if "alloc_region_ok True (gen_active (int i)) a (as_heap s)" "k < i" for i and a :: gen_alloc_region
  proof (rule same_gen_region_ok [OF f _ that(1)])
    show "ar_regs a \<inter> ar_regs ar = {}" using active_regs [OF that(1)] active_regs [OF ar(2)] that(2) by fastforce
  qed
  have "\<exists>a. vm_gens s ! i = Some a \<and> alloc_region_ok True (gen_active (int i)) a h'" if i: "Suc k \<le> i" "i < n" for i
  proof -
    obtain a where "vm_gens s ! i = Some a" "alloc_region_ok True (gen_active (int i)) a (as_heap s)"
      using assms(1) i unfolding gens_from_def by (meson Suc_leD)
    then show ?thesis using keep i(1) by auto
  qed
  then have "gens_from n (Suc k) env xs ys (s\<lparr>as_heap := h', vm_gens := (vm_gens s)[k := Some (released ar)]\<rparr>)"
    using r(2,4) by (simp add: gens_from_def)
  then show ?thesis using ar(1) r(1) assms(3,4) by (simp add: gens_at_def released_def ar_get_def)
qed

lemma release_all:
  assumes "gens_from (length (vm_gens s)) 1 env xs ys s" and "1 \<le> length (vm_gens s)"
  shows "\<exists>s'. release_gen_alloc_regions env s = Inr s' \<and> heap_rep (as_heap s') xs ys \<and> gen_amb env (as_heap s') \<and>
    vm_gens s' = take 1 (vm_gens s) @ map (map_option released) (drop 1 (vm_gens s))"
proof -
  let ?n = "length (vm_gens s)"
  let ?F = "\<lambda>k s. rbind (gens_at (int k) s) (\<lambda>r. rbind (deref r ''_gen_alloc_regions->at(i)'') (\<lambda>ar.
       rbind (release (gen_retire_region env) [] ar (as_heap s)) (\<lambda>(_, ar1, h).
         vassert (ar_get ar1 = None) ''post-condition'' (Inr (s\<lparr>as_heap := h, vm_gens := (vm_gens s)[k := Some ar1]\<rparr>)))))"
  have "\<exists>s'. ?F i t = Inr s' \<and> vm_gens s' = (vm_gens t)[i := map_option released (vm_gens t ! i)] \<and> gens_from ?n (Suc i) env xs ys s'"
    if "gens_from ?n i env xs ys t" "1 \<le> i" "i < ?n" "length (vm_gens t) = ?n" for i t
    by (rule release_step [OF that(1) _ that(3,4)]) (use that(2) in simp)
  from gens_fold [where P = "\<lambda>k. gens_from ?n k env xs ys" and F = ?F and f = released, OF assms refl this] show ?thesis
    unfolding release_gen_alloc_regions_def gens_from_def by blast
qed

definition readied :: "gen_alloc_region \<Rightarrow> gen_alloc_region" where
  "readied ar = ar\<lparr>ar_region := AR_Dummy, ar_count := 0\<rparr>"

lemma init_all:
  assumes "\<forall>i. 0 < i \<and> i < length (vm_gens s) \<longrightarrow> (\<exists>ar. vm_gens s ! i = Some ar \<and> ar_region ar = AR_Null \<and> ar_used_bytes_before ar = 0)"
    and "1 \<le> length (vm_gens s)"
  shows "\<exists>s'. init_gen_alloc_regions s = Inr s' \<and> vm_gens s' = take 1 (vm_gens s) @ map (map_option readied) (drop 1 (vm_gens s)) \<and>
    s' = s\<lparr>vm_gens := vm_gens s'\<rparr>"
proof -
  let ?n = "length (vm_gens s)"
  let ?P = "\<lambda>k t. (\<forall>i. k \<le> i \<and> i < ?n \<longrightarrow> (\<exists>ar. vm_gens t ! i = Some ar \<and> ar_region ar = AR_Null \<and> ar_used_bytes_before ar = 0)) \<and>
      t = s\<lparr>vm_gens := vm_gens t\<rparr>"
  let ?F = "\<lambda>i s. rbind (gens_at (int i) s) (\<lambda>r. rbind (deref r ''_gen_alloc_regions->at(i)'') (\<lambda>ar. vassert (ar_get ar = None) ''pre-condition''
         (rbind (ar_init ar) (\<lambda>ar1. Inr (s\<lparr>vm_gens := (vm_gens s)[i := Some ar1]\<rparr>)))))"
  have step: "\<exists>s'. ?F i t = Inr s' \<and> vm_gens s' = (vm_gens t)[i := map_option readied (vm_gens t ! i)] \<and> ?P (Suc i) s'"
    if p: "?P i t" "1 \<le> i" "i < ?n" "length (vm_gens t) = ?n" for i t
  proof -
    obtain ar where ar: "vm_gens t ! i = Some ar" "ar_region ar = AR_Null" "ar_used_bytes_before ar = 0" using p(1,3) by auto
    have t: "t = s\<lparr>vm_gens := vm_gens t\<rparr>" using p(1) by blast
    have u: "t\<lparr>vm_gens := x\<rparr> = s\<lparr>vm_gens := x\<rparr>" for x by (subst t) simp
    have "?F i t = Inr (s\<lparr>vm_gens := (vm_gens t)[i := Some (readied ar)]\<rparr>)"
      using p(3,4) ar unfolding u [symmetric] by (simp add: gens_at_def ar_init_def ar_get_def readied_def)
    then show ?thesis using p(1,4) ar(1) by auto
  qed
  have "?P 1 s" using assms(1) by auto
  from gens_fold [where P = ?P and F = ?F and f = readied, OF this assms(2) refl step] show ?thesis
    unfolding init_gen_alloc_regions_def by blast
qed

lemma init_released:
  assumes "vm_gens s = take 1 gs @ map (map_option released) (drop 1 gs)" and "1 \<le> length gs"
    and some: "\<And>i. 0 < i \<Longrightarrow> i < length gs \<Longrightarrow> \<exists>ar. gs ! i = Some ar"
  shows "\<exists>gens. init_gen_alloc_regions s = Inr (s\<lparr>vm_gens := gens\<rparr>) \<and>
    (\<forall>i. 0 < i \<and> i < length gs \<longrightarrow> gens ! i = map_option (\<lambda>ar. readied (released ar)) (gs ! i))"
proof -
  have n: "length (vm_gens s) = length gs" using assms(1,2) by simp
  have g: "vm_gens s ! i = map_option released (gs ! i)" if "0 < i" "i < length gs" for i
    using assms(1) that by (simp add: nth_append)
  have "\<exists>ar. vm_gens s ! i = Some ar \<and> ar_region ar = AR_Null \<and> ar_used_bytes_before ar = 0" if "0 < i" "i < length gs" for i
    using some [OF that] g [OF that] by (auto simp: released_def)
  then obtain s' where s': "init_gen_alloc_regions s = Inr s'" "s' = s\<lparr>vm_gens := vm_gens s'\<rparr>"
      "vm_gens s' = take 1 (vm_gens s) @ map (map_option readied) (drop 1 (vm_gens s))"
    using init_all [of s] n assms(2) by auto
  have "vm_gens s' ! i = map_option (\<lambda>ar. readied (released ar)) (gs ! i)" if "0 < i" "i < length gs" for i
    using s'(3) that n g [OF that] some [OF that] by (auto simp: nth_append)
  then show ?thesis using s'(1,2) by metis
qed

lemma new_epoch_core:
  assumes "core_ok s xs ys" and "0 < g" "g < length (vm_gens s)" "vm_gens s ! g = Some ar"
  shows "core_ok (s\<lparr>vm_gens := (vm_gens s)[g := Some (new_epoch ar)]\<rparr>) xs ys"
proof -
  have r: "regions_ok (seq_length (g1_hrs s)) (vm_mutator s) (vm_gens s) (as_heap s)" "heap_rep (as_heap s) xs ys" using assms(1) by (auto simp: core_ok_def)
  then have "alloc_region_ok True (gen_active (int g)) ar (as_heap s)" "ar_regs ar \<subseteq> {..<seq_length (g1_hrs s)}" "gr_gen ar = int g"
    using assms(2-4) by (force simp: regions_ok_def)+
  then have "alloc_region_ok True (gen_active (int g)) (new_epoch ar) (as_heap s)" "ar_regs (new_epoch ar) \<subseteq> {..<seq_length (g1_hrs s)}"
      "gr_gen (new_epoch ar) = int g"
    by (simp_all add: new_epoch_def alloc_region_ok_def ar_regs_def split: ar_ptr.splits)
  then show ?thesis using assms(1) regions_ok_gen [OF r steady_refl assms(4,2,3)] by (simp add: core_ok_def)
qed

lemma gens_setup_eq:
  "gens_setup = Inr (None # map (\<lambda>i. Some \<lparr>ar_region = AR_Null, ar_count = 0, ar_used_bytes_before = 0, ar_bot_updates = True,
     gr_gen = int i, gr_epoch = 0, gr_nregions = 0\<rparr>) [1..<NG2C_GEN_ARRAY_SIZE])"
proof -
  let ?f = "\<lambda>i. Some \<lparr>ar_region = AR_Null, ar_count = 0, ar_used_bytes_before = 0, ar_bot_updates = True, gr_gen = int i, gr_epoch = 0, gr_nregions = 0\<rparr>"
  have "rfold (\<lambda>i gens. rbind (GenAllocRegion (int i)) (\<lambda>ar. Inr (gens @ [Some ar]))) il gens = Inr (gens @ map ?f il)" if "0 \<notin> set il" for il gens
    using that by (induction il arbitrary: gens) (auto simp: GenAllocRegion_def)
  then show ?thesis by (simp add: gens_setup_def)
qed

section \<open>An example\<close>

text \<open>Generation 1 in its third epoch, allocating in region 0, in which the thread has a buffer.\<close>

definition sample_gen1 :: gen_alloc_region where
  "sample_gen1 = \<lparr>ar_region = AR_Region 0, ar_count = 1, ar_used_bytes_before = 0, ar_bot_updates = True, gr_gen = 1, gr_epoch = 3, gr_nregions = 1\<rparr>"

definition sample_gen_heap :: g1_heap where
  "sample_gen_heap = gh_put 0 ((gh_hr (as_heap sample_safepoint) 0)\<lparr>hr_is_gen_alloc_region := True\<rparr>) (as_heap sample_safepoint)"

definition sample_epoch :: vm where
  "sample_epoch = with_mt ((gh_mt sample_gen_heap)\<lparr>is_at_safepoint := False\<rparr>)
     (sample_safepoint\<lparr>as_heap := sample_gen_heap, vm_gens := [None, Some sample_gen1]\<rparr>)"

lemma sample_gen_steady: "steady {} {0} (as_heap sample_safepoint) sample_gen_heap"
  unfolding sample_gen_heap_def by (rule keeps_steady [OF keeps_put]) (simp_all add: placed_def)

lemma sample_gen_active: "gen_active 1 sample_gen_heap 0" "\<not> hr_is_empty (gh_hr sample_gen_heap 0)"
  by (simp_all add: gen_active_def sample_gen_heap_def unowned_def sample_safepoint_def sample_vm_def sample_g1_heap_def sample_heap_def sample_layout_def
      sample_store_def sample_region_def tag_hr_def put_hr_def isHumongous_def region_inv_def region_preds hr_is_empty_def used_def HeapWordSize_def)

lemma sample_epoch_ok: "vm_ok sample_epoch [2] []" "threads_ok sample_flags [sample_owner] sample_epoch"
proof -
  let ?s = "sample_safepoint\<lparr>as_heap := sample_gen_heap, vm_gens := [None, Some sample_gen1]\<rparr>"
  show "threads_ok sample_flags [sample_owner] sample_epoch"
    unfolding sample_epoch_def threads_ok_mt by (rule threads_ok_steady [OF sample_owner_ok sample_gen_steady])
  have c: "heap_rep (as_heap sample_safepoint) [2] []" "seq_inv (g1_hrs sample_safepoint) (gh_st (as_heap sample_safepoint))"
      "regions_ok (seq_length (g1_hrs sample_safepoint)) (vm_mutator sample_safepoint) (vm_gens sample_safepoint) (as_heap sample_safepoint)"
    using sample_safepoint_core by (auto simp: core_ok_def)
  have l: "seq_length (g1_hrs sample_safepoint) = 3" "ar_region (vm_mutator sample_safepoint) = AR_Dummy"
    by (simp_all add: sample_safepoint_def sample_vm_def sample_region_seq_def seq_length_def)
  have "heap_rep sample_gen_heap [2] []"
    using keeps_rep [OF c(1) keeps_put, of 0] unfolding sample_gen_heap_def by simp
  moreover have "seq_inv (g1_hrs sample_safepoint) (gh_st sample_gen_heap)" using seq_inv_steady [OF c(2) sample_gen_steady] l(1) by simp
  moreover have "regions_ok 3 (vm_mutator sample_safepoint) [None, Some sample_gen1] sample_gen_heap"
    using c(3) l sample_gen_active by (auto simp: regions_ok_def alloc_region_ok_def sample_gen1_def ar_regs_def less_Suc_eq)
  ultimately have "core_ok ?s [2] []" using sample_safepoint_core l(1) by (simp add: core_ok_def)
  then have "core_ok sample_epoch [2] []" unfolding sample_epoch_def by (subst core_ok_mt) simp_all
  moreover have "gh_inc_cset_active sample_gen_heap" "\<not> Heap_lock (gh_mt sample_gen_heap)"
    by (simp_all add: sample_gen_heap_def sample_safepoint_def sample_vm_def sample_g1_heap_def sample_heap_def)
  ultimately show "vm_ok sample_epoch [2] []"
    by (simp add: vm_ok_core heap_not_locked_and_not_at_safepoint_def sample_epoch_def)
qed

section \<open>Properties\<close>

text \<open>The old and the humongous regions have reached the share of the heap at which marking starts.\<close>

definition occupancy_reached :: "nat \<Rightarrow> vm \<Rightarrow> bool" where
  "occupancy_reached ihop s \<longleftrightarrow>
     g1_capacity s div 100 * ihop < non_young_capacity_bytes (as_heap s) + GrainBytes (gh_grain (as_heap s)) * HeapWordSize"

text \<open>C13. Starting a new epoch of a generation, with the heap below the marking threshold, is executed as a VM
  operation that is never skipped and no assertion of which fails: the epoch goes up by one, no thread has a
  buffer of the generation any more and the memory of its former buffers can be walked, the buffers of the
  other generations are untouched, and the former allocation region is full, given up and its cards are
  enqueued for refinement, so that no object of the new epoch joins objects of the old one.  The invariants of heap and buffers
  hold again, outside the safepoint and with the lock released.\<close>

theorem collect_alloc_gen_rebases:
  assumes "vm_ok s xs ys" and "flags_ok fl" "\<forall>q. 0 < env_obj_size env q" and "threads_ok fl ths s"
    and "0 < g" "g < NG2C_GEN_ARRAY_SIZE" "g < length (vm_gens s)" "vm_gens s ! g = Some ar" and "\<not> occupancy_reached ihop s"
  shows "\<exists>ths' s'. collect_alloc_gen fl env ihop gc vw (int g) ths s = Inr (ths', s') \<and> vm_ok s' xs ys \<and>
    drained fl ths ({..<length ths} \<times> {g}) ths' s' \<and>
    vm_gens s' = (vm_gens s)[g := Some ((new_epoch ar)\<lparr>ar_used_bytes_before := 0, ar_region := AR_Dummy\<rparr>)] \<and>
    (\<forall>p. ar_region ar = AR_Region p \<longrightarrow> closed_region p (as_heap s'))"
proof -
  define s1 where "s1 = s\<lparr>vm_gens := (vm_gens s)[g := Some (new_epoch ar)]\<rparr>"
  define m where "m = (gh_mt (as_heap s))\<lparr>Heap_lock := True, is_at_safepoint := True, is_VM_thread := True\<rparr>"
  have s1: "as_heap s1 = as_heap s" "as_reserved s1 = as_reserved s" "g1_high s1 = g1_high s" "vm_gens s1 ! g = Some (new_epoch ar)" "length (vm_gens s1) = length (vm_gens s)"
    using assms(7) by (simp_all add: s1_def)
  have v: "core_ok s xs ys" "\<not> Heap_lock (gh_mt (as_heap s))" "\<not> is_at_safepoint (gh_mt (as_heap s))" "gh_inc_cset_active (as_heap s)"
    using assms(1) by (auto simp: vm_ok_core heap_not_locked_and_not_at_safepoint_def)
  have "core_ok s1 xs ys" unfolding s1_def by (rule new_epoch_core [OF v(1) assms(5,7,8)])
  then have c: "core_ok (with_mt m s1) xs ys" by (subst core_ok_mt) (simp_all add: m_def s1)
  have t: "threads_ok fl ths (with_mt m s1)" using threads_ok_steady [OF assms(4) steady_refl] by (simp add: s1_def)
  obtain ths' s' where r: "rebase_alloc_gen fl env (int g) ths (with_mt m s1) = Inr (ths', s')" "core_ok s' xs ys"
      "drained fl ths ({..<length ths} \<times> {g}) ths' s'" "gh_mt (as_heap s') = m" "gh_inc_cset_active (as_heap s')"
      "vm_gens s' = (vm_gens s1)[g := Some ((new_epoch ar)\<lparr>ar_used_bytes_before := 0, ar_region := AR_Dummy\<rparr>)]"
      "\<forall>p. ar_region ar = AR_Region p \<longrightarrow> closed_region p (as_heap s')"
    using rebase_run [OF assms(2) _ _ t c assms(5,6), of env "new_epoch ar"] assms(3,7) s1 v(4) by (auto simp: gen_amb_def m_def new_epoch_def)
  let ?m = "m\<lparr>is_at_safepoint := False, is_VM_thread := False, Heap_lock := False\<rparr>"
  have x: "set_safepoint True (s1\<lparr>as_heap := set_heap_lock True (as_heap s1)\<rparr>) = with_mt m s1" "doit_epilogue (set_safepoint False s') = with_mt ?m s'"
    unfolding mt_changes with_mt_simps r(4) by (simp_all add: s1(1) m_def)
  have "collect_alloc_gen fl env ihop gc vw (int g) ths s = vm_thread_execute vw VM_Rebase_Gen (rebase_alloc_gen fl env (int g)) ths s1"
    using assms(5,7-9) unfolding collect_alloc_gen_def
    by (simp add: gens_at_def s1_def [symmetric] Let_def s1 g1_capacity_def occupancy_reached_def)
  also have "\<dots> = Inr (ths', with_mt ?m s')"
    using r(1) x by (simp add: vm_thread_execute_def doit_prologue_def skip_operation_def VM_Rebase_Gen_def Let_def)
  finally have run: "collect_alloc_gen fl env ihop gc vw (int g) ths s = Inr (ths', with_mt ?m s')" .
  have "core_ok (with_mt ?m s') xs ys" using r(2,4) by (subst core_ok_mt) simp_all
  then have "vm_ok (with_mt ?m s') xs ys" using r(5) by (simp add: vm_ok_core heap_not_locked_and_not_at_safepoint_def)
  then show ?thesis using run r(3,6,7) by (intro exI [of _ ths'] exI [of _ "with_mt ?m s'"]) (simp add: s1_def closed_region_def)
qed

theorem collect_alloc_gen_rebases_witness:
  "\<exists>ths' s' ar. collect_alloc_gen sample_flags sample_env 100000 (\<lambda>ths s. Inr (ths, s)) \<lparr>gv_total_full_collections = 0, gv_active_and_needs_gc = True\<rparr> 1
     [sample_owner] sample_epoch = Inr (ths', s') \<and> vm_gens s' ! 1 = Some ar \<and> gr_epoch ar = 4 \<and> closed_region 0 (as_heap s')"
proof -
  have "\<not> occupancy_reached 100000 sample_epoch"
    by (simp add: occupancy_reached_def g1_capacity_def non_young_capacity_bytes_def sample_epoch_def with_mt_def sample_gen_heap_def sample_safepoint_def
        sample_vm_def sample_g1_heap_def sample_heap_def sample_layout_def sample_store_def total_capacity_bytes_def HeapRegionSet_def HeapWordSize_def
        tag_hr_def put_hr_def gh_put_def)
  moreover have "vm_gens sample_epoch = [None, Some sample_gen1]" by (simp add: sample_epoch_def)
  moreover have "\<forall>q. 0 < env_obj_size sample_env q" by (simp add: sample_env_def)
  ultimately show ?thesis
    using collect_alloc_gen_rebases [OF sample_epoch_ok(1) sample_flags_ok _ sample_epoch_ok(2), of sample_env 1 sample_gen1 100000 "\<lambda>ths s. Inr (ths, s)"]
    by (fastforce simp: NG2C_GEN_ARRAY_SIZE_def new_epoch_def sample_gen1_def)
qed

text \<open>C14. Around a collection the allocation regions of all generations are released and initialized again without a
  failing assertion, whatever the collection does to the heap in between: the release retires each region and
  leaves the free lists as they are, and afterwards every generation has its number and epoch and is ready to take a
  region.\<close>

theorem gens_around_collection:
  assumes "core_ok s xs ys" and "gen_amb env (as_heap s)" and "1 \<le> length (vm_gens s)"
  shows "\<exists>s1. release_gen_alloc_regions env s = Inr s1 \<and> heap_rep (as_heap s1) xs ys \<and>
    (\<forall>s2. vm_gens s2 = vm_gens s1 \<longrightarrow> (\<exists>gens. init_gen_alloc_regions s2 = Inr (s2\<lparr>vm_gens := gens\<rparr>) \<and>
       (\<forall>g. 0 < g \<and> g < length (vm_gens s) \<longrightarrow> (\<exists>ar. gens ! g = Some ar \<and> ar_region ar = AR_Dummy \<and> ar_count ar = 0 \<and> ar_used_bytes_before ar = 0 \<and>
          gr_gen ar = int g \<and> map_option gr_epoch (vm_gens s ! g) = Some (gr_epoch ar)))))"
proof -
  let ?n = "length (vm_gens s)"
  have ok: "\<exists>ar. vm_gens s ! i = Some ar \<and> gr_gen ar = int i \<and> alloc_region_ok True (gen_active (int i)) ar (as_heap s)" if "0 < i" "i < ?n" for i
    using assms(1) that by (force simp: core_ok_def regions_ok_def)
  have "gens_from ?n 1 env xs ys s" using assms(1,2) ok unfolding gens_from_def core_ok_def One_nat_def Suc_le_eq by blast
  from release_all [OF this assms(3)] obtain s1 where s1: "release_gen_alloc_regions env s = Inr s1" "heap_rep (as_heap s1) xs ys"
      "vm_gens s1 = take 1 (vm_gens s) @ map (map_option released) (drop 1 (vm_gens s))" by blast
  have "\<exists>gens. init_gen_alloc_regions s2 = Inr (s2\<lparr>vm_gens := gens\<rparr>) \<and>
       (\<forall>g. 0 < g \<and> g < ?n \<longrightarrow> (\<exists>ar. gens ! g = Some ar \<and> ar_region ar = AR_Dummy \<and> ar_count ar = 0 \<and> ar_used_bytes_before ar = 0 \<and>
          gr_gen ar = int g \<and> map_option gr_epoch (vm_gens s ! g) = Some (gr_epoch ar)))" if s2: "vm_gens s2 = vm_gens s1" for s2
  proof -
    have "\<exists>ar. vm_gens s ! i = Some ar" if "0 < i" "i < ?n" for i using ok [OF that] by blast
    from init_released [OF trans [OF s2 s1(3)] assms(3) this] obtain gens where
      gens: "init_gen_alloc_regions s2 = Inr (s2\<lparr>vm_gens := gens\<rparr>)"
        "\<forall>i. 0 < i \<and> i < ?n \<longrightarrow> gens ! i = map_option (\<lambda>ar. readied (released ar)) (vm_gens s ! i)" by blast
    have "\<exists>ar. gens ! i = Some ar \<and> ar_region ar = AR_Dummy \<and> ar_count ar = 0 \<and> ar_used_bytes_before ar = 0 \<and>
        gr_gen ar = int i \<and> map_option gr_epoch (vm_gens s ! i) = Some (gr_epoch ar)" if "0 < i" "i < ?n" for i
      using ok [OF that] gens(2) that by (auto simp: readied_def released_def)
    then show ?thesis using gens(1) by blast
  qed
  then show ?thesis using s1(1,2) by blast
qed

theorem gens_around_collection_witness:
  "\<exists>s1 gens ar. release_gen_alloc_regions sample_env (sample_epoch\<lparr>as_heap := set_heap_lock True (as_heap sample_epoch)\<rparr>) = Inr s1 \<and>
     init_gen_alloc_regions s1 = Inr (s1\<lparr>vm_gens := gens\<rparr>) \<and> gens ! 1 = Some ar \<and> ar_region ar = AR_Dummy \<and> gr_epoch ar = 3"
proof -
  let ?s = "sample_epoch\<lparr>as_heap := set_heap_lock True (as_heap sample_epoch)\<rparr>"
  have "core_ok sample_epoch [2] []" "\<not> is_at_safepoint (gh_mt (as_heap sample_epoch))"
    using sample_epoch_ok(1) by (auto simp: vm_ok_core heap_not_locked_and_not_at_safepoint_def)
  then have "core_ok ?s [2] []" "gen_amb sample_env (as_heap ?s)"
    unfolding mt_changes by (auto simp: core_ok_mt gen_amb_def sample_env_def)
  moreover have g: "vm_gens ?s = [None, Some sample_gen1]" by (simp add: sample_epoch_def)
  ultimately obtain s1 where s1: "release_gen_alloc_regions sample_env ?s = Inr s1"
      "\<forall>s2. vm_gens s2 = vm_gens s1 \<longrightarrow> (\<exists>gens. init_gen_alloc_regions s2 = Inr (s2\<lparr>vm_gens := gens\<rparr>) \<and>
       (\<forall>g. 0 < g \<and> g < length (vm_gens ?s) \<longrightarrow> (\<exists>ar. gens ! g = Some ar \<and> ar_region ar = AR_Dummy \<and> ar_count ar = 0 \<and> ar_used_bytes_before ar = 0 \<and>
          gr_gen ar = int g \<and> map_option gr_epoch (vm_gens ?s ! g) = Some (gr_epoch ar))))"
    using gens_around_collection [of ?s "[2]" "[]" sample_env] by auto
  from s1(2) obtain gens where i: "init_gen_alloc_regions s1 = Inr (s1\<lparr>vm_gens := gens\<rparr>)"
      "\<forall>g. 0 < g \<and> g < length (vm_gens ?s) \<longrightarrow> (\<exists>ar. gens ! g = Some ar \<and> ar_region ar = AR_Dummy \<and> ar_count ar = 0 \<and> ar_used_bytes_before ar = 0 \<and>
          gr_gen ar = int g \<and> map_option gr_epoch (vm_gens ?s ! g) = Some (gr_epoch ar))" by blast
  from i(2) [rule_format, of 1] obtain ar where "gens ! 1 = Some ar" "ar_region ar = AR_Dummy" "map_option gr_epoch (vm_gens ?s ! 1) = Some (gr_epoch ar)"
    unfolding g by auto
  then show ?thesis using s1(1) i(1) g by (intro exI [of _ s1] exI [of _ gens] exI [of _ ar]) (simp add: sample_gen1_def)
qed

text \<open>C23. The application cannot create a generation: the heap is created with as many generations as a thread has
  buffers, so a new generation gets the number 16, and making it the current one of the thread
  reads behind the end of the array of buffers.\<close>

theorem new_generation_overflows:
  assumes "gens_setup = Inr gens" and "thread_wf th" and "length (vm_gens s) = length gens"
  shows "JVM_NewAllocGen th s = Inl (Buffer_Overflow ''_tlabGenArray'')"
proof -
  have "length (vm_gens s) = NG2C_GEN_ARRAY_SIZE" using assms(1,3) by (auto simp: gens_setup_eq NG2C_GEN_ARRAY_SIZE_def)
  then show ?thesis using assms(2)
    by (simp add: JVM_NewAllocGen_def new_alloc_gen_def GenAllocRegion_def ar_init_def set_alloc_gen_def thread_wf_def nth_append Let_def NG2C_GEN_ARRAY_SIZE_def)
qed

theorem new_generation_overflows_witness:
  "JVM_NewAllocGen sample_thread (sample_vm\<lparr>vm_gens := replicate 16 None\<rparr>) = Inl (Buffer_Overflow ''_tlabGenArray'')"
proof -
  have "thread_wf sample_thread" by (simp add: thread_wf_def sample_thread_def ThreadLocalAllocBuffer_def)
  from new_generation_overflows [OF gens_setup_eq this] show ?thesis by (simp add: NG2C_GEN_ARRAY_SIZE_def)
qed

end
