(* ===== verification/Bit_Map.thy ===== *)
theory Bit_Map
  imports Rolp_Prelude
begin

text \<open>
  \<^verbatim>\<open>BitMap\<close> and \<^verbatim>\<open>BitMap2D\<close> (utilities/bitMap.hpp, bitMap.inline.hpp, bitMap.cpp), the
  bit sets of the collector.  A map is the list of its 64-bit words and its size in bits; bit
  and word indices are naturals, with the wrap-around of \<^verbatim>\<open>size_t\<close> written out in the two
  places that round up.

  A scan for a one bit does not return on a zero word: it is the value \<open>None\<close>.  The updates
  by compare-and-exchange take the list of what other threads do to the word between a read
  and the exchange, one entry per failed attempt; with the list exhausted no other thread
  interferes.

  The locale \<open>bit_set\<close> is the interface of a set of naturals below a bound; \<open>BitMap\<close>
  provides it and \<open>BitMap2D\<close> uses it.
\<close>

type_synonym bm_word = uintptr_t

record bitmap =
  bm_map :: "bm_word list"
  bm_size :: nat

lemma unat_shift1_less: "w \<noteq> 0 \<Longrightarrow> unat (drop_bit 1 w) < unat w" for w :: bm_word
  by (simp add: unat_drop_bit_eq drop_bit_eq_div unat_div_distrib unat_gt_0)

section \<open>Index arithmetic\<close>

definition BitsPerWord :: nat where
  "BitsPerWord = 64"

definition bit_in_word :: "nat \<Rightarrow> nat" where
  "bit_in_word b = b mod BitsPerWord"

definition bit_mask :: "nat \<Rightarrow> bm_word" where
  "bit_mask b = push_bit (bit_in_word b) 1"

definition word_index :: "nat \<Rightarrow> nat" where
  "word_index b = b div BitsPerWord"

definition bit_index :: "nat \<Rightarrow> nat" where
  "bit_index w = w * BitsPerWord"

definition size_in_words :: "bitmap \<Rightarrow> nat" where
  "size_in_words bm = word_index ((bm_size bm + BitsPerWord - 1) mod 2 ^ 64)"

definition word_index_round_up :: "bitmap \<Rightarrow> nat \<Rightarrow> nat" where
  "word_index_round_up bm b =
     (let bit_rounded_up = (b + (BitsPerWord - 1)) mod 2 ^ 64
      in if b < bit_rounded_up then word_index bit_rounded_up else size_in_words bm)"

definition verify_index :: "bitmap \<Rightarrow> nat \<Rightarrow> 'a res \<Rightarrow> 'a res" where
  "verify_index bm index k = vassert (index < bm_size bm) ''BitMap index out of bounds'' k"

definition verify_range :: "bitmap \<Rightarrow> nat \<Rightarrow> nat \<Rightarrow> 'a res \<Rightarrow> 'a res" where
  "verify_range bm beg_index end_index k =
     vassert (beg_index \<le> end_index) ''BitMap range error''
       (if end_index \<noteq> bm_size bm then verify_index bm end_index k else k)"

section \<open>Creation\<close>

definition clear_range_of_words :: "nat \<Rightarrow> nat \<Rightarrow> bm_word list \<Rightarrow> bm_word list" where
  "clear_range_of_words beg en m = fold (\<lambda>i m. m[i := 0]) [beg..<en] m"

definition set_range_of_words :: "nat \<Rightarrow> nat \<Rightarrow> bm_word list \<Rightarrow> bm_word list" where
  "set_range_of_words beg en m = fold (\<lambda>i m. m[i := NOT 0]) [beg..<en] m"

text \<open>
  \<open>fresh\<close> is the content of the memory the new array is placed in and \<open>freed\<close> what is read
  from the old array once it has been freed: off the resource area the old array is freed
  before it is copied.
\<close>

record raw_memory =
  fresh :: "nat \<Rightarrow> bm_word"
  freed :: "nat \<Rightarrow> bm_word"

definition resize :: "raw_memory \<Rightarrow> nat \<Rightarrow> bool \<Rightarrow> bitmap \<Rightarrow> bitmap" where
  "resize mem size_in_bits in_resource_area bm =
     (let old_size_in_words = size_in_words bm;
          bm1 = bm\<lparr>bm_size := size_in_bits\<rparr>;
          new_size_in_words = size_in_words bm1;
          copied = min old_size_in_words new_size_in_words;
          old_map = (if in_resource_area then (\<lambda>i. bm_map bm ! i) else freed mem);
          m = map old_map [0..<copied] @ map (fresh mem) [copied..<new_size_in_words]
      in bm1\<lparr>bm_map := (if old_size_in_words < new_size_in_words
                        then clear_range_of_words old_size_in_words new_size_in_words m else m)\<rparr>)"

definition BitMap_empty :: bitmap where
  "BitMap_empty = \<lparr>bm_map = [], bm_size = 0\<rparr>"

definition BitMap :: "raw_memory \<Rightarrow> nat \<Rightarrow> bool \<Rightarrow> bitmap" where
  "BitMap mem size_in_bits in_resource_area = resize mem size_in_bits in_resource_area BitMap_empty"

section \<open>Single bits\<close>

definition at :: "nat \<Rightarrow> bitmap \<Rightarrow> bool res" where
  "at index bm = verify_index bm index (Inr (bm_map bm ! word_index index AND bit_mask index \<noteq> 0))"

definition set_bit_bm :: "nat \<Rightarrow> bitmap \<Rightarrow> bitmap res" where
  "set_bit_bm b bm =
     verify_index bm b
       (Inr (bm\<lparr>bm_map := (bm_map bm)[word_index b := bm_map bm ! word_index b OR bit_mask b]\<rparr>))"

definition clear_bit :: "nat \<Rightarrow> bitmap \<Rightarrow> bitmap res" where
  "clear_bit b bm =
     verify_index bm b
       (Inr (bm\<lparr>bm_map := (bm_map bm)[word_index b := bm_map bm ! word_index b AND NOT (bit_mask b)]\<rparr>))"

definition at_put :: "nat \<Rightarrow> bool \<Rightarrow> bitmap \<Rightarrow> bitmap res" where
  "at_put offset val bm = (if val then set_bit_bm offset bm else clear_bit offset bm)"

definition at_put_grow :: "raw_memory \<Rightarrow> nat \<Rightarrow> bool \<Rightarrow> bitmap \<Rightarrow> bitmap res" where
  "at_put_grow mem offset val bm =
     at_put offset val
       (if bm_size bm \<le> offset then resize mem (2 * max (bm_size bm) offset mod 2 ^ 64) True bm else bm)"

text \<open>
  The loop of \<^verbatim>\<open>par_set_bit\<close> and \<^verbatim>\<open>par_clear_bit\<close> on the word: \<open>old_val\<close> was read,
  \<open>cur\<close> is in memory now; the result is whether this thread changed the word, and the word.
\<close>

fun par_update_loop ::
    "(bm_word \<Rightarrow> bm_word) \<Rightarrow> (bm_word \<Rightarrow> bm_word) list \<Rightarrow> bm_word \<Rightarrow> bm_word \<Rightarrow> bool \<times> bm_word" where
  "par_update_loop upd [] old_val cur =
     (if upd old_val = old_val then (False, cur)
      else if cur = old_val then (True, upd old_val)
      else if upd cur = cur then (False, cur) else (True, upd cur))"
| "par_update_loop upd (other # others) old_val cur =
     (if upd old_val = old_val then (False, cur)
      else (let cur' = other cur
            in if cur' = old_val then (True, upd old_val)
               else par_update_loop upd others cur' cur'))"

definition par_set_bit :: "(bm_word \<Rightarrow> bm_word) list \<Rightarrow> nat \<Rightarrow> bitmap \<Rightarrow> (bool \<times> bitmap) res" where
  "par_set_bit others b bm =
     verify_index bm b
       (let w = bm_map bm ! word_index b;
            (r, w') = par_update_loop (\<lambda>v. v OR bit_mask b) others w w
        in Inr (r, bm\<lparr>bm_map := (bm_map bm)[word_index b := w']\<rparr>))"

definition par_clear_bit :: "(bm_word \<Rightarrow> bm_word) list \<Rightarrow> nat \<Rightarrow> bitmap \<Rightarrow> (bool \<times> bitmap) res" where
  "par_clear_bit others b bm =
     verify_index bm b
       (let w = bm_map bm ! word_index b;
            (r, w') = par_update_loop (\<lambda>v. v AND NOT (bit_mask b)) others w w
        in Inr (r, bm\<lparr>bm_map := (bm_map bm)[word_index b := w']\<rparr>))"

definition par_at_put :: "(bm_word \<Rightarrow> bm_word) list \<Rightarrow> nat \<Rightarrow> bool \<Rightarrow> bitmap \<Rightarrow> (bool \<times> bitmap) res" where
  "par_at_put others b val bm = (if val then par_set_bit others b bm else par_clear_bit others b bm)"

section \<open>Ranges\<close>

definition inverted_bit_mask_for_range :: "nat \<Rightarrow> nat \<Rightarrow> bm_word res" where
  "inverted_bit_mask_for_range beg en =
     vassert (en \<noteq> 0) ''does not work when end == 0''
       (vassert (beg = en \<or> word_index beg = word_index (en - 1)) ''must be a single-word range''
         (let m = bit_mask beg - 1
          in Inr (if bit_in_word en \<noteq> 0 then m OR NOT (bit_mask en - 1) else m)))"

definition set_range_within_word :: "nat \<Rightarrow> nat \<Rightarrow> bitmap \<Rightarrow> bitmap res" where
  "set_range_within_word beg en bm =
     (if beg \<noteq> en
      then rbind (inverted_bit_mask_for_range beg en)
             (\<lambda>m. Inr (bm\<lparr>bm_map := (bm_map bm)[word_index beg := bm_map bm ! word_index beg OR NOT m]\<rparr>))
      else Inr bm)"

definition clear_range_within_word :: "nat \<Rightarrow> nat \<Rightarrow> bitmap \<Rightarrow> bitmap res" where
  "clear_range_within_word beg en bm =
     (if beg \<noteq> en
      then rbind (inverted_bit_mask_for_range beg en)
             (\<lambda>m. Inr (bm\<lparr>bm_map := (bm_map bm)[word_index beg := bm_map bm ! word_index beg AND m]\<rparr>))
      else Inr bm)"

definition set_range :: "nat \<Rightarrow> nat \<Rightarrow> bitmap \<Rightarrow> bitmap res" where
  "set_range beg en bm =
     verify_range bm beg en
       (let beg_full_word = word_index_round_up bm beg; end_full_word = word_index en
        in if beg_full_word < end_full_word
           then rbind (set_range_within_word beg (bit_index beg_full_word) bm)
                  (\<lambda>bm1. set_range_within_word (bit_index end_full_word) en
                           (bm1\<lparr>bm_map := set_range_of_words beg_full_word end_full_word (bm_map bm1)\<rparr>))
           else (let boundary = min (bit_index beg_full_word) en
                 in rbind (set_range_within_word beg boundary bm) (set_range_within_word boundary en)))"

definition clear_range :: "nat \<Rightarrow> nat \<Rightarrow> bitmap \<Rightarrow> bitmap res" where
  "clear_range beg en bm =
     verify_range bm beg en
       (let beg_full_word = word_index_round_up bm beg; end_full_word = word_index en
        in if beg_full_word < end_full_word
           then rbind (clear_range_within_word beg (bit_index beg_full_word) bm)
                  (\<lambda>bm1. clear_range_within_word (bit_index end_full_word) en
                           (bm1\<lparr>bm_map := clear_range_of_words beg_full_word end_full_word (bm_map bm1)\<rparr>))
           else (let boundary = min (bit_index beg_full_word) en
                 in rbind (clear_range_within_word beg boundary bm) (clear_range_within_word boundary en)))"

text \<open>A difference of two indices is unsigned.\<close>

definition idx_minus :: "nat \<Rightarrow> nat \<Rightarrow> nat" where
  "idx_minus a b = (a + 2 ^ 64 - b) mod 2 ^ 64"

text \<open>The large variants fill by \<^verbatim>\<open>memset\<close> and require at least 32 full words.\<close>

definition fill_words :: "bm_word \<Rightarrow> nat \<Rightarrow> nat \<Rightarrow> bm_word list \<Rightarrow> bm_word list" where
  "fill_words v beg en m = take beg m @ replicate (en - beg) v @ drop en m"

definition set_large_range_of_words :: "nat \<Rightarrow> nat \<Rightarrow> bm_word list \<Rightarrow> bm_word list" where
  "set_large_range_of_words beg en m = fill_words (NOT 0) beg en m"

definition clear_large_range_of_words :: "nat \<Rightarrow> nat \<Rightarrow> bm_word list \<Rightarrow> bm_word list" where
  "clear_large_range_of_words beg en m = fill_words 0 beg en m"

definition set_large_range :: "nat \<Rightarrow> nat \<Rightarrow> bitmap \<Rightarrow> bitmap res" where
  "set_large_range beg en bm =
     verify_range bm beg en
       (let beg_full_word = word_index_round_up bm beg; end_full_word = word_index en
        in vassert (32 \<le> idx_minus end_full_word beg_full_word) ''the range must include at least 32 bytes''
             (rbind (set_range_within_word beg (bit_index beg_full_word) bm)
                (\<lambda>bm1. set_range_within_word (bit_index end_full_word) en
                   (bm1\<lparr>bm_map := set_large_range_of_words beg_full_word end_full_word (bm_map bm1)\<rparr>))))"

definition clear_large_range :: "nat \<Rightarrow> nat \<Rightarrow> bitmap \<Rightarrow> bitmap res" where
  "clear_large_range beg en bm =
     verify_range bm beg en
       (let beg_full_word = word_index_round_up bm beg; end_full_word = word_index en
        in vassert (32 \<le> idx_minus end_full_word beg_full_word) ''the range must include at least 32 bytes''
             (rbind (clear_range_within_word beg (bit_index beg_full_word) bm)
                (\<lambda>bm1. clear_range_within_word (bit_index end_full_word) en
                   (bm1\<lparr>bm_map := clear_large_range_of_words beg_full_word end_full_word (bm_map bm1)\<rparr>))))"

definition at_put_range :: "nat \<Rightarrow> nat \<Rightarrow> bool \<Rightarrow> bitmap \<Rightarrow> bitmap res" where
  "at_put_range beg en val bm = (if val then set_range beg en bm else clear_range beg en bm)"

definition at_put_large_range :: "nat \<Rightarrow> nat \<Rightarrow> bool \<Rightarrow> bitmap \<Rightarrow> bitmap res" where
  "at_put_large_range beg en val bm = (if val then set_large_range beg en bm else clear_large_range beg en bm)"

datatype range_hint = Unknown_Range | Small_Range | Large_Range

definition set_range_hint :: "nat \<Rightarrow> nat \<Rightarrow> range_hint \<Rightarrow> bitmap \<Rightarrow> bitmap res" where
  "set_range_hint beg en hint bm =
     (if hint = Small_Range \<and> idx_minus en beg = 1 then set_bit_bm beg bm
      else if hint = Large_Range then set_large_range beg en bm else set_range beg en bm)"

definition clear_range_hint :: "nat \<Rightarrow> nat \<Rightarrow> range_hint \<Rightarrow> bitmap \<Rightarrow> bitmap res" where
  "clear_range_hint beg en hint bm =
     (if hint = Small_Range \<and> idx_minus en beg = 1 then clear_bit beg bm
      else if hint = Large_Range then clear_large_range beg en bm else clear_range beg en bm)"

definition clear :: "bitmap \<Rightarrow> bitmap" where
  "clear bm = bm\<lparr>bm_map := clear_range_of_words 0 (size_in_words bm) (bm_map bm)\<rparr>"

definition clear_large :: "bitmap \<Rightarrow> bitmap" where
  "clear_large bm = bm\<lparr>bm_map := clear_large_range_of_words 0 (size_in_words bm) (bm_map bm)\<rparr>"

subsection \<open>Parallel range updates\<close>

text \<open>
  The loop of \<^verbatim>\<open>par_put_range_within_word\<close>: \<open>w\<close> was read and \<open>cur\<close> is in memory.  Other
  threads may act before the exchange and, when it fails, again before the word is read anew.
\<close>

fun par_put_loop ::
    "(bm_word \<Rightarrow> bm_word) \<Rightarrow> ((bm_word \<Rightarrow> bm_word) \<times> (bm_word \<Rightarrow> bm_word)) list \<Rightarrow> bm_word \<Rightarrow> bm_word \<Rightarrow> bm_word" where
  "par_put_loop upd [] w cur = (if cur = w then upd w else upd cur)"
| "par_put_loop upd ((before_xchg, before_read) # others) w cur =
     (let cur1 = before_xchg cur
      in if cur1 = w then upd w
         else (let cur2 = before_read cur1 in par_put_loop upd others cur2 cur2))"

type_synonym interference = "((bm_word \<Rightarrow> bm_word) \<times> (bm_word \<Rightarrow> bm_word)) list"

definition par_put_range_within_word :: "interference \<Rightarrow> nat \<Rightarrow> nat \<Rightarrow> bool \<Rightarrow> bitmap \<Rightarrow> bitmap res" where
  "par_put_range_within_word others beg en val bm =
     (if beg \<noteq> en
      then rbind (inverted_bit_mask_for_range beg en)
             (\<lambda>mr. let w = bm_map bm ! word_index beg;
                       nw = par_put_loop (\<lambda>w. if val then w OR NOT mr else w AND mr) others w w
                   in Inr (bm\<lparr>bm_map := (bm_map bm)[word_index beg := nw]\<rparr>))
      else Inr bm)"

definition par_at_put_range :: "interference \<Rightarrow> interference \<Rightarrow> nat \<Rightarrow> nat \<Rightarrow> bool \<Rightarrow> bitmap \<Rightarrow> bitmap res" where
  "par_at_put_range others1 others2 beg en val bm =
     verify_range bm beg en
       (let beg_full_word = word_index_round_up bm beg; end_full_word = word_index en
        in if beg_full_word < end_full_word
           then rbind (par_put_range_within_word others1 beg (bit_index beg_full_word) val bm)
                  (\<lambda>bm1. par_put_range_within_word others2 (bit_index end_full_word) en val
                     (bm1\<lparr>bm_map := (if val then set_range_of_words else clear_range_of_words)
                                     beg_full_word end_full_word (bm_map bm1)\<rparr>))
           else (let boundary = min (bit_index beg_full_word) en
                 in rbind (par_put_range_within_word others1 beg boundary val bm)
                      (par_put_range_within_word others2 boundary en val)))"

definition par_at_put_large_range :: "interference \<Rightarrow> interference \<Rightarrow> nat \<Rightarrow> nat \<Rightarrow> bool \<Rightarrow> bitmap \<Rightarrow> bitmap res" where
  "par_at_put_large_range others1 others2 beg en val bm =
     verify_range bm beg en
       (let beg_full_word = word_index_round_up bm beg; end_full_word = word_index en
        in vassert (32 \<le> idx_minus end_full_word beg_full_word) ''the range must include at least 32 bytes''
             (rbind (par_put_range_within_word others1 beg (bit_index beg_full_word) val bm)
                (\<lambda>bm1. par_put_range_within_word others2 (bit_index end_full_word) en val
                   (bm1\<lparr>bm_map := (if val then set_large_range_of_words else clear_large_range_of_words)
                                   beg_full_word end_full_word (bm_map bm1)\<rparr>))))"

text \<open>\<^verbatim>\<open>par_set_range\<close> is the case \<open>val = True\<close> and \<^verbatim>\<open>par_clear_range\<close> the case \<open>val = False\<close>.\<close>

definition par_range_hint ::
    "(bm_word \<Rightarrow> bm_word) list \<Rightarrow> interference \<Rightarrow> interference \<Rightarrow> nat \<Rightarrow> nat \<Rightarrow> range_hint \<Rightarrow> bool \<Rightarrow> bitmap \<Rightarrow> bitmap res" where
  "par_range_hint others others1 others2 beg en hint val bm =
     (if hint = Small_Range \<and> idx_minus en beg = 1
      then rbind (par_at_put others beg val bm) (\<lambda>(_, bm'). Inr bm')
      else if hint = Large_Range then par_at_put_large_range others1 others2 beg en val bm
      else par_at_put_range others1 others2 beg en val bm)"

definition par_set_range where
  "par_set_range others others1 others2 beg en hint = par_range_hint others others1 others2 beg en hint True"

definition par_clear_range where
  "par_clear_range others others1 others2 beg en hint = par_range_hint others others1 others2 beg en hint False"

section \<open>Searching\<close>

text \<open>\<^verbatim>\<open>for (; !(res & 1); res_offset++) res = res >> 1;\<close>\<close>

function scan_one :: "bm_word \<Rightarrow> nat \<Rightarrow> nat option" where
  "scan_one res off =
     (if res = 0 then None else if bit res 0 then Some off else scan_one (drop_bit 1 res) (off + 1))"
  by pat_completeness auto
termination
proof (relation "measure (\<lambda>(res, off). unat res)")
  fix res :: bm_word and off :: nat
  assume "res \<noteq> 0"
  then show "((drop_bit 1 res, off + 1), res, off) \<in> measure (\<lambda>(res, off). unat res)"
    by (simp add: unat_shift1_less del: One_nat_def)
qed simp

declare scan_one.simps [simp del]

text \<open>\<^verbatim>\<open>for (; res & 1; res_offset++) res = res >> 1;\<close> which ends as zeros are shifted in.\<close>

function scan_zero :: "bm_word \<Rightarrow> nat \<Rightarrow> nat" where
  "scan_zero res off = (if bit res 0 then scan_zero (drop_bit 1 res) (off + 1) else off)"
  by pat_completeness auto
termination
proof (relation "measure (\<lambda>(res, off). unat res)")
  fix res :: bm_word and off :: nat
  assume "bit res 0"
  then have "res \<noteq> 0" by auto
  then show "((drop_bit 1 res, off + 1), res, off) \<in> measure (\<lambda>(res, off). unat res)"
    by (simp add: unat_shift1_less del: One_nat_def)
qed simp

declare scan_zero.simps [simp del]

fun next_one_words :: "bitmap \<Rightarrow> nat list \<Rightarrow> nat option \<Rightarrow> nat option" where
  "next_one_words bm [] dflt = dflt"
| "next_one_words bm (index # is) dflt =
     (let res = bm_map bm ! index
      in if res \<noteq> 0 then scan_one res (bit_index index) else next_one_words bm is dflt)"

text \<open>The result of a search is \<open>None\<close> when a scan does not return.\<close>

definition get_next_one_offset :: "nat \<Rightarrow> nat \<Rightarrow> bitmap \<Rightarrow> nat option res" where
  "get_next_one_offset l_offset r_offset bm =
     vassert (l_offset \<le> bm_size bm) ''BitMap index out of bounds''
       (vassert (r_offset \<le> bm_size bm) ''BitMap index out of bounds''
         (vassert (l_offset \<le> r_offset) ''l_offset > r_offset ?''
           (if l_offset = r_offset then Inr (Some l_offset)
            else
              (let index = word_index l_offset; r_index = word_index (r_offset - 1) + 1;
                   res = drop_bit (bit_in_word l_offset) (bm_map bm ! index)
               in if res \<noteq> 0
                  then (case scan_one res l_offset of
                          None \<Rightarrow> Inr None
                        | Some res_offset \<Rightarrow>
                            vassert (l_offset \<le> res_offset \<and>
                                res_offset < (if bit_in_word r_offset = 0 then r_offset else bm_size bm))
                              ''just checking'' (Inr (Some (min res_offset r_offset))))
                  else Inr (map_option (\<lambda>o'. min o' r_offset)
                              (next_one_words bm [index + 1..<r_index] (Some r_offset)))))))"

definition get_next_one_offset_inline_aligned_right :: "nat \<Rightarrow> nat \<Rightarrow> bitmap \<Rightarrow> nat option res" where
  "get_next_one_offset_inline_aligned_right l_offset r_offset bm =
     verify_range bm l_offset r_offset
       (vassert (bit_in_word r_offset = 0) ''r_offset not word-aligned''
         (if l_offset = r_offset then Inr (Some l_offset)
          else
            (let index = word_index l_offset; r_index = word_index r_offset;
                 res = drop_bit (bit_in_word l_offset) (bm_map bm ! index)
             in if res \<noteq> 0
                then (case scan_one res l_offset of
                        None \<Rightarrow> Inr None
                      | Some res_offset \<Rightarrow>
                          vassert (l_offset \<le> res_offset \<and> res_offset < r_offset) ''just checking''
                            (Inr (Some res_offset)))
                else Inr (next_one_words bm [index + 1..<r_index] (Some r_offset)))))"

fun next_zero_words :: "bitmap \<Rightarrow> nat list \<Rightarrow> nat \<Rightarrow> nat" where
  "next_zero_words bm [] dflt = dflt"
| "next_zero_words bm (index # is) dflt =
     (let res = bm_map bm ! index
      in if res \<noteq> NOT 0 then scan_zero res (bit_index index) else next_zero_words bm is dflt)"

definition get_next_zero_offset :: "nat \<Rightarrow> nat \<Rightarrow> bitmap \<Rightarrow> nat res" where
  "get_next_zero_offset l_offset r_offset bm =
     vassert (l_offset \<le> bm_size bm) ''BitMap index out of bounds''
       (vassert (r_offset \<le> bm_size bm) ''BitMap index out of bounds''
         (vassert (l_offset \<le> r_offset) ''l_offset > r_offset ?''
           (if l_offset = r_offset then Inr l_offset
            else
              (let index = word_index l_offset; r_index = word_index (r_offset - 1) + 1;
                   pos = bit_in_word l_offset;
                   res = drop_bit pos (bm_map bm ! index) OR NOT (mask (64 - pos))
               in if res \<noteq> NOT 0 then Inr (min (scan_zero res l_offset) r_offset)
                  else Inr (min (next_zero_words bm [index + 1..<r_index] r_offset) r_offset)))))"

section \<open>Set operations\<close>

definition same_size :: "bitmap \<Rightarrow> bitmap \<Rightarrow> 'a res \<Rightarrow> 'a res" where
  "same_size bm other k = vassert (bm_size bm = bm_size other) ''must have same size'' k"

definition update_words :: "(bm_word \<Rightarrow> bm_word \<Rightarrow> bm_word) \<Rightarrow> bitmap \<Rightarrow> bitmap \<Rightarrow> bitmap" where
  "update_words f other bm =
     bm\<lparr>bm_map := fold (\<lambda>i m. m[i := f (m ! i) (bm_map other ! i)]) [0..<size_in_words bm] (bm_map bm)\<rparr>"

definition set_union :: "bitmap \<Rightarrow> bitmap \<Rightarrow> bitmap res" where
  "set_union other bm = same_size bm other (Inr (update_words (\<lambda>d w. d OR w) other bm))"

definition set_difference :: "bitmap \<Rightarrow> bitmap \<Rightarrow> bitmap res" where
  "set_difference other bm = same_size bm other (Inr (update_words (\<lambda>d w. d AND NOT w) other bm))"

definition set_intersection :: "bitmap \<Rightarrow> bitmap \<Rightarrow> bitmap res" where
  "set_intersection other bm = same_size bm other (Inr (update_words (\<lambda>d w. d AND w) other bm))"

definition set_from :: "bitmap \<Rightarrow> bitmap \<Rightarrow> bitmap res" where
  "set_from other bm = same_size bm other (Inr (update_words (\<lambda>d w. w) other bm))"

definition set_intersection_at_offset :: "bitmap \<Rightarrow> nat \<Rightarrow> bitmap \<Rightarrow> bitmap res" where
  "set_intersection_at_offset other offset bm =
     vassert (offset \<le> bm_size other) ''offset not in range''
       (vassert (bm_size bm \<le> bm_size other - offset) ''other not large enough''
         (if offset mod BitsPerWord \<noteq> 0 then Inl (Guarantee_Failed ''Only handle aligned cases so far.'')
          else Inr (bm\<lparr>bm_map := fold (\<lambda>i m. m[i := m ! i AND bm_map other ! (word_index offset + i)])
                        [0..<size_in_words bm] (bm_map bm)\<rparr>)))"

text \<open>The variants with a result also tell whether a word changed.\<close>

definition with_result :: "(bm_word \<Rightarrow> bm_word \<Rightarrow> bm_word) \<Rightarrow> bitmap \<Rightarrow> bitmap \<Rightarrow> bool \<times> bitmap" where
  "with_result f other bm =
     (let (changed, m) = fold (\<lambda>i (changed, m).
            let temp = f (m ! i) (bm_map other ! i) in (changed \<or> temp \<noteq> m ! i, m[i := temp]))
          [0..<size_in_words bm] (False, bm_map bm)
      in (changed, bm\<lparr>bm_map := m\<rparr>))"

definition set_union_with_result :: "bitmap \<Rightarrow> bitmap \<Rightarrow> (bool \<times> bitmap) res" where
  "set_union_with_result other bm = same_size bm other (Inr (with_result (\<lambda>d w. d OR w) other bm))"

definition set_difference_with_result :: "bitmap \<Rightarrow> bitmap \<Rightarrow> (bool \<times> bitmap) res" where
  "set_difference_with_result other bm = same_size bm other (Inr (with_result (\<lambda>d w. d AND NOT w) other bm))"

definition set_intersection_with_result :: "bitmap \<Rightarrow> bitmap \<Rightarrow> (bool \<times> bitmap) res" where
  "set_intersection_with_result other bm = same_size bm other (Inr (with_result (\<lambda>d w. d AND w) other bm))"

definition contains :: "bitmap \<Rightarrow> bitmap \<Rightarrow> bool res" where
  "contains other bm =
     same_size bm other
       (Inr (list_all (\<lambda>i. bm_map bm ! i OR bm_map other ! i = bm_map bm ! i) [0..<size_in_words bm]))"

definition intersects :: "bitmap \<Rightarrow> bitmap \<Rightarrow> bool res" where
  "intersects other bm =
     same_size bm other
       (Inr (list_ex (\<lambda>i. bm_map bm ! i AND bm_map other ! i \<noteq> 0) [0..<size_in_words bm]))"

definition is_same :: "bitmap \<Rightarrow> bitmap \<Rightarrow> bool res" where
  "is_same other bm =
     same_size bm other (Inr (list_all (\<lambda>i. bm_map bm ! i = bm_map other ! i) [0..<size_in_words bm]))"

fun full_words :: "bm_word list \<Rightarrow> nat \<Rightarrow> nat \<Rightarrow> bool" where
  "full_words ws i rest =
     (if BitsPerWord \<le> rest \<and> 0 < BitsPerWord
      then ws ! i = NOT 0 \<and> full_words ws (i + 1) (rest - BitsPerWord)
      else rest = 0 \<or> ws ! i OR NOT (mask rest) = NOT 0)"

declare full_words.simps [simp del]

definition is_full :: "bitmap \<Rightarrow> bool" where
  "is_full bm = full_words (bm_map bm) 0 (bm_size bm)"

fun empty_words :: "bm_word list \<Rightarrow> nat \<Rightarrow> nat \<Rightarrow> bool" where
  "empty_words ws i rest =
     (if BitsPerWord \<le> rest \<and> 0 < BitsPerWord
      then ws ! i = 0 \<and> empty_words ws (i + 1) (rest - BitsPerWord)
      else rest = 0 \<or> ws ! i AND mask rest = 0)"

declare empty_words.simps [simp del]

definition is_empty :: "bitmap \<Rightarrow> bool" where
  "is_empty bm = empty_words (bm_map bm) 0 (bm_size bm)"

section \<open>Iteration\<close>

text \<open>
  The closure \<open>do_bit\<close> works on a state, of which \<open>words\<close> reads the map: the word is
  sampled again after every call.
\<close>

function iterate_word ::
    "('s \<Rightarrow> bm_word list) \<Rightarrow> (nat \<Rightarrow> 's \<Rightarrow> bool \<times> 's) \<Rightarrow> nat \<Rightarrow> nat \<Rightarrow> nat \<Rightarrow> bm_word \<Rightarrow> 's \<Rightarrow> bool \<times> 's" where
  "iterate_word words do_bit rightOffset index offset rest s =
     (if offset < rightOffset \<and> rest \<noteq> 0
      then if bit rest 0
           then (case do_bit offset s of (go, s') \<Rightarrow>
                   if \<not> go then (False, s')
                   else iterate_word words do_bit rightOffset index (offset + 1)
                          (drop_bit 1 (drop_bit (bit_in_word offset) (words s' ! index))) s')
           else iterate_word words do_bit rightOffset index (offset + 1) (drop_bit 1 rest) s
      else (True, s))"
  by pat_completeness auto
termination
  by (relation "measure (\<lambda>(words, do_bit, r, index, offset, rest, s). r - offset)") auto

declare iterate_word.simps [simp del]

function iterate_words ::
    "('s \<Rightarrow> bm_word list) \<Rightarrow> (nat \<Rightarrow> 's \<Rightarrow> bool \<times> 's) \<Rightarrow> nat \<Rightarrow> nat \<Rightarrow> nat \<Rightarrow> nat \<Rightarrow> 's \<Rightarrow> bool \<times> 's" where
  "iterate_words words do_bit rightOffset endIndex index offset s =
     (if offset < rightOffset \<and> index < endIndex
      then (case iterate_word words do_bit rightOffset index offset
                   (drop_bit (bit_in_word offset) (words s ! index)) s of
              (go, s') \<Rightarrow>
                if \<not> go then (False, s')
                else iterate_words words do_bit rightOffset endIndex (index + 1) (bit_index (index + 1)) s')
      else (True, s))"
  by pat_completeness auto
termination
  by (relation "measure (\<lambda>(words, do_bit, r, endIndex, index, offset, s). endIndex - index)") auto

declare iterate_words.simps [simp del]

definition iterate ::
    "('s \<Rightarrow> bitmap) \<Rightarrow> (nat \<Rightarrow> 's \<Rightarrow> bool \<times> 's) \<Rightarrow> nat \<Rightarrow> nat \<Rightarrow> 's \<Rightarrow> (bool \<times> 's) res" where
  "iterate bm_of do_bit leftOffset rightOffset s =
     verify_range (bm_of s) leftOffset rightOffset
       (let startIndex = word_index leftOffset;
            endIndex = min (word_index rightOffset + 1) (size_in_words (bm_of s))
        in Inr (iterate_words (\<lambda>s. bm_map (bm_of s)) do_bit rightOffset endIndex startIndex leftOffset s))"

section \<open>Counting\<close>

function num_set_bits :: "bm_word \<Rightarrow> nat" where
  "num_set_bits w =
     (if w = 0 then 0 else if bit w 0 then 1 + num_set_bits (drop_bit 1 w) else num_set_bits (drop_bit 1 w))"
  by pat_completeness auto
termination
proof (relation "measure unat")
  fix w :: bm_word
  assume "w \<noteq> 0"
  then show "(drop_bit 1 w, w) \<in> measure unat" "(drop_bit 1 w, w) \<in> measure unat"
    by (simp_all add: unat_shift1_less del: One_nat_def)
qed simp

declare num_set_bits.simps [simp del]

text \<open>
  The table of bit counts is built on first use and published by a compare-and-exchange;
  \<open>raced\<close> is the table another thread has published in between, if any.
\<close>

definition init_pop_count_table :: "nat list option \<Rightarrow> nat list option \<Rightarrow> nat list option" where
  "init_pop_count_table raced table =
     (case table of
        Some t \<Rightarrow> Some t
      | None \<Rightarrow>
          (case raced of
             Some t \<Rightarrow> Some t
           | None \<Rightarrow> Some (map (\<lambda>i. num_set_bits (word_of_nat i)) [0..<256])))"

definition num_set_bits_from_table :: "nat list option \<Rightarrow> nat \<Rightarrow> nat res" where
  "num_set_bits_from_table table c =
     (case table of None \<Rightarrow> Inl (Assert_Failed ''precondition'') | Some t \<Rightarrow> Inr (t ! c))"

definition count_bytes :: "nat list option \<Rightarrow> bm_word \<Rightarrow> nat \<Rightarrow> nat res" where
  "count_bytes table w n_ones =
     rbind (rfold (\<lambda>j (n_ones, w).
              rbind (num_set_bits_from_table table (unat (w AND 255))) (\<lambda>n. Inr (n_ones + n, drop_bit 8 w)))
            [0..<8] (n_ones, w))
       (\<lambda>(n_ones, _). Inr n_ones)"

definition count_one_bits :: "nat list option \<Rightarrow> nat list option \<Rightarrow> bitmap \<Rightarrow> (nat \<times> nat list option) res" where
  "count_one_bits raced table bm =
     (let table' = init_pop_count_table raced table
      in rbind (rfold (\<lambda>i n_ones. count_bytes table' (bm_map bm ! i) n_ones) [0..<size_in_words bm] 0)
           (\<lambda>n_ones. Inr (n_ones, table')))"

section \<open>Several bits per slot\<close>

record bitmap2d =
  bm2_map :: bitmap
  bm2_bits_per_slot :: nat

definition BitMap2D :: "raw_memory \<Rightarrow> nat \<Rightarrow> nat \<Rightarrow> bitmap2d" where
  "BitMap2D mem size_in_slots bits_per_slot =
     \<lparr>bm2_map = BitMap mem (size_in_slots * bits_per_slot mod 2 ^ 64) True,
      bm2_bits_per_slot = bits_per_slot\<rparr>"

definition bit_index_2d :: "bitmap2d \<Rightarrow> nat \<Rightarrow> nat \<Rightarrow> nat" where
  "bit_index_2d b slot_index bit_within_slot_index =
     (slot_index * bm2_bits_per_slot b + bit_within_slot_index) mod 2 ^ 64"

definition verify_bit_within_slot_index :: "bitmap2d \<Rightarrow> nat \<Rightarrow> 'a res \<Rightarrow> 'a res" where
  "verify_bit_within_slot_index b index k =
     vassert (index < bm2_bits_per_slot b) ''bit_within_slot index out of bounds'' k"

definition size_in_slots :: "bitmap2d \<Rightarrow> nat" where
  "size_in_slots b = bm_size (bm2_map b) div bm2_bits_per_slot b"

definition is_valid_index :: "bitmap2d \<Rightarrow> nat \<Rightarrow> nat \<Rightarrow> bool res" where
  "is_valid_index b slot i =
     verify_bit_within_slot_index b i (Inr (bit_index_2d b slot i < bm_size (bm2_map b)))"

definition at_2d :: "nat \<Rightarrow> nat \<Rightarrow> bitmap2d \<Rightarrow> bool res" where
  "at_2d slot i b = verify_bit_within_slot_index b i (at (bit_index_2d b slot i) (bm2_map b))"

definition on_map_2d :: "(bitmap \<Rightarrow> bitmap res) \<Rightarrow> bitmap2d \<Rightarrow> bitmap2d res" where
  "on_map_2d f b = rbind (f (bm2_map b)) (\<lambda>bm. Inr (b\<lparr>bm2_map := bm\<rparr>))"

definition set_bit_2d :: "nat \<Rightarrow> nat \<Rightarrow> bitmap2d \<Rightarrow> bitmap2d res" where
  "set_bit_2d slot i b = verify_bit_within_slot_index b i (on_map_2d (set_bit_bm (bit_index_2d b slot i)) b)"

definition clear_bit_2d :: "nat \<Rightarrow> nat \<Rightarrow> bitmap2d \<Rightarrow> bitmap2d res" where
  "clear_bit_2d slot i b = verify_bit_within_slot_index b i (on_map_2d (clear_bit (bit_index_2d b slot i)) b)"

definition at_put_2d :: "nat \<Rightarrow> nat \<Rightarrow> bool \<Rightarrow> bitmap2d \<Rightarrow> bitmap2d res" where
  "at_put_2d slot i val b = verify_bit_within_slot_index b i (on_map_2d (at_put (bit_index_2d b slot i) val) b)"

definition at_put_grow_2d :: "raw_memory \<Rightarrow> nat \<Rightarrow> nat \<Rightarrow> bool \<Rightarrow> bitmap2d \<Rightarrow> bitmap2d res" where
  "at_put_grow_2d mem slot i val b =
     verify_bit_within_slot_index b i (on_map_2d (at_put_grow mem (bit_index_2d b slot i) val) b)"

definition clear_2d :: "bitmap2d \<Rightarrow> bitmap2d" where
  "clear_2d b = b\<lparr>bm2_map := clear (bm2_map b)\<rparr>"

end
