(* ===== verification/Bit_Map_Set.thy ===== *)
theory Bit_Map_Set
  imports Bit_Map
begin

text \<open>
  A \<^verbatim>\<open>BitMap\<close> represents the set of its indices below the size whose bit is one.  The range
  operations are proved once, in the locale \<open>range_writer\<close>, from what their two parts (a range
  within a word, a range of whole words) do; the set, clear and parallel versions are
  interpretations.  The other lemmas relate the searches, the set operations, the iteration
  and the count to the set.
\<close>

section \<open>The represented set\<close>

definition test :: "bitmap \<Rightarrow> nat \<Rightarrow> bool" where
  "test bm i = bit (bm_map bm ! (i div 64)) (i mod 64)"

definition bm_ok :: "bitmap \<Rightarrow> bool" where
  "bm_ok bm = (bm_size bm + 63 < 2 ^ 64 \<and> length (bm_map bm) = (bm_size bm + 63) div 64)"

definition bm_bits :: "bitmap \<Rightarrow> nat set" where
  "bm_bits bm = {i. i < bm_size bm \<and> test bm i}"

definition tail_clean :: "bitmap \<Rightarrow> bool" where
  "tail_clean bm = (\<forall>i. bm_size bm \<le> i \<and> i < 64 * length (bm_map bm) \<longrightarrow> \<not> test bm i)"

text \<open>\<open>writes v S a b\<close>: the map \<open>b\<close> is \<open>a\<close> with the bits of \<open>S\<close> set to \<open>v\<close>.\<close>

definition writes :: "bool \<Rightarrow> nat set \<Rightarrow> bitmap \<Rightarrow> bitmap \<Rightarrow> bool" where
  "writes v S a b =
     (bm_size b = bm_size a \<and> length (bm_map b) = length (bm_map a) \<and>
      (\<forall>i < 64 * length (bm_map a). test b i = (if i \<in> S then v else test a i)))"

named_theorems idx \<open>index arithmetic of the bit maps\<close>

lemmas [idx] = BitsPerWord_def bit_in_word_def word_index_def bit_index_def

lemma div_less_words: "i < 64 * n \<longleftrightarrow> i div 64 < n" for i n :: nat
  by (auto simp: less_mult_imp_div_less mult.commute) 

lemma size_in_words_ok: "bm_ok bm \<Longrightarrow> size_in_words bm = length (bm_map bm)"
  by (simp add: bm_ok_def size_in_words_def idx)

lemma size_covered: "bm_ok bm \<Longrightarrow> bm_size bm \<le> 64 * length (bm_map bm)"
  by (simp add: bm_ok_def)

lemma ok_index: "bm_ok bm \<Longrightarrow> i < bm_size bm \<Longrightarrow> i div 64 < length (bm_map bm)"
  using size_covered [of bm] by (simp add: div_less_words [symmetric])

lemma writes_refl: "writes v {} a a"
  by (simp add: writes_def)

lemma writes_trans: "writes v S a b \<Longrightarrow> writes v T b c \<Longrightarrow> writes v (S \<union> T) a c"
  by (auto simp: writes_def)

lemma writes_ok: "writes v S a b \<Longrightarrow> bm_ok a \<Longrightarrow> bm_ok b"
  by (simp add: writes_def bm_ok_def)

lemma writes_set:
  assumes "writes True S a b" and "bm_ok a" and "S \<subseteq> {..<bm_size a}"
  shows "bm_bits b = bm_bits a \<union> S"
  using assms size_covered [OF assms(2)] by (auto simp: writes_def bm_bits_def)

lemma writes_clear:
  assumes "writes False S a b" and "bm_ok a"
  shows "bm_bits b = bm_bits a - S"
proof -
  have "test b i = (i \<notin> S \<and> test a i)" if "i < bm_size a" for i
    using assms(1) that size_covered [OF assms(2)] by (simp add: writes_def)
  then show ?thesis using assms(1) by (auto simp: writes_def bm_bits_def)
qed

lemma writes_tail:
  assumes "writes v S a b" and "tail_clean a" and "S \<subseteq> {..<bm_size a}"
  shows "tail_clean b"
  using assms by (auto simp: writes_def tail_clean_def)

section \<open>Masks\<close>

lemma bit_below_64: "bit w n \<Longrightarrow> n < 64" for w :: bm_word
  using bit_imp_le_length [of w n] by simp

lemma bit_bit_mask: "bit (bit_mask b) n \<longleftrightarrow> n < 64 \<and> n = b mod 64"
  by (auto simp: bit_mask_def idx bit_exp_iff possible_bit_word)

lemma bit_low_mask: "bit (bit_mask b - 1) n \<longleftrightarrow> n < b mod 64"
proof -
  have "bit_mask b - 1 = mask (b mod 64)"
    by (simp add: bit_mask_def idx mask_eq_exp_minus_1)
  moreover have "b mod 64 < 64" by simp
  ultimately show ?thesis by (auto simp: bit_mask_iff)
qed

lemma word_and_bit_mask: "w AND bit_mask b \<noteq> 0 \<longleftrightarrow> bit w (b mod 64)" for w :: bm_word
proof -
  have "(w AND bit_mask b = 0) = (\<forall>n. \<not> bit (w AND bit_mask b) n)" 
    unfolding bit_eq_iff [of "w AND bit_mask b"] by (auto dest: bit_below_64)
  then show ?thesis by (auto simp: bit_and_iff bit_bit_mask)
qed

lemma end_in_word:
  fixes en i :: nat
  assumes "0 < en" and "i div 64 = (en - 1) div 64"
  shows "(en mod 64 \<noteq> 0 \<and> en mod 64 \<le> i mod 64) = (en \<le> i)"
proof -
  define k where "k = (en - 1) div 64"
  define r where "r = (en - 1) mod 64"
  have r: "r < 64" and en: "en = 64 * k + (r + 1)"
    using assms(1) by (simp_all add: r_def k_def)
  have i: "i = 64 * k + i mod 64" unfolding k_def assms(2) [symmetric] by simp
  show ?thesis
  proof (cases "r = 63")
    case True
    then have "en = 64 * (k + 1)" using en by simp
    moreover have "i mod 64 < 64" by simp
    ultimately show ?thesis using i by (auto simp: algebra_simps)
  next
    case False
    then have "r + 1 < 64" using r by simp
    then have "en mod 64 = r + 1" using en by simp
    then show ?thesis using i en by linarith
  qed
qed

lemma range_mask:
  assumes "beg < en" and "beg div 64 = (en - 1) div 64"
  shows "\<exists>m. inverted_bit_mask_for_range beg en = Inr m \<and>
             (\<forall>i. i div 64 = beg div 64 \<longrightarrow> bit m (i mod 64) = (i < beg \<or> en \<le> i))"
proof -
  have aux: "(i mod 64 < beg mod 64) = (i < beg)" if "i div 64 = beg div 64" for i
    using that by (metis add_less_cancel_left div_mult_mod_eq mult.commute)
  have aux2: "(en mod 64 \<noteq> 0 \<and> en mod 64 \<le> i mod 64) = (en \<le> i)" if "i div 64 = beg div 64" for i
    using that assms by (intro end_in_word) simp_all
  define m where "m = (if en mod 64 \<noteq> 0 then (bit_mask beg - 1) OR NOT (bit_mask en - 1) else bit_mask beg - 1)"
  have "bit m (i mod 64) = (i mod 64 < beg mod 64 \<or> en mod 64 \<noteq> 0 \<and> en mod 64 \<le> i mod 64)" for i
    by (auto simp: m_def bit_or_iff bit_not_iff bit_low_mask)
  then have "\<forall>i. i div 64 = beg div 64 \<longrightarrow> bit m (i mod 64) = (i < beg \<or> en \<le> i)"
    using aux aux2 by blast
  moreover have "inverted_bit_mask_for_range beg en = Inr m"
    using assms by (simp add: inverted_bit_mask_for_range_def vassert_def idx m_def)
  ultimately show ?thesis by blast
qed

lemma writes_word:
  assumes "k < length (bm_map a)"
    and "\<And>i. i div 64 = k \<Longrightarrow> bit w (i mod 64) = (if i \<in> S then v else test a i)"
    and "\<And>i. i \<in> S \<Longrightarrow> i div 64 = k"
  shows "writes v S a (a\<lparr>bm_map := (bm_map a)[k := w]\<rparr>)"
proof -
  have "test (a\<lparr>bm_map := (bm_map a)[k := w]\<rparr>) i = (if i \<in> S then v else test a i)"
    if "i < 64 * length (bm_map a)" for i
  proof (cases "i div 64 = k")
    case True
    then have "test (a\<lparr>bm_map := (bm_map a)[k := w]\<rparr>) i = bit w (i mod 64)"
      using assms(1) by (simp add: test_def)
    then show ?thesis using assms(2) [OF True] by simp
  next
    case False
    then have "i \<notin> S" using assms(3) by blast
    then show ?thesis using False by (simp add: test_def)
  qed
  then show ?thesis by (simp add: writes_def)
qed

lemma same_word: "beg < en \<Longrightarrow> beg div 64 = (en - 1) div 64 \<Longrightarrow> beg \<le> i \<Longrightarrow> i < en \<Longrightarrow> i div 64 = beg div 64"
  for beg en i :: nat
  using div_le_mono [of beg i 64] div_le_mono [of i "en - 1" 64] by simp

section \<open>Ranges\<close>

text \<open>The common shape of the range operations.\<close>

definition range_op ::
    "(nat \<Rightarrow> nat \<Rightarrow> bitmap \<Rightarrow> bitmap res) \<Rightarrow> (nat \<Rightarrow> nat \<Rightarrow> bitmap \<Rightarrow> bitmap res) \<Rightarrow>
     (nat \<Rightarrow> nat \<Rightarrow> bm_word list \<Rightarrow> bm_word list) \<Rightarrow> nat \<Rightarrow> nat \<Rightarrow> bitmap \<Rightarrow> bitmap res" where
  "range_op within1 within2 words beg en bm =
     verify_range bm beg en
       (let beg_full_word = word_index_round_up bm beg; end_full_word = word_index en
        in if beg_full_word < end_full_word
           then rbind (within1 beg (bit_index beg_full_word) bm)
                  (\<lambda>bm1. within2 (bit_index end_full_word) en
                     (bm1\<lparr>bm_map := words beg_full_word end_full_word (bm_map bm1)\<rparr>))
           else (let boundary = min (bit_index beg_full_word) en
                 in rbind (within1 beg boundary bm) (within2 boundary en)))"

locale range_writer =
  fixes v :: bool
    and within1 within2 :: "nat \<Rightarrow> nat \<Rightarrow> bitmap \<Rightarrow> bitmap res"
    and words :: "nat \<Rightarrow> nat \<Rightarrow> bm_word list \<Rightarrow> bm_word list"
  assumes within1: "\<And>beg en bm. \<lbrakk>beg < en; beg div 64 = (en - 1) div 64; beg div 64 < length (bm_map bm)\<rbrakk>
              \<Longrightarrow> \<exists>bm'. within1 beg en bm = Inr bm' \<and> writes v {beg..<en} bm bm'"
    and within1_none: "\<And>beg bm. within1 beg beg bm = Inr bm"
    and within2: "\<And>beg en bm. \<lbrakk>beg < en; beg div 64 = (en - 1) div 64; beg div 64 < length (bm_map bm)\<rbrakk>
              \<Longrightarrow> \<exists>bm'. within2 beg en bm = Inr bm' \<and> writes v {beg..<en} bm bm'"
    and within2_none: "\<And>beg bm. within2 beg beg bm = Inr bm"
    and words: "\<And>b e bm. \<lbrakk>b \<le> e; e \<le> length (bm_map bm)\<rbrakk>
              \<Longrightarrow> writes v {64 * b..<64 * e} bm (bm\<lparr>bm_map := words b e (bm_map bm)\<rparr>)"
begin

lemma piece1:
  assumes "beg \<le> en" and "beg < en \<Longrightarrow> beg div 64 = (en - 1) div 64" and "en \<le> 64 * length (bm_map bm)"
  shows "\<exists>bm'. within1 beg en bm = Inr bm' \<and> writes v {beg..<en} bm bm'"
proof (cases "beg < en")
  case True
  then have "beg div 64 < length (bm_map bm)" using assms(3) by (simp add: div_less_words [symmetric])
  then show ?thesis using within1 True assms(2) by blast
next
  case False
  then show ?thesis using assms(1) by (simp add: within1_none writes_refl)
qed

lemma piece2:
  assumes "beg \<le> en" and "beg < en \<Longrightarrow> beg div 64 = (en - 1) div 64" and "en \<le> 64 * length (bm_map bm)"
  shows "\<exists>bm'. within2 beg en bm = Inr bm' \<and> writes v {beg..<en} bm bm'"
proof (cases "beg < en")
  case True
  then have "beg div 64 < length (bm_map bm)" using assms(3) by (simp add: div_less_words [symmetric])
  then show ?thesis using within2 True assms(2) by blast
next
  case False
  then show ?thesis using assms(1) by (simp add: within2_none writes_refl)
qed

lemma range_writes:
  assumes ok: "bm_ok bm" and le: "beg \<le> en" "en \<le> bm_size bm"
  shows "\<exists>bm'. range_op within1 within2 words beg en bm = Inr bm' \<and> writes v {beg..<en} bm bm'"
proof -
  define B where "B = (beg + 63) div 64"
  define E where "E = en div 64"
  have B: "word_index_round_up bm beg = B"
    using ok le by (simp add: word_index_round_up_def idx bm_ok_def B_def)
  have en: "en \<le> 64 * length (bm_map bm)" using size_covered [OF ok] le by simp
  have begB: "beg \<le> 64 * B" "64 * B < beg + 64" by (simp_all add: B_def)
  have enE: "64 * E \<le> en" "en < 64 * E + 64" by (simp_all add: E_def)
  have first: "beg div 64 = (k - 1) div 64" if "beg < k" "k \<le> 64 * B" for k
  proof -
    have "beg div 64 = B - 1" "(k - 1) div 64 = B - 1" using that begB by (simp_all add: div_nat_eqI)
    then show ?thesis by simp
  qed
  have last: "k div 64 = (en - 1) div 64" if "k < en" "64 * E \<le> k" for k
  proof -
    have "k div 64 = E" "(en - 1) div 64 = E" using that enE by (simp_all add: div_nat_eqI)
    then show ?thesis by simp
  qed
  have op: "range_op within1 within2 words beg en bm =
     (if B < E then rbind (within1 beg (64 * B) bm)
                      (\<lambda>bm1. within2 (64 * E) en (bm1\<lparr>bm_map := words B E (bm_map bm1)\<rparr>))
      else rbind (within1 beg (min (64 * B) en) bm) (within2 (min (64 * B) en) en))"
    using le by (simp add: range_op_def B idx E_def verify_range_def verify_index_def vassert_def
        mult.commute Let_def)
  show ?thesis
  proof (cases "B < E")
    case True
    have BE: "64 * B \<le> 64 * E" "E \<le> length (bm_map bm)" using True en enE by simp_all
    obtain b1 where b1: "within1 beg (64 * B) bm = Inr b1" "writes v {beg..<64 * B} bm b1"
      using piece1 [OF begB(1) first, of bm] BE by auto
    define b2 where "b2 = b1\<lparr>bm_map := words B E (bm_map b1)\<rparr>"
    have len: "length (bm_map b1) = length (bm_map bm)" using b1(2) by (simp add: writes_def)
    have b2: "writes v {64 * B..<64 * E} b1 b2"
      unfolding b2_def using words [of B E b1] BE len True by simp
    have len2: "length (bm_map b2) = length (bm_map bm)" using b2 len by (simp add: writes_def)
    obtain b3 where b3: "within2 (64 * E) en b2 = Inr b3" "writes v {64 * E..<en} b2 b3"
      using piece2 [OF enE(1) last, of b2] en len2 by auto
    have "writes v ({beg..<64 * B} \<union> {64 * B..<64 * E} \<union> {64 * E..<en}) bm b3"
      using writes_trans [OF writes_trans [OF b1(2) b2] b3(2)] .
    moreover have "{beg..<64 * B} \<union> {64 * B..<64 * E} \<union> {64 * E..<en} = {beg..<en}"
      using begB(1) BE(1) enE(1) by auto
    ultimately show ?thesis using op True b1(1) b3(1) by (simp add: b2_def)
  next
    case False
    define c where "c = min (64 * B) en"
    have c: "beg \<le> c" "c \<le> en" "c \<le> 64 * B" using begB le by (simp_all add: c_def)
    obtain b1 where b1: "within1 beg c bm = Inr b1" "writes v {beg..<c} bm b1"
      using piece1 [OF c(1) first, of bm] c en by auto
    have len: "length (bm_map b1) = length (bm_map bm)" using b1(2) by (simp add: writes_def)
    have "c div 64 = (en - 1) div 64" if "c < en"
      using last [OF that] that False by (simp add: c_def)
    then obtain b2 where b2: "within2 c en b1 = Inr b2" "writes v {c..<en} b1 b2"
      using piece2 [OF c(2), of b1] en len by auto
    have "writes v ({beg..<c} \<union> {c..<en}) bm b2" using writes_trans [OF b1(2) b2(2)] .
    moreover have "{beg..<c} \<union> {c..<en} = {beg..<en}" using c by auto
    ultimately show ?thesis using op False b1(1) b2(1) by (simp add: c_def)
  qed
qed

end

lemma fold_update_const:
  "fold (\<lambda>i m. m[i := c]) is m = map (\<lambda>k. if k \<in> set is then c else m ! k) [0..<length m]"
  by (induction "is" arbitrary: m) (auto simp: nth_list_update intro!: nth_equalityI)

lemma fill_words_eq:
  assumes "b \<le> e" and "e \<le> length m"
  shows "fill_words c b e m = fold (\<lambda>i m. m[i := c]) [b..<e] m"
  using assms by (auto simp: fill_words_def fold_update_const nth_append intro!: nth_equalityI)

lemma words_write:
  assumes "\<And>n. n < 64 \<Longrightarrow> bit c n = v" and "b \<le> e" and "e \<le> length (bm_map bm)"
  shows "writes v {64 * b..<64 * e} bm (bm\<lparr>bm_map := fold (\<lambda>i m. m[i := c]) [b..<e] (bm_map bm)\<rparr>)"
proof -
  have "(i div 64 \<in> {b..<e}) = (i \<in> {64 * b..<64 * e})" for i
    by (auto simp: div_less_words) 
  then show ?thesis
    using assms(1) by (simp add: writes_def test_def fold_update_const div_less_words)
qed

lemma within_word_write:
  assumes "beg < en" and "beg div 64 = (en - 1) div 64" and "beg div 64 < length (bm_map bm)"
  shows "\<exists>bm'. set_range_within_word beg en bm = Inr bm' \<and> writes True {beg..<en} bm bm'"
    and "\<exists>bm'. clear_range_within_word beg en bm = Inr bm' \<and> writes False {beg..<en} bm bm'"
    and "\<exists>bm'. par_put_range_within_word [] beg en v bm = Inr bm' \<and> writes v {beg..<en} bm bm'"
proof -
  obtain m where m: "inverted_bit_mask_for_range beg en = Inr m"
      "\<And>i. i div 64 = beg div 64 \<Longrightarrow> bit m (i mod 64) = (i < beg \<or> en \<le> i)"
    using range_mask [OF assms(1,2)] by blast
  define w where "w = bm_map bm ! (beg div 64)"
  have inw: "i div 64 = beg div 64" if "i \<in> {beg..<en}" for i
    using same_word [OF assms(1,2), of i] that by simp
  have bits: "test bm i = bit w (i mod 64)" "bit m (i mod 64) = (i \<notin> {beg..<en})" if "i div 64 = beg div 64" for i
    using m(2) [OF that] that by (simp_all only: test_def w_def atLeastLessThan_iff not_less not_le de_Morgan_conj)
  have S: "writes True {beg..<en} bm (bm\<lparr>bm_map := (bm_map bm)[beg div 64 := w OR NOT m]\<rparr>)"
    by (rule writes_word [OF assms(3) _ inw]) (simp add: bits bit_or_iff bit_not_iff del: atLeastLessThan_iff)
  have C: "writes False {beg..<en} bm (bm\<lparr>bm_map := (bm_map bm)[beg div 64 := w AND m]\<rparr>)"
    by (rule writes_word [OF assms(3) _ inw]) (simp add: bits bit_and_iff del: atLeastLessThan_iff)
  show "\<exists>bm'. set_range_within_word beg en bm = Inr bm' \<and> writes True {beg..<en} bm bm'"
    using S assms(1) by (simp add: set_range_within_word_def m(1) idx w_def)
  show "\<exists>bm'. clear_range_within_word beg en bm = Inr bm' \<and> writes False {beg..<en} bm bm'"
    using C assms(1) by (simp add: clear_range_within_word_def m(1) idx w_def)
  show "\<exists>bm'. par_put_range_within_word [] beg en v bm = Inr bm' \<and> writes v {beg..<en} bm bm'"
    using S C assms(1) by (cases v) (simp_all add: par_put_range_within_word_def m(1) idx w_def)
qed

lemma within_word_none:
  "set_range_within_word b b bm = Inr bm"
  "clear_range_within_word b b bm = Inr bm"
  "par_put_range_within_word others b b v bm = Inr bm"
  by (simp_all add: set_range_within_word_def clear_range_within_word_def par_put_range_within_word_def)

lemma words_write_ones:
  "b \<le> e \<Longrightarrow> e \<le> length (bm_map bm) \<Longrightarrow>
   writes True {64 * b..<64 * e} bm (bm\<lparr>bm_map := set_range_of_words b e (bm_map bm)\<rparr>)"
  unfolding set_range_of_words_def by (rule words_write) simp_all

lemma words_write_zeros:
  "b \<le> e \<Longrightarrow> e \<le> length (bm_map bm) \<Longrightarrow>
   writes False {64 * b..<64 * e} bm (bm\<lparr>bm_map := clear_range_of_words b e (bm_map bm)\<rparr>)"
  unfolding clear_range_of_words_def by (rule words_write) simp_all

interpretation sr: range_writer True set_range_within_word set_range_within_word set_range_of_words
  by unfold_locales (assumption | rule within_word_write within_word_none words_write_ones words_write_zeros)+

interpretation cr: range_writer False clear_range_within_word clear_range_within_word clear_range_of_words
  by unfold_locales (assumption | rule within_word_write within_word_none words_write_ones words_write_zeros)+

interpretation ps: range_writer True "\<lambda>b e. par_put_range_within_word [] b e True"
    "\<lambda>b e. par_put_range_within_word [] b e True" set_range_of_words
  by unfold_locales (assumption | rule within_word_write within_word_none words_write_ones words_write_zeros)+

interpretation pc: range_writer False "\<lambda>b e. par_put_range_within_word [] b e False"
    "\<lambda>b e. par_put_range_within_word [] b e False" clear_range_of_words
  by unfold_locales (assumption | rule within_word_write within_word_none words_write_ones words_write_zeros)+

lemma range_ops:
  "set_range = range_op set_range_within_word set_range_within_word set_range_of_words"
  "clear_range = range_op clear_range_within_word clear_range_within_word clear_range_of_words"
  "(\<lambda>b e. par_at_put_range [] [] b e True) =
     range_op (\<lambda>b e. par_put_range_within_word [] b e True) (\<lambda>b e. par_put_range_within_word [] b e True) set_range_of_words"
  "(\<lambda>b e. par_at_put_range [] [] b e False) =
     range_op (\<lambda>b e. par_put_range_within_word [] b e False) (\<lambda>b e. par_put_range_within_word [] b e False) clear_range_of_words"
  by (intro ext; simp add: set_range_def clear_range_def par_at_put_range_def range_op_def)+

lemma at_put_range_writes:
  assumes "bm_ok bm" and "beg \<le> en" and "en \<le> bm_size bm"
  shows "\<exists>bm'. at_put_range beg en v bm = Inr bm' \<and> writes v {beg..<en} bm bm'"
    and "\<exists>bm'. par_at_put_range [] [] beg en v bm = Inr bm' \<and> writes v {beg..<en} bm bm'"
  using sr.range_writes [OF assms] cr.range_writes [OF assms] ps.range_writes [OF assms] pc.range_writes [OF assms]
  by (cases v; simp add: at_put_range_def range_ops fun_cong [OF fun_cong [OF range_ops(3)]]
      fun_cong [OF fun_cong [OF range_ops(4)]])+

end
