(* ===== verification/Bit_Map_Search.thy ===== *)
theory Bit_Map_Search
  imports Bit_Map_Set
begin

text \<open>
  The searches of a \<^verbatim>\<open>BitMap\<close> return the first index of the kind looked for, the iteration
  calls its closure on exactly the one bits of the range in ascending order, and an update by
  compare-and-exchange takes effect at one instant.
\<close>

section \<open>Scans of a word\<close>

definition is_first :: "(nat \<Rightarrow> bool) \<Rightarrow> nat \<Rightarrow> nat \<Rightarrow> nat \<Rightarrow> bool" where
  "is_first P l r x = (l \<le> x \<and> x \<le> r \<and> (\<forall>i. l \<le> i \<and> i < x \<longrightarrow> \<not> P i) \<and> (x < r \<longrightarrow> P x))"

lemma is_first_unique: "is_first P l r x \<Longrightarrow> is_first P l r y \<Longrightarrow> x = y"
  unfolding is_first_def by (metis linorder_neqE_nat order.strict_trans2)

lemma bit_shift1: "bit (drop_bit (Suc 0) w) n = bit w (Suc n)" for w :: bm_word
  by (simp add: bit_drop_bit_eq)

lemma scan_one_finds:
  "res \<noteq> 0 \<Longrightarrow> \<exists>k. scan_one res off = Some (off + k) \<and> bit res k \<and> (\<forall>j<k. \<not> bit res j)"
proof (induction res off rule: scan_one.induct)
  case (1 res off)
  show ?case
  proof (cases "bit res 0")
    case True
    then show ?thesis using 1 by (intro exI [of _ 0]) (simp add: scan_one.simps [of res])
  next
    case False
    have "drop_bit 1 res \<noteq> 0"
    proof
      assume z: "drop_bit 1 res = 0"
      have "\<not> bit res n" for n
        using False bit_shift1 [of res "n - 1"] z by (cases n) simp_all
      then show False using 1(2) by (simp add: bit_eq_iff)
    qed
    then obtain k where "scan_one (drop_bit 1 res) (off + 1) = Some (off + 1 + k)"
        "bit (drop_bit 1 res) k" "\<forall>j<k. \<not> bit (drop_bit 1 res) j"
      using 1(1) [OF 1(2) False] by blast
    then show ?thesis using 1(2) False
      by (intro exI [of _ "Suc k"]) (auto simp: scan_one.simps [of res] bit_shift1 less_Suc_eq_0_disj)
  qed
qed

lemma scan_zero_finds:
  "\<exists>k. scan_zero res off = off + k \<and> \<not> bit res k \<and> (\<forall>j<k. bit res j)"
proof (induction res off rule: scan_zero.induct)
  case (1 res off)
  show ?case
  proof (cases "bit res 0")
    case True
    then obtain k where "scan_zero (drop_bit 1 res) (off + 1) = off + 1 + k"
        "\<not> bit (drop_bit 1 res) k" "\<forall>j<k. bit (drop_bit 1 res) j"
      using 1 by blast
    then show ?thesis using True
      by (intro exI [of _ "Suc k"]) (auto simp: scan_zero.simps [of res] bit_shift1 less_Suc_eq_0_disj)
  next
    case False
    then show ?thesis by (intro exI [of _ 0]) (simp add: scan_zero.simps [of res])
  qed
qed

lemma test_shift: "l mod 64 + k < 64 \<Longrightarrow> test bm (l + k) = bit (bm_map bm ! (l div 64)) (l mod 64 + k)"
proof -
  assume a: "l mod 64 + k < 64"
  have "l + k = (l mod 64 + k) + 64 * (l div 64)" by simp
  then have "(l + k) div 64 = l div 64" "(l + k) mod 64 = l mod 64 + k"
    using a by (metis div_less div_mult_self4 add_0 zero_neq_numeral add.commute, metis mod_less mod_mult_self2)
  then show ?thesis by (simp add: test_def)
qed

lemma test_word: "p < 64 \<Longrightarrow> test bm (64 * k + p) = bit (bm_map bm ! k) p"
  using test_shift [of "64 * k" p bm] by simp


section \<open>The searches\<close>

lemma next_one_words_first:
  assumes "a \<le> b"
  shows "\<exists>x. next_one_words bm [a..<b] (Some r) = Some x \<and>
    ((x = r \<and> (\<forall>i. 64 * a \<le> i \<and> i < 64 * b \<longrightarrow> \<not> test bm i)) \<or>
     (64 * a \<le> x \<and> x < 64 * b \<and> test bm x \<and> (\<forall>i. 64 * a \<le> i \<and> i < x \<longrightarrow> \<not> test bm i)))"
  using assms
proof (induction "b - a" arbitrary: a)
  case 0
  then show ?case by auto
next
  case (Suc n)
  then have ab: "a < b" by simp
  then have upt: "[a..<b] = a # [Suc a..<b]" by (rule upt_conv_Cons)
  show ?case
  proof (cases "bm_map bm ! a = 0")
    case True
    have none: "\<not> test bm i" if "64 * a \<le> i" "i < 64 * Suc a" for i
      using that True test_word [of "i - 64 * a" bm a] by simp
    have "n = b - Suc a" "Suc a \<le> b" using Suc(2) ab by simp_all
    from Suc(1) [OF this] obtain x where x: "next_one_words bm [Suc a..<b] (Some r) = Some x"
        "(x = r \<and> (\<forall>i. 64 * Suc a \<le> i \<and> i < 64 * b \<longrightarrow> \<not> test bm i)) \<or>
         (64 * Suc a \<le> x \<and> x < 64 * b \<and> test bm x \<and> (\<forall>i. 64 * Suc a \<le> i \<and> i < x \<longrightarrow> \<not> test bm i))"
      by blast
    have down: "\<forall>i. 64 * a \<le> i \<and> i < m \<longrightarrow> \<not> test bm i"
      if "\<forall>i. 64 * Suc a \<le> i \<and> i < m \<longrightarrow> \<not> test bm i" for m
      using that none not_le by blast
    have "next_one_words bm [a..<b] (Some r) = Some x" unfolding upt using x(1) by (simp add: True)
    moreover have "64 * a \<le> x" if "64 * Suc a \<le> x" using that by simp
    ultimately show ?thesis using x(2) down [of "64 * b"] down [of x] by blast
  next
    case False
    obtain k where k: "scan_one (bm_map bm ! a) (64 * a) = Some (64 * a + k)"
        "bit (bm_map bm ! a) k" "\<forall>j<k. \<not> bit (bm_map bm ! a) j"
      using scan_one_finds [OF False] by blast
    have k64: "k < 64" using k(2) bit_below_64 by blast
    have "\<not> test bm i" if "64 * a \<le> i" "i < 64 * a + k" for i
      using that k(3) k64 test_word [of "i - 64 * a" bm a] by simp
    then show ?thesis
      using k(1,2) k64 ab False test_word [OF k64, of bm a] unfolding upt by (auto simp: idx mult.commute)
  qed
qed

lemma first_word_one:
  defines "res \<equiv> \<lambda>bm l. drop_bit (l mod 64) (bm_map bm ! (l div 64))"
  shows "res bm l = 0 \<Longrightarrow> l \<le> i \<Longrightarrow> i < 64 * (l div 64 + 1) \<Longrightarrow> \<not> test bm i"
    and "res bm l \<noteq> 0 \<Longrightarrow> \<exists>x. scan_one (res bm l) l = Some x \<and> l \<le> x \<and> x < 64 * (l div 64 + 1) \<and> test bm x \<and>
           (\<forall>i. l \<le> i \<and> i < x \<longrightarrow> \<not> test bm i)"
proof -
  have l: "k < 64 * (l div 64 + 1) \<longleftrightarrow> l mod 64 + (k - l) < 64" if "l \<le> k" for k
  proof -
    define q m where "q = l div 64" and "m = l mod 64"
    have "l = m + 64 * q" by (simp add: q_def m_def)
    then show ?thesis using that unfolding q_def [symmetric] m_def [symmetric] by auto
  qed
  { assume "res bm l = 0" "l \<le> i" "i < 64 * (l div 64 + 1)"
    moreover have "l mod 64 + (i - l) < 64" using calculation l by blast
    moreover have "test bm i = bit (res bm l) (i - l)"
      using test_shift [of l "i - l" bm] calculation(2,4) by (simp only: res_def bit_drop_bit_eq o_def le_add_diff_inverse)
    ultimately show "\<not> test bm i" by (simp only: bit_0_eq bot_apply) simp }
  { assume "res bm l \<noteq> 0"
    then obtain k where k: "scan_one (res bm l) l = Some (l + k)" "bit (res bm l) k" "\<forall>j<k. \<not> bit (res bm l) j"
      using scan_one_finds by blast
    have b: "bit (res bm l) j = bit (bm_map bm ! (l div 64)) (l mod 64 + j)" for j
      by (simp add: res_def bit_drop_bit_eq)
    have k64: "l mod 64 + k < 64" using k(2) bit_below_64 unfolding b by blast
    have "\<not> test bm i" if "l \<le> i" "i < l + k" for i
    proof -
      have "i = l + (i - l)" "i - l < k" using that by simp_all
      then obtain j where "i = l + j" "j < k" by blast
      then show ?thesis using k(3) k64 test_shift [of l j bm] by (simp add: b)
    qed
    then show "\<exists>x. scan_one (res bm l) l = Some x \<and> l \<le> x \<and> x < 64 * (l div 64 + 1) \<and> test bm x \<and>
           (\<forall>i. l \<le> i \<and> i < x \<longrightarrow> \<not> test bm i)"
      using k(1,2) k64 l [of "l + k"] test_shift [OF k64] by (intro exI [of _ "l + k"]) (simp add: b) }
qed


lemma is_first_min: "is_first P l r (min x r)"
  if "l \<le> x" and "l \<le> r" and "\<forall>i. l \<le> i \<and> i < x \<longrightarrow> \<not> P i" and "x < r \<longrightarrow> P x"
  using that by (auto simp: is_first_def min_def)

lemma last_word: "l < r \<Longrightarrow> l div 64 + 1 \<le> (r - 1) div 64 + 1 \<and> r \<le> 64 * ((r - 1) div 64 + 1)"
  for l r :: nat
proof -
  assume a: "l < r"
  have "r - 1 < 64 * ((r - 1) div 64 + 1)" by (simp only: div_less_words)
  then show ?thesis using a div_le_mono [of l "r - 1" 64] by simp
qed

lemma next_one_first:
  assumes ok: "bm_ok bm" "tail_clean bm" and le: "l \<le> r" "r \<le> bm_size bm"
  shows "\<exists>x. get_next_one_offset l r bm = Inr (Some x) \<and> is_first (test bm) l r x"
proof (cases "l = r")
  case True
  then show ?thesis using le by (auto simp: get_next_one_offset_def vassert_def is_first_def)
next
  case False
  then have lr: "l < r" using le by simp
  define res where "res = drop_bit (l mod 64) (bm_map bm ! (l div 64))"
  note lw = last_word [OF lr]
  show ?thesis
  proof (cases "res = 0")
    case True
    have fw: "\<not> test bm i" if "l \<le> i" "i < 64 * (l div 64 + 1)" for i
      using first_word_one(1) that True unfolding res_def by blast
    obtain x where x: "next_one_words bm [l div 64 + 1..<(r - 1) div 64 + 1] (Some r) = Some x"
        "(x = r \<and> (\<forall>i. 64 * (l div 64 + 1) \<le> i \<and> i < 64 * ((r - 1) div 64 + 1) \<longrightarrow> \<not> test bm i)) \<or>
         (64 * (l div 64 + 1) \<le> x \<and> x < 64 * ((r - 1) div 64 + 1) \<and> test bm x \<and>
          (\<forall>i. 64 * (l div 64 + 1) \<le> i \<and> i < x \<longrightarrow> \<not> test bm i))"
      using next_one_words_first lw by blast
    have get: "get_next_one_offset l r bm = Inr (Some (min x r))"
      using le lr True x(1) by (simp add: get_next_one_offset_def vassert_def idx res_def)
    have all: "\<forall>i. l \<le> i \<and> i < m \<longrightarrow> \<not> test bm i"
      if "\<forall>i. 64 * (l div 64 + 1) \<le> i \<and> i < m \<longrightarrow> \<not> test bm i" for m
      using that fw not_le by blast
    have lx: "l \<le> x" if "64 * (l div 64 + 1) \<le> x"
      using that div_less_words [of l "l div 64 + 1"] by simp
    from x(2) have "is_first (test bm) l r (min x r)"
    proof
      assume "x = r \<and> (\<forall>i. 64 * (l div 64 + 1) \<le> i \<and> i < 64 * ((r - 1) div 64 + 1) \<longrightarrow> \<not> test bm i)"
      then show ?thesis using all lw le(1) by (intro is_first_min) (auto dest: less_le_trans)
    next
      assume "64 * (l div 64 + 1) \<le> x \<and> x < 64 * ((r - 1) div 64 + 1) \<and> test bm x \<and>
          (\<forall>i. 64 * (l div 64 + 1) \<le> i \<and> i < x \<longrightarrow> \<not> test bm i)"
      then show ?thesis using all lx le(1) by (intro is_first_min) blast+
    qed
    then show ?thesis using get by blast
  next
    case False
    obtain x where x: "scan_one res l = Some x" "l \<le> x" "x < 64 * (l div 64 + 1)" "test bm x"
        "\<forall>i. l \<le> i \<and> i < x \<longrightarrow> \<not> test bm i"
      using first_word_one(2) [of l bm] False unfolding res_def by blast
    have "l div 64 < length (bm_map bm)" using ok_index [OF ok(1)] lr le by simp
    then have "x < 64 * length (bm_map bm)" using x(3) by (simp add: less_le_trans)
    then have size: "x < bm_size bm" using ok(2) x(4) unfolding tail_clean_def not_le [symmetric] by blast
    have "x < r" if "r mod 64 = 0"
    proof -
      obtain q where q: "r = 64 * q" using \<open>r mod 64 = 0\<close> by (auto elim: dvdE)
      then have "l div 64 < q" using lr by (simp add: div_less_words)
      then have "64 * (l div 64 + 1) \<le> r" unfolding q by (intro mult_le_mono2) simp
      then show ?thesis using x(3) by (rule less_le_trans [rotated])
    qed
    then have "get_next_one_offset l r bm = Inr (Some (min x r))"
      using le lr False x size by (simp add: get_next_one_offset_def vassert_def idx res_def)
    then show ?thesis using is_first_min [OF x(2) le(1) x(5)] x(4) by blast
  qed
qed


lemma next_zero_words_first:
  assumes "a \<le> b"
  shows "\<exists>x. next_zero_words bm [a..<b] r = x \<and>
    ((x = r \<and> (\<forall>i. 64 * a \<le> i \<and> i < 64 * b \<longrightarrow> test bm i)) \<or>
     (64 * a \<le> x \<and> x < 64 * b \<and> \<not> test bm x \<and> (\<forall>i. 64 * a \<le> i \<and> i < x \<longrightarrow> test bm i)))"
  using assms
proof (induction "b - a" arbitrary: a)
  case 0
  then show ?case by auto
next
  case (Suc n)
  then have ab: "a < b" by simp
  then have upt: "[a..<b] = a # [Suc a..<b]" by (rule upt_conv_Cons)
  show ?case
  proof (cases "bm_map bm ! a = NOT 0")
    case True
    have all1: "test bm i" if "64 * a \<le> i" "i < 64 * Suc a" for i
      using that True test_word [of "i - 64 * a" bm a] by simp
    have "n = b - Suc a" "Suc a \<le> b" using Suc(2) ab by simp_all
    from Suc(1) [OF this] obtain x where x: "next_zero_words bm [Suc a..<b] r = x"
        "(x = r \<and> (\<forall>i. 64 * Suc a \<le> i \<and> i < 64 * b \<longrightarrow> test bm i)) \<or>
         (64 * Suc a \<le> x \<and> x < 64 * b \<and> \<not> test bm x \<and> (\<forall>i. 64 * Suc a \<le> i \<and> i < x \<longrightarrow> test bm i))"
      by blast
    have down: "\<forall>i. 64 * a \<le> i \<and> i < m \<longrightarrow> test bm i"
      if "\<forall>i. 64 * Suc a \<le> i \<and> i < m \<longrightarrow> test bm i" for m
      using that all1 not_le by blast
    have "next_zero_words bm [a..<b] r = x" unfolding upt using x(1) by (simp add: True)
    moreover have "64 * a \<le> x" if "64 * Suc a \<le> x" using that by simp
    ultimately show ?thesis using x(2) down [of "64 * b"] down [of x] by blast
  next
    case False
    obtain k where k: "scan_zero (bm_map bm ! a) (64 * a) = 64 * a + k"
        "\<not> bit (bm_map bm ! a) k" "\<forall>j<k. bit (bm_map bm ! a) j"
      using scan_zero_finds by blast
    have k64: "k < 64"
    proof (rule ccontr)
      assume "\<not> k < 64"
      then have "bit (bm_map bm ! a) j" if "j < 64" for j using k(3) that by simp
      then show False using False by (simp add: bit_eq_iff bit_not_iff)
    qed
    have "test bm i" if "64 * a \<le> i" "i < 64 * a + k" for i
      using that k(3) k64 test_word [of "i - 64 * a" bm a] by simp
    then show ?thesis
      using k(1,2) k64 ab False test_word [OF k64, of bm a] unfolding upt by (auto simp: idx mult.commute)
  qed
qed

lemma first_word_zero:
  defines "res \<equiv> \<lambda>bm l. drop_bit (l mod 64) (bm_map bm ! (l div 64)) OR NOT (mask (64 - l mod 64))"
  shows "res bm l = NOT 0 \<Longrightarrow> l \<le> i \<Longrightarrow> i < 64 * (l div 64 + 1) \<Longrightarrow> test bm i"
    and "res bm l \<noteq> NOT 0 \<Longrightarrow> l \<le> scan_zero (res bm l) l \<and> \<not> test bm (scan_zero (res bm l) l) \<and>
           (\<forall>i. l \<le> i \<and> i < scan_zero (res bm l) l \<longrightarrow> test bm i)"
proof -
  have b: "bit (res bm l) j = test bm (l + j)" if "l mod 64 + j < 64" for j
  proof -
    have "j < 64 - l mod 64" using that by (simp add: less_diff_conv add.commute)
    then show ?thesis using that
      by (simp add: res_def bit_or_iff bit_drop_bit_eq bit_not_iff bit_mask_iff test_shift)
  qed
  have top: "bit (res bm l) j" if "64 \<le> l mod 64 + j" "j < 64" for j
  proof -
    have "\<not> j < 64 - l mod 64" using that by (simp add: less_diff_conv add.commute not_less)
    then show ?thesis using that(2) by (simp add: res_def bit_or_iff bit_not_iff bit_mask_iff)
  qed
  { assume r: "res bm l = NOT 0" and i: "l \<le> i" "i < 64 * (l div 64 + 1)"
    define q m where "q = l div 64" and "m = l mod 64"
    have "l = m + 64 * q" by (simp add: q_def m_def)
    then have lt: "l mod 64 + (i - l) < 64" using i unfolding q_def [symmetric] m_def [symmetric] by auto
    then have "i - l < 64" by simp
    then have "bit (res bm l) (i - l)" using r by simp
    then show "test bm i" using b [OF lt] i(1) by simp }
  { assume r: "res bm l \<noteq> NOT 0"
    obtain k where k: "scan_zero (res bm l) l = l + k" "\<not> bit (res bm l) k" "\<forall>j<k. bit (res bm l) j"
      using scan_zero_finds by blast
    have k64: "k < 64"
    proof (rule ccontr)
      assume "\<not> k < 64"
      then have "bit (res bm l) j" if "j < 64" for j using k(3) that by simp
      then show False using r by (simp add: bit_eq_iff bit_not_iff)
    qed
    then have lk: "l mod 64 + k < 64" using top [of k] k(2) not_le by blast
    have "test bm i" if "l \<le> i" "i < l + k" for i
      using k(3) b [of "i - l"] lk that by simp
    then show "l \<le> scan_zero (res bm l) l \<and> \<not> test bm (scan_zero (res bm l) l) \<and>
           (\<forall>i. l \<le> i \<and> i < scan_zero (res bm l) l \<longrightarrow> test bm i)"
      using k(1,2) b [OF lk] by simp }
qed

lemma next_zero_first:
  assumes le: "l \<le> r" "r \<le> bm_size bm"
  shows "\<exists>x. get_next_zero_offset l r bm = Inr x \<and> is_first (\<lambda>i. \<not> test bm i) l r x"
proof (cases "l = r")
  case True
  then show ?thesis using le by (auto simp: get_next_zero_offset_def vassert_def is_first_def)
next
  case False
  then have lr: "l < r" using le by simp
  define res where "res = drop_bit (l mod 64) (bm_map bm ! (l div 64)) OR NOT (mask (64 - l mod 64))"
  note lw = last_word [OF lr]
  show ?thesis
  proof (cases "res = NOT 0")
    case True
    have fw: "test bm i" if "l \<le> i" "i < 64 * (l div 64 + 1)" for i
      using first_word_zero(1) that True unfolding res_def by blast
    define x where "x = next_zero_words bm [l div 64 + 1..<(r - 1) div 64 + 1] r"
    have x: "(x = r \<and> (\<forall>i. 64 * (l div 64 + 1) \<le> i \<and> i < 64 * ((r - 1) div 64 + 1) \<longrightarrow> test bm i)) \<or>
         (64 * (l div 64 + 1) \<le> x \<and> x < 64 * ((r - 1) div 64 + 1) \<and> \<not> test bm x \<and>
          (\<forall>i. 64 * (l div 64 + 1) \<le> i \<and> i < x \<longrightarrow> test bm i))"
      using next_zero_words_first lw unfolding x_def by blast
    have get: "get_next_zero_offset l r bm = Inr (min x r)"
      using le lr True by (simp add: get_next_zero_offset_def vassert_def idx res_def x_def)
    have all: "\<forall>i. l \<le> i \<and> i < m \<longrightarrow> \<not> \<not> test bm i"
      if "\<forall>i. 64 * (l div 64 + 1) \<le> i \<and> i < m \<longrightarrow> test bm i" for m
      using that fw not_le by blast
    have lx: "l \<le> x" if "64 * (l div 64 + 1) \<le> x"
      using that div_less_words [of l "l div 64 + 1"] by simp
    from x have "is_first (\<lambda>i. \<not> test bm i) l r (min x r)"
    proof
      assume "x = r \<and> (\<forall>i. 64 * (l div 64 + 1) \<le> i \<and> i < 64 * ((r - 1) div 64 + 1) \<longrightarrow> test bm i)"
      then show ?thesis using all lw le(1) by (intro is_first_min) (auto dest: less_le_trans)
    next
      assume "64 * (l div 64 + 1) \<le> x \<and> x < 64 * ((r - 1) div 64 + 1) \<and> \<not> test bm x \<and>
          (\<forall>i. 64 * (l div 64 + 1) \<le> i \<and> i < x \<longrightarrow> test bm i)"
      then show ?thesis using all lx le(1) by (intro is_first_min) blast+
    qed
    then show ?thesis using get by blast
  next
    case False
    have x: "l \<le> scan_zero res l \<and> \<not> test bm (scan_zero res l) \<and> (\<forall>i. l \<le> i \<and> i < scan_zero res l \<longrightarrow> test bm i)"
      using first_word_zero(2) [of l bm] False unfolding res_def by blast
    have "get_next_zero_offset l r bm = Inr (min (scan_zero res l) r)"
      using le lr False by (simp add: get_next_zero_offset_def vassert_def idx res_def Let_def)
    moreover have "is_first (\<lambda>i. \<not> test bm i) l r (min (scan_zero res l) r)"
      using x le(1) by (intro is_first_min) blast+
    ultimately show ?thesis by blast
  qed
qed


section \<open>Iteration\<close>

text \<open>The calls of a closure on a list of indices, until it returns false.\<close>

fun visit :: "(nat \<Rightarrow> 's \<Rightarrow> bool \<times> 's) \<Rightarrow> nat list \<Rightarrow> 's \<Rightarrow> bool \<times> 's" where
  "visit do_bit [] s = (True, s)"
| "visit do_bit (i # is) s = (case do_bit i s of (go, s') \<Rightarrow> if go then visit do_bit is s' else (False, s'))"

lemma visit_append:
  "visit f (xs @ ys) s = (case visit f xs s of (go, s') \<Rightarrow> if go then visit f ys s' else (False, s'))"
  by (induction xs arbitrary: s) (auto split: prod.splits)

lemma visit_keeps:
  assumes "\<And>i s. g (snd (f i s)) = g s"
  shows "g (snd (visit f xs s)) = g s"
proof (induction xs arbitrary: s)
  case (Cons x xs)
  then show ?case using assms [of x s] by (auto split: prod.splits)
qed simp

lemma iterate_word_visits:
  assumes keeps: "\<And>i s. words (snd (do_bit i s)) = words s"
  shows "p \<le> 64 \<Longrightarrow> words s ! index = W \<Longrightarrow>
    iterate_word words do_bit r index (64 * index + p) (drop_bit p W) s =
    visit do_bit (filter (\<lambda>i. bit W (i - 64 * index)) [64 * index + p..<min r (64 * index + 64)]) s"
proof (induction "64 - p" arbitrary: p s)
  case 0
  then have "p = 64" by simp
  moreover have "drop_bit 64 W = 0" by (auto simp: bit_eq_iff bit_drop_bit_eq dest: bit_below_64)
  ultimately show ?case by (simp add: iterate_word.simps)
next
  case (Suc n)
  define off where "off = 64 * index + p"
  have p: "p < 64" "n = 64 - Suc p" "Suc p \<le> 64" using Suc(2) by simp_all
  have off: "bit_in_word off = p" using p by (simp add: off_def idx)
  show ?case
  proof (cases "off < r \<and> drop_bit p W \<noteq> 0")
    case False
    have "filter (\<lambda>i. bit W (i - 64 * index)) [off..<min r (64 * index + 64)] = []"
    proof (cases "off < r")
      case True
      with False have z: "drop_bit p W = 0" by simp
      have "\<not> bit W (i - 64 * index)" if "off \<le> i" for i
      proof -
        have "\<not> bit (drop_bit p W) (i - off)" by (simp add: z)
        moreover have "p + (i - off) = i - 64 * index" using that by (simp add: off_def)
        ultimately show ?thesis by (simp add: bit_drop_bit_eq)
      qed
      then show ?thesis by (simp add: filter_empty_conv)
    qed simp
    then show ?thesis using False by (auto simp: iterate_word.simps off_def)
  next
    case True
    then have "off < min r (64 * index + 64)" using p by (simp add: off_def)
    then have upt: "[off..<min r (64 * index + 64)] = off # [off + 1..<min r (64 * index + 64)]"
      by (simp add: upt_conv_Cons)
    have b: "bit W (off - 64 * index) = bit (drop_bit p W) 0" by (simp add: off_def bit_drop_bit_eq)
    have dd: "drop_bit 1 (drop_bit p W) = drop_bit (Suc p) W" by simp
    have IH: "iterate_word words do_bit r index (off + 1) (drop_bit (Suc p) W) s' =
        visit do_bit (filter (\<lambda>i. bit W (i - 64 * index)) [off + 1..<min r (64 * index + 64)]) s'"
      if "words s' ! index = W" for s'
      using Suc(1) [OF p(2,3) that] by (simp add: off_def)
    show ?thesis
    proof (cases "bit (drop_bit p W) 0")
      case one: True
      obtain go s' where ds: "do_bit off s = (go, s')" by (cases "do_bit off s")
      have W: "words s' ! index = W" using keeps [of off s] ds Suc(4) by simp
      show ?thesis unfolding off_def [symmetric] upt
        using True one W by (simp add: iterate_word.simps [of _ _ _ _ off] ds b off dd IH [OF W] del: One_nat_def drop_bit_drop_bit)
    next
      case False
      show ?thesis unfolding off_def [symmetric] upt
        using True False by (simp add: iterate_word.simps [of _ _ _ _ off] b dd IH [OF Suc(4)] del: One_nat_def drop_bit_drop_bit)
    qed
  qed
qed


lemma iterate_words_visits:
  assumes keeps: "\<And>i s. words (snd (do_bit i s)) = words s"
  shows "off div 64 = index \<Longrightarrow> r \<le> 64 * E \<Longrightarrow> words s = ws \<Longrightarrow>
    iterate_words words do_bit r E index off s =
    visit do_bit (filter (\<lambda>i. bit (ws ! (i div 64)) (i mod 64)) [off..<r]) s"
proof (induction "E - index" arbitrary: index off s)
  case 0
  then have "r \<le> off" using div_less_words [of off E] by simp
  then show ?case by (simp add: iterate_words.simps)
next
  case (Suc n)
  show ?case
  proof (cases "off < r")
    case False
    then show ?thesis by (simp add: iterate_words.simps)
  next
    case True
    define next_off where "next_off = 64 * index + 64"
    define p where "p = off mod 64"
    have off: "off = 64 * index + p" "p < 64" using Suc(3) by (simp_all add: p_def flip: Suc(3))
    have word: "iterate_word words do_bit r index off (drop_bit p (ws ! index)) s =
        visit do_bit (filter (\<lambda>i. bit (ws ! (i div 64)) (i mod 64)) [off..<min r next_off]) s"
    proof -
      have "i div 64 = index \<and> i mod 64 = i - 64 * index" if "off \<le> i" "i < next_off" for i
      proof -
        have "i = 64 * index + (i - 64 * index)" "i - 64 * index < 64"
          using that off by (simp_all add: next_off_def)
        then show ?thesis by (metis add.commute add_0 div_less div_mult_self4 mod_less mod_mult_self2 zero_neq_numeral)
      qed
      then have "filter (\<lambda>i. bit (ws ! (i div 64)) (i mod 64)) [off..<min r next_off] =
          filter (\<lambda>i. bit (ws ! index) (i - 64 * index)) [off..<min r next_off]"
        by (intro filter_cong) auto
      then show ?thesis
        using iterate_word_visits [where words = words and do_bit = do_bit and W = "ws ! index" and p = p and s = s
            and index = index and r = r, OF keeps] off Suc(5)
        by (simp add: next_off_def)
    qed
    have upt: "[off..<r] = [off..<min r next_off] @ [next_off..<r]"
      using off True upt_add_eq_append [of off next_off "r - next_off"]
      by (cases "next_off \<le> r") (simp_all add: next_off_def)
    obtain go s' where v: "visit do_bit (filter (\<lambda>i. bit (ws ! (i div 64)) (i mod 64)) [off..<min r next_off]) s = (go, s')"
      by fastforce
    have ws': "words s' = ws"
      using visit_keeps [where g = words and f = do_bit, OF keeps, of "filter (\<lambda>i. bit (ws ! (i div 64)) (i mod 64)) [off..<min r next_off]" s]
        v Suc(5) by simp
    have idx': "n = E - Suc index" "bit_index (Suc index) = next_off" "next_off div 64 = Suc index"
      using Suc(2) by (simp_all add: idx next_off_def)
    note IH = Suc(1) [OF idx'(1,3) Suc(4) ws']
    have "index < E" using Suc(2) by simp
    then show ?thesis using True v word
      by (simp add: iterate_words.simps [of _ _ _ _ index] Suc(5) idx' IH upt visit_append p_def [symmetric]
          bit_in_word_def BitsPerWord_def)
  qed
qed

lemma iterate_visits_bits:
  assumes ok: "bm_ok (bm_of s)" and le: "l \<le> r" "r \<le> bm_size (bm_of s)"
    and keeps: "\<And>i s. bm_of (snd (do_bit i s)) = bm_of s"
  shows "iterate bm_of do_bit l r s = Inr (visit do_bit (filter (test (bm_of s)) [l..<r]) s)"
proof -
  have keeps': "bm_map (bm_of (snd (do_bit i s))) = bm_map (bm_of s)" for i s using keeps by simp
  have "r \<le> 64 * (r div 64 + 1)" by simp
  then have "r \<le> 64 * min (r div 64 + 1) (length (bm_map (bm_of s)))"
    using size_covered [OF ok] le by (simp add: min_def)
  then have "iterate_words (\<lambda>s. bm_map (bm_of s)) do_bit r (min (r div 64 + 1) (length (bm_map (bm_of s)))) (l div 64) l s =
    visit do_bit (filter (\<lambda>i. bit (bm_map (bm_of s) ! (i div 64)) (i mod 64)) [l..<r]) s"
    by (intro iterate_words_visits [where words = "\<lambda>s. bm_map (bm_of s)" and do_bit = do_bit, OF keeps']) simp_all
  then show ?thesis using le ok
    by (simp add: iterate_def verify_range_def verify_index_def vassert_def size_in_words_ok word_index_def
        BitsPerWord_def test_def [abs_def])
qed

section \<open>Updates by compare-and-exchange\<close>

text \<open>
  Whatever other threads do, an update returns and acts as one atomic step: after some prefix
  of the others' steps it replaces the word by its update, and tells whether that changed it.
\<close>

lemma par_update_linear:
  "\<exists>k \<le> length others. let v = fold (\<lambda>f. f) (take k others) w
     in par_update_loop upd others w w = (upd v \<noteq> v, upd v)"
proof (induction others arbitrary: w)
  case Nil
  then show ?case by simp
next
  case (Cons other others)
  show ?case
  proof (cases "upd w = w \<or> other w = w")
    case True
    then show ?thesis
      by (cases "upd w = w") (auto simp: Let_def intro: exI [of _ 0] exI [of _ "Suc 0"])
  next
    case False
    obtain k where "k \<le> length others" "par_update_loop upd others (other w) (other w) =
        (upd (fold (\<lambda>f. f) (take k others) (other w)) \<noteq> fold (\<lambda>f. f) (take k others) (other w),
         upd (fold (\<lambda>f. f) (take k others) (other w)))"
      using Cons [of "other w"] by (auto simp: Let_def)
    then show ?thesis using False by (intro exI [of _ "Suc k"]) (simp add: Let_def)
  qed
qed

end
