(* ===== verification/Bit_Map_Algebra.thy ===== *)
theory Bit_Map_Algebra
  imports Bit_Map_Search
begin

text \<open>
  The set operations, the comparisons and the count of a \<^verbatim>\<open>BitMap\<close> against the represented
  set; creation and growth; the interface \<open>bit_set\<close> with its provider \<^verbatim>\<open>BitMap\<close> and its client
  \<^verbatim>\<open>BitMap2D\<close>; the properties of the bit maps.
\<close>

section \<open>Word-wise operations\<close>

lemma fold_update_words:
  "n \<le> length m \<Longrightarrow> fold (\<lambda>i m. m[i := g i (m ! i)]) [0..<n] m = map (\<lambda>k. if k < n then g k (m ! k) else m ! k) [0..<length m]"
  by (induction n) (auto simp: map_nth nth_list_update intro!: nth_equalityI)

lemma update_words_map:
  assumes "bm_ok bm"
  shows "bm_map (update_words f other bm) = map (\<lambda>k. f (bm_map bm ! k) (bm_map other ! k)) [0..<length (bm_map bm)]"
    and "bm_size (update_words f other bm) = bm_size bm"
  using assms by (simp_all add: update_words_def size_in_words_ok fold_update_words [where g = "\<lambda>i w. f w (bm_map other ! i)"])

lemma update_words_ok: "bm_ok bm \<Longrightarrow> bm_ok (update_words f other bm)"
  by (simp add: bm_ok_def update_words_map)

lemma test_update_words:
  assumes "bm_ok bm" and "i < bm_size bm"
  shows "test (update_words f other bm) i = bit (f (bm_map bm ! (i div 64)) (bm_map other ! (i div 64))) (i mod 64)"
  using assms ok_index [OF assms] by (simp add: test_def update_words_map)

lemma set_algebra:
  assumes "bm_ok a" and "bm_size a = bm_size b"
  shows "\<exists>c. set_union b a = Inr c \<and> bm_ok c \<and> bm_bits c = bm_bits a \<union> bm_bits b"
    and "\<exists>c. set_difference b a = Inr c \<and> bm_ok c \<and> bm_bits c = bm_bits a - bm_bits b"
    and "\<exists>c. set_intersection b a = Inr c \<and> bm_ok c \<and> bm_bits c = bm_bits a \<inter> bm_bits b"
    and "\<exists>c. set_from b a = Inr c \<and> bm_ok c \<and> bm_bits c = bm_bits b"
  using assms
  by (auto simp: set_union_def set_difference_def set_intersection_def set_from_def same_size_def vassert_def
      update_words_ok bm_bits_def test_update_words update_words_map bit_or_iff bit_and_iff bit_not_iff)
    (auto simp: test_def bit_or_iff bit_and_iff bit_not_iff)

lemma with_result_eq:
  assumes "bm_ok a"
  shows "with_result f b a = (update_words f b a \<noteq> a, update_words f b a)"
proof -
  have loop: "fold (\<lambda>i (changed, m). let temp = f (m ! i) (bm_map b ! i) in (changed \<or> temp \<noteq> m ! i, m[i := temp])) [0..<n] (False, m)
     = (fold (\<lambda>i m. m[i := f (m ! i) (bm_map b ! i)]) [0..<n] m \<noteq> m, fold (\<lambda>i m. m[i := f (m ! i) (bm_map b ! i)]) [0..<n] m)"
    if "n \<le> length m" for n m
    using that
  proof (induction n)
    case (Suc n)
    define m' where "m' = fold (\<lambda>i m. m[i := f (m ! i) (bm_map b ! i)]) [0..<n] m"
    have m': "m' = map (\<lambda>k. if k < n then f (m ! k) (bm_map b ! k) else m ! k) [0..<length m]"
      unfolding m'_def using Suc(2) by (intro fold_update_words [where g = "\<lambda>i w. f w (bm_map b ! i)"]) simp
    have n: "n < length m" "m' ! n = m ! n" "length m' = length m" using Suc(2) by (simp_all add: m')
    have "(m' \<noteq> m \<or> f (m ! n) (bm_map b ! n) \<noteq> m ! n) = (m'[n := f (m ! n) (bm_map b ! n)] \<noteq> m)"
      using n by (metis list_update_id list_update_overwrite nth_list_update_eq)
    then show ?case using Suc n by (simp add: m'_def [symmetric] Let_def)
  qed simp
  have "a\<lparr>bm_map := m\<rparr> = a \<longleftrightarrow> m = bm_map a" for m by (cases a) simp
  then show ?thesis
    using loop [of "size_in_words a" "bm_map a"] assms
    by (simp add: with_result_def update_words_def size_in_words_ok)
qed

lemma with_result_variants:
  assumes "bm_ok a"
  shows "set_union_with_result b a = rbind (set_union b a) (\<lambda>c. Inr (c \<noteq> a, c))"
    and "set_difference_with_result b a = rbind (set_difference b a) (\<lambda>c. Inr (c \<noteq> a, c))"
    and "set_intersection_with_result b a = rbind (set_intersection b a) (\<lambda>c. Inr (c \<noteq> a, c))"
  using assms by (simp_all add: set_union_with_result_def set_difference_with_result_def
      set_intersection_with_result_def set_union_def set_difference_def set_intersection_def same_size_def
      vassert_def with_result_eq)

section \<open>Comparisons\<close>

text \<open>The comparisons look at whole words: with no bits above the size they compare the sets.\<close>

lemma all_words:
  assumes "bm_ok bm" and "\<And>k. k < length (bm_map bm) \<Longrightarrow> P k = (\<forall>p<64. Q (64 * k + p))"
  shows "list_all P [0..<size_in_words bm] = (\<forall>i < 64 * length (bm_map bm). Q i)"
proof -
  have "(\<forall>k < length (bm_map bm). \<forall>p<64. Q (64 * k + p)) = (\<forall>i < 64 * length (bm_map bm). Q i)"
  proof (intro iffI allI impI)
    fix i assume *: "\<forall>k < length (bm_map bm). \<forall>p<64. Q (64 * k + p)" "i < 64 * length (bm_map bm)"
    have "Q (64 * (i div 64) + i mod 64)" using * by (simp only: div_less_words)
    then show "Q i" by simp
  next
    fix k p assume "\<forall>i < 64 * length (bm_map bm). Q i" "k < length (bm_map bm)" "p < (64::nat)"
    then show "Q (64 * k + p)" by (simp add: div_less_words)
  qed
  then show ?thesis using assms by (simp add: list_all_iff size_in_words_ok Ball_def)
qed

lemma word_subset: "(w OR v = w) = (\<forall>p<64. bit v p \<longrightarrow> bit w p)" for w v :: bm_word
  by (auto simp: bit_eq_iff bit_or_iff)

lemma word_equal: "(w = v) = (\<forall>p<64. bit w p = bit v p)" for w v :: bm_word
  by (auto simp: bit_eq_iff)

lemma comparisons:
  assumes ok: "bm_ok a" "bm_ok b" and size: "bm_size a = bm_size b" and clean: "tail_clean a" "tail_clean b"
  shows "contains b a = Inr (bm_bits b \<subseteq> bm_bits a)"
    and "is_same b a = Inr (bm_bits b = bm_bits a)"
    and "intersects b a = Inr (bm_bits b \<inter> bm_bits a \<noteq> {})"
proof -
  have len: "length (bm_map b) = length (bm_map a)" using ok size by (simp add: bm_ok_def)
  have bits: "test c i = (i \<in> bm_bits c)" if "c = a \<or> c = b" "i < 64 * length (bm_map a)" for c i
    using that clean len by (auto simp: bm_bits_def tail_clean_def not_le [symmetric])
  have below: "i < 64 * length (bm_map a)" if "i \<in> bm_bits a \<or> i \<in> bm_bits b" for i
    using that size_covered [OF ok(1)] size_covered [OF ok(2)] len by (auto simp: bm_bits_def)
  have "list_all (\<lambda>k. bm_map a ! k OR bm_map b ! k = bm_map a ! k) [0..<size_in_words a] =
      (\<forall>i < 64 * length (bm_map a). test b i \<longrightarrow> test a i)"
    by (intro all_words ok) (simp add: word_subset test_word)
  then show "contains b a = Inr (bm_bits b \<subseteq> bm_bits a)"
    using bits below by (auto simp: contains_def same_size_def vassert_def size)
  have "list_all (\<lambda>k. bm_map a ! k = bm_map b ! k) [0..<size_in_words a] =
      (\<forall>i < 64 * length (bm_map a). test a i = test b i)"
    by (intro all_words ok) (simp add: word_equal [of "_ ! _"] test_word)
  then show "is_same b a = Inr (bm_bits b = bm_bits a)"
    using bits below by (auto simp: is_same_def same_size_def vassert_def size)
  have "list_all (\<lambda>k. bm_map a ! k AND bm_map b ! k = 0) [0..<size_in_words a] =
      (\<forall>i < 64 * length (bm_map a). \<not> (test a i \<and> test b i))"
    by (intro all_words ok) (simp add: word_equal [of "_ AND _"] bit_and_iff test_word)
  then show "intersects b a = Inr (bm_bits b \<inter> bm_bits a \<noteq> {})"
    using bits below by (auto simp: intersects_def same_size_def vassert_def size list_ex_iff list_all_iff)
qed


lemma all_split:
  fixes rest :: nat
  assumes "64 \<le> rest"
  shows "(\<forall>i<rest. P i) = ((\<forall>i<64. P i) \<and> (\<forall>i<rest - 64. P (i + 64)))"
proof -
  have "P i" if "\<forall>i<64. P i" "\<forall>i<rest - 64. P (i + 64)" "i < rest" for i
    using that by (cases "i < 64") (auto dest: spec [of _ "i - 64"])
  moreover have "i + 64 < rest" if "i < rest - 64" for i using that by simp
  ultimately show ?thesis using assms by (meson less_le_trans)
qed

lemma div64_add: "(i + 64) div 64 = Suc (i div 64)" for i :: nat
  by simp

lemma full_words_all: "full_words ws k rest = (\<forall>i<rest. bit (ws ! (k + i div 64)) (i mod 64))"
proof (induction ws k rest rule: full_words.induct)
  case (1 ws k rest)
  show ?case
  proof (cases "64 \<le> rest")
    case True
    then show ?thesis unfolding all_split [OF True]
      using 1 by (simp add: full_words.simps [of ws k] BitsPerWord_def word_equal [of _ "- 1"] div64_add)
  next
    case False
    then have r: "i < rest \<Longrightarrow> i < 64" for i by simp
    then have "(ws ! k OR NOT (mask rest) = NOT 0) = (\<forall>i<rest. bit (ws ! k) i)"
      by (auto simp: word_equal [of "_ OR _"] bit_or_iff bit_not_iff bit_mask_iff)
    then show ?thesis using False by (auto simp: full_words.simps [of ws k] BitsPerWord_def)
  qed
qed

lemma empty_words_all: "empty_words ws k rest = (\<forall>i<rest. \<not> bit (ws ! (k + i div 64)) (i mod 64))"
proof (induction ws k rest rule: empty_words.induct)
  case (1 ws k rest)
  show ?case
  proof (cases "64 \<le> rest")
    case True
    then show ?thesis unfolding all_split [OF True]
      using 1 by (simp add: empty_words.simps [of ws k] BitsPerWord_def word_equal [of _ 0] div64_add)
  next
    case False
    then have r: "i < rest \<Longrightarrow> i < 64" for i by simp
    then have "(ws ! k AND mask rest = 0) = (\<forall>i<rest. \<not> bit (ws ! k) i)"
      by (auto simp: word_equal [of "_ AND _"] bit_and_iff bit_mask_iff)
    then show ?thesis using False by (auto simp: empty_words.simps [of ws k] BitsPerWord_def)
  qed
qed

lemma is_full_all: "is_full bm = (bm_bits bm = {..<bm_size bm})"
  by (auto simp: is_full_def full_words_all bm_bits_def test_def)

lemma is_empty_none: "is_empty bm = (bm_bits bm = {})"
  by (auto simp: is_empty_def empty_words_all bm_bits_def test_def)

section \<open>The count\<close>

lemma num_set_bits_card: "num_set_bits w = card {n. bit w n}"
proof (induction w rule: num_set_bits.induct)
  case (1 w)
  have fin: "finite {n. bit v n}" for v :: bm_word
    by (rule finite_subset [of _ "{..<64}"]) (auto dest: bit_below_64)
  have split: "{n. bit w n} = (if bit w 0 then {0} else {}) \<union> Suc ` {n. bit (drop_bit 1 w) n}"
  proof (intro set_eqI)
    fix n show "n \<in> {n. bit w n} \<longleftrightarrow> n \<in> (if bit w 0 then {0} else {}) \<union> Suc ` {n. bit (drop_bit 1 w) n}"
      by (cases n) (auto simp: bit_shift1)
  qed
  have "card {n. bit w n} = (if bit w 0 then 1 else 0) + card {n. bit (drop_bit 1 w) n}"
    unfolding split using fin [of "drop_bit 1 w"] by (simp add: card_image card_Un_disjoint)
  then show ?case
    using 1 num_set_bits.simps [of 0] by (cases "w = 0") (simp_all add: num_set_bits.simps [of w] del: One_nat_def)
qed

lemma table_entry: "c < 256 \<Longrightarrow> map (\<lambda>i. num_set_bits (word_of_nat i)) [0..<256] ! c = num_set_bits (word_of_nat c)"
  by simp

definition popcounts :: "nat list option" where
  "popcounts = Some (map (\<lambda>i. num_set_bits (word_of_nat i)) [0..<256])"

lemma count_step:
  "num_set_bits_from_table popcounts (unat (w AND 255)) = Inr (card {n. n < 8 \<and> bit w n})"
  for w :: bm_word
proof -
  have m: "(255 :: bm_word) = mask 8" by (simp add: mask_eq_exp_minus_1)
  have "unat (w AND 255) < 256" unfolding m using unat_and_mask_less [of w 8] by simp
  moreover have "{n. bit (w AND 255) n} = {n. n < 8 \<and> bit w n}"
    by (auto simp: m bit_and_iff bit_mask_iff dest: bit_below_64)
  ultimately show ?thesis
    by (simp add: num_set_bits_from_table_def popcounts_def table_entry num_set_bits_card)
qed


lemma card_below_add:
  "card {n. n < a + b \<and> P n} = card {n. n < a \<and> P n} + card {n. n < b \<and> P (a + n)}" for a b :: nat
proof -
  have "{n. n < a + b \<and> P n} = {n. n < a \<and> P n} \<union> (+) a ` {n. n < b \<and> P (a + n)}"
  proof (intro set_eqI)
    fix n show "n \<in> {n. n < a + b \<and> P n} \<longleftrightarrow> n \<in> {n. n < a \<and> P n} \<union> (+) a ` {n. n < b \<and> P (a + n)}"
      by (cases "n < a") (auto simp: image_iff intro!: exI [of _ "n - a"])
  qed
  moreover have "{n. n < a \<and> P n} \<inter> (+) a ` {n. n < b \<and> P (a + n)} = {}" by auto
  ultimately show ?thesis by (simp add: card_Un_disjoint card_image)
qed

lemma count_bytes_card: "count_bytes popcounts w acc = Inr (acc + card {n. n < 64 \<and> bit w n})"
proof -
  define step where "step = (\<lambda>(j :: nat) (acc, w). rbind (num_set_bits_from_table popcounts (unat (w AND 255)))
      (\<lambda>n. Inr (acc + n, drop_bit 8 w :: bm_word)))"
  have "rfold step [0..<k] (acc, w) = Inr (acc + card {n. n < 8 * k \<and> bit w n}, drop_bit (8 * k) w)" for k
  proof (induction k)
    case (Suc k)
    have "8 * Suc k = 8 * k + 8" by simp
    then have "card {n. n < 8 * Suc k \<and> bit w n} =
        card {n. n < 8 * k \<and> bit w n} + card {n. n < 8 \<and> bit (drop_bit (8 * k) w) n}"
      using card_below_add [of "8 * k" 8 "bit w"] by (simp add: bit_drop_bit_eq add.commute)
    then show ?case using Suc by (simp add: rfold_append step_def count_step add.commute)
  qed simp
  from this [of 8] show ?thesis by (simp add: count_bytes_def step_def)
qed

lemma count_all_words:
  assumes "bm_ok bm"
  shows "count_one_bits None None bm = Inr (card {i. i < 64 * length (bm_map bm) \<and> test bm i}, popcounts)"
proof -
  have "rfold (\<lambda>i acc. count_bytes popcounts (bm_map bm ! i) acc) [0..<k] 0 = Inr (card {i. i < 64 * k \<and> test bm i})" for k
  proof (induction k)
    case (Suc k)
    have "card {n. n < 64 \<and> test bm (64 * k + n)} = card {n. n < 64 \<and> bit (bm_map bm ! k) n}"
      by (rule arg_cong [where f = card]) (auto simp: test_word)
    then show ?case using Suc card_below_add [of "64 * k" 64 "test bm"]
      by (simp add: rfold_append count_bytes_card add.commute)
  qed simp
  then show ?thesis using assms
    by (simp add: count_one_bits_def init_pop_count_table_def popcounts_def [symmetric] size_in_words_ok)
qed

lemma count_is_card:
  assumes "bm_ok bm" and "tail_clean bm"
  shows "count_one_bits None None bm = Inr (card (bm_bits bm), popcounts)"
proof -
  have "{i. i < 64 * length (bm_map bm) \<and> test bm i} = bm_bits bm"
    using assms size_covered [OF assms(1)] by (auto simp: bm_bits_def tail_clean_def not_le [symmetric])
  then show ?thesis using count_all_words [OF assms(1)] by simp
qed


section \<open>Single bits, creation and growth\<close>

lemma at_put_writes:
  assumes "bm_ok bm" and "i < bm_size bm"
  shows "\<exists>bm'. at_put i v bm = Inr bm' \<and> writes v {i} bm bm'"
proof -
  define w where "w = (if v then bm_map bm ! (i div 64) OR bit_mask i else bm_map bm ! (i div 64) AND NOT (bit_mask i))"
  have "writes v {i} bm (bm\<lparr>bm_map := (bm_map bm)[i div 64 := w]\<rparr>)"
  proof (rule writes_word [OF ok_index [OF assms]])
    fix j assume j: "j div 64 = i div 64"
    have "(j mod 64 = i mod 64) = (j = i)" using j by (metis div_mult_mod_eq)
    moreover have "test bm j = bit (bm_map bm ! (i div 64)) (j mod 64)" by (simp only: test_def j)
    ultimately show "bit w (j mod 64) = (if j \<in> {i} then v else test bm j)"
      by (auto simp: w_def bit_or_iff bit_and_iff bit_not_iff bit_bit_mask)
  qed auto
  then show ?thesis using assms
    by (cases v) (simp_all add: at_put_def set_bit_bm_def clear_bit_def verify_index_def vassert_def idx w_def)
qed

lemma at_reads: "i < bm_size bm \<Longrightarrow> at i bm = Inr (i \<in> bm_bits bm)"
  by (simp add: at_def verify_index_def vassert_def word_and_bit_mask bm_bits_def test_def word_index_def BitsPerWord_def)

lemma out_of_bounds:
  assumes "bm_size bm \<le> i"
  shows "at i bm = Inl (Assert_Failed ''BitMap index out of bounds'')"
    and "at_put i v bm = Inl (Assert_Failed ''BitMap index out of bounds'')"
  using assms
  by (simp_all add: at_def at_put_def set_bit_bm_def clear_bit_def verify_index_def vassert_def)

lemma resize_keeps:
  assumes ok: "bm_ok bm" "tail_clean bm" and n: "bm_size bm \<le> n" "n + 63 < 2 ^ 64"
  shows "bm_ok (resize mem n True bm)" and "tail_clean (resize mem n True bm)"
    and "bm_bits (resize mem n True bm) = bm_bits bm" and "bm_size (resize mem n True bm) = n"
proof -
  define old new where "old = length (bm_map bm)" and "new = (n + 63) div 64"
  have on: "old \<le> new" unfolding old_def new_def using ok n by (simp add: bm_ok_def div_le_mono)
  have sz: "size_in_words bm = old" "size_in_words (bm\<lparr>bm_size := n\<rparr>) = new"
    using ok n by (simp_all add: size_in_words_ok old_def new_def) (simp add: size_in_words_def idx)
  define r where "r = resize mem n True bm"
  have r: "bm_map r = map (\<lambda>k. if k < old then bm_map bm ! k else 0) [0..<new]" "bm_size r = n"
    using on by (auto simp: r_def resize_def sz Let_def clear_range_of_words_def fold_update_const nth_append
        intro!: nth_equalityI)
  have t: "test r i = (i < 64 * old \<and> test bm i)" if "i < 64 * new" for i
    using that r by (simp add: test_def div_less_words)
  show "bm_ok (resize mem n True bm)" "bm_size (resize mem n True bm) = n"
    using r n by (simp_all add: bm_ok_def new_def r_def [symmetric])
  have cover: "n \<le> 64 * new" by (simp add: new_def)
  have tb: "(i < 64 * old \<and> test bm i) = (i \<in> bm_bits bm)" for i
    using ok(2) size_covered [OF ok(1)] by (auto simp: bm_bits_def tail_clean_def old_def not_le [symmetric])
  show "tail_clean (resize mem n True bm)"
    unfolding r_def [symmetric] using r t tb n(1) by (auto simp: tail_clean_def bm_bits_def)
  show "bm_bits (resize mem n True bm) = bm_bits bm"
    unfolding r_def [symmetric] using r t tb n(1) cover by (auto simp: bm_bits_def)
qed

lemma empty_ok: "bm_ok BitMap_empty" "tail_clean BitMap_empty" "bm_bits BitMap_empty = {}"
  by (simp_all add: bm_ok_def tail_clean_def bm_bits_def BitMap_empty_def)

lemma new_bitmap:
  assumes "n + 63 < 2 ^ 64"
  shows "bm_ok (BitMap mem n True)" "tail_clean (BitMap mem n True)" "bm_bits (BitMap mem n True) = {}"
    "bm_size (BitMap mem n True) = n"
  unfolding BitMap_def using resize_keeps [OF empty_ok(1,2) _ assms, of mem] empty_ok(3)
  by (simp_all add: BitMap_empty_def)

section \<open>The interface of a bounded set of naturals\<close>

locale bit_set =
  fixes ok :: "'m \<Rightarrow> bool"
    and elems :: "'m \<Rightarrow> nat set"
    and bound :: "'m \<Rightarrow> nat"
    and mem :: "nat \<Rightarrow> 'm \<Rightarrow> bool res"
    and put :: "nat \<Rightarrow> bool \<Rightarrow> 'm \<Rightarrow> 'm res"
  assumes mem: "\<lbrakk>ok m; i < bound m\<rbrakk> \<Longrightarrow> mem i m = Inr (i \<in> elems m)"
    and put: "\<lbrakk>ok m; i < bound m\<rbrakk> \<Longrightarrow>
        \<exists>m'. put i v m = Inr m' \<and> ok m' \<and> bound m' = bound m \<and>
             elems m' = (if v then insert i (elems m) else elems m - {i})"
    and outside: "\<lbrakk>ok m; bound m \<le> i\<rbrakk> \<Longrightarrow> \<exists>e. put i v m = Inl e \<and> mem i m = Inl e"
begin

lemma put_all:
  assumes "ok m" and "\<forall>(i, v) \<in> set ps. i < bound m"
  shows "\<exists>m'. rfold (\<lambda>(i, v). put i v) ps m = Inr m' \<and> ok m' \<and> bound m' = bound m \<and>
    (\<forall>i. i \<in> elems m' \<longleftrightarrow> (case map_of (rev ps) i of Some v \<Rightarrow> v | None \<Rightarrow> i \<in> elems m))"
  using assms
proof (induction ps arbitrary: m)
  case (Cons p ps)
  obtain i v where p: "p = (i, v)" by (cases p)
  obtain m1 where m1: "put i v m = Inr m1" "ok m1" "bound m1 = bound m"
      "elems m1 = (if v then insert i (elems m) else elems m - {i})"
    using put [of m i v] Cons(2,3) p by auto
  obtain m' where m': "rfold (\<lambda>(i, v). put i v) ps m1 = Inr m'" "ok m'" "bound m' = bound m1"
      "\<forall>i. i \<in> elems m' \<longleftrightarrow> (case map_of (rev ps) i of Some v \<Rightarrow> v | None \<Rightarrow> i \<in> elems m1)"
    using Cons(1) [OF m1(2)] Cons(3) m1(3) by auto
  show ?case
    using m1 m' by (simp add: p map_add_def split: option.splits) 
qed simp

text \<open>A set of slots of \<open>w\<close> bits: writing one bit changes that bit of that slot only.\<close>

lemma slot_put_get:
  assumes "ok m" and "k < w" "j < w" and "s * w + k < bound m" "t * w + j < bound m"
  shows "\<exists>m'. put (s * w + k) v m = Inr m' \<and> ok m' \<and> bound m' = bound m \<and>
    mem (t * w + j) m' = (if s = t \<and> k = j then Inr v else mem (t * w + j) m)"
proof -
  have "(s * w + k = t * w + j) = (s = t \<and> k = j)"
    using assms(2,3) by (metis div_mult_self3 add.commute div_less add_0 mod_less mod_mult_self3 not_less_zero)
  moreover obtain m' where "put (s * w + k) v m = Inr m'" "ok m'" "bound m' = bound m"
      "elems m' = (if v then insert (s * w + k) (elems m) else elems m - {s * w + k})"
    using put [OF assms(1,4)] by blast
  ultimately show ?thesis using assms mem by (auto split: if_splits)
qed

end

interpretation bs: bit_set bm_ok bm_bits bm_size at at_put
proof
  fix m i v
  assume ok: "bm_ok m"
  { assume i: "i < bm_size m"
    show "at i m = Inr (i \<in> bm_bits m)" using i by (rule at_reads)
    obtain m' where m': "at_put i v m = Inr m'" and w: "writes v {i} m m'" using at_put_writes [OF ok i] by blast
    have "bm_bits m' = (if v then insert i (bm_bits m) else bm_bits m - {i})"
      using w writes_set [of "{i}" m m'] writes_clear [of "{i}" m m'] ok i by (cases v) simp_all
    then show "\<exists>m'. at_put i v m = Inr m' \<and> bm_ok m' \<and> bm_size m' = bm_size m \<and>
             bm_bits m' = (if v then insert i (bm_bits m) else bm_bits m - {i})"
      using m' writes_ok [OF w ok] w by (simp add: writes_def) }
  { assume "bm_size m \<le> i"
    then show "\<exists>e. at_put i v m = Inl e \<and> at i m = Inl e" using out_of_bounds by blast }
qed


lemma put_get_2d:
  assumes "bm_ok (bm2_map b)" and "bm2_bits_per_slot b = w" and "k < w" "j < w"
    and "s * w + k < bm_size (bm2_map b)" "t * w + j < bm_size (bm2_map b)"
  shows "\<exists>b'. at_put_2d s k v b = Inr b' \<and> at_2d t j b' = (if s = t \<and> k = j then Inr v else at_2d t j b)"
proof -
  have lt: "bm_size (bm2_map b) < 2 ^ 64" using assms(1) unfolding bm_ok_def by linarith
  have ix: "(s * w + k) mod 2 ^ 64 = s * w + k" "(t * w + j) mod 2 ^ 64 = t * w + j"
    using assms(5,6) lt by (simp_all only: mod_less order_less_trans)
  obtain m' where "at_put (s * w + k) v (bm2_map b) = Inr m'"
      "at (t * w + j) m' = (if s = t \<and> k = j then Inr v else at (t * w + j) (bm2_map b))"
    using bs.slot_put_get [OF assms(1,3,4,5,6)] by blast
  then show ?thesis using assms
    by (simp add: at_put_2d_def at_2d_def verify_bit_within_slot_index_def vassert_def on_map_2d_def bit_index_2d_def ix
        del: power_numeral)
qed

lemma idx_minus_le:
  assumes "b \<le> a" and "a < 2 ^ 64"
  shows "idx_minus a b = a - b"
proof -
  have "a + 2 ^ 64 - b = (a - b) + 2 ^ 64" using assms(1) by simp
  moreover have "a - b < 2 ^ 64" using assms(2) by (rule le_less_trans [OF diff_le_self])
  ultimately show ?thesis by (simp only: idx_minus_def mod_add_self2 mod_less)
qed

lemma large_words:
  assumes "b \<le> e" and "e \<le> length m"
  shows "set_large_range_of_words b e m = set_range_of_words b e m"
    and "clear_large_range_of_words b e m = clear_range_of_words b e m"
  using fill_words_eq [OF assms]
  by (simp_all add: set_large_range_of_words_def set_range_of_words_def clear_large_range_of_words_def
      clear_range_of_words_def)

lemma large_range_eq:
  assumes "bm_ok bm" and "beg \<le> en" "en \<le> bm_size bm" and "(beg + 63) div 64 + 32 \<le> en div 64"
  shows "set_large_range beg en bm = set_range beg en bm" and "clear_large_range beg en bm = clear_range beg en bm"
proof -
  have B: "word_index_round_up bm beg = (beg + 63) div 64" "word_index en = en div 64"
    using assms(1-3) by (simp_all add: word_index_round_up_def idx bm_ok_def)
  have span: "idx_minus (en div 64) ((beg + 63) div 64) = en div 64 - (beg + 63) div 64"
  proof (rule idx_minus_le)
    show "(beg + 63) div 64 \<le> en div 64" using assms(4) by simp
    have "en div 64 \<le> bm_size bm" using assms(3) by (meson div_le_dividend le_trans)
    then show "en div 64 < 2 ^ 64" using assms(1) unfolding bm_ok_def by linarith
  qed
  have len: "en div 64 \<le> length (bm_map bm)" using assms(1,3) by (auto simp: bm_ok_def intro!: div_le_mono)
  have w: "length (bm_map bm1) = length (bm_map bm)"
    if "set_range_within_word b e bm = Inr bm1 \<or> clear_range_within_word b e bm = Inr bm1" for b e bm1
    using that by (auto simp: set_range_within_word_def clear_range_within_word_def rbind_def split: if_splits sum.splits)
  define B E where "B = (beg + 63) div 64" and "E = en div 64"
  have BE: "32 \<le> E - B" "B < E" "B \<le> E" "E \<le> length (bm_map bm)" using assms(4) len by (simp_all add: B_def E_def)
  note B' = B(1) [folded B_def] B(2) [folded E_def] span [folded B_def E_def]
  have "rbind (set_range_within_word beg (bit_index B) bm)
      (\<lambda>bm1. k (bm1\<lparr>bm_map := set_large_range_of_words B E (bm_map bm1)\<rparr>)) =
    rbind (set_range_within_word beg (bit_index B) bm) (\<lambda>bm1. k (bm1\<lparr>bm_map := set_range_of_words B E (bm_map bm1)\<rparr>))"
    "rbind (clear_range_within_word beg (bit_index B) bm)
      (\<lambda>bm1. k (bm1\<lparr>bm_map := clear_large_range_of_words B E (bm_map bm1)\<rparr>)) =
    rbind (clear_range_within_word beg (bit_index B) bm) (\<lambda>bm1. k (bm1\<lparr>bm_map := clear_range_of_words B E (bm_map bm1)\<rparr>))"
    for k :: "bitmap \<Rightarrow> bitmap res"
    using BE w [of beg "bit_index B"]
    by (cases "set_range_within_word beg (bit_index B) bm", simp_all add: large_words)
      (cases "clear_range_within_word beg (bit_index B) bm", simp_all add: large_words)+
  then show "set_large_range beg en bm = set_range beg en bm" "clear_large_range beg en bm = clear_range beg en bm"
    using BE by (simp_all only: set_large_range_def set_range_def clear_large_range_def clear_range_def B' Let_def
        vassert_def if_True)
qed

section \<open>Properties\<close>

text \<open>C33. The range updates refine set operations: setting or clearing \<open>[beg, end)\<close>, with any hint,
  returns a well-formed map of the same size that represents the union with the range or the
  difference from it.  The hint for large ranges requires 32 whole words in the range.
\<close>

theorem range_update_refines:
  assumes "bm_ok bm" and "beg \<le> en" and "en \<le> bm_size bm"
    and "hint = Large_Range \<longrightarrow> (beg + 63) div 64 + 32 \<le> en div 64"
  shows "(\<exists>bm'. set_range_hint beg en hint bm = Inr bm' \<and> bm_ok bm' \<and> bm_size bm' = bm_size bm \<and>
              bm_bits bm' = bm_bits bm \<union> {beg..<en}) \<and>
         (\<exists>bm'. clear_range_hint beg en hint bm = Inr bm' \<and> bm_ok bm' \<and> bm_size bm' = bm_size bm \<and>
              bm_bits bm' = bm_bits bm - {beg..<en})"
proof -
  have en: "en < 2 ^ 64" using assms(1,3) unfolding bm_ok_def by linarith
  have one: "en = beg + 1" if "idx_minus en beg = 1"
    using that idx_minus_le [OF assms(2) en] assms(2) by simp
  have eqs: "set_range_hint beg en hint bm = at_put_range beg en True bm \<or>
      (en = beg + 1 \<and> set_range_hint beg en hint bm = at_put beg True bm)"
      "clear_range_hint beg en hint bm = at_put_range beg en False bm \<or>
      (en = beg + 1 \<and> clear_range_hint beg en hint bm = at_put beg False bm)"
    using one large_range_eq [OF assms(1-3)] assms(4)
    by (auto simp: set_range_hint_def clear_range_hint_def at_put_range_def at_put_def)
  have "\<exists>bm'. set_range_hint beg en hint bm = Inr bm' \<and> writes True {beg..<en} bm bm'"
    using eqs(1) at_put_range_writes(1) [OF assms(1-3), of True] at_put_writes [OF assms(1), of beg True] assms(3)
    by (auto simp: atLeastLessThanSuc)
  moreover have "\<exists>bm'. clear_range_hint beg en hint bm = Inr bm' \<and> writes False {beg..<en} bm bm'"
    using eqs(2) at_put_range_writes(1) [OF assms(1-3), of False] at_put_writes [OF assms(1), of beg False] assms(3)
    by (auto simp: atLeastLessThanSuc)
  moreover have "{beg..<en} \<subseteq> {..<bm_size bm}" using assms(3) by auto
  ultimately show ?thesis
    using writes_ok [OF _ assms(1)] writes_set [OF _ assms(1)] writes_clear [OF _ assms(1)]
    by (metis writes_def)
qed

theorem range_update_refines_witness:
  "\<exists>bm'. set_range_hint 10 80 Unknown_Range \<lparr>bm_map = [0, 0], bm_size = 100\<rparr> = Inr bm' \<and>
     bm_bits bm' = bm_bits \<lparr>bm_map = [0, 0], bm_size = 100\<rparr> \<union> {10..<80}"
  using range_update_refines [of "\<lparr>bm_map = [0, 0], bm_size = 100\<rparr>" 10 80 Unknown_Range]
  by (auto simp: bm_ok_def)

text \<open>C34. The searches return the first index at or after \<open>l\<close> and below \<open>r\<close> whose bit is one, or
  zero, and \<open>r\<close> when there is none.  The search for a one bit always returns, and its assertion
  holds, when no bit above the size is set.
\<close>

theorem search_first:
  assumes "bm_ok bm" and "tail_clean bm" and "l \<le> r" and "r \<le> bm_size bm"
  shows "\<exists>x y. get_next_one_offset l r bm = Inr (Some x) \<and> get_next_zero_offset l r bm = Inr y \<and>
    is_first (\<lambda>i. i \<in> bm_bits bm) l r x \<and> is_first (\<lambda>i. i \<notin> bm_bits bm) l r y"
proof -
  have "is_first (\<lambda>i. i \<in> bm_bits bm) l r x = is_first (test bm) l r x"
    "is_first (\<lambda>i. i \<notin> bm_bits bm) l r x = is_first (\<lambda>i. \<not> test bm i) l r x" for x
    using assms(4) by (auto simp: is_first_def bm_bits_def)
  then show ?thesis using next_one_first [OF assms] next_zero_first [OF assms(3,4)] by blast
qed

theorem search_first_witness:
  "\<exists>x. get_next_one_offset 1 70 \<lparr>bm_map = [1, 2], bm_size = 128\<rparr> = Inr (Some x) \<and>
     is_first (\<lambda>i. i \<in> bm_bits \<lparr>bm_map = [1, 2], bm_size = 128\<rparr>) 1 70 x"
proof -
  have "tail_clean \<lparr>bm_map = [1, 2], bm_size = 128\<rparr>" by (auto simp: tail_clean_def)
  then show ?thesis
    using search_first [of "\<lparr>bm_map = [1, 2], bm_size = 128\<rparr>" 1 70] by (auto simp: bm_ok_def)
qed

text \<open>An iteration over \<open>[l, r)\<close> with a closure that leaves the map alone calls it on exactly the
  one bits of the range, in ascending order, and stops at the first call that returns false.
\<close>

theorem iterate_visits:
  assumes "bm_ok (bm_of s)" and "l \<le> r" and "r \<le> bm_size (bm_of s)"
    and "\<And>i s. bm_of (snd (do_bit i s)) = bm_of s"
  shows "iterate bm_of do_bit l r s = Inr (visit do_bit (filter (\<lambda>i. i \<in> bm_bits (bm_of s)) [l..<r]) s)"
proof -
  have "filter (\<lambda>i. i \<in> bm_bits (bm_of s)) [l..<r] = filter (test (bm_of s)) [l..<r]"
    using assms(3) by (intro filter_cong) (auto simp: bm_bits_def)
  then show ?thesis using iterate_visits_bits [where bm_of = bm_of and do_bit = do_bit, OF assms] by simp
qed

theorem iterate_visits_witness:
  "iterate fst (\<lambda>i (b, seen). (True, b, seen @ [i])) 1 70 (\<lparr>bm_map = [5, 2], bm_size = 70\<rparr>, []) =
   Inr (True, \<lparr>bm_map = [5, 2], bm_size = 70\<rparr>,
        filter (\<lambda>i. i \<in> bm_bits \<lparr>bm_map = [5, 2], bm_size = 70\<rparr>) [1..<70])"
proof -
  have log: "visit (\<lambda>i (b, seen). (True, b, seen @ [i])) xs (b, ys) = (True, b, ys @ xs)" for xs ys and b :: bitmap
    by (induction xs arbitrary: ys) simp_all
  show ?thesis
    using iterate_visits [where bm_of = fst and do_bit = "\<lambda>i (b, seen). (True, b, seen @ [i])"
        and s = "(\<lparr>bm_map = [5, 2], bm_size = 70\<rparr>, [])" and l = 1 and r = 70]
    by (simp add: bm_ok_def log split_beta)
qed

text \<open>C35. Setting or clearing a bit by compare-and-exchange returns for every finite interference of
  other threads on the word, and takes effect atomically: after some number of the others'
  steps it writes the bit into the word as they left it, so no update is lost, and it returns
  whether the bit changed at that instant.
\<close>

theorem par_put_atomic:
  assumes "b < bm_size bm"
  shows "\<exists>k \<le> length others. \<exists>v. v = fold (\<lambda>f. f) (take k others) (bm_map bm ! word_index b) \<and>
    par_at_put others b val bm =
      Inr (bit v (bit_in_word b) \<noteq> val,
           bm\<lparr>bm_map := (bm_map bm)[word_index b := if val then v OR bit_mask b else v AND NOT (bit_mask b)]\<rparr>)"
proof -
  define upd where "upd = (\<lambda>v. if val then v OR bit_mask b else v AND NOT (bit_mask b))"
  have upd: "(upd v \<noteq> v) = (bit v (b mod 64) \<noteq> val)" for v
    by (cases val) (auto simp: upd_def bit_eq_iff [of "_ OR _"] bit_eq_iff [of "_ AND _"] bit_or_iff bit_and_iff
        bit_not_iff bit_bit_mask intro: exI [of _ "b mod 64"])
  obtain k where k: "k \<le> length others"
      "par_update_loop upd others (bm_map bm ! word_index b) (bm_map bm ! word_index b) =
       (upd (fold (\<lambda>f. f) (take k others) (bm_map bm ! word_index b)) \<noteq>
          fold (\<lambda>f. f) (take k others) (bm_map bm ! word_index b),
        upd (fold (\<lambda>f. f) (take k others) (bm_map bm ! word_index b)))"
    using par_update_linear [of others "bm_map bm ! word_index b" upd] by (auto simp: Let_def)
  have "par_at_put others b val bm =
      (case par_update_loop upd others (bm_map bm ! word_index b) (bm_map bm ! word_index b) of
         (r, w') \<Rightarrow> Inr (r, bm\<lparr>bm_map := (bm_map bm)[word_index b := w']\<rparr>))"
    using assms by (cases val)
      (simp_all add: par_at_put_def par_set_bit_def par_clear_bit_def verify_index_def vassert_def upd_def Let_def)
  moreover note k(2) [unfolded upd]
  moreover have "upd v = (if val then v OR bit_mask b else v AND NOT (bit_mask b))" for v by (simp add: upd_def)
  ultimately show ?thesis using k(1)
    by (intro exI [of _ k] conjI exI) (simp_all add: bit_in_word_def BitsPerWord_def)
qed

theorem par_put_atomic_witness:
  "\<exists>v. par_at_put [\<lambda>w. w OR 2] 0 True \<lparr>bm_map = [0], bm_size = 8\<rparr> =
      Inr (bit v (bit_in_word 0) \<noteq> True, \<lparr>bm_map = [v OR bit_mask 0], bm_size = 8\<rparr>)"
  using par_put_atomic [of 0 "\<lparr>bm_map = [0], bm_size = 8\<rparr>" "[\<lambda>w. w OR 2]" True] by (auto simp: word_index_def)


text \<open>C36. Putting a bit with growth: the map grows to twice the larger of its size and the index and
  represents the set with the bit added or removed, except on the empty map at index 0, which
  is "grown" to twice zero bits, so that the write fails its bounds assertion.
\<close>

theorem at_put_grow_spec:
  assumes "bm_ok bm" and "tail_clean bm" and "2 * max (bm_size bm) offset + 63 < 2 ^ 64"
  shows "if bm_size bm = 0 \<and> offset = 0
    then at_put_grow mem offset v bm = Inl (Assert_Failed ''BitMap index out of bounds'')
    else \<exists>bm'. at_put_grow mem offset v bm = Inr bm' \<and> bm_ok bm' \<and> tail_clean bm' \<and> offset < bm_size bm' \<and>
           bm_bits bm' = (if v then insert offset (bm_bits bm) else bm_bits bm - {offset})"
proof -
  define n where "n = 2 * max (bm_size bm) offset"
  have n: "bm_size bm \<le> n" "n + 63 < 2 ^ 64" using assms(3) by (simp_all add: n_def)
  have "n < 2 ^ 64" using n(2) by linarith
  then have n_mod: "n mod 2 ^ 64 = n" by (rule mod_less)
  define g where "g = (if bm_size bm \<le> offset then resize mem n True bm else bm)"
  have put: "at_put_grow mem offset v bm = at_put offset v g"
    unfolding at_put_grow_def g_def n_def [symmetric] n_mod ..
  have g: "bm_ok g" "tail_clean g" "bm_bits g = bm_bits bm"
    using resize_keeps [OF assms(1,2) n(1,2)] assms(1,2) by (simp_all add: g_def)
  show ?thesis
  proof (cases "bm_size bm = 0 \<and> offset = 0")
    case True
    then have "bm_size g \<le> offset"
      using resize_keeps(4) [OF assms(1,2) n(1,2)] by (simp add: g_def n_def)
    then show ?thesis using True put out_of_bounds(2) by simp
  next
    case False
    then have lt: "offset < bm_size g"
      using resize_keeps(4) [OF assms(1,2) n(1,2)] by (auto simp: g_def n_def)
    obtain bm' where bm': "at_put offset v g = Inr bm'" "writes v {offset} g bm'"
      using at_put_writes [OF g(1) lt] by blast
    have "bm_bits bm' = (if v then insert offset (bm_bits bm) else bm_bits bm - {offset})"
      using bm'(2) writes_set [of "{offset}" g bm'] writes_clear [of "{offset}" g bm'] g lt by (cases v) simp_all
    moreover have "tail_clean bm'" using writes_tail [OF bm'(2) g(2)] lt by simp
    moreover have "bm_size bm' = bm_size g" using bm'(2) by (simp add: writes_def)
    ultimately show ?thesis using False put bm' writes_ok [OF bm'(2) g(1)] lt by auto
  qed
qed

theorem at_put_grow_spec_witness:
  "(\<exists>bm'. at_put_grow \<lparr>fresh = \<lambda>_. 9, freed = \<lambda>_. 9\<rparr> 7 True BitMap_empty = Inr bm' \<and> bm_bits bm' = {7}) \<and>
   at_put_grow \<lparr>fresh = \<lambda>_. 9, freed = \<lambda>_. 9\<rparr> 0 True BitMap_empty =
     Inl (Assert_Failed ''BitMap index out of bounds'')"
  using at_put_grow_spec [OF empty_ok(1,2), of 7 "\<lparr>fresh = \<lambda>_. 9, freed = \<lambda>_. 9\<rparr>" True]
    at_put_grow_spec [OF empty_ok(1,2), of 0 "\<lparr>fresh = \<lambda>_. 9, freed = \<lambda>_. 9\<rparr>" True] empty_ok(3)
  by (auto simp: BitMap_empty_def)

text \<open>On maps of one size with no bits above it, \<^verbatim>\<open>contains\<close>, \<^verbatim>\<open>intersects\<close> and \<^verbatim>\<open>is_same\<close>
  decide inclusion, overlap and equality of the represented sets, \<^verbatim>\<open>is_full\<close> and
  \<^verbatim>\<open>is_empty\<close> decide the two extremes, and \<^verbatim>\<open>count_one_bits\<close> is the cardinality.
\<close>

theorem comparisons_decide:
  assumes "bm_ok a" and "bm_ok b" and "bm_size a = bm_size b" and "tail_clean a" and "tail_clean b"
  shows "contains b a = Inr (bm_bits b \<subseteq> bm_bits a) \<and>
    intersects b a = Inr (bm_bits b \<inter> bm_bits a \<noteq> {}) \<and>
    is_same b a = Inr (bm_bits b = bm_bits a) \<and>
    is_full a = (bm_bits a = {..<bm_size a}) \<and> is_empty a = (bm_bits a = {}) \<and>
    (\<exists>table. count_one_bits None None a = Inr (card (bm_bits a), table))"
  using comparisons [OF assms] count_is_card [OF assms(1,4)] is_full_all is_empty_none by blast

theorem comparisons_decide_witness:
  "contains \<lparr>bm_map = [1], bm_size = 64\<rparr> \<lparr>bm_map = [3], bm_size = 64\<rparr> =
   Inr (bm_bits \<lparr>bm_map = [1], bm_size = 64\<rparr> \<subseteq> bm_bits \<lparr>bm_map = [3], bm_size = 64\<rparr>)"
proof -
  have "tail_clean \<lparr>bm_map = [w], bm_size = 64\<rparr>" for w by (auto simp: tail_clean_def)
  then show ?thesis
    using comparisons_decide [of "\<lparr>bm_map = [3], bm_size = 64\<rparr>" "\<lparr>bm_map = [1], bm_size = 64\<rparr>"]
    by (simp add: bm_ok_def)
qed

end
