(* ===== verification/Spec2Isabelle.thy ===== *)
theory Spec2Isabelle
  imports Gen_Management Bit_Map_Algebra
begin

text \<open>
  Verification of ROLP, the object lifetime profiler built on NG2C, which adds dynamic
  generations to the G1 collector of the HotSpot Java virtual machine.  Paths below are relative to
  src/src/share/vm.

  \<^bold>\<open>The program.\<close>  Compiled code calls the allocation entry points of \<^verbatim>\<open>CollectedHeap\<close> with the
  identifier of the allocation site.  The site and the context of the thread (a hash of its call
  stack) select a counter of the site's \<^verbatim>\<open>NGenerationArray\<close>; the counter is incremented, the generation it
  names is where the object goes, and site and context are stored as a tag in the object's header word.
  When G1 copies a survivor it reads the tag and counts the survival in the worker's \<^verbatim>\<open>PromotionCounters\<close>
  table.  From time to time the VM operation \<^verbatim>\<open>NG2C_MergeAllocCounters\<close> merges the workers' tables into the global one,
  analyses each counter and changes target generations.  The tables are stock VM hash tables, hashed by
  murmur3; allocation sites are read from the file a static analysis writes.  Memory comes from
  thread-local buffers, one per thread and generation, which are carved from allocation regions,
  which take regions from the free lists of the heap.

  \<^bold>\<open>The profiler.\<close>
  \<^item> Rolp\_Prelude: results with errors, machine words, generic lemmas.  A failed \<^verbatim>\<open>assert\<close> or \<^verbatim>\<open>guarantee\<close>, a null
    dereference, a division by zero, an undefined shift and an exhausted buffer are values of \<open>vm_error\<close>; a property that
    an operation returns \<open>Inr\<close> shows that none of these happens.
  \<^item> Alt\_Hashing (classfile/altHashing): \<open>murmur3_32\<close> in its three overloads, which agree.
  \<^item> Hash\_Table (utilities/hashtable): \<^verbatim>\<open>BasicHashtable\<close> with buckets, block allocation and free list.  The locale
    \<open>keyed_table\<close> is the contract of a table for its clients; its interpretation \<open>ht\<close> is on
    the operations of the model.
  \<^item> Gen\_Arrays, Profiler\_Tables (ng2c/ng2c\_globals, method\_bci\_hashtable, promotion\_counter): the counters and
    the tables that hold them.
  \<^item> C\_Strings, Static\_Analysis (ng2c/ng2c\_static\_analysis): the reader of the site file.
  \<^item> Thread\_Context (runtime/thread): the context of a thread from its stack, with the two cases in which
    the walk of the stack is given up, and its incremental update.
  \<^item> Float32, Merge\_Counters, Merge\_Invariant (ng2c/vm\_operations\_ng2c, survivor counting in g1CollectedHeap.cpp): the
    merge operation with its single precision arithmetic.  It conserves counts and keeps the invariant of the
    tables; its decision is specified on the exact quotients of the counts, with a bound for what rounding adds.
  \<^item> Mark\_Word (oops/markOop): the header word as a 64-bit word.  The locale \<open>mark_field\<close> states the laws of a
    bit field and is interpreted for age, epoch, hash and profile tag.

  \<^bold>\<open>The heap.\<close>
  \<^item> Bit\_Map, Bit\_Map\_Set, Bit\_Map\_Search, Bit\_Map\_Algebra (utilities/bitMap): bit maps refine sets of
    indices; locales \<open>range_writer\<close> and \<open>bit_set\<close>.
  \<^item> Heap\_Region (g1/heapRegion, memory/space): a region and its operations; a step relation for its life, and
    competing allocations in a region.
  \<^item> Region\_Set (g1/heapRegionSet, heapRegionSets): region sets and linked lists over a store of regions.
  \<^item> Alloc\_Region, Alloc\_Progress, Alloc\_Kinds (g1/g1AllocRegion, g1CollectedHeap): the hand-out of regions.  The
    locale \<open>region_provider\<close> is what an allocation region asks of its two virtual functions; it is
    interpreted for the mutator, survivor, old and dynamic generation regions.
  \<^item> Biased\_Array, Region\_Seq (g1/g1BiasedArray, heapRegionSeq): the table of regions by index and address, and
    its growth and shrinking.
  \<^item> Weighted\_Average (gc\_implementation/shared/gcUtil): decaying averages.

  \<^bold>\<open>Allocation.\<close>
  \<^item> Object\_Layout (oops/arrayOop, oop; gc\_interface/collectedHeap): headers, sizes and filler objects.
  \<^item> Tlab (memory/threadLocalAllocBuffer, runtime/thread): the buffers of a thread.
  \<^item> Humongous (g1CollectedHeap): objects larger than half a region, and the expansion of the heap.
  \<^item> Vm\_Alloc (g1CollectedHeap, gc\_interface/collectedHeap): all allocation paths from \<^verbatim>\<open>obj_allocate\<close> down.
  \<^item> Vm\_Invariant, Thread\_Buffers, Object\_Alloc, Object\_Entry: the invariant of the heap between allocations, the
    invariant of the buffers of all threads (disjoint, parsable, counted in their regions), and the proof that the
    entry points return a tagged object of the right generation and keep both.
  \<^item> Parsable\_Heap (gc\_interface/collectedHeap): retiring all buffers before a collection.
  \<^item> Gen\_Management (g1CollectedHeap, vm\_operations\_g1, shared/vmGCOperations, prims/jvm): the array of generations,
    the release and set-up of their regions around a collection, and the VM operation that starts a new epoch.

  \<^bold>\<open>Concurrency.\<close>  Competing threads appear as explicit sequences: the blocks other threads allocate before
  each compare-and-swap, and the effects of other threads while a lock is free.  Theorems quantify over
  all of them.  Locks are flags that the assertions of the source read.

  \<^bold>\<open>Bounds and fuel.\<close>  Structural recursion and termination proofs cover all loops but the compare-and-swap
  and retry loops.  These recurse over the sequence of interferences, one element per
  iteration, and give \<open>Diverged\<close> when it runs out; the theorems about them show that they return for every sequence
  that is long enough, or give the result for all sequences.

  \<^bold>\<open>Not modelled.\<close>  The compilers, the interpreter and the assemblers generate or interpret machine code.
  Marking, evacuation and remembered sets follow references between objects; the memory of the model
  has object headers and no fields.  Collections and their policy are inputs of the allocation paths.
  Class loading, compiled code management, native interfaces, services and the other collectors are stock code that
  the profiler does not touch.  Printing, tracing and performance counters have no effect on
  the state; log lines that read target generations under assertions are modelled.  Deferred card marks, the
  zeroing of new objects and the filler in a region that is filled up before it is retired write fields and cards
  the model does not have.  The sizes that \<^verbatim>\<open>bot_update_all\<close> reads off the objects of a region are a parameter.

  \<^bold>\<open>Build flags.\<close>  \<^verbatim>\<open>NG2C_PROF\<close> is on.  \<^verbatim>\<open>NG2C_PROF_ALLOC\<close>, \<^verbatim>\<open>NG2C_PROF_CONTEXT\<close>, the debug flags of the merge operation
  and \<^verbatim>\<open>DISABLE_NG2C_PROF_BOT_UPDATES\<close> are fields of the configurations, and the theorems hold for each of their values.
\<close>

end
